(* ===== verification/DLQ_Prelude.thy ===== *)
theory DLQ_Prelude
  imports Complex_Main "HOL-Library.Sublist" "HOL-Library.Multiset"
begin

text \<open>
  Shared vocabulary of the development: the named collections the component theories
  feed and use, and the generic lemmas on lists and association lists that more than one
  component needs. A Go map is an association list here: it is finite, it can be
  iterated, and a lookup is \<^const>\<open>map_of\<close>; what depends on Go's unspecified
  iteration order is stated for every order of the list.
\<close>

named_theorems call_simps \<open>how one broker or store call changes the world\<close>
named_theorems guard_simps \<open>the outcome of one guard of an operation\<close>
named_theorems text_simps \<open>evaluation of the Go string functions\<close>

section \<open>Errors of the standard library and of the tool\<close>

type_synonym ('e, 'a) result = "'e + 'a"

abbreviation Err :: "'e \<Rightarrow> ('e, 'a) result" where
  "Err \<equiv> Inl"

abbreviation Ok :: "'a \<Rightarrow> ('e, 'a) result" where
  "Ok \<equiv> Inr"

section \<open>Generic facts\<close>

lemma distinct_filter_map_fst:
  "distinct (map f xs) \<Longrightarrow> distinct (map f (filter P xs))"
  by (induction xs) auto

lemma length_filter_split:
  "length (filter P xs) + length (filter (\<lambda>x. \<not> P x) xs) = length xs"
  by (induction xs) auto

lemma filter_snoc: "filter P (xs @ [x]) = filter P xs @ (if P x then [x] else [])"
  by simp

lemma prefix_append_iff: "prefix xs ys \<longleftrightarrow> (\<exists>zs. ys = xs @ zs)"
  by (auto simp: prefix_def)

lemma map_of_eq_cong:
  assumes "map_of xs = map_of ys"
  shows "fst ` set xs = fst ` set ys"
  using assms by (metis dom_map_of_conv_image_fst)

end
