(* ===== verification/Go_Time.thy ===== *)
theory Go_Time
  imports Go_Strings
begin

text \<open>
  Go's \<^verbatim>\<open>time.Time\<close> as the number of nanoseconds since the zero time (1 January of
  year 1, UTC), so that \<open>IsZero\<close> is \<open>t = 0\<close> and \<open>Before\<close>/\<open>After\<close> are the orders of
  \<^typ>\<open>int\<close>; the location is always UTC. The two layouts the program formats with are
  rendered for years 0 to 9999.
\<close>

type_synonym gotime = int

definition IsZero :: "gotime \<Rightarrow> bool" where
  "IsZero t = (t = 0)"

definition Before :: "gotime \<Rightarrow> gotime \<Rightarrow> bool" where
  "Before t u = (t < u)"

definition After :: "gotime \<Rightarrow> gotime \<Rightarrow> bool" where
  "After t u = (u < t)"

definition second :: int where "second = 1000000000"

text \<open>The civil date of a day number (day 0 is 1 January of year 1).\<close>

definition civil :: "int \<Rightarrow> int \<times> int \<times> int" where
  "civil days =
     (let z = days + 306;
          era = z div 146097;
          doe = z mod 146097;
          yoe = (doe - doe div 1460 + doe div 36524 - doe div 146096) div 365;
          doy = doe - (365 * yoe + yoe div 4 - yoe div 100);
          mp = (5 * doy + 2) div 153;
          d = doy - (153 * mp + 2) div 5 + 1;
          m = (if mp < 10 then mp + 3 else mp - 9);
          y = yoe + era * 400 + (if m \<le> 2 then 1 else 0)
      in (y, m, d))"

definition pad2 :: "int \<Rightarrow> string" where
  "pad2 n = [digit_char (nat (n div 10 mod 10)), digit_char (nat (n mod 10))]"

definition pad4 :: "int \<Rightarrow> string" where
  "pad4 n = pad2 (n div 100) @ pad2 (n mod 100)"

text \<open>The layout \<open>2006-01-02T15:04:05Z\<close>; RFC3339 renders a UTC time the same way.\<close>

definition FormatUTC :: "gotime \<Rightarrow> string" where
  "FormatUTC t =
     (let secs = t div second; days = secs div 86400; s = secs mod 86400;
          (y, m, d) = civil days
      in pad4 y @ ''-'' @ pad2 m @ ''-'' @ pad2 d @ ''T'' @
         pad2 (s div 3600) @ '':'' @ pad2 (s div 60 mod 60) @ '':'' @ pad2 (s mod 60) @ ''Z'')"

definition nano_digits :: "int \<Rightarrow> string" where
  "nano_digits n = pad2 (n div 10000000) @ pad2 (n div 100000 mod 100) @
     pad2 (n div 1000 mod 100) @ pad2 (n div 10 mod 100) @ [digit_char (nat (n mod 10))]"

text \<open>RFC3339 with nanoseconds: trailing zeros of the fraction are dropped.\<close>

definition FormatNanoUTC :: "gotime \<Rightarrow> string" where
  "FormatNanoUTC t =
     (let n = t mod second;
          frac = rev (dropWhile (\<lambda>c. c = CHR ''0'') (rev (nano_digits n)));
          base = FormatUTC t
      in if frac = [] then base
         else take (length base - 1) base @ ''.'' @ frac @ ''Z'')"

end
