(* ===== verification/Message_Model.thy ===== *)
theory Message_Model
  imports Go_Time
begin

text \<open>
  The normalized message of \<^verbatim>\<open>internal/message/message.go\<close>, the only thing the
  recovery engine sees of a broker, and header lookup with Go's zero value for a missing
  key.
\<close>

type_synonym headers = "(string \<times> string) list"

record message =
  mID :: string
  mQueue :: string
  mDestination :: string
  mPayload :: string
  mHeaders :: headers
  mContentType :: string
  mTimestamp :: gotime
  mRetryCount :: int
  mFailureReason :: string
  mEventID :: string
  mIdempotencyKey :: string

text \<open>\<open>m.Headers[k]\<close>: the empty string when the key is missing.\<close>

definition hget :: "headers \<Rightarrow> string \<Rightarrow> string" where
  "hget hs k = (case map_of hs k of None \<Rightarrow> [] | Some v \<Rightarrow> v)"

text \<open>\<open>m.Headers[k] = v\<close>.\<close>

definition hset :: "string \<Rightarrow> string \<Rightarrow> headers \<Rightarrow> headers" where
  "hset k v hs = (k, v) # filter (\<lambda>p. fst p \<noteq> k) hs"

lemma hget_hset [simp]: "hget (hset k v hs) j = (if j = k then v else hget hs j)"
proof -
  have "map_of (filter (\<lambda>p. fst p \<noteq> k) hs) j = (if j = k then None else map_of hs j)"
    by (induction hs) auto
  then show ?thesis by (simp add: hset_def hget_def)
qed

text \<open>The first non-empty header among a list of names.\<close>

fun first_header :: "headers \<Rightarrow> string list \<Rightarrow> string" where
  "first_header hs [] = []"
| "first_header hs (k # ks) = (if hget hs k \<noteq> [] then hget hs k else first_header hs ks)"

definition event_type_keys :: "string list" where
  "event_type_keys = [''x-event-type'', ''event_type'', ''event-type'', ''ce-type'']"

lemma hget_Nil [simp]: "hget [] k = []"
  by (simp add: hget_def)

lemma hget_Cons [simp]: "hget ((k, v) # hs) j = (if j = k then v else hget hs j)"
  by (simp add: hget_def)

lemma hget_cong: "map_of hs = map_of hs' \<Longrightarrow> hget hs k = hget hs' k"
  by (simp add: hget_def)

lemma first_header_cong: "map_of hs = map_of hs' \<Longrightarrow> first_header hs ks = first_header hs' ks"
  by (induction ks) (auto simp: hget_def)

definition empty_message :: message where
  "empty_message = \<lparr>mID = [], mQueue = [], mDestination = [], mPayload = [], mHeaders = [],
     mContentType = [], mTimestamp = 0, mRetryCount = 0, mFailureReason = [], mEventID = [],
     mIdempotencyKey = []\<rparr>"

end
