(* ===== verification/Go_Errors.thy ===== *)
theory Go_Errors
  imports Go_Strings
begin

text \<open>
  Go error values: a sentinel the program compares with \<open>errors.Is\<close>, a plain text, or a
  value that wraps another one (\<open>fmt.Errorf\<close> with \<open>%w\<close>). \<open>errors_is\<close> walks the wrap
  chain as \<open>errors.Is\<close> does; \<open>error_text\<close> is the \<open>Error()\<close> string.
\<close>

datatype sentinel =
    ErrQueueNotFound        \<comment> \<open>broker.ErrQueueNotFound\<close>
  | ErrConfirmRequired      \<comment> \<open>safety.ErrConfirmRequired, recovery.ErrConfirmRequired\<close>
  | ErrReplayDestination    \<comment> \<open>safety.ErrDestinationMissing\<close>
  | ErrDestinationMissing   \<comment> \<open>recovery.ErrDestinationMissing\<close>
  | ErrNoSafetyChecks       \<comment> \<open>recovery.ErrNoSafetyChecks\<close>
  | ErrResumeRequired       \<comment> \<open>recovery.ErrResumeRequired\<close>
  | ErrNotConnected         \<comment> \<open>the adapters' ErrNotConnected\<close>

datatype goerr =
    Sentinel sentinel
  | Text string
  | Wrap string goerr string   \<comment> \<open>prefix, wrapped error, suffix\<close>
  | GoPanic string             \<comment> \<open>a run-time panic: the process ends here\<close>

fun errors_is :: "goerr \<Rightarrow> sentinel \<Rightarrow> bool" where
  "errors_is (Sentinel s) t = (s = t)"
| "errors_is (Text _) t = False"
| "errors_is (Wrap _ e _) t = errors_is e t"
| "errors_is (GoPanic _) t = False"

fun sentinel_text :: "sentinel \<Rightarrow> string" where
  "sentinel_text ErrQueueNotFound = ''queue not found''"
| "sentinel_text ErrConfirmRequired = ''confirmation required: re-run with --confirm''"
| "sentinel_text ErrReplayDestination =
     ''destination queue does not exist'' @ dash_sep @ ''refusing to replay''"
| "sentinel_text ErrDestinationMissing =
     ''destination queue does not exist'' @ dash_sep @ ''refusing to run''"
| "sentinel_text ErrNoSafetyChecks =
     ''plan has no safety checks'' @ dash_sep @ ''refusing to validate''"
| "sentinel_text ErrResumeRequired =
     ''circuit breaker tripped'' @ dash_sep @ ''re-run with --resume to continue''"
| "sentinel_text ErrNotConnected = ''adapter: not connected'' @ dash_sep @ ''call Connect first''"

fun error_text :: "goerr \<Rightarrow> string" where
  "error_text (Sentinel s) = sentinel_text s"
| "error_text (Text t) = t"
| "error_text (Wrap pre e suf) = pre @ error_text e @ suf"
| "error_text (GoPanic t) = ''panic: '' @ t"

end
