(* ===== verification/Audit_Store.thy ===== *)
theory Audit_Store
  imports Message_Model Go_Errors
begin

text \<open>
  The append-only audit store of \<^verbatim>\<open>internal/audit/store.go\<close>: the two SQLite tables as
  lists of rows in the order of their autoincrement ids, and one function per SQL
  statement. SQLite itself is outside the repository: each call takes a flag \<open>ok\<close> that says
  whether the statement succeeds, and the time it would stamp. Timestamps are kept as
  values, not as their RFC3339 text.
\<close>

section \<open>Entries and snapshots\<close>

type_synonym action = string

definition ActionInspect :: action where "ActionInspect = ''inspect''"
definition ActionPatch :: action where "ActionPatch = ''patch''"
definition ActionReplay :: action where "ActionReplay = ''replay''"
definition ActionAnalyze :: action where "ActionAnalyze = ''analyze''"
definition ActionPlan :: action where "ActionPlan = ''plan''"
definition ActionRecover :: action where "ActionRecover = ''recover''"
definition ActionRollback :: action where "ActionRollback = ''rollback''"

lemmas action_defs = ActionInspect_def ActionPatch_def ActionReplay_def ActionAnalyze_def
  ActionPlan_def ActionRecover_def ActionRollback_def

record entry =
  eTimestamp :: gotime
  eAction :: action
  eMessageID :: string
  ePlanID :: string
  eSourceQueue :: string
  eDestination :: string
  eDryRun :: bool
  eConfirmed :: bool
  eResult :: string
  eBroker :: string
  eProfile :: string
  eReason :: string
  ePayloadDiff :: string

record snapshot =
  sPlanID :: string
  sMessageID :: string
  sSourceQueue :: string
  sDestination :: string
  sPayload :: string
  sContentType :: string
  sHeaders :: headers
  sTimestamp :: gotime

section \<open>Rows of the audit table\<close>

record row =
  rTimestamp :: gotime
  rAction :: string
  rMessageID :: string
  rPlanID :: string
  rSourceQueue :: string
  rDestination :: string
  rDryRun :: int
  rConfirmed :: int
  rResult :: string
  rBroker :: string
  rProfile :: string
  rReason :: string
  rPayloadDiff :: string

record store =
  aRows :: "row list"        \<comment> \<open>oldest first: the row at index i has id i + 1\<close>
  aSnaps :: "snapshot list"  \<comment> \<open>oldest first\<close>

definition empty_store :: store where
  "empty_store = \<lparr>aRows = [], aSnaps = []\<rparr>"

definition boolInt :: "bool \<Rightarrow> int" where
  "boolInt b = (if b then 1 else 0)"

definition row_of_entry :: "entry \<Rightarrow> row" where
  "row_of_entry e =
     \<lparr>rTimestamp = eTimestamp e, rAction = eAction e, rMessageID = eMessageID e,
      rPlanID = ePlanID e, rSourceQueue = eSourceQueue e, rDestination = eDestination e,
      rDryRun = boolInt (eDryRun e), rConfirmed = boolInt (eConfirmed e),
      rResult = eResult e, rBroker = eBroker e, rProfile = eProfile e,
      rReason = eReason e, rPayloadDiff = ePayloadDiff e\<rparr>"

definition entry_of_row :: "row \<Rightarrow> entry" where
  "entry_of_row r =
     \<lparr>eTimestamp = rTimestamp r, eAction = rAction r, eMessageID = rMessageID r,
      ePlanID = rPlanID r, eSourceQueue = rSourceQueue r, eDestination = rDestination r,
      eDryRun = (rDryRun r = 1), eConfirmed = (rConfirmed r = 1),
      eResult = rResult r, eBroker = rBroker r, eProfile = rProfile r,
      eReason = rReason r, ePayloadDiff = rPayloadDiff r\<rparr>"

lemma entry_of_row_of_entry [simp]: "entry_of_row (row_of_entry e) = e"
  by (simp add: entry_of_row_def row_of_entry_def boolInt_def)

section \<open>Statements\<close>

text \<open>\<open>Append\<close>: a zero timestamp is replaced by the current time, then one INSERT.\<close>

definition stamp :: "gotime \<Rightarrow> entry \<Rightarrow> entry" where
  "stamp now e = (if IsZero (eTimestamp e) then e\<lparr>eTimestamp := now\<rparr> else e)"

definition insert_entry :: "entry \<Rightarrow> store \<Rightarrow> store" where
  "insert_entry e s = s\<lparr>aRows := aRows s @ [row_of_entry e]\<rparr>"

definition Append :: "bool \<Rightarrow> gotime \<Rightarrow> entry \<Rightarrow> store \<Rightarrow> goerr option \<times> store" where
  "Append ok now e s =
     (if ok then (None, insert_entry (stamp now e) s)
      else (Some (Text ''audit: append entry''), s))"

definition SaveSnapshot :: "bool \<Rightarrow> gotime \<Rightarrow> snapshot \<Rightarrow> store \<Rightarrow> goerr option \<times> store" where
  "SaveSnapshot ok now sn s =
     (let sn = (if IsZero (sTimestamp sn) then sn\<lparr>sTimestamp := now\<rparr> else sn)
      in if ok then (None, s\<lparr>aSnaps := aSnaps s @ [sn]\<rparr>)
         else (Some (Text ''audit: save snapshot''), s))"

definition Snapshots :: "bool \<Rightarrow> string \<Rightarrow> store \<Rightarrow> (goerr, snapshot list) result" where
  "Snapshots ok plan s =
     (if ok then Ok (filter (\<lambda>sn. sPlanID sn = plan) (aSnaps s))
      else Err (Text ''audit: query snapshots''))"

definition query :: "bool \<Rightarrow> row list \<Rightarrow> (goerr, entry list) result" where
  "query ok rs = (if ok then Ok (map entry_of_row rs) else Err (Text ''audit: query''))"

definition Recent :: "bool \<Rightarrow> int \<Rightarrow> store \<Rightarrow> (goerr, entry list) result" where
  "Recent ok limit s =
     query ok (if limit > 0 then take (nat limit) (rev (aRows s)) else rev (aRows s))"

definition ByPlan :: "bool \<Rightarrow> string \<Rightarrow> store \<Rightarrow> (goerr, entry list) result" where
  "ByPlan ok plan s = query ok (filter (\<lambda>r. rPlanID r = plan) (aRows s))"

text \<open>The WHERE clause of \<open>Replayed\<close>: what counts as evidence of an earlier replay.\<close>

definition replay_row :: "string \<Rightarrow> row \<Rightarrow> bool" where
  "replay_row mid r =
     (rMessageID r = mid \<and> rAction r \<in> set [ActionReplay, ActionRecover] \<and>
      rConfirmed r = 1 \<and> rResult r = ''success'')"

definition Replayed :: "bool \<Rightarrow> string \<Rightarrow> store \<Rightarrow> (goerr, entry list) result" where
  "Replayed ok mid s = query ok (rev (filter (replay_row mid) (aRows s)))"

section \<open>The log as its clients see it\<close>

text \<open>The whole trail, oldest first, and the evidence for one message, newest first.\<close>

definition trail :: "store \<Rightarrow> entry list" where
  "trail s = map entry_of_row (aRows s)"

definition evidence :: "string \<Rightarrow> store \<Rightarrow> entry list" where
  "evidence mid s = map entry_of_row (rev (filter (replay_row mid) (aRows s)))"

definition is_replay_success :: "entry \<Rightarrow> bool" where
  "is_replay_success e =
     (eAction e \<in> set [ActionReplay, ActionRecover] \<and> eConfirmed e \<and> eResult e = ''success'')"

text \<open>
  The contract of the log: an entry once inserted stays, evidence only grows, and exactly
  the inserted entries that count are evidence for their message.
\<close>

locale evidence_log =
  fixes ins :: "entry \<Rightarrow> 's \<Rightarrow> 's"
    and whole :: "'s \<Rightarrow> entry list"
    and ev :: "string \<Rightarrow> 's \<Rightarrow> entry list"
    and counts :: "entry \<Rightarrow> bool"
  assumes whole_ins: "whole (ins e s) = whole s @ [e]"
    and ev_ins: "ev mid (ins e s) =
      (if counts e \<and> eMessageID e = mid then e # ev mid s else ev mid s)"
begin

lemma whole_fold: "whole (fold ins es s) = whole s @ es"
  by (induction es arbitrary: s) (auto simp: whole_ins)

lemma whole_prefix: "prefix (whole s) (whole (fold ins es s))"
  by (simp add: whole_fold)

lemma ev_fold:
  "ev mid (fold ins es s) = rev (filter (\<lambda>e. counts e \<and> eMessageID e = mid) es) @ ev mid s"
  by (induction es arbitrary: s) (auto simp: ev_ins)

lemma ev_monotone: "e \<in> set (ev mid s) \<Longrightarrow> e \<in> set (ev mid (fold ins es s))"
  by (simp add: ev_fold)

lemma no_new_evidence:
  "(\<And>e. e \<in> set es \<Longrightarrow> \<not> (counts e \<and> eMessageID e = mid)) \<Longrightarrow>
   ev mid (fold ins es s) = ev mid s"
proof -
  assume none: "\<And>e. e \<in> set es \<Longrightarrow> \<not> (counts e \<and> eMessageID e = mid)"
  then have "filter (\<lambda>e. counts e \<and> eMessageID e = mid) es = []"
    by (auto simp: filter_empty_conv)
  then show ?thesis by (simp add: ev_fold)
qed

end

lemma replay_row_of_entry:
  "replay_row mid (row_of_entry e) \<longleftrightarrow> is_replay_success e \<and> eMessageID e = mid"
  by (auto simp: replay_row_def is_replay_success_def row_of_entry_def boolInt_def)

interpretation store_log: evidence_log insert_entry trail evidence is_replay_success
  by unfold_locales
    (auto simp: trail_def evidence_def insert_entry_def replay_row_of_entry)

lemma aSnaps_insert_entry [simp]: "aSnaps (insert_entry e s) = aSnaps s"
  by (simp add: insert_entry_def)

lemma Replayed_ok [simp]: "Replayed True mid s = Ok (evidence mid s)"
  by (simp add: Replayed_def query_def evidence_def)

lemma Replayed_fail [simp]: "Replayed False mid s = Err (Text ''audit: query'')"
  by (simp add: Replayed_def query_def)

lemma replay_row_entry:
  "replay_row mid r \<longleftrightarrow> is_replay_success (entry_of_row r) \<and> eMessageID (entry_of_row r) = mid"
  by (auto simp: replay_row_def is_replay_success_def entry_of_row_def)

lemma evidence_trail:
  "evidence mid s = rev (filter (\<lambda>x. is_replay_success x \<and> eMessageID x = mid) (trail s))"
proof -
  have "replay_row mid = (\<lambda>r. is_replay_success (entry_of_row r) \<and> eMessageID (entry_of_row r) = mid)"
    by (simp add: fun_eq_iff replay_row_entry)
  then show ?thesis
    by (simp add: evidence_def trail_def filter_map o_def rev_map)
qed

lemma evidence_counts: "e \<in> set (evidence mid s) \<Longrightarrow> is_replay_success e \<and> eMessageID e = mid"
  by (auto simp: evidence_def replay_row_def is_replay_success_def entry_of_row_def)

section \<open>Properties of the store\<close>

text \<open>
  One confirmed Append is what the next \<open>Recent\<close> returns first, unchanged except for the
  time a zero timestamp receives, and every older entry is still there behind it.
\<close>

lemma Recent_after_Append:
  "Recent True 0 (snd (Append True now e s)) = Ok (stamp now e # rev (trail s))"
  by (simp add: Recent_def Append_def query_def insert_entry_def trail_def rev_map)

end
