(* ===== verification/Broker_World.thy ===== *)
theory Broker_World
  imports Audit_Store
begin

text \<open>
  The Broker contract of \<^verbatim>\<open>internal/broker/broker.go\<close> and the world an operation of
  the engine runs in. A broker is a record of its operations over the state \<open>'w\<close> of a
  server that is not part of the repository; a world is that server state, the audit store
  (nil or open), the ordered record of the broker calls made so far with their outcome, and
  a counter that indexes the environment (clock readings, whether a database statement or
  a limiter wait succeeds).
\<close>

section \<open>The contract\<close>

record group_stats =
  gName :: string
  gConsumers :: int
  gPending :: int

record queue_stats =
  qQueue :: string
  qMessages :: int
  qConsumers :: int
  qPending :: int
  qGroups :: "group_stats list"
  qOldestAge :: int
  qNewestAge :: int
  qRetryCount :: int

record search_filter =
  fErrorText :: string
  fSince :: gotime
  fFields :: "(string \<times> string) list"
  fMaxRetries :: "int option"
  fLimit :: int
  fOffset :: int

definition limit_filter :: "int \<Rightarrow> search_filter" where
  "limit_filter n = \<lparr>fErrorText = [], fSince = 0, fFields = [], fMaxRetries = None,
     fLimit = n, fOffset = 0\<rparr>"

record 'w broker =
  bInspect :: "string \<Rightarrow> string \<Rightarrow> 'w \<Rightarrow> (goerr, message) result \<times> 'w"
  bSearch :: "string \<Rightarrow> search_filter \<Rightarrow> 'w \<Rightarrow> (goerr, message list) result \<times> 'w"
  bPublish :: "string \<Rightarrow> message \<Rightarrow> 'w \<Rightarrow> goerr option \<times> 'w"
  bAck :: "string \<Rightarrow> string \<Rightarrow> 'w \<Rightarrow> goerr option \<times> 'w"
  bStats :: "string \<Rightarrow> 'w \<Rightarrow> (goerr, queue_stats) result \<times> 'w"

section \<open>The world\<close>

datatype call =
    CInspect string string bool
  | CSearch string bool
  | CStats string bool
  | CPublish string message bool   \<comment> \<open>destination, message, confirmed\<close>
  | CAck string string bool        \<comment> \<open>queue, message id, removed\<close>

fun mutating :: "call \<Rightarrow> bool" where
  "mutating (CPublish _ _ _) = True"
| "mutating (CAck _ _ _) = True"
| "mutating _ = False"

record env =
  clock :: "nat \<Rightarrow> gotime"
  db_ok :: "nat \<Rightarrow> bool"
  limiter_ok :: "nat \<Rightarrow> bool"

record 'w world =
  wServer :: 'w
  wStore :: "store option"
  wTrace :: "call list"
  wTick :: nat

fun is_Ok :: "('e, 'a) result \<Rightarrow> bool" where
  "is_Ok (Inr _) = True"
| "is_Ok (Inl _) = False"

definition do_inspect ::
    "'w broker \<Rightarrow> string \<Rightarrow> string \<Rightarrow> 'w world \<Rightarrow> (goerr, message) result \<times> 'w world" where
  "do_inspect b q i w =
     (let (r, s) = bInspect b q i (wServer w)
      in (r, w\<lparr>wServer := s, wTrace := wTrace w @ [CInspect q i (is_Ok r)]\<rparr>))"

definition do_search ::
    "'w broker \<Rightarrow> string \<Rightarrow> search_filter \<Rightarrow> 'w world \<Rightarrow> (goerr, message list) result \<times> 'w world" where
  "do_search b q f w =
     (let (r, s) = bSearch b q f (wServer w)
      in (r, w\<lparr>wServer := s, wTrace := wTrace w @ [CSearch q (is_Ok r)]\<rparr>))"

definition do_stats ::
    "'w broker \<Rightarrow> string \<Rightarrow> 'w world \<Rightarrow> (goerr, queue_stats) result \<times> 'w world" where
  "do_stats b q w =
     (let (r, s) = bStats b q (wServer w)
      in (r, w\<lparr>wServer := s, wTrace := wTrace w @ [CStats q (is_Ok r)]\<rparr>))"

definition do_publish ::
    "'w broker \<Rightarrow> string \<Rightarrow> message \<Rightarrow> 'w world \<Rightarrow> goerr option \<times> 'w world" where
  "do_publish b d m w =
     (let (r, s) = bPublish b d m (wServer w)
      in (r, w\<lparr>wServer := s, wTrace := wTrace w @ [CPublish d m (r = None)]\<rparr>))"

definition do_ack ::
    "'w broker \<Rightarrow> string \<Rightarrow> string \<Rightarrow> 'w world \<Rightarrow> goerr option \<times> 'w world" where
  "do_ack b q i w =
     (let (r, s) = bAck b q i (wServer w)
      in (r, w\<lparr>wServer := s, wTrace := wTrace w @ [CAck q i (r = None)]\<rparr>))"

text \<open>
  A best-effort write (\<open>_ = store.Append(...)\<close>): nothing when the store is nil; otherwise one
  statement, whose failure is ignored.
\<close>

definition try_append :: "env \<Rightarrow> (gotime \<Rightarrow> entry) \<Rightarrow> 'w world \<Rightarrow> 'w world" where
  "try_append env e w =
     (case wStore w of None \<Rightarrow> w
      | Some s \<Rightarrow>
          let now = clock env (wTick w);
              (_, s') = Append (db_ok env (wTick w)) now (e now) s
          in w\<lparr>wStore := Some s', wTick := Suc (wTick w)\<rparr>)"

definition try_snapshot :: "env \<Rightarrow> (gotime \<Rightarrow> snapshot) \<Rightarrow> 'w world \<Rightarrow> 'w world" where
  "try_snapshot env sn w =
     (case wStore w of None \<Rightarrow> w
      | Some s \<Rightarrow>
          let now = clock env (wTick w);
              (_, s') = SaveSnapshot (db_ok env (wTick w)) now (sn now) s
          in w\<lparr>wStore := Some s', wTick := Suc (wTick w)\<rparr>)"

definition ask_replayed ::
    "env \<Rightarrow> string \<Rightarrow> store \<Rightarrow> 'w world \<Rightarrow> (goerr, entry list) result \<times> 'w world" where
  "ask_replayed env mid s w =
     (Replayed (db_ok env (wTick w)) mid s, w\<lparr>wTick := Suc (wTick w)\<rparr>)"

section \<open>How the calls change the world\<close>

lemma do_inspect_frame [call_simps]:
  "do_inspect b q i w = (r, w') \<Longrightarrow>
     wTrace w' = wTrace w @ [CInspect q i (is_Ok r)] \<and> wStore w' = wStore w \<and> wTick w' = wTick w
     \<and> bInspect b q i (wServer w) = (r, wServer w')"
  by (auto simp: do_inspect_def Let_def split: prod.splits)

lemma do_search_frame [call_simps]:
  "do_search b q f w = (r, w') \<Longrightarrow>
     wTrace w' = wTrace w @ [CSearch q (is_Ok r)] \<and> wStore w' = wStore w \<and> wTick w' = wTick w
     \<and> bSearch b q f (wServer w) = (r, wServer w')"
  by (auto simp: do_search_def Let_def split: prod.splits)

lemma do_stats_frame [call_simps]:
  "do_stats b q w = (r, w') \<Longrightarrow>
     wTrace w' = wTrace w @ [CStats q (is_Ok r)] \<and> wStore w' = wStore w \<and> wTick w' = wTick w
     \<and> bStats b q (wServer w) = (r, wServer w')"
  by (auto simp: do_stats_def Let_def split: prod.splits)

lemma do_publish_frame [call_simps]:
  "do_publish b d m w = (r, w') \<Longrightarrow>
     wTrace w' = wTrace w @ [CPublish d m (r = None)] \<and> wStore w' = wStore w \<and> wTick w' = wTick w
     \<and> bPublish b d m (wServer w) = (r, wServer w')"
  by (auto simp: do_publish_def Let_def split: prod.splits)

lemma do_ack_frame [call_simps]:
  "do_ack b q i w = (r, w') \<Longrightarrow>
     wTrace w' = wTrace w @ [CAck q i (r = None)] \<and> wStore w' = wStore w \<and> wTick w' = wTick w
     \<and> bAck b q i (wServer w) = (r, wServer w')"
  by (auto simp: do_ack_def Let_def split: prod.splits)

lemma try_append_frame [simp]:
  "wTrace (try_append env e w) = wTrace w" "wServer (try_append env e w) = wServer w"
  "(wStore (try_append env e w) = None) = (wStore w = None)"
  by (auto simp: try_append_def Let_def split: option.splits prod.splits)

lemma try_snapshot_frame [simp]:
  "wTrace (try_snapshot env e w) = wTrace w" "wServer (try_snapshot env e w) = wServer w"
  "(wStore (try_snapshot env e w) = None) = (wStore w = None)"
  by (auto simp: try_snapshot_def Let_def split: option.splits prod.splits)

lemma try_append_store:
  "wStore (try_append env e w) =
     map_option (\<lambda>s. if db_ok env (wTick w)
       then insert_entry (stamp (clock env (wTick w)) (e (clock env (wTick w)))) s else s) (wStore w)"
  by (auto simp: try_append_def Append_def Let_def split: option.splits)

lemma wTick_try_append [simp]:
  "wTick (try_append env e w) = (if wStore w = None then wTick w else Suc (wTick w))"
  by (auto simp: try_append_def Let_def split: option.splits prod.splits)

text \<open>The trail of the world, empty without a store, and the evidence it holds.\<close>

definition st_trail :: "store option \<Rightarrow> entry list" where
  "st_trail so = (case so of None \<Rightarrow> [] | Some s \<Rightarrow> trail s)"

definition st_evidence :: "string \<Rightarrow> store option \<Rightarrow> entry list" where
  "st_evidence mid so = (case so of None \<Rightarrow> [] | Some s \<Rightarrow> evidence mid s)"

definition st_snaps :: "store option \<Rightarrow> snapshot list" where
  "st_snaps so = (case so of None \<Rightarrow> [] | Some s \<Rightarrow> aSnaps s)"

abbreviation wTrail :: "'w world \<Rightarrow> entry list" where
  "wTrail w \<equiv> st_trail (wStore w)"

abbreviation wEvidence :: "string \<Rightarrow> 'w world \<Rightarrow> entry list" where
  "wEvidence mid w \<equiv> st_evidence mid (wStore w)"

abbreviation wSnaps :: "'w world \<Rightarrow> snapshot list" where
  "wSnaps w \<equiv> st_snaps (wStore w)"

lemma st_None [simp]: "st_trail None = []" "st_evidence mid None = []" "st_snaps None = []"
  by (simp_all add: st_trail_def st_evidence_def st_snaps_def)

lemma st_Some: "st_trail (Some s) = trail s" "st_evidence mid (Some s) = evidence mid s"
  "st_snaps (Some s) = aSnaps s"
  by (simp_all add: st_trail_def st_evidence_def st_snaps_def)

text \<open>The entry a best-effort write leaves: none without a store or when the statement fails.\<close>

definition written :: "env \<Rightarrow> (gotime \<Rightarrow> entry) \<Rightarrow> 'w world \<Rightarrow> entry list" where
  "written env e w =
     (if wStore w \<noteq> None \<and> db_ok env (wTick w)
      then [stamp (clock env (wTick w)) (e (clock env (wTick w)))] else [])"

lemma wTrail_try_append [simp]: "wTrail (try_append env e w) = wTrail w @ written env e w"
  by (auto simp: st_trail_def written_def try_append_def Append_def Let_def store_log.whole_ins
      split: option.splits)

lemma wSnaps_try_append [simp]: "wSnaps (try_append env e w) = wSnaps w"
  by (auto simp: st_snaps_def try_append_def Append_def Let_def split: option.splits)

lemma trail_snaps [simp]: "trail (s\<lparr>aSnaps := x\<rparr>) = trail s"
  by (simp add: trail_def)

lemma evidence_snaps [simp]: "evidence mid (s\<lparr>aSnaps := x\<rparr>) = evidence mid s"
  by (simp add: evidence_def)

lemma wTrail_try_snapshot [simp]: "wTrail (try_snapshot env sn w) = wTrail w"
  by (auto simp: st_trail_def try_snapshot_def SaveSnapshot_def Let_def split: option.splits)

lemma wEvidence_try_snapshot [simp]: "wEvidence mid (try_snapshot env sn w) = wEvidence mid w"
  by (auto simp: st_evidence_def try_snapshot_def SaveSnapshot_def Let_def split: option.splits)

lemma stamp_fields [simp]:
  "eAction (stamp t e) = eAction e" "eMessageID (stamp t e) = eMessageID e"
  "eConfirmed (stamp t e) = eConfirmed e" "eResult (stamp t e) = eResult e"
  "eDryRun (stamp t e) = eDryRun e" "eReason (stamp t e) = eReason e"
  "ePlanID (stamp t e) = ePlanID e" "eSourceQueue (stamp t e) = eSourceQueue e"
  "eDestination (stamp t e) = eDestination e" "ePayloadDiff (stamp t e) = ePayloadDiff e"
  "eBroker (stamp t e) = eBroker e" "eProfile (stamp t e) = eProfile e"
  by (simp_all add: stamp_def)

lemma is_replay_success_stamp [simp]: "is_replay_success (stamp t e) = is_replay_success e"
  by (simp add: is_replay_success_def)

lemma wEvidence_try_append:
  "wEvidence mid (try_append env e w) =
     rev (filter (\<lambda>x. is_replay_success x \<and> eMessageID x = mid) (written env e w))
     @ wEvidence mid w"
  by (auto simp: st_evidence_def written_def try_append_def Append_def Let_def store_log.ev_ins
      split: option.splits)

lemma wTrail_evidence: "wEvidence mid w =
   rev (filter (\<lambda>x. is_replay_success x \<and> eMessageID x = mid) (wTrail w))"
  by (auto simp: st_evidence_def st_trail_def evidence_trail split: option.splits)

lemma ask_replayed_frame:
  "ask_replayed env mid s w = (r, w') \<Longrightarrow>
     wTrace w' = wTrace w \<and> wStore w' = wStore w \<and> wServer w' = wServer w
     \<and> wTick w' = Suc (wTick w) \<and> (r = Ok (evidence mid s) \<or> r = Err (Text ''audit: query''))"
  by (cases "db_ok env (wTick w)") (auto simp: ask_replayed_def)

section \<open>Orders of calls\<close>

text \<open>
  \<open>ack_safe\<close>: every Ack comes directly after a confirmed Publish. \<open>pub_safe\<close>: every Publish
  goes to a destination whose existence probe has succeeded before (the list holds the
  destinations probed so far).
\<close>

fun confirmed_publish :: "call option \<Rightarrow> bool" where
  "confirmed_publish (Some (CPublish _ _ True)) = True"
| "confirmed_publish _ = False"

fun ack_safe :: "call option \<Rightarrow> call list \<Rightarrow> bool" where
  "ack_safe prev [] = True"
| "ack_safe prev (CAck q i k # cs) =
     (confirmed_publish prev \<and> ack_safe (Some (CAck q i k)) cs)"
| "ack_safe prev (c # cs) = ack_safe (Some c) cs"

fun pub_safe :: "string list \<Rightarrow> call list \<Rightarrow> bool" where
  "pub_safe ok [] = True"
| "pub_safe ok (CStats d True # cs) = pub_safe (d # ok) cs"
| "pub_safe ok (CPublish d p k # cs) = (d \<in> set ok \<and> pub_safe ok cs)"
| "pub_safe ok (c # cs) = pub_safe ok cs"

lemma ack_safe_weaken: "ack_safe None cs \<Longrightarrow> ack_safe p cs"
proof (cases cs)
  case (Cons c cs')
  assume "ack_safe None cs"
  with Cons show ?thesis by (cases c) auto
qed simp

lemma ack_safe_append: "ack_safe p xs \<Longrightarrow> ack_safe None ys \<Longrightarrow> ack_safe p (xs @ ys)"
  by (induction p xs rule: ack_safe.induct) (auto intro: ack_safe_weaken)

lemma pub_safe_mono: "pub_safe ok cs \<Longrightarrow> set ok \<subseteq> set ok' \<Longrightarrow> pub_safe ok' cs"
proof (induction ok cs arbitrary: ok' rule: pub_safe.induct)
  case (2 ok d cs)
  have "pub_safe (d # ok') cs"
    by (rule "2.IH") (use "2.prems" in auto)
  then show ?case by simp
qed auto

lemma pub_safe_append: "pub_safe ok xs \<Longrightarrow> pub_safe ok ys \<Longrightarrow> pub_safe ok (xs @ ys)"
proof (induction ok xs rule: pub_safe.induct)
  case (2 ok d cs)
  from \<open>pub_safe ok ys\<close> have "pub_safe (d # ok) ys" by (rule pub_safe_mono) auto
  with 2 show ?case by simp
qed auto

lemma pub_safe_known: "(\<And>d p k. CPublish d p k \<in> set cs \<Longrightarrow> d \<in> set ok) \<Longrightarrow> pub_safe ok cs"
  by (induction ok cs rule: pub_safe.induct) auto

text \<open>What the two predicates say of a list of calls, without the recursion.\<close>

lemma confirmed_publish_iff: "confirmed_publish p \<longleftrightarrow> (\<exists>d m. p = Some (CPublish d m True))"
  by (induction p rule: confirmed_publish.induct) auto

lemma ack_safe_Cons:
  "ack_safe p (c # cs) \<longleftrightarrow> (case c of CAck _ _ _ \<Rightarrow> confirmed_publish p | _ \<Rightarrow> True) \<and> ack_safe (Some c) cs"
  by (cases c) auto

lemma ack_safeD:
  "ack_safe p (xs @ CAck q i k # ys) \<Longrightarrow>
   (if xs = [] then confirmed_publish p else \<exists>d m. last xs = CPublish d m True)"
proof (induction xs arbitrary: p)
  case (Cons c xs)
  then have "ack_safe (Some c) (xs @ CAck q i k # ys)" by (simp add: ack_safe_Cons)
  from Cons.IH[OF this] show ?case by (cases "xs = []") (auto simp: confirmed_publish_iff)
qed simp

lemma pub_safeD:
  "pub_safe ok (xs @ CPublish d p k # ys) \<Longrightarrow> d \<in> set ok \<or> CStats d True \<in> set xs"
  by (induction ok xs rule: pub_safe.induct) auto

end
