(* ===== verification/Dedupe.thy ===== *)
theory Dedupe
  imports Broker_World
begin

text \<open>
  Duplicate evidence (\<^verbatim>\<open>internal/dedupe/dedupe.go\<close>): the audit trail is asked for an
  earlier confirmed, successful replay of the message.
\<close>

record dup_evidence =
  MatchFound :: bool
  MatchSource :: string
  PriorReplayAt :: "gotime option"
  EventID :: string
  IdempotencyKey :: string

definition no_evidence :: dup_evidence where
  "no_evidence = \<lparr>MatchFound = False, MatchSource = [], PriorReplayAt = None, EventID = [],
     IdempotencyKey = []\<rparr>"

definition evidence_of :: "message \<Rightarrow> entry list \<Rightarrow> dup_evidence" where
  "evidence_of m es =
     (case es of
        [] \<Rightarrow> no_evidence\<lparr>EventID := mEventID m, IdempotencyKey := mIdempotencyKey m\<rparr>
      | e # _ \<Rightarrow> \<lparr>MatchFound = True, MatchSource = ''audit'', PriorReplayAt = Some (eTimestamp e),
                   EventID = mEventID m, IdempotencyKey = mIdempotencyKey m\<rparr>)"

definition CheckAudit ::
    "env \<Rightarrow> message \<Rightarrow> 'w world \<Rightarrow> (goerr, dup_evidence) result \<times> 'w world" where
  "CheckAudit env m w =
     (case wStore w of
        None \<Rightarrow> (Ok no_evidence, w)
      | Some s \<Rightarrow>
          (case ask_replayed env (mID m) s w of
             (Inl e, w) \<Rightarrow> (Err e, w)
           | (Inr es, w) \<Rightarrow> (Ok (evidence_of m es), w)))"

lemma evidence_of_match [simp]: "MatchFound (evidence_of m es) \<longleftrightarrow> es \<noteq> []"
  by (auto simp: evidence_of_def no_evidence_def split: list.splits)

lemma CheckAudit_cases:
  "CheckAudit env m w =
     (case wStore w of
        None \<Rightarrow> (Ok no_evidence, w)
      | Some s \<Rightarrow>
          (if db_ok env (wTick w) then Ok (evidence_of m (wEvidence (mID m) w))
           else Err (Text ''audit: query''), w\<lparr>wTick := Suc (wTick w)\<rparr>))"
  by (auto simp: CheckAudit_def ask_replayed_def st_evidence_def split: option.splits)

lemma CheckAudit_frame:
  assumes "CheckAudit env m w = (r, w')"
  shows "wTrace w' = wTrace w" "wStore w' = wStore w" "wServer w' = wServer w"
  using assms by (auto simp: CheckAudit_cases split: option.splits)

lemma CheckAudit_frames:
  "CheckAudit env m w = (r, w') \<Longrightarrow>
     wTrace w' = wTrace w \<and> wStore w' = wStore w \<and> wServer w' = wServer w"
  using CheckAudit_frame[of env m w r w'] by simp

lemma CheckAudit_match:
  assumes "CheckAudit env m w = (Ok ev, w')"
  shows "MatchFound ev \<longleftrightarrow> wEvidence (mID m) w \<noteq> []"
  using assms
  by (auto simp: CheckAudit_cases st_evidence_def no_evidence_def split: option.splits if_splits)

text \<open>The reported time is that of the newest evidence.\<close>

lemma CheckAudit_prior:
  assumes "CheckAudit env m w = (Ok ev, w')" and "MatchFound ev"
  shows "PriorReplayAt ev = Some (eTimestamp (hd (wEvidence (mID m) w)))"
  using assms
  by (auto simp: CheckAudit_cases no_evidence_def evidence_of_def
      split: option.splits if_splits list.splits)

end
