(* ===== verification/Val_Broker.thy ===== *)
theory Val_Broker
  imports Broker_World
begin

text \<open>
  The in-memory broker of the engine's own tests (\<^verbatim>\<open>valBroker\<close> in
  \<^verbatim>\<open>internal/recovery/validator_test.go\<close>): fixed queue contents, failures injected per
  message id. The witnesses of the development run the engine against it.
\<close>

record val_state =
  vbMsgs :: "(string \<times> message list) list"
  vbFailPublish :: "(string \<times> nat) list"   \<comment> \<open>remaining failing attempts per message id\<close>
  vbFailAck :: "string list"
  vbMissing :: "string list"
  vbSearchErr :: "goerr option"
  vbStatsErr :: "goerr option"
  vbStatsPending :: int
  vbPublished :: "(string \<times> message) list"

definition vb_queue :: "val_state \<Rightarrow> string \<Rightarrow> message list" where
  "vb_queue s q = (case map_of (vbMsgs s) q of None \<Rightarrow> [] | Some ms \<Rightarrow> ms)"

fun find_id :: "string \<Rightarrow> message list \<Rightarrow> message option" where
  "find_id i [] = None"
| "find_id i (m # ms) = (if mID m = i then Some m else find_id i ms)"

definition vb_inspect :: "string \<Rightarrow> string \<Rightarrow> val_state \<Rightarrow> (goerr, message) result \<times> val_state" where
  "vb_inspect q i s =
     ((case find_id i (vb_queue s q) of None \<Rightarrow> Err (Text ''not found'') | Some m \<Rightarrow> Ok m), s)"

definition vb_search ::
    "string \<Rightarrow> search_filter \<Rightarrow> val_state \<Rightarrow> (goerr, message list) result \<times> val_state" where
  "vb_search q f s =
     ((case vbSearchErr s of Some e \<Rightarrow> Err e | None \<Rightarrow> Ok (vb_queue s q)), s)"

definition vb_publish :: "string \<Rightarrow> message \<Rightarrow> val_state \<Rightarrow> goerr option \<times> val_state" where
  "vb_publish d m s =
     (let s = s\<lparr>vbPublished := vbPublished s @ [(d, m)]\<rparr>
      in case map_of (vbFailPublish s) (mID m) of
           Some (Suc n) \<Rightarrow>
             (Some (Text (''publish failed for '' @ mID m)),
              s\<lparr>vbFailPublish := (mID m, n) # vbFailPublish s\<rparr>)
         | _ \<Rightarrow> (None, s))"

definition vb_ack :: "string \<Rightarrow> string \<Rightarrow> val_state \<Rightarrow> goerr option \<times> val_state" where
  "vb_ack q i s =
     ((if i \<in> set (vbFailAck s) then Some (Text (''ack failed for '' @ i)) else None), s)"

definition vb_stats :: "string \<Rightarrow> val_state \<Rightarrow> (goerr, queue_stats) result \<times> val_state" where
  "vb_stats q s =
     ((case vbStatsErr s of
         Some e \<Rightarrow> Err e
       | None \<Rightarrow>
           if q \<in> set (vbMissing s)
           then Err (Wrap (''queue '' @ Quote q @ '' not found: '') (Sentinel ErrQueueNotFound) [])
           else Ok \<lparr>qQueue = [], qMessages = 0, qConsumers = 0, qPending = vbStatsPending s,
                    qGroups = [], qOldestAge = 0, qNewestAge = 0, qRetryCount = 0\<rparr>), s)"

definition val_broker :: "val_state broker" where
  "val_broker = \<lparr>bInspect = vb_inspect, bSearch = vb_search, bPublish = vb_publish,
     bAck = vb_ack, bStats = vb_stats\<rparr>"

section \<open>A concrete world\<close>

definition val_msg :: "string \<Rightarrow> message" where
  "val_msg i = empty_message\<lparr>mID := i, mDestination := ''orders'', mPayload := ''{}''\<rparr>"

definition val_server :: "string list \<Rightarrow> val_state" where
  "val_server ids = \<lparr>vbMsgs = [(''orders-dlq'', map val_msg ids)], vbFailPublish = [],
     vbFailAck = [], vbMissing = [], vbSearchErr = None, vbStatsErr = None,
     vbStatsPending = 0, vbPublished = []\<rparr>"

definition val_world :: "val_state \<Rightarrow> val_state world" where
  "val_world s = \<lparr>wServer = s, wStore = Some empty_store, wTrace = [], wTick = 0\<rparr>"

text \<open>Every statement and every limiter wait succeeds; the clock ticks once per reading.\<close>

definition calm :: env where
  "calm = \<lparr>clock = (\<lambda>n. 63900000000000000000 + int n), db_ok = (\<lambda>_. True),
     limiter_ok = (\<lambda>_. True)\<rparr>"

lemma calm_simps [simp]:
  "db_ok calm n" "limiter_ok calm n" "clock calm n = 63900000000000000000 + int n"
  by (simp_all add: calm_def)

lemma val_broker_simps [simp]:
  "bInspect val_broker = vb_inspect" "bSearch val_broker = vb_search"
  "bPublish val_broker = vb_publish" "bAck val_broker = vb_ack" "bStats val_broker = vb_stats"
  by (simp_all add: val_broker_def)

text \<open>
  Evaluation of the calls on this broker, one rule per outcome, so that a run is computed
  call by call with the world kept as a term.
\<close>

lemma val_server_simps [simp]:
  "vb_queue (val_server ids) ''orders-dlq'' = map val_msg ids"
  "vbFailPublish (val_server ids) = []" "vbFailAck (val_server ids) = []"
  "vbMissing (val_server ids) = []" "vbStatsErr (val_server ids) = None"
  "vbSearchErr (val_server ids) = None" "vbStatsPending (val_server ids) = 0"
  by (simp_all add: val_server_def vb_queue_def)

lemma vb_queue_update [simp]:
  "vb_queue (s\<lparr>vbFailPublish := a\<rparr>) q = vb_queue s q" "vb_queue (s\<lparr>vbFailAck := b\<rparr>) q = vb_queue s q"
  "vb_queue (s\<lparr>vbMissing := c\<rparr>) q = vb_queue s q" "vb_queue (s\<lparr>vbPublished := d\<rparr>) q = vb_queue s q"
  "vb_queue (s\<lparr>vbStatsPending := e\<rparr>) q = vb_queue s q"
  by (simp_all add: vb_queue_def)

lemma val_msg_simps [simp]:
  "mID (val_msg i) = i" "mDestination (val_msg i) = ''orders''" "mPayload (val_msg i) = ''{}''"
  "mHeaders (val_msg i) = []"
  by (simp_all add: val_msg_def empty_message_def)

lemma val_world_simps [simp]:
  "wServer (val_world s) = s" "wStore (val_world s) = Some empty_store" "wTrace (val_world s) = []"
  "wTick (val_world s) = 0"
  by (simp_all add: val_world_def)

lemma empty_store_simps [simp]: "trail empty_store = []" "evidence i empty_store = []"
  "aSnaps empty_store = []" "st_trail (Some empty_store) = []"
  "st_evidence i (Some empty_store) = []" "st_snaps (Some empty_store) = []"
  by (simp_all add: trail_def evidence_def empty_store_def st_Some)

lemma vb_do_inspect [simp]:
  "find_id i (vb_queue (wServer w) q) = Some m \<Longrightarrow>
     do_inspect val_broker q i w = (Inr m, w\<lparr>wTrace := wTrace w @ [CInspect q i True]\<rparr>)"
  "find_id i (vb_queue (wServer w) q) = None \<Longrightarrow>
     do_inspect val_broker q i w =
       (Inl (Text ''not found''), w\<lparr>wTrace := wTrace w @ [CInspect q i False]\<rparr>)"
  by (simp_all add: do_inspect_def vb_inspect_def)

lemma vb_do_search [simp]:
  "vbSearchErr (wServer w) = None \<Longrightarrow>
     do_search val_broker q f w =
       (Inr (vb_queue (wServer w) q), w\<lparr>wTrace := wTrace w @ [CSearch q True]\<rparr>)"
  by (simp add: do_search_def vb_search_def)

definition ok_stats :: "val_state \<Rightarrow> queue_stats" where
  "ok_stats s = \<lparr>qQueue = [], qMessages = 0, qConsumers = 0, qPending = vbStatsPending s,
                    qGroups = [], qOldestAge = 0, qNewestAge = 0, qRetryCount = 0\<rparr>"

definition no_queue :: "string \<Rightarrow> goerr" where
  "no_queue q = Wrap (''queue '' @ Quote q @ '' not found: '') (Sentinel ErrQueueNotFound) []"

lemma no_queue_is [simp]: "errors_is (no_queue q) ErrQueueNotFound"
  by (simp add: no_queue_def)

lemma qPending_ok_stats [simp]: "qPending (ok_stats s) = vbStatsPending s"
  by (simp add: ok_stats_def)

lemma vb_do_stats [simp]:
  "vbStatsErr (wServer w) = None \<Longrightarrow> q \<notin> set (vbMissing (wServer w)) \<Longrightarrow>
     do_stats val_broker q w =
       (Inr (ok_stats (wServer w)), w\<lparr>wTrace := wTrace w @ [CStats q True]\<rparr>)"
  "vbStatsErr (wServer w) = None \<Longrightarrow> q \<in> set (vbMissing (wServer w)) \<Longrightarrow>
     do_stats val_broker q w = (Inl (no_queue q), w\<lparr>wTrace := wTrace w @ [CStats q False]\<rparr>)"
  by (simp_all add: do_stats_def vb_stats_def ok_stats_def no_queue_def)

lemma vb_do_publish [simp]:
  "map_of (vbFailPublish (wServer w)) (mID m) = None \<Longrightarrow>
     do_publish val_broker d m w =
       (None, w\<lparr>wServer := (wServer w)\<lparr>vbPublished := vbPublished (wServer w) @ [(d, m)]\<rparr>,
                wTrace := wTrace w @ [CPublish d m True]\<rparr>)"
  by (simp add: do_publish_def vb_publish_def)

lemma vb_do_ack [simp]:
  "i \<notin> set (vbFailAck (wServer w)) \<Longrightarrow>
     do_ack val_broker q i w = (None, w\<lparr>wTrace := wTrace w @ [CAck q i True]\<rparr>)"
  "i \<in> set (vbFailAck (wServer w)) \<Longrightarrow>
     do_ack val_broker q i w =
       (Some (Text (''ack failed for '' @ i)), w\<lparr>wTrace := wTrace w @ [CAck q i False]\<rparr>)"
  by (simp_all add: do_ack_def vb_ack_def)

end
