(* ===== verification/Safety_Gate.thy ===== *)
theory Safety_Gate
  imports Dedupe Val_Broker
begin

text \<open>
  The single-message safety gate of \<^verbatim>\<open>internal/safety/safety.go\<close>: \<open>DryRun\<close> previews a
  replay without mutating anything, \<open>Execute\<close> publishes first and acknowledges the DLQ copy
  only after a confirmed publish. Each operation is one function from a world to its
  result and the next world, with one branch per return statement of the code.
\<close>

record request =
  rqQueue :: string
  rqMessageID :: string
  rqDestination :: string
  rqBrokerName :: string
  rqProfile :: string
  rqReason :: string
  rqConfirm :: bool
  rqAction :: action
  rqPayload :: "string option"   \<comment> \<open>nil: publish the message's own payload\<close>
  rqDiff :: string

record preview =
  pvMessage :: message
  pvDestination :: string
  pvDuplicate :: dup_evidence
  pvSafetyChecks :: "string list"
  pvWarnings :: "string list"

record exec_result =
  xrMessageID :: string
  xrDestination :: string
  xrPublished :: bool
  xrAcked :: bool
  xrAudit :: entry

section \<open>Helpers\<close>

definition req_action :: "request \<Rightarrow> action" where
  "req_action r = (if rqAction r = [] then ActionReplay else rqAction r)"

definition resolveDestination :: "string \<Rightarrow> message \<Rightarrow> (goerr, string) result" where
  "resolveDestination override m =
     (if override \<noteq> [] then Ok override
      else if mDestination m \<noteq> [] then Ok (mDestination m)
      else Err (Text (''cannot determine replay destination (message has no dead-letter metadata)''
        @ dash_sep @ ''pass --destination'')))"

definition duplicateWarnings :: "dup_evidence \<Rightarrow> string list" where
  "duplicateWarnings dup =
     (if \<not> MatchFound dup then []
      else let prior = (case PriorReplayAt dup of None \<Rightarrow> ''previously'' | Some t \<Rightarrow> FormatUTC t)
           in [''message was already replayed ('' @ prior @ ''); replaying again may duplicate work''])"

definition dryRunEntry :: "request \<Rightarrow> message \<Rightarrow> string \<Rightarrow> gotime \<Rightarrow> entry" where
  "dryRunEntry r m dest now =
     \<lparr>eTimestamp = now, eAction = req_action r, eMessageID = mID m, ePlanID = [],
      eSourceQueue = rqQueue r, eDestination = dest, eDryRun = True, eConfirmed = False,
      eResult = ''dry_run'', eBroker = rqBrokerName r, eProfile = rqProfile r,
      eReason = rqReason r, ePayloadDiff = rqDiff r\<rparr>"

definition confirmedEntry ::
    "request \<Rightarrow> message \<Rightarrow> string \<Rightarrow> string \<Rightarrow> string \<Rightarrow> gotime \<Rightarrow> entry" where
  "confirmedEntry r m dest res reason now =
     \<lparr>eTimestamp = now, eAction = req_action r, eMessageID = mID m, ePlanID = [],
      eSourceQueue = rqQueue r, eDestination = dest, eDryRun = False, eConfirmed = True,
      eResult = res, eBroker = rqBrokerName r, eProfile = rqProfile r,
      eReason = reason, ePayloadDiff = rqDiff r\<rparr>"

definition appendFailure ::
    "env \<Rightarrow> request \<Rightarrow> message \<Rightarrow> string \<Rightarrow> string \<Rightarrow> 'w world \<Rightarrow> 'w world" where
  "appendFailure env r m dest res w =
     try_append env (confirmedEntry r m dest res (rqReason r)) w"

definition appendRefusal ::
    "env \<Rightarrow> request \<Rightarrow> message \<Rightarrow> string \<Rightarrow> string \<Rightarrow> 'w world \<Rightarrow> 'w world" where
  "appendRefusal env r m dest detail w =
     (let reason = (if detail \<noteq> [] then TrimSpace (rqReason r @ dash_sep @ detail) else rqReason r)
      in try_append env (confirmedEntry r m dest ''refused'' reason) w)"

section \<open>DryRun\<close>

definition missing_warning :: "string \<Rightarrow> string" where
  "missing_warning dest = ''destination queue '' @ Quote dest @ '' does not exist'' @ dash_sep
     @ ''a confirmed replay will be refused''"

definition dryRunPreview ::
    "env \<Rightarrow> request \<Rightarrow> message \<Rightarrow> string \<Rightarrow> dup_evidence \<Rightarrow> string list \<Rightarrow> string list \<Rightarrow>
     'w world \<Rightarrow> (goerr, preview) result \<times> 'w world" where
  "dryRunPreview env r m dest dup checks warnings w =
     (Ok \<lparr>pvMessage = m, pvDestination = dest, pvDuplicate = dup, pvSafetyChecks = checks,
          pvWarnings = warnings\<rparr>,
      try_append env (dryRunEntry r m dest) w)"

definition DryRun ::
    "env \<Rightarrow> 'w broker \<Rightarrow> request \<Rightarrow> 'w world \<Rightarrow> (goerr, preview) result \<times> 'w world" where
  "DryRun env b r w =
     (case do_inspect b (rqQueue r) (rqMessageID r) w of
        (Inl e, w) \<Rightarrow> (Err e, w)
      | (Inr m, w) \<Rightarrow>
     (case resolveDestination (rqDestination r) m of
        Inl e \<Rightarrow> (Err e, w)
      | Inr dest \<Rightarrow>
     (case CheckAudit env m w of
        (Inl e, w) \<Rightarrow> (Err (Wrap ''duplicate check: '' e []), w)
      | (Inr dup, w) \<Rightarrow>
     (let checks = [''message_exists'', ''destination_resolved'', ''duplicate_checked''];
          warnings = duplicateWarnings dup
      in case do_stats b dest w of
        (Inl e, w) \<Rightarrow>
          if errors_is e ErrQueueNotFound
          then dryRunPreview env r m dest dup checks (warnings @ [missing_warning dest]) w
          else (Err (Wrap (''destination check for '' @ Quote dest @ '': '') e []), w)
      | (Inr _, w) \<Rightarrow>
          dryRunPreview env r m dest dup (checks @ [''destination_exists'']) warnings w))))"

section \<open>Execute\<close>

text \<open>The message that is published: the payload override replaces the body only.\<close>

definition published_message :: "request \<Rightarrow> message \<Rightarrow> message" where
  "published_message r m =
     (case rqPayload r of None \<Rightarrow> m | Some p \<Rightarrow> m\<lparr>mPayload := p\<rparr>)"

text \<open>Execute from the destination probe on, with the message and its destination known.\<close>

definition execute_at ::
    "env \<Rightarrow> 'w broker \<Rightarrow> request \<Rightarrow> message \<Rightarrow> string \<Rightarrow> 'w world \<Rightarrow>
     (goerr, exec_result) result \<times> 'w world" where
  "execute_at env b r m dest w =
     (case do_stats b dest w of
        (Inl e, w) \<Rightarrow>
          if errors_is e ErrQueueNotFound
          then (Err (Wrap [] (Sentinel ErrReplayDestination)
                  ('': queue '' @ Quote dest @ '' (DLQ message left in place)'')),
                appendRefusal env r m dest
                  (''destination queue '' @ Quote dest @ '' does not exist'') w)
          else (Err (Wrap (''destination check for '' @ Quote dest @ '': '') e
                  '' (DLQ message left in place)''),
                appendRefusal env r m dest (''destination check failed: '' @ error_text e) w)
      | (Inr _, w) \<Rightarrow>
     (case do_publish b dest (published_message r m) w of
        (Some e, w) \<Rightarrow>
          (Err (Wrap ''replay failed at publish (DLQ message left in place): '' e []),
           appendFailure env r m dest ''publish_failed'' w)
      | (None, w) \<Rightarrow>
     (case do_ack b (rqQueue r) (rqMessageID r) w of
        (Some e, w) \<Rightarrow>
          (Err (Wrap ''replay published but ack failed (message may be duplicated): '' e []),
           appendFailure env r m dest ''ack_failed'' w)
      | (None, w) \<Rightarrow>
          (Ok \<lparr>xrMessageID = mID m, xrDestination = dest, xrPublished = True, xrAcked = True,
               xrAudit = confirmedEntry r m dest ''success'' (rqReason r) (clock env (wTick w))\<rparr>,
           try_append env (confirmedEntry r m dest ''success'' (rqReason r)) w))))"

definition Execute ::
    "env \<Rightarrow> 'w broker \<Rightarrow> request \<Rightarrow> 'w world \<Rightarrow> (goerr, exec_result) result \<times> 'w world" where
  "Execute env b r w =
     (if \<not> rqConfirm r then (Err (Sentinel ErrConfirmRequired), w)
      else case do_inspect b (rqQueue r) (rqMessageID r) w of
        (Inl e, w) \<Rightarrow> (Err e, w)
      | (Inr m, w) \<Rightarrow>
     (case resolveDestination (rqDestination r) m of
        Inl e \<Rightarrow> (Err e, w)
      | Inr dest \<Rightarrow> execute_at env b r m dest w))"


section \<open>Lemmas\<close>

text \<open>The calls a request may make: reads, its own publish, its own ack.\<close>

fun request_call :: "request \<Rightarrow> call \<Rightarrow> bool" where
  "request_call r (CPublish d p k) \<longleftrightarrow>
     (rqDestination r = [] \<or> d = rqDestination r) \<and> d \<noteq> [] \<and>
     (case rqPayload r of None \<Rightarrow> True | Some x \<Rightarrow> mPayload p = x)"
| "request_call r (CAck q i k) \<longleftrightarrow> q = rqQueue r \<and> i = rqMessageID r"
| "request_call r _ \<longleftrightarrow> True"

text \<open>The audit result that a sequence of calls of \<open>Execute\<close> calls for.\<close>

fun call_outcome :: "call \<Rightarrow> string option" where
  "call_outcome (CStats _ k) = (if k then None else Some ''refused'')"
| "call_outcome (CPublish _ _ k) = (if k then None else Some ''publish_failed'')"
| "call_outcome (CAck _ _ k) = Some (if k then ''success'' else ''ack_failed'')"
| "call_outcome _ = None"

definition outcome_of :: "call list \<Rightarrow> string option" where
  "outcome_of cs = (if cs = [] then None else call_outcome (last cs))"

lemma resolveDestination_Ok:
  "resolveDestination ov m = Inr d \<Longrightarrow> d \<noteq> [] \<and> (ov = [] \<or> d = ov)"
  by (auto simp: resolveDestination_def split: if_splits)

lemma published_message_payload [simp]:
  "case rqPayload r of None \<Rightarrow> True | Some x \<Rightarrow> mPayload (published_message r m) = x"
  by (auto simp: published_message_def split: option.splits)

lemma appendFailure_frame [simp]:
  "wTrace (appendFailure env r m d x w) = wTrace w" "wServer (appendFailure env r m d x w) = wServer w"
  "wTrace (appendRefusal env r m d x w) = wTrace w" "wServer (appendRefusal env r m d x w) = wServer w"
  by (simp_all add: appendFailure_def appendRefusal_def Let_def)

text \<open>
  The four ways the part after the inspection can go, each with its calls, its result and
  the one entry it writes.
\<close>

lemma execute_at_cases:
  assumes "execute_at env b r m dest w = (res, w')"
  obtains
    (refused) w1 e reason err where "do_stats b dest w = (Inl e, w1)" "res = Inl err"
      "w' = try_append env (confirmedEntry r m dest ''refused'' reason) w1"
  | (publish_failed) w1 w2 x e err where "do_stats b dest w = (Inr x, w1)"
      "do_publish b dest (published_message r m) w1 = (Some e, w2)" "res = Inl err"
      "w' = try_append env (confirmedEntry r m dest ''publish_failed'' (rqReason r)) w2"
  | (ack_failed) w1 w2 w3 x e err where "do_stats b dest w = (Inr x, w1)"
      "do_publish b dest (published_message r m) w1 = (None, w2)"
      "do_ack b (rqQueue r) (rqMessageID r) w2 = (Some e, w3)" "res = Inl err"
      "w' = try_append env (confirmedEntry r m dest ''ack_failed'' (rqReason r)) w3"
  | (success) w1 w2 w3 x where "do_stats b dest w = (Inr x, w1)"
      "do_publish b dest (published_message r m) w1 = (None, w2)"
      "do_ack b (rqQueue r) (rqMessageID r) w2 = (None, w3)"
      "res = Inr \<lparr>xrMessageID = mID m, xrDestination = dest, xrPublished = True, xrAcked = True,
               xrAudit = confirmedEntry r m dest ''success'' (rqReason r) (clock env (wTick w3))\<rparr>"
      "w' = try_append env (confirmedEntry r m dest ''success'' (rqReason r)) w3"
  using assms unfolding execute_at_def appendFailure_def appendRefusal_def Let_def
  by (auto split: prod.splits sum.splits option.splits if_splits)

lemma Execute_cases:
  assumes "Execute env b r w = (res, w')"
  obtains
    (unconfirmed) "\<not> rqConfirm r" "res = Inl (Sentinel ErrConfirmRequired)" "w' = w"
  | (not_found) e where "rqConfirm r" "res = Inl e"
      "do_inspect b (rqQueue r) (rqMessageID r) w = (Inl e, w')"
  | (no_destination) m e where "rqConfirm r" "res = Inl e"
      "do_inspect b (rqQueue r) (rqMessageID r) w = (Inr m, w')"
  | (at) m dest w1 where "rqConfirm r"
      "do_inspect b (rqQueue r) (rqMessageID r) w = (Inr m, w1)"
      "resolveDestination (rqDestination r) m = Inr dest"
      "execute_at env b r m dest w1 = (res, w')"
  using assms unfolding Execute_def
  by (auto split: prod.splits sum.splits if_splits)

lemma confirmedEntry_simps [simp]:
  "eResult (confirmedEntry r m d res reason now) = res"
  "eMessageID (confirmedEntry r m d res reason now) = mID m"
  "eAction (confirmedEntry r m d res reason now) = req_action r"
  "eConfirmed (confirmedEntry r m d res reason now)"
  by (simp_all add: confirmedEntry_def)

lemma written_confirmed_evidence:
  "filter (\<lambda>x. is_replay_success x \<and> eMessageID x = mid) (written env (confirmedEntry r m d res reason) w) =
     (if res = ''success'' \<and> req_action r \<in> {ActionReplay, ActionRecover} \<and> mID m = mid
      then written env (confirmedEntry r m d res reason) w else [])"
  by (auto simp: written_def is_replay_success_def)

lemmas frames = do_inspect_frame do_stats_frame do_publish_frame do_ack_frame

lemma execute_at_trace:
  assumes "execute_at env b r m dest w = (res, w')"
  shows "\<exists>p pk ak.
    wTrace w' = wTrace w @ [CStats dest False] \<and> \<not> is_Ok res \<or>
    wTrace w' = wTrace w @ [CStats dest True, CPublish dest (published_message r m) False] \<and> \<not> is_Ok res \<or>
    wTrace w' = wTrace w @ [CStats dest True, CPublish dest (published_message r m) True,
      CAck (rqQueue r) (rqMessageID r) (is_Ok res)]"
  using assms by (cases rule: execute_at_cases) (auto dest!: frames)

lemma Execute_trace:
  assumes "Execute env b r w = (res, w')"
  shows "\<exists>new. wTrace w' = wTrace w @ new \<and> ack_safe None new \<and> pub_safe [] new \<and>
    list_all (request_call r) new \<and>
    (is_Ok res \<longleftrightarrow> (\<exists>pre. new = pre @ [CAck (rqQueue r) (rqMessageID r) True]))"
  using assms
proof (cases rule: Execute_cases)
  case (at m dest w1)
  note rd = resolveDestination_Ok[OF at(3)]
  from at(2) have t1: "wTrace w1 = wTrace w @ [CInspect (rqQueue r) (rqMessageID r) True]"
    by (auto dest!: frames)
  from execute_at_trace[OF at(4)] t1 rd show ?thesis
    by (cases "is_Ok res") (auto simp: append_eq_Cons_conv)
qed (auto dest!: frames simp: append_eq_Cons_conv)


lemma try_append_one:
  assumes "wStore w \<noteq> None" and "\<forall>n. db_ok env n"
  shows "map eResult (wTrail (try_append env (confirmedEntry r m d res reason) w)) =
    map eResult (wTrail w) @ [res]"
  using assms by (auto simp: written_def)

lemma execute_at_audit:
  assumes "execute_at env b r m dest w = (res, w')"
    and "wStore w \<noteq> None" and "\<forall>n. db_ok env n"
  shows "\<exists>new x. wTrace w' = wTrace w @ new \<and> new \<noteq> [] \<and> call_outcome (last new) = Some x \<and>
    map eResult (wTrail w') = map eResult (wTrail w) @ [x]"
  using assms(1)
proof (cases rule: execute_at_cases)
  case (refused w1 e reason err)
  note f = do_stats_frame[OF refused(1)]
  show ?thesis unfolding refused(3)
    by (rule exI[of _ "[CStats dest False]"])
      (use f assms(2,3) in \<open>simp del: wTrail_try_append add: try_append_one\<close>)
next
  case (publish_failed w1 w2 x e err)
  note f = do_stats_frame[OF publish_failed(1)] do_publish_frame[OF publish_failed(2)]
  show ?thesis unfolding publish_failed(4)
    by (rule exI[of _ "[CStats dest True, CPublish dest (published_message r m) False]"])
      (use f assms(2,3) in \<open>simp del: wTrail_try_append add: try_append_one\<close>)
next
  case (ack_failed w1 w2 w3 x e err)
  note f = do_stats_frame[OF ack_failed(1)] do_publish_frame[OF ack_failed(2)]
    do_ack_frame[OF ack_failed(3)]
  show ?thesis unfolding ack_failed(5)
    by (rule exI[of _ "[CStats dest True, CPublish dest (published_message r m) True,
          CAck (rqQueue r) (rqMessageID r) False]"])
      (use f assms(2,3) in \<open>simp del: wTrail_try_append add: try_append_one\<close>)
next
  case (success w1 w2 w3 x)
  note f = do_stats_frame[OF success(1)] do_publish_frame[OF success(2)]
    do_ack_frame[OF success(3)]
  show ?thesis unfolding success(5)
    by (rule exI[of _ "[CStats dest True, CPublish dest (published_message r m) True,
          CAck (rqQueue r) (rqMessageID r) True]"])
      (use f assms(2,3) in \<open>simp del: wTrail_try_append add: try_append_one\<close>)
qed

lemma execute_at_no_evidence:
  assumes "execute_at env b r m dest w = (res, w')"
    and "\<not> (is_Ok res \<and> req_action r \<in> {ActionReplay, ActionRecover} \<and> mID m = mid)"
  shows "wEvidence mid w' = wEvidence mid w"
  using assms
  by (cases rule: execute_at_cases)
    (auto dest!: frames simp: wEvidence_try_append written_confirmed_evidence)

lemma execute_at_evidence:
  assumes "execute_at env b r m dest w = (Ok x, w')" and "req_action r = ActionReplay"
    and "wStore w \<noteq> None" and "\<forall>n. db_ok env n"
  shows "wEvidence (mID m) w' \<noteq> []"
  using assms
  by (cases rule: execute_at_cases)
    (auto dest!: frames simp: wEvidence_try_append written_def is_replay_success_def)

lemma DryRun_cases:
  assumes "DryRun env b r w = (res, w')"
  obtains
    (not_found) e where "do_inspect b (rqQueue r) (rqMessageID r) w = (Inl e, w')" "res = Inl e"
  | (no_destination) m e where "do_inspect b (rqQueue r) (rqMessageID r) w = (Inr m, w')" "res = Inl e"
  | (no_lookup) m w1 e1 e where "do_inspect b (rqQueue r) (rqMessageID r) w = (Inr m, w1)"
      "CheckAudit env m w1 = (Inl e1, w')" "res = Inl e"
  | (no_probe) m w1 dup w2 dest e1 e where "do_inspect b (rqQueue r) (rqMessageID r) w = (Inr m, w1)"
      "CheckAudit env m w1 = (Inr dup, w2)" "do_stats b dest w2 = (Inl e1, w')" "res = Inl e"
  | (previewed) m w1 dup w2 dest st w3 checks ws where
      "do_inspect b (rqQueue r) (rqMessageID r) w = (Inr m, w1)"
      "CheckAudit env m w1 = (Inr dup, w2)" "do_stats b dest w2 = (st, w3)"
      "dryRunPreview env r m dest dup checks (duplicateWarnings dup @ ws) w3 = (res, w')"
proof -
  obtain i w1 where i: "do_inspect b (rqQueue r) (rqMessageID r) w = (i, w1)" by fastforce
  show ?thesis
  proof (cases i)
    case (Inl e)
    with i assms show ?thesis by (intro not_found[of e]) (auto simp: DryRun_def)
  next
    case m: (Inr m)
    show ?thesis
    proof (cases "resolveDestination (rqDestination r) m")
      case (Inl e)
      with i m assms show ?thesis by (intro no_destination[of m e]) (auto simp: DryRun_def)
    next
      case d: (Inr dest)
      obtain c w2 where c: "CheckAudit env m w1 = (c, w2)" by fastforce
      obtain st w3 where st: "do_stats b dest w2 = (st, w3)" by fastforce
      show ?thesis
      proof (cases c)
        case (Inl e)
        with i m d c assms show ?thesis
          by (intro no_lookup[of m w1 e]) (auto simp: DryRun_def)
      next
        case dup: (Inr dup)
        show ?thesis
        proof (cases "\<exists>e. st = Inl e \<and> \<not> errors_is e ErrQueueNotFound")
          case True
          with i m d c dup st assms show ?thesis
            by (elim exE) (rule no_probe[of m w1 dup w2 dest], auto simp: DryRun_def)
        next
          case False
          with i m d c dup st assms show ?thesis
            by (cases st)
              (auto simp: DryRun_def Let_def
                intro: previewed[of m w1 dup w2 dest st w3 _ "[missing_warning dest]"]
                  previewed[of m w1 dup w2 dest st w3 _ "[]"])
        qed
      qed
    qed
  qed
qed

lemma DryRun_quiet:
  assumes "DryRun env b r w = (res, w')"
  obtains new v where "wTrace v = wTrace w @ new" "\<not> list_ex mutating new" "wStore v = wStore w"
    "w' = v \<or> (\<exists>m d ev c ws. dryRunPreview env r m d ev c ws v = (res, w'))"
  using assms
proof (cases rule: DryRun_cases)
  case (not_found e)
  from do_inspect_frame[OF this(1)] show ?thesis
    by (intro that[of w' "[CInspect (rqQueue r) (rqMessageID r) False]"]) auto
next
  case (no_destination m e)
  from do_inspect_frame[OF this(1)] show ?thesis
    by (intro that[of w' "[CInspect (rqQueue r) (rqMessageID r) True]"]) auto
next
  case (no_lookup m w1 e1 e)
  from do_inspect_frame[OF this(1)] CheckAudit_frames[OF this(2)] show ?thesis
    by (intro that[of w' "[CInspect (rqQueue r) (rqMessageID r) True]"]) auto
next
  case (no_probe m w1 dup w2 dest e1 e)
  from do_inspect_frame[OF this(1)] CheckAudit_frames[OF this(2)] do_stats_frame[OF this(3)]
  show ?thesis
    by (intro that[of w' "[CInspect (rqQueue r) (rqMessageID r) True, CStats dest False]"]) auto
next
  case (previewed m w1 dup w2 dest st w3 checks ws)
  from do_inspect_frame[OF this(1)] CheckAudit_frames[OF this(2)] do_stats_frame[OF this(3)] this(4)
  show ?thesis
    by (intro that[of w3 "[CInspect (rqQueue r) (rqMessageID r) True, CStats dest (is_Ok st)]"]) auto
qed

lemma dryRunPreview_effect:
  assumes "dryRunPreview env r m d ev c ws w = (res, w')"
  shows "wTrace w' = wTrace w" and "wEvidence mid w' = wEvidence mid w"
    and "\<exists>es. wTrail w' = wTrail w @ es \<and> length es \<le> 1 \<and>
      list_all (\<lambda>e. eDryRun e \<and> \<not> eConfirmed e \<and> eResult e = ''dry_run'') es"
  using assms
  by (auto simp: dryRunPreview_def dryRunEntry_def written_def wEvidence_try_append
      is_replay_success_def)

section \<open>Properties\<close>

text \<open>
  C1: whatever the broker answers, a replay acknowledges the DLQ copy only directly after a
  confirmed publish, publishes only to a destination whose existence probe succeeded, sends
  the patched payload when there is one, and touches no other message; it succeeds exactly
  when its last call is the confirmed Ack.
\<close>

theorem execute_publish_before_ack:
  "\<exists>new. wTrace (snd (Execute env b r w)) = wTrace w @ new \<and>
     ack_safe None new \<and> pub_safe [] new \<and> list_all (request_call r) new \<and>
     is_Ok (fst (Execute env b r w)) =
       (\<exists>pre. new = pre @ [CAck (rqQueue r) (rqMessageID r) True])"
  using Execute_trace[of env b r w "fst (Execute env b r w)" "snd (Execute env b r w)"] by auto

text \<open>
  A dry run performs no mutating call, writes at most one audit entry, which is marked
  as a dry run and not confirmed, and adds no duplicate evidence for any message.
\<close>

theorem dry_run_mutates_nothing:
  "\<exists>new es. wTrace (snd (DryRun env b r w)) = wTrace w @ new \<and> \<not> list_ex mutating new \<and>
     wTrail (snd (DryRun env b r w)) = wTrail w @ es \<and> length es \<le> 1 \<and>
     list_all (\<lambda>e. eDryRun e \<and> \<not> eConfirmed e \<and> eResult e = ''dry_run'') es \<and>
     wEvidence mid (snd (DryRun env b r w)) = wEvidence mid w"
proof -
  obtain res w' where dr: "DryRun env b r w = (res, w')" by fastforce
  then obtain new v where v: "wTrace v = wTrace w @ new" "\<not> list_ex mutating new"
      "wStore v = wStore w"
      "w' = v \<or> (\<exists>m d ev c ws. dryRunPreview env r m d ev c ws v = (res, w'))"
    by (rule DryRun_quiet)
  have e: "wTrail v = wTrail w" "wEvidence mid v = wEvidence mid w"
    using v(3) by simp_all
  from v(4) show ?thesis
  proof
    assume "w' = v"
    with v e dr show ?thesis by (intro exI[of _ new] exI[of _ "[]"]) simp
  next
    assume "\<exists>m d ev c ws. dryRunPreview env r m d ev c ws v = (res, w')"
    then obtain m d ev c ws where p: "dryRunPreview env r m d ev c ws v = (res, w')" by blast
    from dryRunPreview_effect[OF p] v e dr show ?thesis by auto
  qed
qed

text \<open>
  Without an explicit confirm, Execute returns ErrConfirmRequired and does nothing at all.
\<close>

theorem execute_needs_confirm:
  assumes "\<not> rqConfirm r"
  shows "Execute env b r w = (Err (Sentinel ErrConfirmRequired), w)"
  using assms by (simp add: Execute_def)

definition demo_request :: request where
  "demo_request = \<lparr>rqQueue = ''orders-dlq'', rqMessageID = ''m1'', rqDestination = [],
     rqBrokerName = ''rabbitmq'', rqProfile = ''prod'', rqReason = ''fixed'', rqConfirm = True,
     rqAction = [], rqPayload = None, rqDiff = []\<rparr>"

theorem execute_needs_confirm_witness:
  "Execute calm val_broker (demo_request\<lparr>rqConfirm := False\<rparr>) (val_world (val_server [''m1''])) =
     (Err (Sentinel ErrConfirmRequired), val_world (val_server [''m1'']))"
  by (rule execute_needs_confirm) (simp add: demo_request_def)

text \<open>
  With an open store whose writes succeed, every confirmed run that reaches the
  destination probe writes exactly one audit entry, and its result names what the broker
  calls did: refused, publish_failed, ack_failed or success; a run that stops before the
  probe writes none.
\<close>

theorem execute_audits_outcome:
  assumes "wStore w \<noteq> None" and "\<forall>n. db_ok env n"
  shows "\<exists>new. wTrace (snd (Execute env b r w)) = wTrace w @ new \<and>
    map eResult (wTrail (snd (Execute env b r w))) =
      map eResult (wTrail w) @ (case outcome_of new of None \<Rightarrow> [] | Some x \<Rightarrow> [x])"
proof -
  obtain res w' where ex: "Execute env b r w = (res, w')" by fastforce
  then show ?thesis
  proof (cases rule: Execute_cases)
    case unconfirmed
    with ex show ?thesis by (intro exI[of _ "[]"]) (simp add: outcome_of_def)
  next
    case (not_found e)
    with ex do_inspect_frame[OF not_found(3)] show ?thesis
      by (intro exI[of _ "[CInspect (rqQueue r) (rqMessageID r) False]"])
        (simp add: outcome_of_def)
  next
    case (no_destination m e)
    with ex do_inspect_frame[OF no_destination(3)] show ?thesis
      by (intro exI[of _ "[CInspect (rqQueue r) (rqMessageID r) True]"])
        (simp add: outcome_of_def)
  next
    case (at m dest w1)
    note f = do_inspect_frame[OF at(2)]
    with assms have "wStore w1 \<noteq> None" by simp
    from execute_at_audit[OF at(4) this assms(2)] obtain new x where
      "wTrace w' = wTrace w1 @ new" "new \<noteq> []" "call_outcome (last new) = Some x"
      "map eResult (wTrail w') = map eResult (wTrail w1) @ [x]" by blast
    with f ex show ?thesis
      by (intro exI[of _ "CInspect (rqQueue r) (rqMessageID r) True # new"])
        (simp add: outcome_of_def)
  qed
qed

theorem execute_audits_outcome_witness:
  "\<exists>new. wTrace (snd (Execute calm val_broker demo_request (val_world (val_server [''m1''])))) = new \<and>
    map eResult (wTrail (snd (Execute calm val_broker demo_request (val_world (val_server [''m1'']))))) =
      (case outcome_of new of None \<Rightarrow> [] | Some x \<Rightarrow> [x])"
  using execute_audits_outcome[of "val_world (val_server [''m1''])" calm val_broker demo_request]
  by simp

text \<open>
  A replay that failed adds no duplicate evidence for any message, so a retry is never
  reported as a duplicate of a failed attempt.
\<close>

theorem failed_replay_leaves_no_evidence:
  assumes "Execute env b r w = (Err e, w')"
  shows "wEvidence mid w' = wEvidence mid w"
  using assms
proof (cases rule: Execute_cases)
  case (at m dest w1)
  with execute_at_no_evidence[OF at(4)] do_inspect_frame[OF at(2)] show ?thesis
    by simp
qed (auto dest!: frames)

theorem failed_replay_leaves_no_evidence_witness:
  "wEvidence ''m1'' (snd (Execute calm val_broker demo_request
     (val_world ((val_server [''m1''])\<lparr>vbFailAck := [''m1'']\<rparr>)))) = []"
proof -
  let ?w = "val_world ((val_server [''m1''])\<lparr>vbFailAck := [''m1'']\<rparr>)"
  have "\<exists>e. fst (Execute calm val_broker demo_request ?w) = Err e"
    by (simp add: Execute_def execute_at_def demo_request_def resolveDestination_def
        published_message_def)
  then obtain e where "Execute calm val_broker demo_request ?w =
      (Err e, snd (Execute calm val_broker demo_request ?w))"
    by (metis prod.collapse)
  from failed_replay_leaves_no_evidence[OF this, of "''m1''"] show ?thesis
    by (simp)
qed

text \<open>
  After a successful replay the trail holds evidence of it, so the next dry run of that
  message reports the duplicate and warns.
\<close>

theorem replay_then_preview_warns:
  assumes run: "Execute env b r w = (Ok x, w1)"
    and act: "req_action r = ActionReplay"
    and store: "wStore w \<noteq> None" and db: "\<forall>n. db_ok env n"
    and again: "DryRun env b' r' (w1\<lparr>wServer := sv\<rparr>) = (Ok pv, w2)"
    and same: "mID (pvMessage pv) = xrMessageID x"
  shows "MatchFound (pvDuplicate pv) \<and> pvWarnings pv \<noteq> []"
proof -
  from run obtain m dest v1 where
    i: "do_inspect b (rqQueue r) (rqMessageID r) w = (Inr m, v1)" and
    at: "execute_at env b r m dest v1 = (Ok x, w1)"
    by (cases rule: Execute_cases) auto
  from at have xi: "xrMessageID x = mID m" by (cases rule: execute_at_cases) auto
  have "wStore v1 \<noteq> None" using store do_inspect_frame[OF i] by simp
  with execute_at_evidence[OF at act] db have ev: "wEvidence (xrMessageID x) w1 \<noteq> []"
    by (simp add: xi)
  from again show ?thesis
  proof (cases rule: DryRun_cases)
    case (previewed m' v2 dup v3 dest' st v4 checks ws)
    with same have "wEvidence (mID m') v2 \<noteq> []"
      using ev do_inspect_frame[OF previewed(1)]
      by (auto simp: dryRunPreview_def)
    with CheckAudit_match[OF previewed(2)] have "MatchFound dup" by simp
    with previewed(4) show ?thesis
      by (auto simp: duplicateWarnings_def dryRunPreview_def Let_def)
  qed simp_all
qed

theorem replay_then_preview_warns_witness:
  "\<exists>pv. fst (DryRun calm val_broker demo_request
      (snd (Execute calm val_broker demo_request (val_world (val_server [''m1'']))))) = Ok pv \<and>
     MatchFound (pvDuplicate pv) \<and> pvWarnings pv \<noteq> []"
proof -
  let ?w = "val_world (val_server [''m1''])"
  let ?w1 = "snd (Execute calm val_broker demo_request ?w)"
  obtain x where x: "Execute calm val_broker demo_request ?w = (Ok x, ?w1)"
    and xi: "xrMessageID x = ''m1''"
    by (simp add: Execute_def execute_at_def demo_request_def resolveDestination_def
        published_message_def confirmedEntry_def)
  obtain pv where pv: "DryRun calm val_broker demo_request ?w1 =
      (Ok pv, snd (DryRun calm val_broker demo_request ?w1))" and pm: "mID (pvMessage pv) = ''m1''"
    by (simp add: Execute_def execute_at_def demo_request_def resolveDestination_def
        published_message_def DryRun_def CheckAudit_cases try_append_store dryRunPreview_def)
  have "MatchFound (pvDuplicate pv) \<and> pvWarnings pv \<noteq> []"
    by (rule replay_then_preview_warns[OF x _ _ _ _, of val_broker demo_request "wServer ?w1"])
      (use pv pm xi in \<open>simp_all add: demo_request_def req_action_def\<close>)
  with pv show ?thesis by (metis fst_conv)
qed

text \<open>
  A successful patched replay leaves no duplicate evidence: its audit action is "patch",
  which the evidence query does not select, so replaying the message again is not reported
  as a duplicate.
\<close>

theorem patched_replay_leaves_no_evidence:
  assumes "rqAction r = ActionPatch"
  shows "wEvidence mid (snd (Execute env b r w)) = wEvidence mid w"
proof -
  obtain res w' where ex: "Execute env b r w = (res, w')" by fastforce
  then show ?thesis
  proof (cases rule: Execute_cases)
    case (at m dest w1)
    from assms have "\<not> req_action r \<in> {ActionReplay, ActionRecover}"
      by (simp add: req_action_def action_defs)
    with execute_at_no_evidence[OF at(4)] do_inspect_frame[OF at(2)] ex show ?thesis
      by simp
  qed (use ex in \<open>auto dest!: frames\<close>)
qed

theorem patched_replay_leaves_no_evidence_witness:
  "is_Ok (fst (Execute calm val_broker (demo_request\<lparr>rqAction := ActionPatch, rqPayload := Some ''[]''\<rparr>)
      (val_world (val_server [''m1''])))) \<and>
   wEvidence ''m1'' (snd (Execute calm val_broker
      (demo_request\<lparr>rqAction := ActionPatch, rqPayload := Some ''[]''\<rparr>)
      (val_world (val_server [''m1''])))) = []"
  using patched_replay_leaves_no_evidence[of
      "demo_request\<lparr>rqAction := ActionPatch, rqPayload := Some ''[]''\<rparr>" "''m1''" calm val_broker
      "val_world (val_server [''m1''])"]
  by (simp add: Execute_def execute_at_def demo_request_def resolveDestination_def
      published_message_def)

end
