(* ===== verification/Policy.thy ===== *)
theory Policy
  imports Message_Model Go_Errors
begin

text \<open>
  Recovery policies (\<^verbatim>\<open>internal/policy/policy.go\<close> and \<^verbatim>\<open>rules.go\<close>): the
  condition language, the validation of a policy document and the evaluation of its ordered
  rules. The YAML package is third-party code: the document arrives as the decoded raw
  rules, produced by a parameter \<open>unmarshal\<close> of \<open>Parse\<close>.
\<close>

section \<open>Data\<close>

type_synonym policy_action = string

definition PolicyReplay :: policy_action where "PolicyReplay = ''replay''"
definition PolicyRequireFix :: policy_action where "PolicyRequireFix = ''require_fix''"
definition PolicyDoNotReplay :: policy_action where "PolicyDoNotReplay = ''do_not_replay''"

lemmas policy_action_defs = PolicyReplay_def PolicyRequireFix_def PolicyDoNotReplay_def

record params =
  pMaxRetries :: "int option"
  pRequireIdempotencyKey :: bool

record condition =
  cField :: string
  cOp :: string
  cValue :: string

record rule =
  ruWhen :: string
  ruAction :: policy_action
  ruParams :: params
  ruParsed :: condition

type_synonym policy = "rule list"

text \<open>
  A decoded YAML value, as far as the program looks at it. A float and any other value
  (a list, a map, null) carry the text that Go's \<open>%v\<close> prints for them.
\<close>

datatype yaml =
    YInt int
  | YFloat rat string
  | YString string
  | YBool bool
  | YOther string

fun yaml_text :: "yaml \<Rightarrow> string" where
  "yaml_text (YInt n) = Itoa n"
| "yaml_text (YFloat x t) = t"
| "yaml_text (YString s) = s"
| "yaml_text (YBool b) = (if b then ''true'' else ''false'')"
| "yaml_text (YOther t) = t"

record raw_rule =
  rawWhen :: string
  rawAction :: string
  rawParams :: "(string \<times> yaml) list"

section \<open>Parsing a condition\<close>

text \<open>
  One step of \<open>splitExpr\<close> per byte: the tokens so far, the current token, the open quote.
\<close>

fun splitExpr_go :: "string \<Rightarrow> string list \<Rightarrow> string \<Rightarrow> char option \<Rightarrow> string list" where
  "splitExpr_go [] out cur q =
     (let out = (if cur \<noteq> [] then out @ [cur] else out)
      in if q \<noteq> None then [] else out)"
| "splitExpr_go (r # s) out cur q =
     (case q of
        Some c \<Rightarrow> splitExpr_go s out (cur @ [r]) (if r = c then None else q)
      | None \<Rightarrow>
          if r = CHR 0x27 \<or> r = CHR 0x22 then splitExpr_go s out (cur @ [r]) (Some r)
          else if r = CHR 0x20 \<or> r = CHR 0x09
          then (if cur \<noteq> [] then splitExpr_go s (out @ [cur]) [] None
                else splitExpr_go s out cur None)
          else splitExpr_go s out (cur @ [r]) None)"

definition splitExpr :: "string \<Rightarrow> string list" where
  "splitExpr e = splitExpr_go e [] [] None"

definition unquote :: "string \<Rightarrow> string" where
  "unquote s =
     (if length s \<ge> 2 \<and>
         (hd s = CHR 0x22 \<and> last s = CHR 0x22 \<or> hd s = CHR 0x27 \<and> last s = CHR 0x27)
      then butlast (tl s) else s)"

definition text_fields :: "string list" where
  "text_fields = [''error'', ''event_type'', ''destination'']"

definition text_ops :: "string list" where
  "text_ops = [''=='', ''!='', ''contains'']"

definition retry_ops :: "string list" where
  "retry_ops = [''=='', ''!='', ''>'', ''>='', ''<'', ''<='']"

definition parseCondition :: "string \<Rightarrow> (goerr, condition) result" where
  "parseCondition expr =
     (case splitExpr expr of
        [field, op, tok] \<Rightarrow>
          (let value = unquote tok in
           if field \<in> set text_fields then
             (if op \<in> set text_ops then Ok \<lparr>cField = field, cOp = op, cValue = value\<rparr>
              else Err (Text (''when '' @ Quote expr @ '': op '' @ Quote op
                     @ '' is not valid for text field '' @ Quote field
                     @ '' (want ==, !=, contains)'')))
           else if field = ''retries'' then
             (if op \<notin> set retry_ops
              then Err (Text (''when '' @ Quote expr @ '': op '' @ Quote op
                     @ '' is not valid for retries (want ==, !=, >, >=, <, <=)''))
              else if Atoi value = None
              then Err (Text (''when '' @ Quote expr @ '': retries value '' @ Quote value
                     @ '' is not an integer''))
              else Ok \<lparr>cField = field, cOp = op, cValue = value\<rparr>)
           else Err (Text (''when '' @ Quote expr @ '': unknown field '' @ Quote field
                  @ '' (want error, event_type, destination, or retries)'')))
      | _ \<Rightarrow> Err (Text (''when must be \"<field> <op> <value>\" (got '' @ Quote expr @ '')'')))"

section \<open>Params\<close>

text \<open>
  \<open>toInt\<close>: a float is accepted when the conversion to int and back is exact, which needs an
  integral value in the range of a 64-bit int.
\<close>

definition toInt :: "yaml \<Rightarrow> int option" where
  "toInt v =
     (case v of
        YInt n \<Rightarrow> Some n
      | YFloat x _ \<Rightarrow>
          (if x \<noteq> of_int \<lfloor>x\<rfloor> \<or> \<lfloor>x\<rfloor> < minInt \<or> \<lfloor>x\<rfloor> > maxInt then None else Some \<lfloor>x\<rfloor>)
      | YString s \<Rightarrow> Atoi s
      | _ \<Rightarrow> None)"

definition max_retries_error :: "yaml \<Rightarrow> goerr" where
  "max_retries_error v =
     Text (''max_retries must be a non-negative integer (got '' @ yaml_text v @ '')'')"

fun parseParams_go :: "(string \<times> yaml) list \<Rightarrow> params \<Rightarrow> (goerr, params) result" where
  "parseParams_go [] p = Ok p"
| "parseParams_go ((k, v) # m) p =
     (if k = ''max_retries'' then
        (case toInt v of
           Some n \<Rightarrow> if n < 0 then Err (max_retries_error v)
                     else parseParams_go m (p\<lparr>pMaxRetries := Some n\<rparr>)
         | None \<Rightarrow> Err (max_retries_error v))
      else if k = ''require_idempotency_key'' then
        (case v of
           YBool b \<Rightarrow> parseParams_go m (p\<lparr>pRequireIdempotencyKey := b\<rparr>)
         | _ \<Rightarrow> Err (Text (''require_idempotency_key must be true or false (got ''
                    @ yaml_text v @ '')'')))
      else Err (Text (''unknown param '' @ Quote k
                    @ '' (want max_retries or require_idempotency_key)'')))"

definition no_params :: params where
  "no_params = \<lparr>pMaxRetries = None, pRequireIdempotencyKey = False\<rparr>"

definition parseParams :: "(string \<times> yaml) list \<Rightarrow> (goerr, params) result" where
  "parseParams m = parseParams_go m no_params"

section \<open>Parsing a document\<close>

definition known_actions :: "policy_action list" where
  "known_actions = [PolicyReplay, PolicyRequireFix, PolicyDoNotReplay]"

definition err_list :: "('e, 'a) result \<Rightarrow> 'e list" where
  "err_list r = (case r of Inl e \<Rightarrow> [e] | Inr _ \<Rightarrow> [])"

definition zero_condition :: condition where
  "zero_condition = \<lparr>cField = [], cOp = [], cValue = []\<rparr>"

text \<open>One iteration of the loop of \<open>Parse\<close>: the rule it appends and the problems it reports.\<close>

definition parse_rule :: "raw_rule \<Rightarrow> rule list \<times> goerr list" where
  "parse_rule r =
     (if rawWhen r = [] then ([], [Text ''missing when''])
      else
        let cond = parseCondition (rawWhen r);
            known = rawAction r \<in> set known_actions;
            params = parseParams (rawParams r)
        in ([\<lparr>ruWhen = rawWhen r,
              ruAction = (if known then rawAction r else []),
              ruParams = (case params of Inr p \<Rightarrow> p | Inl _ \<Rightarrow> no_params),
              ruParsed = (case cond of Inr c \<Rightarrow> c | Inl _ \<Rightarrow> zero_condition)\<rparr>],
            err_list cond @ (if known then [] else [Text (''unknown action '' @ Quote (rawAction r)
                                @ '' (want replay, require_fix, or do_not_replay)'')])
            @ err_list params))"

fun parse_rules :: "nat \<Rightarrow> raw_rule list \<Rightarrow> rule list \<times> goerr list" where
  "parse_rules i [] = ([], [])"
| "parse_rules i (r # rs) =
     (let (us, es) = parse_rule r; (us', es') = parse_rules (Suc i) rs
      in (us @ us', map (\<lambda>e. Wrap (''rule '' @ Itoa (int i + 1) @ '': '') e []) es @ es'))"

definition Parse ::
    "(string \<Rightarrow> (goerr, raw_rule list) result) \<Rightarrow> string \<Rightarrow> (goerr, policy) result" where
  "Parse unmarshal data =
     (case unmarshal data of
        Inl e \<Rightarrow> Err (Wrap ''parse policy: '' e [])
      | Inr raw \<Rightarrow>
          if raw = [] then Err (Text ''policy has no rules'')
          else let (us, es) = parse_rules 0 raw
               in if es \<noteq> [] then Err (Text (Join (map error_text es) ''; '')) else Ok us)"

section \<open>Evaluation\<close>

definition matchText :: "string \<Rightarrow> string \<Rightarrow> string \<Rightarrow> bool" where
  "matchText s op value =
     (if op = ''=='' then EqualFold s value
      else if op = ''!='' then \<not> EqualFold s value
      else if op = ''contains'' then Contains (ToLower s) (ToLower value)
      else False)"

definition policy_eventType :: "message \<Rightarrow> string" where
  "policy_eventType m = first_header (mHeaders m) event_type_keys"

definition cond_matches :: "condition \<Rightarrow> message \<Rightarrow> bool" where
  "cond_matches c m =
     (if cField c = ''error'' then matchText (mFailureReason m) (cOp c) (cValue c)
      else if cField c = ''event_type'' then matchText (policy_eventType m) (cOp c) (cValue c)
      else if cField c = ''destination'' then matchText (mDestination m) (cOp c) (cValue c)
      else if cField c = ''retries'' then
        (let n = Atoi_value (cValue c) in
         if cOp c = ''=='' then mRetryCount m = n
         else if cOp c = ''!='' then mRetryCount m \<noteq> n
         else if cOp c = ''>'' then mRetryCount m > n
         else if cOp c = ''>='' then mRetryCount m \<ge> n
         else if cOp c = ''<'' then mRetryCount m < n
         else if cOp c = ''<='' then mRetryCount m \<le> n
         else False)
      else False)"

definition paramsSatisfied :: "rule \<Rightarrow> message \<Rightarrow> bool" where
  "paramsSatisfied r m =
     (if (case pMaxRetries (ruParams r) of None \<Rightarrow> False | Some n \<Rightarrow> mRetryCount m > n) then False
      else if pRequireIdempotencyKey (ruParams r) \<and> mIdempotencyKey m = [] then False
      else True)"

text \<open>The loop of \<open>(*Policy).Match\<close>.\<close>

fun policy_match :: "policy \<Rightarrow> message \<Rightarrow> rule option" where
  "policy_match [] m = None"
| "policy_match (r # rs) m =
     (if cond_matches (ruParsed r) m \<and> paramsSatisfied r m then Some r else policy_match rs m)"

section \<open>Lemmas\<close>

definition rule_applies :: "rule \<Rightarrow> message \<Rightarrow> bool" where
  "rule_applies r m = (cond_matches (ruParsed r) m \<and> paramsSatisfied r m)"

lemma policy_match_find: "policy_match p m = find (\<lambda>r. rule_applies r m) p"
  by (induction p) (auto simp: rule_applies_def)

lemma policy_match_in: "policy_match p m = Some r \<Longrightarrow> r \<in> set p \<and> rule_applies r m"
  by (simp add: policy_match_find) (metis find_Some_iff nth_mem)

text \<open>A condition \<open>Parse\<close> accepts.\<close>

definition valid_condition :: "condition \<Rightarrow> bool" where
  "valid_condition c =
     (cField c \<in> set text_fields \<and> cOp c \<in> set text_ops \<or>
      cField c = ''retries'' \<and> cOp c \<in> set retry_ops \<and> Atoi (cValue c) \<noteq> None)"

definition valid_rule :: "rule \<Rightarrow> bool" where
  "valid_rule r = (valid_condition (ruParsed r) \<and> ruAction r \<in> set known_actions \<and>
     parseCondition (ruWhen r) = Ok (ruParsed r) \<and>
     (case pMaxRetries (ruParams r) of None \<Rightarrow> True | Some n \<Rightarrow> 0 \<le> n))"

lemma parseCondition_valid: "parseCondition e = Inr c \<Longrightarrow> valid_condition c"
  by (auto simp: parseCondition_def valid_condition_def Let_def split: list.splits if_splits)

lemma parseParams_go_nonneg:
  "parseParams_go m p = Inr q \<Longrightarrow> (case pMaxRetries p of None \<Rightarrow> True | Some n \<Rightarrow> 0 \<le> n) \<Longrightarrow>
   (case pMaxRetries q of None \<Rightarrow> True | Some n \<Rightarrow> 0 \<le> n)"
proof (induction m p rule: parseParams_go.induct)
  case (2 k v m p)
  then show ?case by (auto split: if_splits option.splits yaml.splits)
qed simp

lemma parseParams_nonneg:
  "parseParams m = Inr q \<Longrightarrow> (case pMaxRetries q of None \<Rightarrow> True | Some n \<Rightarrow> 0 \<le> n)"
  unfolding parseParams_def by (drule parseParams_go_nonneg) (simp_all add: no_params_def)

lemma parse_rule_valid:
  "parse_rule r = (us, []) \<Longrightarrow> \<exists>u. us = [u] \<and> valid_rule u \<and> ruWhen u = rawWhen r"
  by (auto simp: parse_rule_def Let_def err_list_def valid_rule_def
      parseCondition_valid parseParams_nonneg split: if_splits sum.splits)

lemma parse_rules_valid:
  "parse_rules i rs = (us, []) \<Longrightarrow> list_all valid_rule us \<and> map ruWhen us = map rawWhen rs"
proof (induction i rs arbitrary: us rule: parse_rules.induct)
  case (2 i r rs)
  obtain u es where p: "parse_rule r = (u, es)" by fastforce
  obtain u' es' where q: "parse_rules (Suc i) rs = (u', es')" by fastforce
  from 2(2) p q have "es = []" "es' = []" and us: "us = u @ u'" by auto
  with parse_rule_valid[of r u] p obtain v where "u = [v]" "valid_rule v" "ruWhen v = rawWhen r" by auto
  moreover have "list_all valid_rule u' \<and> map ruWhen u' = map rawWhen rs"
    using 2(1)[OF p[symmetric] refl] q \<open>es' = []\<close> by blast
  ultimately show ?case using us by simp
qed simp

section \<open>Properties\<close>

text \<open>
  C3: the first rule wins. \<open>Match\<close> returns a rule exactly when it is the earliest rule of
  the policy whose condition holds and whose params are satisfied, and no rule exactly when
  none applies.
\<close>

theorem match_is_first_applicable:
  "policy_match p m = Some r \<longleftrightarrow>
     (\<exists>i<length p. p ! i = r \<and> rule_applies r m \<and> \<not> list_ex (\<lambda>r. rule_applies r m) (take i p))"
proof
  assume "policy_match p m = Some r"
  then obtain i where i: "i < length p" "rule_applies (p ! i) m" "r = p ! i"
      "\<forall>j<i. \<not> rule_applies (p ! j) m"
    by (auto simp: policy_match_find find_Some_iff)
  then have "\<not> list_ex (\<lambda>r. rule_applies r m) (take i p)"
    by (auto simp: list_ex_iff in_set_conv_nth)
  with i show "\<exists>i<length p. p ! i = r \<and> rule_applies r m \<and> \<not> list_ex (\<lambda>r. rule_applies r m) (take i p)"
    by blast
next
  assume "\<exists>i<length p. p ! i = r \<and> rule_applies r m \<and> \<not> list_ex (\<lambda>r. rule_applies r m) (take i p)"
  then obtain i where i: "i < length p" "p ! i = r" "rule_applies r m"
      "\<not> list_ex (\<lambda>r. rule_applies r m) (take i p)" by blast
  then have "\<forall>j<i. \<not> rule_applies (p ! j) m"
    by (auto simp: list_ex_iff in_set_conv_nth Bex_def)
  with i show "policy_match p m = Some r"
    by (auto simp: policy_match_find find_Some_iff)
qed

text \<open>
  C15: a policy that \<open>Parse\<close> accepts has one rule per rule of the document, in order, and
  every rule has a well-formed condition (the one its text parses to), a known action and a
  non-negative retry gate; so the classifier's "unreachable" branch is never taken.
\<close>

theorem parse_accepts_only_valid:
  assumes "Parse unmarshal data = Ok p"
  shows "list_all valid_rule p \<and> p \<noteq> [] \<and>
    (\<exists>raw. unmarshal data = Ok raw \<and> map ruWhen p = map rawWhen raw)"
proof -
  from assms obtain raw where raw: "unmarshal data = Inr raw" "raw \<noteq> []" "parse_rules 0 raw = (p, [])"
    by (auto simp: Parse_def split: sum.splits prod.splits if_splits)
  with parse_rules_valid[OF raw(3)] show ?thesis by auto
qed

definition demo_raw :: "raw_rule list" where
  "demo_raw = [\<lparr>rawWhen = ''error contains timeout'', rawAction = ''replay'',
                rawParams = [(''max_retries'', YInt 3)]\<rparr>]"

theorem parse_accepts_only_valid_witness:
  "\<exists>p. Parse (\<lambda>_. Ok demo_raw) ''doc'' = Ok p \<and> list_all valid_rule p \<and> p \<noteq> []"
proof -
  obtain p where p: "Parse (\<lambda>_. Ok demo_raw) ''doc'' = Ok p"
    by (simp add: Parse_def demo_raw_def parse_rule_def parseCondition_def splitExpr_def
        text_fields_def text_ops_def unquote_def known_actions_def policy_action_defs
        parseParams_def toInt_def err_list_def)
  with parse_accepts_only_valid[OF p] show ?thesis by blast
qed

text \<open>
  C5: a quoted text value survives parsing: for every value without a double quote,
  \<open>error contains "value"\<close> parses to exactly that field, operator and value, spaces
  included.
\<close>

lemma splitExpr_go_quoted:
  "CHR 0x22 \<notin> set v \<Longrightarrow>
   splitExpr_go (v @ [CHR 0x22]) out cur (Some (CHR 0x22)) = out @ [cur @ v @ [CHR 0x22]]"
  by (induction v arbitrary: cur) auto

theorem quoted_value_roundtrip:
  assumes "CHR 0x22 \<notin> set v"
  shows "parseCondition (''error contains '' @ [CHR 0x22] @ v @ [CHR 0x22]) =
    Ok \<lparr>cField = ''error'', cOp = ''contains'', cValue = v\<rparr>"
proof -
  have "splitExpr (''error contains '' @ [CHR 0x22] @ v @ [CHR 0x22]) =
      [''error'', ''contains'', CHR 0x22 # v @ [CHR 0x22]]"
    using splitExpr_go_quoted[OF assms, of "[''error'', ''contains'']" "[CHR 0x22]"]
    by (simp add: splitExpr_def)
  then show ?thesis
    by (simp add: parseCondition_def text_fields_def text_ops_def unquote_def)
qed

theorem quoted_value_roundtrip_witness:
  "parseCondition (''error contains '' @ [CHR 0x22] @ ''rate limit'' @ [CHR 0x22]) =
     Ok \<lparr>cField = ''error'', cOp = ''contains'', cValue = ''rate limit''\<rparr>"
  by (rule quoted_value_roundtrip) simp

text \<open>
  A rule with a retry gate never decides a message that was retried more often, and a
  rule that requires an idempotency key never decides a message without one.
\<close>

theorem match_respects_params:
  assumes "policy_match p m = Some r"
  shows "\<not> (\<exists>n. pMaxRetries (ruParams r) = Some n \<and> n < mRetryCount m) \<and>
    \<not> (pRequireIdempotencyKey (ruParams r) \<and> mIdempotencyKey m = [])"
  using policy_match_in[OF assms]
  by (auto simp: rule_applies_def paramsSatisfied_def split: if_splits option.splits)

definition demo_rule :: rule where
  "demo_rule = \<lparr>ruWhen = ''error contains timeout'', ruAction = PolicyReplay,
     ruParams = no_params\<lparr>pMaxRetries := Some 3\<rparr>,
     ruParsed = \<lparr>cField = ''error'', cOp = ''contains'', cValue = ''timeout''\<rparr>\<rparr>"

theorem match_respects_params_witness:
  "policy_match [demo_rule] (empty_message\<lparr>mFailureReason := ''Timeout'', mRetryCount := 2\<rparr>) =
     Some demo_rule \<and> \<not> (3::int) < 2"
proof -
  let ?m = "empty_message\<lparr>mFailureReason := ''Timeout'', mRetryCount := 2\<rparr>"
  have "policy_match [demo_rule] ?m = Some demo_rule"
    by (simp add: demo_rule_def cond_matches_def matchText_def paramsSatisfied_def no_params_def
        empty_message_def ToLower_def is_upper_byte_def HasPrefix_def)
  with match_respects_params[OF this] show ?thesis
    by (simp add: demo_rule_def)
qed

end
