(* ===== verification/Classifier.thy ===== *)
theory Classifier
  imports Policy
begin

text \<open>
  The rule-based classifier of \<^verbatim>\<open>internal/recovery/classifier.go\<close> and its policy
  override. Confidences are exact rationals: the code only stores and prints the decimal
  constants below. A nil policy is \<^const>\<open>None\<close>.
\<close>

section \<open>Data\<close>

datatype classification = Replayable | RequiresFix | DoNotReplay | Investigate

fun classification_text :: "classification \<Rightarrow> string" where
  "classification_text Replayable = ''REPLAYABLE''"
| "classification_text RequiresFix = ''REQUIRES_FIX''"
| "classification_text DoNotReplay = ''DO_NOT_REPLAY''"
| "classification_text Investigate = ''INVESTIGATE''"

record class_result =
  crMessageID :: string
  crClass :: classification
  crReason :: string
  crConfidence :: rat
  crDuplicateOf :: "string option"
  crSource :: string
  crSkipReason :: string
  crJevModel :: string
  crReplayRisk :: rat

section \<open>The keyword rules\<close>

definition highRetry :: int where "highRetry = 6"

definition transientKeywords :: "string list" where
  "transientKeywords =
    [''timeout'', ''timed out'', ''deadline'', ''temporary'', ''temporarily'',
     ''unavailable'', ''connection'', ''refused'', ''reset'', ''interrupted'',
     ''unreachable'', ''throttl'', ''rate limit'', ''too many requests'',
     ''circuit'', ''network'', ''try again'', ''transient'',
     ''5xx'', ''http 5'', ''502'', ''503'', ''504'']"

definition permanentKeywords :: "string list" where
  "permanentKeywords =
    [''invalid'', ''validation'', ''malformed'', ''parse'', ''deserial'',
     ''schema'', ''constraint'', ''unauthorized'', ''forbidden'', ''permission'',
     ''denied'', ''not found'', ''unsupported'', ''rejected'', ''expired'',
     ''missing field'', ''required field'', ''unknown'',
     ''400'', ''401'', ''403'', ''404'', ''409'', ''422'']"

definition dupKeywords :: "string list" where
  "dupKeywords = [''duplicate'', ''already'', ''idempotency'', ''replayed'', ''processed'', ''dedup'']"

fun hasAny :: "string \<Rightarrow> string list \<Rightarrow> bool" where
  "hasAny s [] = False"
| "hasAny s (n # ns) = (if Contains s n then True else hasAny s ns)"

definition rules_result :: "message \<Rightarrow> classification \<Rightarrow> string \<Rightarrow> rat \<Rightarrow> class_result" where
  "rules_result m c reason conf =
     \<lparr>crMessageID = mID m, crClass = c, crReason = reason, crConfidence = conf,
      crDuplicateOf = None, crSource = ''rules'', crSkipReason = [], crJevModel = [],
      crReplayRisk = 0\<rparr>"

definition Classify :: "message \<Rightarrow> class_result" where
  "Classify m =
     (if hget (mHeaders m) ''x-duplicate-of'' \<noteq> []
      then (rules_result m DoNotReplay
              (''message header x-duplicate-of marks it as a duplicate of ''
                @ hget (mHeaders m) ''x-duplicate-of'') (9/10))
             \<lparr>crDuplicateOf := Some (hget (mHeaders m) ''x-duplicate-of'')\<rparr>
      else
        let reason = ToLower (mFailureReason m);
            dup = hasAny reason dupKeywords;
            transient = hasAny reason transientKeywords;
            permanent = hasAny reason permanentKeywords
        in if dup
           then rules_result m DoNotReplay
                  ''failure text indicates a duplicate or already-processed event'' (9/10)
           else if transient \<and> permanent
           then rules_result m Investigate
                  ''failure text has both transient and permanent signals'' (5/10)
           else if transient
           then (if mRetryCount m \<ge> highRetry
                 then rules_result m Investigate
                        (''transient-looking failure but retry count is already high'' @ dash_sep
                          @ ''the cause may be persistent'') (6/10)
                 else rules_result m Replayable
                        ''failure appears transient (timeout, connection, throttling, 5xx)'' (8/10))
           else if permanent
           then rules_result m RequiresFix
                  (''failure appears permanent (validation, authorization, schema, 4xx)''
                    @ dash_sep @ ''fix before replaying'') (8/10)
           else if mFailureReason m = []
           then rules_result m Investigate ''no failure reason recorded'' (4/10)
           else rules_result m Investigate ''failure text did not match any known signal'' (5/10))"

section \<open>The policy override\<close>

definition policy_class :: "policy_action \<Rightarrow> classification option" where
  "policy_class a =
     (if a = PolicyReplay then Some Replayable
      else if a = PolicyRequireFix then Some RequiresFix
      else if a = PolicyDoNotReplay then Some DoNotReplay
      else None)"

definition ClassifyWithPolicy :: "message \<Rightarrow> policy option \<Rightarrow> class_result" where
  "ClassifyWithPolicy m po =
     (let res = Classify m
      in case po of
           None \<Rightarrow> res
         | Some p \<Rightarrow>
             if hget (mHeaders m) ''x-duplicate-of'' \<noteq> [] then res
             else case policy_match p m of
                    None \<Rightarrow> res
                  | Some rule \<Rightarrow>
                      (case policy_class (ruAction rule) of
                         None \<Rightarrow> res
                       | Some cls \<Rightarrow>
                           res\<lparr>crClass := cls,
                               crReason := ''policy rule '' @ Quote (ruWhen rule) @ '': '' @ ruAction rule,
                               crConfidence := 9/10, crSource := ''policy''\<rparr>))"

section \<open>Lemmas\<close>

text \<open>The three signals the code reads off a failure text.\<close>

abbreviation duplicate_text :: "message \<Rightarrow> bool" where
  "duplicate_text m \<equiv> hasAny (ToLower (mFailureReason m)) dupKeywords"

abbreviation transient_text :: "message \<Rightarrow> bool" where
  "transient_text m \<equiv> hasAny (ToLower (mFailureReason m)) transientKeywords"

abbreviation permanent_text :: "message \<Rightarrow> bool" where
  "permanent_text m \<equiv> hasAny (ToLower (mFailureReason m)) permanentKeywords"

abbreviation marked_duplicate :: "message \<Rightarrow> bool" where
  "marked_duplicate m \<equiv> hget (mHeaders m) ''x-duplicate-of'' \<noteq> []"

lemma hasAny_iff: "hasAny s ns \<longleftrightarrow> (\<exists>n\<in>set ns. Contains s n)"
  by (induction ns) auto

lemma hasAny_append: "hasAny s ns \<Longrightarrow> hasAny (u @ s @ v) ns"
  by (auto simp: hasAny_iff intro: Contains_append)

lemma rules_result_simps [simp]:
  "crMessageID (rules_result m c r f) = mID m" "crClass (rules_result m c r f) = c"
  "crReason (rules_result m c r f) = r" "crConfidence (rules_result m c r f) = f"
  "crSource (rules_result m c r f) = ''rules''" "crDuplicateOf (rules_result m c r f) = None"
  by (simp_all add: rules_result_def)

lemmas policy_class_simps = policy_class_def policy_action_defs

lemma Classify_marked: "marked_duplicate m \<Longrightarrow> crClass (Classify m) = DoNotReplay"
  by (simp add: Classify_def)

lemma ClassifyWithPolicy_marked: "marked_duplicate m \<Longrightarrow> ClassifyWithPolicy m po = Classify m"
  by (simp add: ClassifyWithPolicy_def Let_def split: option.splits)

lemma ClassifyWithPolicy_match:
  "\<not> marked_duplicate m \<Longrightarrow> policy_match p m = Some r \<Longrightarrow> policy_class (ruAction r) = Some c \<Longrightarrow>
     crClass (ClassifyWithPolicy m (Some p)) = c \<and> crSource (ClassifyWithPolicy m (Some p)) = ''policy''"
  by (simp add: ClassifyWithPolicy_def Let_def)

lemma ClassifyWithPolicy_nomatch:
  "policy_match p m = None \<Longrightarrow> ClassifyWithPolicy m (Some p) = Classify m"
  by (simp add: ClassifyWithPolicy_def Let_def)

section \<open>Properties\<close>

text \<open>
  The decision table of the classifier. Replaying is recommended exactly for an unmarked
  message whose text has a transient signal, no duplicate and no permanent signal, and a
  retry count below the threshold; a fix exactly for a permanent signal alone; a refusal
  exactly for the header or a duplicate signal; everything else is left to the operator.
\<close>

theorem classify_decision_table:
  "(crClass (Classify m) = Replayable \<longleftrightarrow>
     \<not> marked_duplicate m \<and> \<not> duplicate_text m \<and> transient_text m \<and> \<not> permanent_text m
     \<and> mRetryCount m < 6) \<and>
   (crClass (Classify m) = RequiresFix \<longleftrightarrow>
     \<not> marked_duplicate m \<and> \<not> duplicate_text m \<and> \<not> transient_text m \<and> permanent_text m) \<and>
   (crClass (Classify m) \<noteq> DoNotReplay \<longleftrightarrow> \<not> marked_duplicate m \<and> \<not> duplicate_text m) \<and>
   (crClass (Classify m) = Investigate \<longleftrightarrow>
     \<not> marked_duplicate m \<and> \<not> duplicate_text m \<and>
     (transient_text m = permanent_text m \<or> transient_text m \<and> 6 \<le> mRetryCount m))"
  by (auto simp: Classify_def Let_def highRetry_def)

text \<open>
  C16: the policy gate. With a policy, the outcome of an unmarked message is the action of the
  first rule that applies, whatever the failure text says; when no rule applies, the
  classifier's inference stands; and no policy can touch a message the application itself
  marked as a duplicate.
\<close>

theorem policy_gate:
  assumes "\<forall>r. r \<in> set p \<longrightarrow> valid_rule r"
  shows "crClass (ClassifyWithPolicy m (Some p)) =
    (if marked_duplicate m then DoNotReplay
     else case find (\<lambda>r. rule_applies r m) p of
            None \<Rightarrow> crClass (Classify m)
          | Some r \<Rightarrow> if ruAction r = ''replay'' then Replayable
                      else if ruAction r = ''require_fix'' then RequiresFix else DoNotReplay)"
proof (cases "marked_duplicate m")
  case True
  then show ?thesis by (simp add: ClassifyWithPolicy_marked Classify_marked)
next
  case False
  show ?thesis
  proof (cases "policy_match p m")
    case None
    with False show ?thesis by (simp add: ClassifyWithPolicy_nomatch flip: policy_match_find)
  next
    case (Some r)
    with assms have "ruAction r \<in> set known_actions"
      by (auto dest: policy_match_in simp: valid_rule_def)
    with False Some show ?thesis
      by (auto simp: ClassifyWithPolicy_def Let_def policy_class_simps known_actions_def
          simp flip: policy_match_find)
  qed
qed

theorem policy_gate_witness:
  "crClass (ClassifyWithPolicy (empty_message\<lparr>mFailureReason := ''Timeout: already processed''\<rparr>)
     (Some [demo_rule])) = Replayable"
proof -
  have "valid_rule demo_rule"
    by (simp add: demo_rule_def valid_rule_def valid_condition_def parseCondition_def splitExpr_def
        text_fields_def text_ops_def unquote_def known_actions_def policy_action_defs no_params_def)
  then have "\<forall>r. r \<in> set [demo_rule] \<longrightarrow> valid_rule r" by simp
  from policy_gate[OF this] show ?thesis
    by (simp add: rule_applies_def demo_rule_def cond_matches_def matchText_def paramsSatisfied_def
        no_params_def empty_message_def PolicyReplay_def text_evals)
qed

text \<open>
  A duplicate keyword anywhere in the failure text decides the class, in any letter case
  and with any text around it: transient or permanent signals next to it change nothing.
\<close>

theorem duplicate_keyword_dominates:
  assumes "k \<in> set dupKeywords" and "ToLower t = u @ k @ v"
  shows "crClass (Classify (m\<lparr>mFailureReason := t\<rparr>)) = DoNotReplay"
proof -
  have "hasAny (ToLower t) dupKeywords"
    using assms by (auto simp: hasAny_iff Contains_iff)
  then show ?thesis by (simp add: Classify_def Let_def)
qed

text \<open>
  The witness also shows the price of substring matching: a transient failure whose text says
  that the message could not be processed is taken for a duplicate.
\<close>

theorem duplicate_keyword_dominates_witness:
  "crClass (Classify (empty_message\<lparr>mFailureReason := ''Timeout: could not be processed''\<rparr>)) = DoNotReplay"
proof -
  have "''processed'' \<in> set dupKeywords" by (simp add: dupKeywords_def)
  moreover have "ToLower ''Timeout: could not be processed'' = ''timeout: could not be '' @ ''processed'' @ []"
    by (simp add: text_evals)
  ultimately show ?thesis by (rule duplicate_keyword_dominates)
qed

end
