(* ===== verification/Json_Syntax.thy ===== *)
theory Json_Syntax
  imports Go_Strings
begin

text \<open>
  JSON text as Go's \<^verbatim>\<open>encoding/json\<close> reads it: a value of the grammar of RFC 8259,
  nested at most 10000 deep. A number keeps its literal text; a string is the byte string it
  denotes (\<open>\u\<close> escapes as UTF-8, an unpaired surrogate and each byte that is not part of a
  valid UTF-8 sequence as U+FFFD). Every recursive call is on a shorter
  rest; the guards that say so to the termination proof always hold
  (\<open>parse_value_shorter\<close>).
\<close>

section \<open>Values\<close>

datatype json =
    JNull
  | JBool bool
  | JNum string
  | JStr string
  | JArr "json list"
  | JObj "(string \<times> json) list"

definition json_space :: "char \<Rightarrow> bool" where
  "json_space c = (c \<in> set [CHR 0x20, CHR 0x09, CHR 0x0A, CHR 0x0D])"

definition skip_space :: "string \<Rightarrow> string" where
  "skip_space s = dropWhile json_space s"

section \<open>Strings\<close>

definition hex_val :: "char \<Rightarrow> nat option" where
  "hex_val c = (let n = (of_char c :: nat) in
     if 48 \<le> n \<and> n \<le> 57 then Some (n - 48)
     else if 65 \<le> n \<and> n \<le> 70 then Some (n - 55)
     else if 97 \<le> n \<and> n \<le> 102 then Some (n - 87) else None)"

definition hex4 :: "char \<Rightarrow> char \<Rightarrow> char \<Rightarrow> char \<Rightarrow> nat option" where
  "hex4 a b c d = (case (hex_val a, hex_val b, hex_val c, hex_val d) of
     (Some w, Some x, Some y, Some z) \<Rightarrow> Some (((w * 16 + x) * 16 + y) * 16 + z)
   | _ \<Rightarrow> None)"

definition utf8 :: "nat \<Rightarrow> string" where
  "utf8 n =
     (if n < 128 then [char_of n]
      else if n < 2048 then [char_of (192 + n div 64), char_of (128 + n mod 64)]
      else if n < 65536
      then [char_of (224 + n div 4096), char_of (128 + n div 64 mod 64), char_of (128 + n mod 64)]
      else [char_of (240 + n div 262144), char_of (128 + n div 4096 mod 64),
            char_of (128 + n div 64 mod 64), char_of (128 + n mod 64)])"

definition replacement :: string where
  "replacement = utf8 65533"

definition is_high :: "nat \<Rightarrow> bool" where "is_high n = (55296 \<le> n \<and> n < 56320)"
definition is_low :: "nat \<Rightarrow> bool" where "is_low n = (56320 \<le> n \<and> n < 57344)"

definition simple_escape :: "char \<Rightarrow> char option" where
  "simple_escape c =
     (if c = CHR 0x22 \<or> c = CHR 0x5C \<or> c = CHR ''/'' then Some c
      else if c = CHR ''b'' then Some (CHR 0x08) else if c = CHR ''f'' then Some (CHR 0x0C)
      else if c = CHR ''n'' then Some (CHR 0x0A) else if c = CHR ''r'' then Some (CHR 0x0D)
      else if c = CHR ''t'' then Some (CHR 0x09) else None)"

text \<open>
  The units of a string literal after its opening quote: a byte, or a UTF-16 unit of a \<open>\u\<close>
  escape; the rest starts behind the closing quote.
\<close>

datatype unit16 = Raw char | U16 nat

definition next_unit :: "string \<Rightarrow> (unit16 \<times> string) option" where
  "next_unit s =
     (case s of [] \<Rightarrow> None
      | c # t \<Rightarrow>
          if (of_char c :: nat) < 32 then None
          else if c \<noteq> CHR 0x5C then Some (Raw c, t)
          else (case t of [] \<Rightarrow> None
            | e # u \<Rightarrow>
                if e = CHR ''u'' then
                  (case u of a # b # x # y # v \<Rightarrow> map_option (\<lambda>n. (U16 n, v)) (hex4 a b x y) | _ \<Rightarrow> None)
                else map_option (\<lambda>d. (Raw d, u)) (simple_escape e)))"

lemma next_unit_shorter: "next_unit s = Some (x, t) \<Longrightarrow> length t < length s"
  by (auto simp: next_unit_def split: list.splits if_splits)

function string_units :: "string \<Rightarrow> (unit16 list \<times> string) option" where
  "string_units s =
     (if s = [] then None
      else if hd s = CHR 0x22 then Some ([], tl s)
      else case next_unit s of None \<Rightarrow> None
         | Some (x, t) \<Rightarrow>
             (case string_units t of None \<Rightarrow> None | Some (xs, r) \<Rightarrow> Some (x # xs, r)))"
  by pat_completeness auto
termination by (relation "measure length") (auto dest: next_unit_shorter)

declare string_units.simps [simp del]

fun units_text :: "unit16 list \<Rightarrow> string" where
  "units_text [] = []"
| "units_text (Raw c # us) = c # units_text us"
| "units_text (U16 h # U16 l # us) =
     (if is_high h \<and> is_low l
      then utf8 (65536 + (h - 55296) * 1024 + (l - 56320)) @ units_text us
      else (if is_high h \<or> is_low h then replacement else utf8 h) @ units_text (U16 l # us))"
| "units_text (U16 h # us) = (if is_high h \<or> is_low h then replacement else utf8 h) @ units_text us"

text \<open>
  The width of the valid UTF-8 sequence at the start of a text, 0 when there is none
  (\<open>utf8.DecodeRune\<close>). A decoded escape is a whole sequence, so the check can follow the
  decoding of the escapes.
\<close>

definition between :: "nat \<Rightarrow> nat \<Rightarrow> char \<Rightarrow> bool" where
  "between lo hi c = (lo \<le> of_char c \<and> of_char c \<le> hi)"

abbreviation continuation :: "char \<Rightarrow> bool" where
  "continuation \<equiv> between 128 191"

fun rune_width :: "string \<Rightarrow> nat" where
  "rune_width [] = 0"
| "rune_width (c # s) =
     (if between 0 127 c then 1
      else if between 194 223 c
      then (case s of x # _ \<Rightarrow> if continuation x then 2 else 0 | _ \<Rightarrow> 0)
      else if between 224 239 c
      then (case s of x # y # _ \<Rightarrow>
              if (if c = CHR 0xE0 then between 160 191 x
                  else if c = CHR 0xED then between 128 159 x else continuation x) \<and> continuation y
              then 3 else 0 | _ \<Rightarrow> 0)
      else if between 240 244 c
      then (case s of x # y # z # _ \<Rightarrow>
              if (if c = CHR 0xF0 then between 144 191 x
                  else if c = CHR 0xF4 then between 128 143 x else continuation x) \<and>
                 continuation y \<and> continuation z
              then 4 else 0 | _ \<Rightarrow> 0)
      else 0)"

function valid_utf8 :: "string \<Rightarrow> string" where
  "valid_utf8 s =
     (if s = [] then []
      else if rune_width s = 0 then replacement @ valid_utf8 (tl s)
      else take (rune_width s) s @ valid_utf8 (drop (rune_width s) s))"
  by pat_completeness auto
termination by (relation "measure length") (auto simp: diff_less)

declare valid_utf8.simps [simp del]

definition parse_string :: "string \<Rightarrow> (string \<times> string) option" where
  "parse_string s = map_option (map_prod (\<lambda>us. valid_utf8 (units_text us)) id) (string_units s)"

lemma string_units_shorter: "string_units s = Some (us, t) \<Longrightarrow> length t < length s"
proof (induction s arbitrary: us t rule: string_units.induct)
  case (1 s)
  show ?case
  proof (cases "s = [] \<or> hd s = CHR 0x22")
    case True
    with "1.prems" show ?thesis by (subst (asm) string_units.simps) (cases s; auto split: if_splits)
  next
    case False
    with "1.prems" obtain x r xs where n: "next_unit s = Some (x, r)" "string_units r = Some (xs, t)"
      by (subst (asm) string_units.simps) (auto split: option.splits)
    with "1.IH"[OF _ _ n(1)] False next_unit_shorter[OF n(1)] show ?thesis by fastforce
  qed
qed

lemma parse_string_shorter: "parse_string s = Some (v, t) \<Longrightarrow> length t < length s"
  by (auto simp: parse_string_def dest: string_units_shorter)

section \<open>Numbers and words\<close>

definition span :: "(char \<Rightarrow> bool) \<Rightarrow> string \<Rightarrow> string \<times> string" where
  "span P s = (takeWhile P s, dropWhile P s)"

definition number_int :: "string \<Rightarrow> (string \<times> string) option" where
  "number_int s =
     (case s of [] \<Rightarrow> None
      | c # t \<Rightarrow> if c = CHR ''0'' then Some ([c], t)
                 else if is_digit c then Some (span is_digit s) else None)"

definition number_frac :: "string \<Rightarrow> (string \<times> string) option" where
  "number_frac s =
     (case s of c # t \<Rightarrow>
        if c = CHR ''.'' then
          (let (ds, u) = span is_digit t in if ds = [] then None else Some (c # ds, u))
        else Some ([], s)
      | [] \<Rightarrow> Some ([], []))"

definition number_exp :: "string \<Rightarrow> (string \<times> string) option" where
  "number_exp s =
     (case s of c # t \<Rightarrow>
        if c = CHR ''e'' \<or> c = CHR ''E'' then
          (let (sg, u) = (case t of d # t' \<Rightarrow> if d = CHR ''+'' \<or> d = CHR ''-'' then ([d], t') else ([], t)
                          | [] \<Rightarrow> ([], t));
               (ds, v) = span is_digit u
           in if ds = [] then None else Some (c # sg @ ds, v))
        else Some ([], s)
      | [] \<Rightarrow> Some ([], []))"

definition parse_number :: "string \<Rightarrow> (string \<times> string) option" where
  "parse_number s =
     (let (sg, s1) = (case s of c # t \<Rightarrow> if c = CHR ''-'' then ([c], t) else ([], s) | [] \<Rightarrow> ([], s))
      in case number_int s1 of None \<Rightarrow> None
         | Some (i, s2) \<Rightarrow> (case number_frac s2 of None \<Rightarrow> None
         | Some (f, s3) \<Rightarrow> (case number_exp s3 of None \<Rightarrow> None
         | Some (e, s4) \<Rightarrow> Some (sg @ i @ f @ e, s4))))"

lemma length_dropWhile_less: "x # xs = s \<Longrightarrow> P x \<Longrightarrow> length (dropWhile P s) < length s"
  using length_dropWhile_le[of P xs] by auto

lemma number_int_shorter: "number_int s = Some (v, t) \<Longrightarrow> length t < length s"
  by (auto simp: number_int_def span_def less_Suc_eq_le length_dropWhile_le split: list.splits if_splits)

lemma number_frac_shorter: "number_frac s = Some (v, t) \<Longrightarrow> length t \<le> length s"
  by (auto simp: number_frac_def span_def Let_def le_SucI length_dropWhile_le split: list.splits if_splits)

lemma number_exp_shorter: "number_exp s = Some (v, t) \<Longrightarrow> length t \<le> length s"
  by (auto simp: number_exp_def span_def Let_def le_SucI length_dropWhile_le
      split: list.splits if_splits prod.splits)

lemma parse_number_shorter: "parse_number s = Some (v, t) \<Longrightarrow> length t < length s"
  by (fastforce simp: parse_number_def split: list.splits if_splits option.splits prod.splits
      dest: number_int_shorter number_frac_shorter number_exp_shorter)

section \<open>The parser\<close>

definition literal :: "string \<Rightarrow> json \<Rightarrow> string \<Rightarrow> (json \<times> string) option" where
  "literal w v s = (if HasPrefix s w then Some (v, drop (length w) s) else None)"

text \<open>
  The first argument is the nesting still allowed; every text starts at a byte that is not
  white space.
\<close>

definition expect :: "char \<Rightarrow> string \<Rightarrow> string option" where
  "expect c s = (case s of [] \<Rightarrow> None | d # t \<Rightarrow> if d = c then Some t else None)"

lemma expect_shorter: "expect c s = Some t \<Longrightarrow> length t < length s"
  by (auto simp: expect_def split: list.splits if_splits)

lemma skip_space_le: "length (skip_space s) \<le> length s"
  by (simp add: skip_space_def length_dropWhile_le)

lemma expect_skip_shorter: "expect c (skip_space s) = Some t \<Longrightarrow> length (skip_space t) < length s"
  using expect_shorter[of c "skip_space s" t] skip_space_le[of s] skip_space_le[of t] by linarith

function (sequential)
  parse_value :: "nat \<Rightarrow> string \<Rightarrow> (json \<times> string) option" and
  parse_elems :: "nat \<Rightarrow> string \<Rightarrow> (json list \<times> string) option" and
  parse_members :: "nat \<Rightarrow> string \<Rightarrow> ((string \<times> json) list \<times> string) option" where
  "parse_value d [] = None"
| "parse_value d (c # s) =
     (if c = CHR 0x22 then map_option (map_prod JStr id) (parse_string s)
      else if c = CHR ''['' then
        (if d = 0 then None
         else case expect CHR '']'' (skip_space s) of
             Some t \<Rightarrow> Some (JArr [], t)
           | None \<Rightarrow> map_option (map_prod JArr id) (parse_elems (d - 1) (skip_space s)))
      else if c = CHR ''{'' then
        (if d = 0 then None
         else case expect CHR ''}'' (skip_space s) of
             Some t \<Rightarrow> Some (JObj [], t)
           | None \<Rightarrow> map_option (map_prod JObj id) (parse_members (d - 1) (skip_space s)))
      else if c = CHR ''n'' then literal ''null'' JNull (c # s)
      else if c = CHR ''t'' then literal ''true'' (JBool True) (c # s)
      else if c = CHR ''f'' then literal ''false'' (JBool False) (c # s)
      else map_option (map_prod JNum id) (parse_number (c # s)))"
| "parse_elems d s =
     (case parse_value d s of None \<Rightarrow> None
      | Some (v, t) \<Rightarrow>
          if length t < length s then
            (case expect CHR '','' (skip_space t) of
               Some u \<Rightarrow>
                 (case parse_elems d (skip_space u) of None \<Rightarrow> None | Some (vs, r) \<Rightarrow> Some (v # vs, r))
             | None \<Rightarrow>
                 (case expect CHR '']'' (skip_space t) of Some u \<Rightarrow> Some ([v], u) | None \<Rightarrow> None))
          else None)"
| "parse_members d s =
     (case expect CHR 0x22 s of None \<Rightarrow> None
      | Some s' \<Rightarrow>
     (case parse_string s' of None \<Rightarrow> None
      | Some (k, t) \<Rightarrow>
     (case expect CHR '':'' (skip_space t) of None \<Rightarrow> None
      | Some u \<Rightarrow>
     (case parse_value d (skip_space u) of None \<Rightarrow> None
      | Some (v, w) \<Rightarrow>
          if length w < length s then
            (case expect CHR '','' (skip_space w) of
               Some x \<Rightarrow>
                 (case parse_members d (skip_space x) of None \<Rightarrow> None
                  | Some (ms, r) \<Rightarrow> Some ((k, v) # ms, r))
             | None \<Rightarrow>
                 (case expect CHR ''}'' (skip_space w) of Some x \<Rightarrow> Some ([(k, v)], x) | None \<Rightarrow> None))
          else None))))"
  by pat_completeness auto

termination
proof (relation "measure (\<lambda>x. case x of Inl (d, s) \<Rightarrow> 2 * length s
      | Inr (Inl (d, s)) \<Rightarrow> 2 * length s + 1 | Inr (Inr (d, s)) \<Rightarrow> 2 * length s + 1)", goal_cases)
qed (auto simp: skip_space_le less_Suc_eq_le dest!: expect_skip_shorter parse_string_shorter
    expect_shorter[of "CHR 0x22"])

declare parse_elems.simps [simp del] parse_members.simps [simp del]

lemma skip_expect: "expect c (skip_space s) = Some t \<Longrightarrow> length t < length s"
  using expect_shorter[of c "skip_space s" t] skip_space_le[of s] by linarith

lemma literal_shorter: "literal w v s = Some (x, t) \<Longrightarrow> w \<noteq> [] \<Longrightarrow> length t < length s"
  by (cases s; cases w) (auto simp: literal_def HasPrefix_def split: if_splits)

text \<open>Every part of the parser reads at least one byte, so its guards hold.\<close>

lemma parse_shorter:
  shows "parse_value d s = Some (v, t) \<Longrightarrow> length t < length s"
    and "parse_elems d s = Some (vs, t) \<Longrightarrow> length t < length s"
    and "parse_members d s = Some (ms, t) \<Longrightarrow> length t < length s"
proof (induction d s and d s and d s arbitrary: v t and vs t and ms t
    rule: parse_value_parse_elems_parse_members.induct)
  case (2 d c s)
  have sk: "length (skip_space s) \<le> length s" by (rule skip_space_le)
  show ?case
  proof (cases "c = CHR ''['' \<and> expect CHR '']'' (skip_space s) = None \<or>
      c = CHR ''{'' \<and> expect CHR ''}'' (skip_space s) = None")
    case True
    then consider
        vs where "c = CHR ''[''" "d \<noteq> 0" "expect CHR '']'' (skip_space s) = None"
          "parse_elems (d - 1) (skip_space s) = Some (vs, t)"
      | ms where "c = CHR ''{''" "d \<noteq> 0" "expect CHR ''}'' (skip_space s) = None"
          "parse_members (d - 1) (skip_space s) = Some (ms, t)"
      using "2.prems" by (auto split: if_splits)
    then show ?thesis
    proof cases
      case 1
      then show ?thesis using "2.IH"(1)[of vs t] sk by auto
    next
      case 2
      then show ?thesis using "2.IH"(2)[of ms t] sk by auto
    qed
  next
    case False
    with "2.prems" show ?thesis
      by (auto split: if_splits dest!: parse_string_shorter parse_number_shorter literal_shorter
          skip_expect)
  qed
next
  case (3 d s)
  from "3.prems" obtain v r where v: "parse_value d s = Some (v, r)" "length r < length s"
    by (subst (asm) parse_elems.simps) (auto split: option.splits if_splits)
  show ?case
  proof (cases "expect CHR '','' (skip_space r)")
    case None
    with "3.prems" v show ?thesis
      by (subst (asm) parse_elems.simps) (auto split: option.splits dest: skip_expect)
  next
    case (Some u)
    with "3.prems" v obtain vs' where "parse_elems d (skip_space u) = Some (vs', t)"
      by (subst (asm) parse_elems.simps) (auto split: option.splits)
    from "3.IH"(2)[OF v(1) refl v(2) Some this] skip_space_le[of u] skip_expect[OF Some] v(2)
    show ?thesis by linarith
  qed
next
  case (4 d s)
  from "4.prems" obtain s' k r u v w where v: "expect CHR 0x22 s = Some s'" "parse_string s' = Some (k, r)"
      "expect CHR '':'' (skip_space r) = Some u" "parse_value d (skip_space u) = Some (v, w)"
      "length w < length s"
    by (subst (asm) parse_members.simps) (auto split: option.splits if_splits)
  show ?case
  proof (cases "expect CHR '','' (skip_space w)")
    case None
    with "4.prems" v show ?thesis
      by (subst (asm) parse_members.simps) (auto split: option.splits dest: skip_expect)
  next
    case (Some x)
    with "4.prems" v obtain ms' where "parse_members d (skip_space x) = Some (ms', t)"
      by (subst (asm) parse_members.simps) (auto split: option.splits)
    from "4.IH"(2)[OF v(1) v(2) refl v(3) v(4) refl v(5) Some this] skip_space_le[of x]
      skip_expect[OF Some] v(5)
    show ?thesis by linarith
  qed
qed auto

section \<open>Documents\<close>

definition maxNestingDepth :: nat where "maxNestingDepth = 10000"

text \<open>A whole document: one value with white space around it.\<close>

definition json_parse :: "string \<Rightarrow> json option" where
  "json_parse s =
     (case parse_value maxNestingDepth (skip_space s) of None \<Rightarrow> None
      | Some (v, t) \<Rightarrow> if skip_space t = [] then Some v else None)"

definition json_Valid :: "string \<Rightarrow> bool" where
  "json_Valid s = (json_parse s \<noteq> None)"

text \<open>
  \<open>Unmarshal\<close> into a \<open>map[string]RawMessage\<close>: an object gives its keys, null leaves the map
  nil, anything else is an error.
\<close>

definition object_keys :: "string \<Rightarrow> string list option" where
  "object_keys s =
     (case json_parse s of
        Some (JObj ms) \<Rightarrow> Some (remdups (map fst ms))
      | Some JNull \<Rightarrow> Some []
      | _ \<Rightarrow> None)"

lemma json_Valid_Nil [simp]: "\<not> json_Valid []"
  by (simp add: json_Valid_def json_parse_def skip_space_def)

lemma object_keys_valid: "object_keys s = Some ks \<Longrightarrow> json_Valid s \<and> distinct ks"
  by (auto simp: object_keys_def json_Valid_def split: option.splits json.splits)

lemmas json_evals = json_parse_def skip_space_def json_space_def expect_def parse_string_def
  string_units.simps parse_elems.simps parse_members.simps next_unit_def literal_def parse_number_def number_int_def number_frac_def
  number_exp_def span_def is_digit_def maxNestingDepth_def HasPrefix_def valid_utf8.simps between_def

end
