(* ===== verification/Jev.thy ===== *)
theory Jev
  imports Classifier Json_Syntax Sha256 "HOL-Library.List_Lexorder" "HOL-Library.Char_ord" "HOL-Library.AList"
begin

text \<open>
  The optional classifier back end of \<^verbatim>\<open>internal/jev\<close>: the question set and the
  state text (\<^verbatim>\<open>questions.go\<close>), the mapping of an answer to a verdict
  (\<^verbatim>\<open>mapper.go\<close>) and the per-run cache (\<^verbatim>\<open>cache.go\<close>). Probabilities are exact
  rationals, the decimals a response is written with; a Go map is an association list.
\<close>

section \<open>Questions and answers\<close>

definition DefaultThreshold :: rat where "DefaultThreshold = 70/100"
definition DuplicateOverride :: rat where "DuplicateOverride = 8/10"
definition MaxErrorChars :: int where "MaxErrorChars = 2000"
definition MaxGroupSamples :: int where "MaxGroupSamples = 5"

datatype criteria = NoCriteria | Options "(string \<times> string) list" | Rubric "string list"

record question =
  quType :: string
  quInstructions :: string
  quCriteria :: criteria

record answer =
  anType :: string
  anChoice :: string
  anProbabilities :: "(string \<times> rat) list"
  anConfidence :: rat
  anScore :: rat
  anLegend :: "(string \<times> string) list"
  anNoul :: rat

record response =
  rsModel :: string
  rsAnswers :: "(string \<times> answer) list"
  rsInputTokens :: int
  rsOutputTokens :: int

definition ClassificationQuestions :: "(string \<times> question) list" where
  "ClassificationQuestions =
    [(''classification'',
      \<lparr>quType = ''choice'', quInstructions = ''Classify this dead-letter queue failure for recovery triage'',
       quCriteria = Options
        [(''replayable'', ''Transient infrastructure failure worth retrying: timeout, connection reset/refused, throttling, 5xx''),
         (''requires_fix'', ''Permanent failure needing a payload or config fix first: validation, schema/parse, auth, not-found, 4xx''),
         (''do_not_replay'', ''Replay would duplicate work or cause harm: duplicate, already processed, idempotency hit''),
         (''investigate'', ''Missing, ambiguous, or conflicting signals: do not guess'')]\<rparr>),
     (''is_duplicate'',
      \<lparr>quType = ''noul'', quInstructions = ''The failure indicates the event was already processed or is a duplicate'',
       quCriteria = NoCriteria\<rparr>),
     (''replay_risk'',
      \<lparr>quType = ''score'', quInstructions = ''How risky is blindly replaying this message'',
       quCriteria = Rubric
        [''Safe to retry: clearly transient, low retries'',
         ''Needs care: unclear cause or several retries already'',
         ''Likely poison: permanent-looking, duplicate, or retried many times'']\<rparr>)]"

section \<open>The state text\<close>

definition truncate_text :: "string \<Rightarrow> int \<Rightarrow> string" where
  "truncate_text s n = (if n \<le> 0 \<or> int (length s) \<le> n then s else take (nat n) s)"

definition retryBucketOf :: "int \<Rightarrow> string" where
  "retryBucketOf retries =
     (if retries \<le> 0 then ''0'' else if retries \<le> 2 then ''1-2'' else if retries \<le> 5 then ''3-5'' else ''6+'')"

definition eventTypeOf :: "message \<Rightarrow> string" where
  "eventTypeOf m = first_header (mHeaders m) event_type_keys"

definition payloadShapeOf :: "string \<Rightarrow> string" where
  "payloadShapeOf payload =
     (if payload = [] then ''empty''
      else case object_keys payload of None \<Rightarrow> ''raw'' | Some ks \<Rightarrow> Join (sort ks) '','')"

definition BuildMessageState :: "message \<Rightarrow> string \<Rightarrow> string" where
  "BuildMessageState m sig =
     ''error='' @ truncate_text (TrimSpace (mFailureReason m)) MaxErrorChars
     @ '' | retries='' @ Itoa (mRetryCount m) @ '' ('' @ retryBucketOf (mRetryCount m) @ '')''
     @ (if mDestination m \<noteq> [] then '' | destination='' @ truncate_text (mDestination m) 200 else [])
     @ (if eventTypeOf m \<noteq> [] then '' | event_type='' @ truncate_text (eventTypeOf m) 200 else [])
     @ (if sig \<noteq> [] then '' | signature='' @ truncate_text sig 500 else [])
     @ '' | payload_shape='' @ payloadShapeOf (mPayload m)"

record group_sample =
  gsSignature :: string
  gsDestination :: string
  gsEventType :: string
  gsRetryBucket :: string
  gsCount :: int
  gsErrors :: "string list"

fun sample_lines :: "int \<Rightarrow> string list \<Rightarrow> string" where
  "sample_lines i [] = []"
| "sample_lines i (e # es) =
     '' | sample'' @ Itoa i @ ''='' @ truncate_text (TrimSpace e) 500 @ sample_lines (i + 1) es"

definition BuildGroupState :: "group_sample \<Rightarrow> string" where
  "BuildGroupState g =
     ''signature='' @ truncate_text (gsSignature g) 500
     @ '' | count='' @ Itoa (gsCount g)
     @ (if gsDestination g \<noteq> [] then '' | destination='' @ truncate_text (gsDestination g) 200 else [])
     @ (if gsEventType g \<noteq> [] then '' | event_type='' @ truncate_text (gsEventType g) 200 else [])
     @ (if gsRetryBucket g \<noteq> [] then '' | retries='' @ truncate_text (gsRetryBucket g) 20 else [])
     @ sample_lines 1 (take (nat MaxGroupSamples) (gsErrors g))"

section \<open>Verdicts\<close>

record jev_verdict =
  vdClassification :: string
  vdConfidence :: rat
  vdProbabilities :: "(string \<times> rat) list"
  vdDuplicateProb :: rat
  vdReplayRisk :: rat
  vdModel :: string

definition zero_verdict :: jev_verdict where
  "zero_verdict = \<lparr>vdClassification = [], vdConfidence = 0, vdProbabilities = [], vdDuplicateProb = 0,
     vdReplayRisk = 0, vdModel = []\<rparr>"

definition maxProb :: "(string \<times> rat) list \<Rightarrow> rat" where
  "maxProb p = fold (\<lambda>(k, v) best. if v > best then v else best) p 0"

definition clamp01 :: "rat \<Rightarrow> rat" where
  "clamp01 f = (if f < 0 then 0 else if f > 1 then 1 else f)"

definition jev_choices :: "string list" where
  "jev_choices = [''replayable'', ''requires_fix'', ''do_not_replay'', ''investigate'']"

text \<open>The verdict before the duplicate override and the threshold.\<close>

definition read_verdict :: "response \<Rightarrow> answer \<Rightarrow> string \<Rightarrow> jev_verdict" where
  "read_verdict resp cls choice =
     (let conf = (if anConfidence cls \<le> 0 then maxProb (anProbabilities cls) else anConfidence cls)
      in \<lparr>vdClassification = choice, vdConfidence = clamp01 conf, vdProbabilities = anProbabilities cls,
          vdDuplicateProb = (case map_of (rsAnswers resp) ''is_duplicate'' of None \<Rightarrow> 0 | Some d \<Rightarrow> clamp01 (anNoul d)),
          vdReplayRisk = (case map_of (rsAnswers resp) ''replay_risk'' of None \<Rightarrow> 0 | Some r \<Rightarrow> clamp01 (anScore r / 2)),
          vdModel = rsModel resp\<rparr>)"

definition override_duplicate :: "jev_verdict \<Rightarrow> jev_verdict" where
  "override_duplicate v =
     (if vdDuplicateProb v \<ge> DuplicateOverride \<and> vdClassification v \<noteq> ''do_not_replay''
      then v\<lparr>vdClassification := ''do_not_replay'',
             vdConfidence := (if vdDuplicateProb v > vdConfidence v then vdDuplicateProb v else vdConfidence v)\<rparr>
      else v)"

definition MapResponse :: "response option \<Rightarrow> rat \<Rightarrow> (goerr, jev_verdict \<times> bool) result" where
  "MapResponse ro threshold =
     (case ro of
        None \<Rightarrow> Err (Text ''jev: nil response'')
      | Some resp \<Rightarrow>
          (case map_of (rsAnswers resp) ''classification'' of
             None \<Rightarrow> Err (Text ''jev: response missing classification answer'')
           | Some cls \<Rightarrow>
               let choice = ToLower (TrimSpace (anChoice cls))
               in if choice \<notin> set jev_choices then Ok (zero_verdict, False)
                  else
                    let v = override_duplicate (read_verdict resp cls choice);
                        threshold = (if threshold \<le> 0 then DefaultThreshold else threshold)
                    in Ok (v, \<not> vdConfidence v < threshold)))"

section \<open>The cache\<close>

record cache =
  caSeen :: "(string \<times> response) list"
  caHits :: int

definition NewCache :: cache where
  "NewCache = \<lparr>caSeen = [], caHits = 0\<rparr>"

definition Key :: "string \<Rightarrow> string" where
  "Key state = take 16 (sha256_hex state)"

definition cache_Get :: "cache option \<Rightarrow> string \<Rightarrow> response option" where
  "cache_Get c state = (case c of None \<Rightarrow> None | Some c \<Rightarrow> map_of (caSeen c) (Key state))"

definition cache_Put :: "string \<Rightarrow> response \<Rightarrow> cache option \<Rightarrow> cache option" where
  "cache_Put state resp c =
     (case c of None \<Rightarrow> None | Some c \<Rightarrow> Some (c\<lparr>caSeen := AList.update (Key state) resp (caSeen c)\<rparr>))"

definition cache_Hit :: "cache option \<Rightarrow> cache option" where
  "cache_Hit c = (case c of None \<Rightarrow> None | Some c \<Rightarrow> Some (c\<lparr>caHits := caHits c + 1\<rparr>))"

definition cache_Hits :: "cache option \<Rightarrow> int" where
  "cache_Hits c = (case c of None \<Rightarrow> 0 | Some c \<Rightarrow> caHits c)"

definition cache_Size :: "cache option \<Rightarrow> int" where
  "cache_Size c = (case c of None \<Rightarrow> 0 | Some c \<Rightarrow> int (length (caSeen c)))"

text \<open>
  What a client of a memo table relies on: a put is found under every key that agrees with
  it, and nothing else changes; reading has no effect.
\<close>

locale memo_table =
  fixes get :: "'t \<Rightarrow> 'k \<Rightarrow> 'v option"
    and put :: "'k \<Rightarrow> 'v \<Rightarrow> 't \<Rightarrow> 't"
    and same :: "'k \<Rightarrow> 'k \<Rightarrow> bool"
    and live :: "'t \<Rightarrow> bool"
  assumes get_put: "live t \<Longrightarrow> get (put k v t) j = (if same k j then Some v else get t j)"
    and live_put: "live t \<Longrightarrow> live (put k v t)"
    and same_refl: "same k k"
begin

lemma get_put_same: "live t \<Longrightarrow> get (put k v t) k = Some v"
  by (simp add: get_put same_refl)

lemma get_puts_known:
  "live t \<Longrightarrow> get t j \<noteq> None \<Longrightarrow> get (fold (\<lambda>(k, v). put k v) kvs t) j \<noteq> None"
  by (induction kvs arbitrary: t) (auto simp: get_put live_put)

lemma get_puts_recorded:
  "live t \<Longrightarrow> (k, v) \<in> set kvs \<Longrightarrow> get (fold (\<lambda>(k, v). put k v) kvs t) k \<noteq> None"
proof (induction kvs arbitrary: t)
  case (Cons kv kvs)
  then consider "kv = (k, v)" | "(k, v) \<in> set kvs" by auto
  then show ?case
  proof cases
    case 1
    have "get (put k v t) k \<noteq> None" "live (put k v t)" using Cons.prems(1) by (simp_all add: get_put_same live_put)
    then show ?thesis using 1 get_puts_known[of "put k v t" k kvs] by simp
  next
    case 2
    then show ?thesis using Cons by (cases kv) (auto simp: live_put)
  qed
qed simp

end

interpretation jev_cache: memo_table cache_Get cache_Put "\<lambda>s t. Key s = Key t" "\<lambda>c. c \<noteq> None"
  by unfold_locales (auto simp: cache_Get_def cache_Put_def update_conv' split: option.splits)

section \<open>Lemmas\<close>

lemma clamp01_range [simp]: "0 \<le> clamp01 f" "clamp01 f \<le> 1"
  by (auto simp: clamp01_def)

lemma clamp01_id: "0 \<le> f \<Longrightarrow> f \<le> 1 \<Longrightarrow> clamp01 f = f"
  by (auto simp: clamp01_def)

text \<open>\<open>maxProb\<close> is the largest of 0 and the probabilities.\<close>

lemma maxProb_from:
  "fold (\<lambda>(k, v) best. if v > best then v else best) p b = Max (insert b (snd ` set p))" for b :: rat
proof (induction p arbitrary: b)
  case (Cons x p)
  obtain k v where x: "x = (k, v)" by fastforce
  have "Max (insert (max b v) (snd ` set p)) = Max (insert b (insert v (snd ` set p)))"
    by (cases "set p = {}") (simp_all add: max.assoc)
  moreover have "(if v > b then v else b) = max b v" by auto
  ultimately show ?case using Cons.IH[of "max b v"] x by simp
qed simp

lemma maxProb_Max: "maxProb p = Max (insert 0 (snd ` set p))"
  by (simp add: maxProb_def maxProb_from)

lemma read_verdict_range:
  "0 \<le> vdConfidence (read_verdict r c ch) \<and> vdConfidence (read_verdict r c ch) \<le> 1"
  "0 \<le> vdDuplicateProb (read_verdict r c ch) \<and> vdDuplicateProb (read_verdict r c ch) \<le> 1"
  "0 \<le> vdReplayRisk (read_verdict r c ch) \<and> vdReplayRisk (read_verdict r c ch) \<le> 1"
  by (auto simp: read_verdict_def Let_def split: option.splits)

section \<open>Properties\<close>

text \<open>
  C18: what a usable verdict guarantees. Its class is one of the four choices, its confidence
  reaches the threshold in force (0.7 when none is set) and its numbers lie between 0 and 1;
  and when the duplicate probability reaches 0.8 the class is do_not_replay, whatever class
  the response chose.
\<close>

theorem usable_verdict_bounds:
  assumes "MapResponse (Some resp) t = Ok (v, True)"
  shows "vdClassification v \<in> set jev_choices \<and>
    (if t \<le> 0 then DefaultThreshold else t) \<le> vdConfidence v \<and> vdConfidence v \<le> 1 \<and>
    0 \<le> vdDuplicateProb v \<and> vdDuplicateProb v \<le> 1 \<and> 0 \<le> vdReplayRisk v \<and> vdReplayRisk v \<le> 1 \<and>
    (vdDuplicateProb v \<ge> DuplicateOverride \<longrightarrow> vdClassification v = ''do_not_replay'')"
proof -
  from assms obtain cls where c: "map_of (rsAnswers resp) ''classification'' = Some cls"
    by (auto simp: MapResponse_def split: option.splits)
  let ?ch = "ToLower (TrimSpace (anChoice cls))"
  let ?u = "read_verdict resp cls ?ch"
  from assms c have u: "?ch \<in> set jev_choices" "v = override_duplicate ?u"
    "(if t \<le> 0 then DefaultThreshold else t) \<le> vdConfidence v"
    by (auto simp: MapResponse_def Let_def not_less split: if_splits)
  have "vdClassification ?u = ?ch" by (simp add: read_verdict_def Let_def)
  with u read_verdict_range[of resp cls ?ch] show ?thesis
    by (auto simp: override_duplicate_def jev_choices_def)
qed

definition sample_answer :: answer where
  "sample_answer = \<lparr>anType = ''choice'', anChoice = '' Replayable'', anProbabilities = [], anConfidence = 93/100,
     anScore = 0, anLegend = [], anNoul = 0\<rparr>"

definition sample_response :: "rat \<Rightarrow> response" where
  "sample_response dup = \<lparr>rsModel = ''jev-1.13.0'',
     rsAnswers = [(''classification'', sample_answer), (''is_duplicate'', sample_answer\<lparr>anNoul := dup\<rparr>)],
     rsInputTokens = 0, rsOutputTokens = 0\<rparr>"

lemma sample_verdict:
  "MapResponse (Some (sample_response (9/10))) 0 =
     Ok (override_duplicate (read_verdict (sample_response (9/10)) sample_answer ''replayable''), True)"
  "vdDuplicateProb (override_duplicate (read_verdict (sample_response (9/10)) sample_answer ''replayable'')) = 9/10"
  by (simp_all add: MapResponse_def sample_response_def sample_answer_def jev_choices_def text_evals
      override_duplicate_def read_verdict_def clamp01_def DuplicateOverride_def DefaultThreshold_def Let_def)

theorem usable_verdict_bounds_witness:
  "\<exists>v. MapResponse (Some (sample_response (9/10))) 0 = Ok (v, True) \<and> vdClassification v = ''do_not_replay''"
  using usable_verdict_bounds[OF sample_verdict(1)] sample_verdict
  by (auto simp: DuplicateOverride_def)

text \<open>
  C19: nothing of a message but its metadata leaves the machine. The state sent for a message
  is the same for every message with the same failure reason, retry count, destination,
  event type and payload shape: neither the values in the payload nor any other header can
  be read off it.
\<close>

theorem state_hides_payload_and_headers:
  assumes "mFailureReason m = mFailureReason m'" and "mRetryCount m = mRetryCount m'"
    and "mDestination m = mDestination m'" and "eventTypeOf m = eventTypeOf m'"
    and "payloadShapeOf (mPayload m) = payloadShapeOf (mPayload m')"
  shows "BuildMessageState m sig = BuildMessageState m' sig"
  using assms by (simp add: BuildMessageState_def)

definition card_message :: "string \<Rightarrow> string \<Rightarrow> message" where
  "card_message token pin = empty_message\<lparr>mFailureReason := ''timeout'', mHeaders := [(''authorization'', token)],
     mPayload := ''{'' @ [CHR 0x22] @ ''pin'' @ [CHR 0x22] @ '':'' @ pin @ ''}''\<rparr>"

lemma card_shape:
  "payloadShapeOf (mPayload (card_message t ''1234'')) = ''pin''" "payloadShapeOf (mPayload (card_message t ''77'')) = ''pin''"
  "eventTypeOf (card_message t p) = []"
  by (simp_all add: card_message_def payloadShapeOf_def object_keys_def json_evals eventTypeOf_def event_type_keys_def empty_message_def)

theorem state_hides_payload_and_headers_witness:
  "BuildMessageState (card_message ''Bearer a'' ''1234'') ''timeout'' = BuildMessageState (card_message ''Bearer b'' ''77'') ''timeout''"
  by (rule state_hides_payload_and_headers) (simp_all add: card_shape, simp_all add: card_message_def empty_message_def)

end
