(* ===== verification/Signature.thy ===== *)
theory Signature
  imports Go_Strings
begin

text \<open>
  Failure signatures (\<^verbatim>\<open>internal/recovery/signature.go\<close>). The regular expressions of the
  file are written out in a small regex language with the semantics of Go's \<^verbatim>\<open>regexp\<close>
  (leftmost match, alternatives and repetitions in order of preference): \<open>re_match\<close> lists
  every way a regex can match at a position, best first, each as the last byte read and the
  rest of the text. Unbounded repetition is over one byte class, as in every expression of
  the file.
\<close>

section \<open>Regular expressions\<close>

datatype regex =
    Byte "char \<Rightarrow> bool"
  | Stars "char \<Rightarrow> bool"          \<comment> \<open>greedy repetition of a byte class\<close>
  | WordBound                     \<comment> \<open>\<open>\\b\<close>\<close>
  | Seq regex regex
  | Alt regex regex
  | Opt regex

definition is_alpha :: "char \<Rightarrow> bool" where
  "is_alpha c = (let n = (of_char c :: nat) in 65 \<le> n \<and> n \<le> 90 \<or> 97 \<le> n \<and> n \<le> 122)"

definition is_hex :: "char \<Rightarrow> bool" where
  "is_hex c = (let n = (of_char c :: nat)
     in is_digit c \<or> 65 \<le> n \<and> n \<le> 70 \<or> 97 \<le> n \<and> n \<le> 102)"

definition is_word :: "char \<Rightarrow> bool" where
  "is_word c = (is_digit c \<or> is_alpha c \<or> c = CHR ''_'')"

definition is_re_space :: "char \<Rightarrow> bool" where
  "is_re_space c = (c \<in> set [CHR 0x20, CHR 0x09, CHR 0x0A, CHR 0x0C, CHR 0x0D])"

fun word_opt :: "char option \<Rightarrow> bool" where
  "word_opt None = False"
| "word_opt (Some c) = is_word c"

definition head_opt :: "string \<Rightarrow> char option" where
  "head_opt s = (case s of [] \<Rightarrow> None | c # _ \<Rightarrow> Some c)"

fun stars_match :: "(char \<Rightarrow> bool) \<Rightarrow> char option \<Rightarrow> string \<Rightarrow> (char option \<times> string) list" where
  "stars_match P p [] = [(p, [])]"
| "stars_match P p (c # s) =
     (if P c then stars_match P (Some c) s @ [(p, c # s)] else [(p, c # s)])"

fun re_match :: "regex \<Rightarrow> char option \<Rightarrow> string \<Rightarrow> (char option \<times> string) list" where
  "re_match (Byte P) p s =
     (case s of [] \<Rightarrow> [] | c # s' \<Rightarrow> if P c then [(Some c, s')] else [])"
| "re_match (Stars P) p s = stars_match P p s"
| "re_match WordBound p s =
     (if word_opt p \<noteq> word_opt (head_opt s) then [(p, s)] else [])"
| "re_match (Seq a b) p s = concat (map (\<lambda>(q, t). re_match b q t) (re_match a p s))"
| "re_match (Alt a b) p s = re_match a p s @ re_match b p s"
| "re_match (Opt a) p s = re_match a p s @ [(p, s)]"

text \<open>
  \<open>ReplaceAllString\<close> from a position on, with a replacement that has no \<open>$\<close>: the leftmost
  match is replaced and the search goes on behind it. None of the expressions of the file
  matches the empty text.
\<close>

function replace_from :: "regex \<Rightarrow> string \<Rightarrow> char option \<Rightarrow> string \<Rightarrow> string" where
  "replace_from r rep p s =
     (case re_match r p s of
        (q, t) # _ \<Rightarrow>
          if length t < length s then rep @ replace_from r rep q t
          else (case s of [] \<Rightarrow> rep | c # s' \<Rightarrow> rep @ c # replace_from r rep (Some c) s')
      | [] \<Rightarrow> (case s of [] \<Rightarrow> [] | c # s' \<Rightarrow> c # replace_from r rep (Some c) s'))"
  by pat_completeness auto
termination by (relation "measure (\<lambda>(r, rep, p, s). length s)") auto

declare replace_from.simps [simp del]

definition ReplaceAllString :: "regex \<Rightarrow> string \<Rightarrow> string \<Rightarrow> string" where
  "ReplaceAllString r s rep = replace_from r rep None s"

section \<open>The expressions of the file\<close>

fun seqs :: "regex list \<Rightarrow> regex" where
  "seqs [] = Opt (Byte (\<lambda>_. False))"
| "seqs [r] = r"
| "seqs (r # rs) = Seq r (seqs rs)"

definition lit :: "char \<Rightarrow> regex" where
  "lit c = Byte (\<lambda>d. d = c)"

text \<open>\<open>r{n}\<close> and \<open>r{n,n+m}\<close>.\<close>

fun times :: "nat \<Rightarrow> regex \<Rightarrow> regex" where
  "times 0 r = Opt (Byte (\<lambda>_. False))"
| "times (Suc 0) r = r"
| "times (Suc (Suc n)) r = Seq r (times (Suc n) r)"

fun upto_times :: "nat \<Rightarrow> regex \<Rightarrow> regex" where
  "upto_times 0 r = Opt (Byte (\<lambda>_. False))"
| "upto_times (Suc n) r = Opt (Seq r (upto_times n r))"

definition between :: "nat \<Rightarrow> nat \<Rightarrow> regex \<Rightarrow> regex" where
  "between n m r = Seq (times n r) (upto_times (m - n) r)"

definition digit :: regex where "digit = Byte is_digit"
definition hex :: regex where "hex = Byte is_hex"

definition plus :: "(char \<Rightarrow> bool) \<Rightarrow> regex" where
  "plus P = Seq (Byte P) (Stars P)"

definition range_byte :: "char \<Rightarrow> char \<Rightarrow> regex" where
  "range_byte a b = Byte (\<lambda>c. (of_char a :: nat) \<le> of_char c \<and> (of_char c :: nat) \<le> of_char b)"

definition isoTsRE :: regex where
  "isoTsRE = seqs
    [WordBound, times 4 digit, lit CHR ''-'', times 2 digit, lit CHR ''-'', times 2 digit,
     Byte (\<lambda>c. c = CHR ''T'' \<or> c = CHR '' ''), times 2 digit, lit CHR '':'', times 2 digit,
     Opt (seqs [lit CHR '':'', times 2 digit, Opt (Seq (lit CHR ''.'') (plus is_digit))]),
     Opt (Alt (lit CHR ''Z'')
       (seqs [Byte (\<lambda>c. c = CHR ''+'' \<or> c = CHR ''-''), times 2 digit, Opt (lit CHR '':''), times 2 digit])),
     WordBound]"

definition epochRE :: regex where
  "epochRE = seqs
    [WordBound,
     Alt (seqs [lit CHR ''1'', range_byte CHR ''5'' CHR ''9'', times 8 digit])
         (seqs [lit CHR ''1'', range_byte CHR ''6'' CHR ''9'', times 11 digit]),
     WordBound]"

definition uuidRE :: regex where
  "uuidRE = seqs
    [WordBound, times 8 hex, lit CHR ''-'', times 4 hex, lit CHR ''-'', times 4 hex, lit CHR ''-'',
     times 4 hex, lit CHR ''-'', times 12 hex, WordBound]"

definition ipv4RE :: regex where
  "ipv4RE = seqs
    [WordBound, between 1 3 digit, times 3 (Seq (lit CHR ''.'') (between 1 3 digit)), WordBound]"

definition ipv6CmpRE :: regex where
  "ipv6CmpRE = seqs
    [WordBound,
     Alt (seqs [between 1 4 hex, upto_times 6 (Seq (lit CHR '':'') (between 1 4 hex)),
                lit CHR '':'', lit CHR '':'', between 1 4 hex])
         (seqs [lit CHR '':'', lit CHR '':'', between 1 4 hex]),
     WordBound]"

definition ipv6FullRE :: regex where
  "ipv6FullRE = seqs
    [WordBound, between 1 4 hex, between 3 7 (Seq (lit CHR '':'') (between 1 4 hex)), WordBound]"

definition portRE :: regex where
  "portRE = seqs [lit CHR '':'', between 2 5 digit, WordBound]"

definition numberRE :: regex where
  "numberRE = seqs
    [WordBound, plus is_digit, Opt (Seq (lit CHR ''.'') (plus is_digit)),
     Stars (\<lambda>c. is_alpha c \<or> c = CHR ''%''), WordBound]"

definition spaceRE :: regex where "spaceRE = plus is_re_space"

definition bracesRE :: regex where
  "bracesRE = seqs [lit CHR ''{'', plus is_word, lit CHR ''}'']"

definition punctRE :: regex where
  "punctRE = Byte (\<lambda>c. \<not> (is_word c \<or> is_re_space c))"

section \<open>Signatures and labels\<close>

definition noFailureSignature :: string where
  "noFailureSignature = ''(no failure reason)''"

definition NormalizeSignature :: "string \<Rightarrow> string" where
  "NormalizeSignature raw =
     (let s = TrimSpace raw in
      if s = [] then noFailureSignature
      else
        let s = ReplaceAllString isoTsRE s ''{ts}'';
            s = ReplaceAllString epochRE s ''{ts}'';
            s = ReplaceAllString uuidRE s ''{uuid}'';
            s = ReplaceAllString ipv4RE s ''{ip}'';
            s = ReplaceAllString ipv6CmpRE s ''{ip}'';
            s = ReplaceAllString ipv6FullRE s ''{ip}'';
            s = ReplaceAllString portRE s '':{port}'';
            s = ReplaceAllString numberRE s ''{n}'';
            s = ReplaceAllString spaceRE s '' ''
        in TrimSpace s)"

text \<open>\<open>strings.ToUpper\<close> of one ASCII byte.\<close>

definition upper_byte :: "char \<Rightarrow> char" where
  "upper_byte c = (let n = (of_char c :: nat) in if 97 \<le> n \<and> n \<le> 122 then char_of (n - 32) else c)"

definition groupLabel :: "string \<Rightarrow> string" where
  "groupLabel signature =
     (if signature = [] \<or> signature = noFailureSignature then ''Unknown failure''
      else
        let s = ReplaceAllString bracesRE signature '' '';
            s = ReplaceAllString punctRE s '' '';
            words = Fields s
        in if words = [] then ''Unknown failure''
           else let label = Join (take 3 words) '' ''
                in map upper_byte (take 1 label) @ drop 1 label)"

section \<open>Matches\<close>

lemma stars_match_suffix: "(q, t) \<in> set (stars_match P p s) \<Longrightarrow> suffix t s"
  by (induction P p s rule: stars_match.induct) (auto split: if_splits intro: suffix_ConsI)

lemma re_match_suffix: "(q, t) \<in> set (re_match r p s) \<Longrightarrow> suffix t s"
proof (induction r arbitrary: p s q t)
  case (Seq a b)
  then obtain q' t' where "(q', t') \<in> set (re_match a p s)" "(q, t) \<in> set (re_match b q' t')" by auto
  with Seq.IH show ?case by (meson suffix_order.trans)
qed (auto split: list.splits if_splits intro: suffix_ConsI dest: stars_match_suffix)

text \<open>\<open>needs P r\<close>: no match of \<open>r\<close> anywhere in a text without a byte in \<open>P\<close>.\<close>

definition needs :: "(char \<Rightarrow> bool) \<Rightarrow> regex \<Rightarrow> bool" where
  "needs P r = (\<forall>p s. list_all (\<lambda>c. \<not> P c) s \<longrightarrow> re_match r p s = [])"

lemma needs_Byte: "(\<And>c. Q c \<Longrightarrow> P c) \<Longrightarrow> needs P (Byte Q)"
  by (auto simp: needs_def split: list.splits)

lemma needs_Seq1: "needs P a \<Longrightarrow> needs P (Seq a b)"
  by (simp add: needs_def)

lemma needs_Seq2: "needs P b \<Longrightarrow> needs P (Seq a b)"
  unfolding needs_def
proof (intro allI impI)
  fix p s assume b: "\<forall>p s. list_all (\<lambda>c. \<not> P c) s \<longrightarrow> re_match b p s = []"
    and s: "list_all (\<lambda>c. \<not> P c) s"
  have "re_match b q t = []" if "(q, t) \<in> set (re_match a p s)" for q t
  proof -
    from re_match_suffix[OF that] have "set t \<subseteq> set s" by (rule set_mono_suffix)
    with b s show ?thesis by (metis list_all_iff subset_iff)
  qed
  then show "re_match (Seq a b) p s = []" by auto
qed

lemma needs_Alt: "needs P a \<Longrightarrow> needs P b \<Longrightarrow> needs P (Alt a b)"
  by (simp add: needs_def)

lemma needs_times: "needs P r \<Longrightarrow> needs P (times (Suc n) r)"
  by (cases n) (auto intro: needs_Seq1)

lemma replace_from_unmatched:
  assumes "re_match r p (c # s) = []"
  shows "replace_from r rep p (c # s) = c # replace_from r rep (Some c) s"
  using assms by (subst replace_from.simps) simp

lemma replace_from_needs:
  "needs P r \<Longrightarrow> list_all (\<lambda>c. \<not> P c) s \<Longrightarrow> replace_from r rep p s = s"
proof (induction s arbitrary: p)
  case Nil
  then have "re_match r p [] = []" by (simp add: needs_def)
  then show ?case by (subst replace_from.simps) simp
next
  case (Cons c s)
  then have "re_match r p (c # s) = []" by (simp add: needs_def)
  with Cons show ?case by (simp add: replace_from_unmatched)
qed

lemmas needs_intros = needs_Seq1 needs_Seq2 needs_Alt

lemma needs_file:
  "needs (\<lambda>c. c = CHR ''-'') isoTsRE" "needs (\<lambda>c. c = CHR ''-'') uuidRE"
  "needs (\<lambda>c. c = CHR ''.'') ipv4RE" "needs (\<lambda>c. c = CHR '':'') ipv6CmpRE"
  "needs (\<lambda>c. c = CHR '':'') ipv6FullRE" "needs (\<lambda>c. c = CHR '':'') portRE"
proof -
  let ?l = "\<lambda>x. needs (\<lambda>c. c = x) (lit x)"
  have l: "?l x" for x by (simp add: lit_def needs_Byte)
  show "needs (\<lambda>c. c = CHR ''-'') isoTsRE" "needs (\<lambda>c. c = CHR ''-'') uuidRE"
    unfolding isoTsRE_def uuidRE_def seqs.simps by (rule needs_Seq2, rule needs_Seq2, rule needs_Seq1, rule l)+
  show "needs (\<lambda>c. c = CHR ''.'') ipv4RE"
    unfolding ipv4RE_def seqs.simps numeral_3_eq_3
    by (rule needs_Seq2, rule needs_Seq2, rule needs_Seq1, rule needs_times, rule needs_Seq1, rule l)
  show "needs (\<lambda>c. c = CHR '':'') ipv6CmpRE"
    unfolding ipv6CmpRE_def seqs.simps
    by (rule needs_Seq2, rule needs_Seq1, rule needs_Alt; (rule needs_Seq2, rule needs_Seq2, rule needs_Seq1, rule l | rule needs_Seq1, rule l))
  show "needs (\<lambda>c. c = CHR '':'') ipv6FullRE"
    unfolding ipv6FullRE_def seqs.simps between_def numeral_3_eq_3
    by (rule needs_Seq2, rule needs_Seq2, rule needs_Seq1, rule needs_Seq1, rule needs_times, rule needs_Seq1, rule l)
  show "needs (\<lambda>c. c = CHR '':'') portRE"
    unfolding portRE_def seqs.simps by (rule needs_Seq1, rule l)
qed

section \<open>Texts of words and numbers\<close>

text \<open>
  The first match of each expression that can still match a text without \<open>-\<close>, \<open>:\<close> and
  \<open>.\<close>: a run of ten digits for a timestamp, a digit for a number, white space.
\<close>

definition lead_digits :: "string \<Rightarrow> nat" where
  "lead_digits s = length (takeWhile is_digit s)"

lemma lead_digits_simps [simp]:
  "lead_digits [] = 0" "lead_digits (c # s) = (if is_digit c then Suc (lead_digits s) else 0)"
  by (simp_all add: lead_digits_def)

lemma times_digit_lead:
  "(q, t) \<in> set (re_match (times (Suc n) digit) p s) \<Longrightarrow> Suc n \<le> lead_digits s"
proof (induction n arbitrary: p s)
  case 0
  then show ?case by (auto simp: digit_def split: list.splits if_splits)
next
  case (Suc n)
  then obtain c s' where "s = c # s'" "is_digit c" "(q, t) \<in> set (re_match (times (Suc n) digit) (Some c) s')"
    by (auto simp: digit_def split: list.splits if_splits)
  with Suc.IH show ?case by fastforce
qed

lemma epoch_lead: "10 \<le> lead_digits s" if "re_match epochRE p s \<noteq> []"
proof -
  have nine: "(8::nat) = Suc 7" "(11::nat) = Suc 10" by simp_all
  have one: "is_digit CHR ''1''" by (simp add: is_digit_def)
  have range: "is_digit c" if "53 \<le> (of_char c :: nat) \<or> 54 \<le> (of_char c :: nat)" "(of_char c :: nat) \<le> 57" for c
    using that by (auto simp: is_digit_def)
  from that obtain q t where "(q, t) \<in> set (re_match (Alt (seqs [lit CHR ''1'', range_byte CHR ''5'' CHR ''9'', times 8 digit])
         (seqs [lit CHR ''1'', range_byte CHR ''6'' CHR ''9'', times 11 digit])) p s)"
    unfolding epochRE_def seqs.simps re_match.simps(3,4)
    by (cases "word_opt p = word_opt (head_opt s)") (auto simp del: re_match.simps(5))
  then obtain d s' n where "s = CHR ''1'' # d # s'" "is_digit d" "n = 8 \<or> n = 11"
      "(q, t) \<in> set (re_match (times n digit) (Some d) s')"
    by (auto simp: lit_def range_byte_def split: list.splits if_splits intro: range)
  with one show ?thesis
    by (auto dest!: times_digit_lead[where n = 7, simplified] times_digit_lead[where n = 10, simplified])
qed

text \<open>No run of ten digits anywhere.\<close>

fun short_runs :: "string \<Rightarrow> bool" where
  "short_runs [] = True"
| "short_runs (c # s) = (lead_digits (c # s) < 10 \<and> short_runs s)"

lemma lead_digits_append:
  "lead_digits (w @ rest) \<le> length (filter is_digit w) + lead_digits rest"
  by (induction w) auto

lemma short_runs_append:
  "short_runs rest \<Longrightarrow> lead_digits rest = 0 \<Longrightarrow> length (filter is_digit w) < 10 \<Longrightarrow> short_runs (w @ rest)"
proof (induction w)
  case (Cons c w)
  have "lead_digits ((c # w) @ rest) \<le> length (filter is_digit (c # w))"
    using lead_digits_append[of "c # w" rest] Cons.prems by simp
  moreover have "length (filter is_digit w) < 10"
    using Cons.prems(3) by (auto split: if_splits)
  ultimately show ?case
    using Cons by (auto simp del: lead_digits_simps)
qed simp

lemma replace_epoch_short: "short_runs s \<Longrightarrow> replace_from epochRE rep p s = s"
proof (induction s arbitrary: p)
  case Nil
  have "re_match epochRE p [] = []" using epoch_lead[of p "[]"] by auto
  then show ?case by (subst replace_from.simps) simp
next
  case (Cons c s)
  have "re_match epochRE p (c # s) = []"
    using epoch_lead[of p "c # s"] Cons.prems by (auto simp del: lead_digits_simps)
  with Cons show ?case by (simp add: replace_from_unmatched)
qed

text \<open>The first, that is the longest, match of a number.\<close>

lemma stars_match_hd:
  "\<exists>rest. stars_match P p s =
     ((if takeWhile P s = [] then p else Some (last (takeWhile P s))), dropWhile P s) # rest"
  by (induction P p s rule: stars_match.induct) auto

lemma number_needs_digit: "\<not> is_digit c \<Longrightarrow> re_match numberRE p (c # t) = []"
  by (simp add: numberRE_def plus_def)

lemma number_Nil: "re_match numberRE p [] = []"
  by (simp add: numberRE_def plus_def)

definition ends_word :: "string \<Rightarrow> bool" where
  "ends_word s = (s = [] \<or> hd s = CHR '' '')"

lemma is_digit_word: "is_digit c \<Longrightarrow> is_word c" by (simp add: is_word_def)
lemma is_alpha_word: "is_alpha c \<Longrightarrow> is_word c" by (simp add: is_word_def)

lemma space_facts [simp]: "\<not> is_digit CHR '' ''" "\<not> is_alpha CHR '' ''" "\<not> is_word CHR '' ''"
    "is_re_space CHR '' ''" "is_space CHR '' ''"
  by (simp_all add: is_digit_def is_alpha_def is_word_def is_re_space_def is_space_def)

lemma takeWhile_run:
  "list_all P w \<Longrightarrow> (rest = [] \<or> \<not> P (hd rest)) \<Longrightarrow>
   takeWhile P (w @ rest) = w \<and> dropWhile P (w @ rest) = rest"
  by (induction w) (cases rest; auto)+

lemma seq_first:
  "re_match a p s = (q, t) # o1 \<Longrightarrow> \<exists>o2. re_match b q t = x # o2 \<Longrightarrow>
   \<exists>o3. re_match (Seq a b) p s = x # o3"
  by auto

lemma number_match:
  assumes ds: "ds \<noteq> []" "list_all is_digit ds" and as: "list_all is_alpha as"
    and rest: "ends_word rest" and p: "\<not> word_opt p"
  shows "\<exists>q others. re_match numberRE p (ds @ as @ rest) = (q, rest) # others"
proof -
  let ?pc = "\<lambda>c. is_alpha c \<or> c = CHR ''%''"
  obtain d ds' where d: "ds = d # ds'" "is_digit d" "list_all is_digit ds'"
    using ds by (cases ds) auto
  have alpha_nd: "\<not> is_digit c" if "is_alpha c" for c
    using that by (auto simp: is_digit_def is_alpha_def Let_def)
  have nd: "as @ rest = [] \<or> \<not> is_digit (hd (as @ rest))"
    using as rest alpha_nd by (cases as) (auto simp: ends_word_def)
  obtain q1 o1 where m1: "stars_match is_digit (Some d) (ds' @ as @ rest) = (q1, as @ rest) # o1"
      and q1: "word_opt q1"
    using stars_match_hd[of is_digit "Some d" "ds' @ as @ rest"] takeWhile_run[OF d(3) nd] d(2,3)
    by (cases ds' rule: rev_cases) (auto simp: is_digit_word)
  have np: "rest = [] \<or> \<not> ?pc (hd rest)"
    using rest by (auto simp: ends_word_def)
  have as': "list_all ?pc as" using as by (auto simp: list_all_iff)
  obtain q2 o2 where m2: "stars_match ?pc q1 (as @ rest) = (q2, rest) # o2" and q2: "word_opt q2"
    using stars_match_hd[of ?pc q1 "as @ rest"] takeWhile_run[OF as' np] q1 as
    by (cases as rule: rev_cases) (auto simp: is_alpha_word)
  have dot: "re_match (Seq (lit CHR ''.'') (plus is_digit)) q1 (as @ rest) = []"
    using as rest by (cases as) (auto simp: ends_word_def lit_def is_alpha_def split: list.splits)
  have wb: "re_match WordBound q2 rest = [(q2, rest)]"
    using q2 rest by (cases rest) (auto simp: ends_word_def head_opt_def)
  have w0: "word_opt (head_opt (ds @ as @ rest))" using d by (simp add: head_opt_def is_digit_word)
  have bound: "re_match WordBound p (ds @ as @ rest) = [(p, ds @ as @ rest)]"
    using w0 p by simp
  have dig: "\<exists>os. re_match (plus is_digit) p (ds @ as @ rest) = (q1, as @ rest) # os"
    using m1 d by (simp add: plus_def)
  have opt: "re_match (Opt (Seq (lit CHR ''.'') (plus is_digit))) q1 (as @ rest) = [(q1, as @ rest)]"
    using dot by (simp del: re_match.simps(4))
  have al: "\<exists>os. re_match (Seq (Stars ?pc) WordBound) q1 (as @ rest) = (q2, rest) # os"
    using m2 wb by (simp del: re_match.simps(3))
  show ?thesis
    unfolding numberRE_def seqs.simps
    using dig seq_first[OF bound] seq_first[OF _ seq_first[OF opt al]] by blast
qed

section \<open>Words\<close>

definition plain_byte :: "char \<Rightarrow> bool" where
  "plain_byte c = (\<not> is_space c \<and> \<not> is_digit c \<and> c \<notin> set '':-.'')"

definition plain_word :: "string \<Rightarrow> bool" where
  "plain_word w = (w \<noteq> [] \<and> list_all plain_byte w)"

text \<open>A number of at most nine digits, with an optional unit: \<open>42\<close>, \<open>30000ms\<close>.\<close>

definition number_word :: "string \<Rightarrow> bool" where
  "number_word w =
     (takeWhile is_digit w \<noteq> [] \<and> length (takeWhile is_digit w) < 10 \<and>
      list_all is_alpha (dropWhile is_digit w))"

definition placeholder :: "string \<Rightarrow> string" where
  "placeholder w = (if number_word w then ''{n}'' else w)"

definition sentence :: "string list \<Rightarrow> string" where
  "sentence ws = Join ws '' ''"

definition jtail :: "string list \<Rightarrow> string" where
  "jtail ws = (if ws = [] then [] else CHR '' '' # sentence ws)"

lemma sentence_Cons: "sentence (w # ws) = w @ jtail ws"
  by (cases ws) (auto simp: sentence_def jtail_def)

lemma sentence_Nil [simp]: "sentence [] = []"
  by (simp add: sentence_def)

abbreviation sentence_word :: "string \<Rightarrow> bool" where
  "sentence_word w \<equiv> plain_word w \<or> number_word w"

lemma number_wordE:
  assumes "number_word w"
  obtains ds as where "w = ds @ as" "ds \<noteq> []" "list_all is_digit ds" "list_all is_alpha as"
    "length ds < 10" "filter is_digit w = ds"
proof
  have al: "\<not> is_digit c" if "is_alpha c" for c
    using that by (auto simp: is_digit_def is_alpha_def Let_def)
  show "w = takeWhile is_digit w @ dropWhile is_digit w" by simp
  show "list_all is_digit (takeWhile is_digit w)"
    by (auto simp: list_all_iff dest: set_takeWhileD)
  moreover have "filter is_digit (dropWhile is_digit w) = []"
    using assms al by (auto simp: number_word_def list_all_iff filter_empty_conv)
  ultimately show "filter is_digit w = takeWhile is_digit w"
    by (metis append_Nil2 filter_append filter_True list_all_iff takeWhile_dropWhile_id)
qed (use assms in \<open>simp_all add: number_word_def\<close>)

lemma number_word_digits: "number_word w \<Longrightarrow> length (filter is_digit w) < 10"
  by (erule number_wordE) simp

lemma plain_word_digits: "plain_word w \<Longrightarrow> filter is_digit w = []"
  by (auto simp: plain_word_def plain_byte_def list_all_iff filter_empty_conv)

lemma digit_alpha_plain:
  "is_digit c \<or> is_alpha c \<Longrightarrow> \<not> is_space c \<and> c \<notin> set '':-.''"
  by (auto simp: is_digit_def is_alpha_def is_space_def Let_def)

lemma sentence_word_bytes:
  assumes "sentence_word w"
  shows "w \<noteq> []" "list_all (\<lambda>c. \<not> is_space c \<and> c \<notin> set '':-.'') w"
proof -
  from assms show "w \<noteq> []" by (auto simp: plain_word_def number_word_def)
  from assms consider "plain_word w" | "number_word w" by blast
  then show "list_all (\<lambda>c. \<not> is_space c \<and> c \<notin> set '':-.'') w"
  proof cases
    case 1
    then show ?thesis by (auto simp: plain_word_def plain_byte_def list_all_iff)
  next
    case 2
    then obtain ds as where w: "w = ds @ as" "list_all is_digit ds" "list_all is_alpha as"
      by (elim number_wordE)
    then have "is_digit c \<or> is_alpha c" if "c \<in> set w" for c
      using that by (auto simp: list_all_iff)
    then show ?thesis unfolding list_all_iff using digit_alpha_plain by blast
  qed
qed

lemma sentence_bytes:
  "list_all sentence_word ws \<Longrightarrow> list_all (\<lambda>c. c \<notin> set '':-.'') (sentence ws)"
proof (induction ws)
  case (Cons w ws)
  then have w: "sentence_word w" and ws: "list_all (\<lambda>c. c \<notin> set '':-.'') (sentence ws)" by simp_all
  have "list_all (\<lambda>c. c \<notin> set '':-.'') w"
    using sentence_word_bytes(2)[OF w] by (simp add: list_all_iff)
  with ws show ?case by (simp add: sentence_Cons jtail_def)
qed simp

lemma jtail_ends_word: "ends_word (jtail ws)" and lead_digits_jtail: "lead_digits (jtail ws) = 0"
  by (simp_all add: jtail_def ends_word_def)

lemma sentence_short: "list_all sentence_word ws \<Longrightarrow> short_runs (sentence ws)"
proof (induction ws)
  case (Cons w ws)
  then have "short_runs (jtail ws)" by (simp add: jtail_def)
  moreover have "length (filter is_digit w) < 10"
    using Cons.prems number_word_digits plain_word_digits by fastforce
  ultimately show ?case
    by (simp add: sentence_Cons short_runs_append lead_digits_jtail)
qed simp

lemma replace_number_plain:
  "list_all (\<lambda>c. \<not> is_digit c) w \<Longrightarrow>
   \<exists>q. replace_from numberRE rep p (w @ rest) = w @ replace_from numberRE rep q rest"
proof (induction w arbitrary: p)
  case (Cons c w)
  then have "re_match numberRE p (c # w @ rest) = []" by (simp add: number_needs_digit)
  with Cons show ?case by (simp add: replace_from_unmatched)
qed auto

lemma replace_number_word:
  assumes "number_word w" "ends_word rest" "\<not> word_opt p"
  shows "\<exists>q. replace_from numberRE rep p (w @ rest) = rep @ replace_from numberRE rep q rest"
proof -
  from assms(1) obtain ds as where w: "w = ds @ as" "ds \<noteq> []" "list_all is_digit ds" "list_all is_alpha as"
    by (elim number_wordE)
  from number_match[OF w(2,3,4) assms(2,3)] obtain q others where
    "re_match numberRE p (ds @ as @ rest) = (q, rest) # others" by blast
  then show ?thesis using w by (subst replace_from.simps) auto
qed

lemma replace_number_sentence:
  "list_all sentence_word ws \<Longrightarrow> \<not> word_opt p \<Longrightarrow>
   replace_from numberRE ''{n}'' p (sentence ws) = sentence (map placeholder ws)"
proof (induction ws arbitrary: p)
  case Nil
  then show ?case by (subst replace_from.simps) (simp add: number_Nil)
next
  case (Cons w ws)
  have rest: "replace_from numberRE ''{n}'' q (jtail ws) = jtail (map placeholder ws)" for q
  proof (cases "ws = []")
    case True
    then show ?thesis by (subst replace_from.simps) (simp add: jtail_def number_Nil)
  next
    case False
    then show ?thesis
      using Cons.IH[of "Some (CHR '' '')"] Cons.prems
      by (simp add: jtail_def replace_from_unmatched number_needs_digit)
  qed
  show ?case
  proof (cases "number_word w")
    case True
    obtain q where "replace_from numberRE ''{n}'' p (w @ jtail ws) =
        ''{n}'' @ replace_from numberRE ''{n}'' q (jtail ws)"
      using replace_number_word[OF True jtail_ends_word Cons.prems(2)] by blast
    moreover have "placeholder w = ''{n}''" using True by (simp add: placeholder_def)
    ultimately show ?thesis by (simp add: sentence_Cons rest)
  next
    case False
    with Cons.prems have "list_all (\<lambda>c. \<not> is_digit c) w"
      by (auto simp: plain_word_def plain_byte_def list_all_iff)
    then obtain q where "replace_from numberRE ''{n}'' p (w @ jtail ws) =
        w @ replace_from numberRE ''{n}'' q (jtail ws)"
      using replace_number_plain by blast
    moreover have "placeholder w = w" using False by (simp add: placeholder_def)
    ultimately show ?thesis by (simp add: sentence_Cons rest)
  qed
qed

text \<open>White space between the words of a sentence is single and stays.\<close>

lemma re_space_space: "is_re_space c \<Longrightarrow> is_space c"
  by (auto simp: is_re_space_def is_space_def)

lemma replace_space_plain:
  "list_all (\<lambda>c. \<not> is_space c) w \<Longrightarrow>
   \<exists>q. replace_from spaceRE rep p (w @ rest) = w @ replace_from spaceRE rep q rest"
proof (induction w arbitrary: p)
  case (Cons c w)
  then have "re_match spaceRE p (c # w @ rest) = []"
    by (auto simp: spaceRE_def plus_def dest: re_space_space)
  with Cons show ?case by (simp add: replace_from_unmatched)
qed auto

abbreviation solid :: "string \<Rightarrow> bool" where
  "solid w \<equiv> w \<noteq> [] \<and> list_all (\<lambda>c. \<not> is_space c) w"

lemma replace_space_sentence:
  "list_all solid ws \<Longrightarrow> replace_from spaceRE '' '' p (sentence ws) = sentence ws"
proof (induction ws arbitrary: p)
  case Nil
  then show ?case by (subst replace_from.simps) (simp add: spaceRE_def plus_def)
next
  case (Cons w ws)
  have rest: "replace_from spaceRE '' '' q (jtail ws) = jtail ws" for q
  proof (cases ws)
    case Nil
    then show ?thesis by (subst replace_from.simps) (simp add: jtail_def spaceRE_def plus_def)
  next
    case (Cons v vs)
    then obtain c v' where v: "v = c # v'" "\<not> is_re_space c"
      using Cons.prems by (cases v) (auto dest: re_space_space)
    then have m: "re_match spaceRE q (jtail ws) = [(Some (CHR '' ''), sentence ws)]"
      by (simp add: Cons jtail_def sentence_Cons spaceRE_def plus_def)
    show ?thesis
      by (subst replace_from.simps) (use m Cons.IH Cons.prems Cons in \<open>simp add: jtail_def\<close>)
  qed
  with replace_space_plain[of w "'' ''" p "jtail ws"] Cons.prems show ?case
    by (auto simp: sentence_Cons)
qed

text \<open>A sentence starts and ends with a byte that is not white space.\<close>

lemma TrimSpace_id:
  assumes "\<not> is_space (hd s)" "\<not> is_space (last s)"
  shows "TrimSpace s = s"
proof (cases s rule: rev_cases)
  case (snoc ys y)
  then have "dropWhile is_space (rev s) = rev s" using assms(2) by simp
  moreover have "dropWhile is_space s = s" using assms(1) by (cases s) auto
  ultimately show ?thesis by (simp add: TrimSpace_def)
qed simp

lemma solid_last: "solid w \<Longrightarrow> \<not> is_space (last w)"
  by (simp add: list_all_iff)

lemma sentence_last: "ws \<noteq> [] \<Longrightarrow> list_all solid ws \<Longrightarrow> sentence ws \<noteq> [] \<and> last (sentence ws) = last (last ws)"
proof (induction ws)
  case (Cons w ws)
  then show ?case by (cases "ws = []") (auto simp: sentence_Cons jtail_def)
qed simp

lemma TrimSpace_sentence:
  assumes "list_all solid ws" shows "TrimSpace (sentence ws) = sentence ws"
proof (cases ws)
  case (Cons w vs)
  have "\<not> is_space (hd (sentence ws))"
    using assms Cons by (cases w) (auto simp: sentence_Cons)
  moreover have "solid (last ws)"
    using assms Cons last_in_set[of ws] unfolding list_all_iff by blast
  then have "\<not> is_space (last (sentence ws))"
    using sentence_last[of ws] assms Cons solid_last by simp
  ultimately show ?thesis by (rule TrimSpace_id)
qed simp

lemma sentence_word_solid: "list_all sentence_word ws \<Longrightarrow> list_all solid ws"
  using sentence_word_bytes by (fastforce simp: list_all_iff)

lemma placeholder_solid: "list_all solid ws \<Longrightarrow> list_all solid (map placeholder ws)"
  by (induction ws) (auto simp: placeholder_def is_space_def)

lemma NormalizeSignature_sentence:
  assumes "ws \<noteq> []" and "list_all (\<lambda>w. plain_word w \<or> number_word w) ws"
  shows "NormalizeSignature (sentence ws) = sentence (map placeholder ws)"
proof -
  let ?s = "sentence ws"
  have ne: "?s \<noteq> []" using sentence_last assms sentence_word_solid by blast
  have free: "list_all (\<lambda>c. \<not> c = x) ?s" if "x \<in> set '':-.''" for x
    using sentence_bytes[OF assms(2)] that by (auto simp: list_all_iff)
  note needs = needs_file[THEN replace_from_needs, OF free]
  have "TrimSpace ?s = ?s"
    using assms(2) by (simp add: TrimSpace_sentence sentence_word_solid)
  moreover have "replace_from isoTsRE rep None ?s = ?s" "replace_from uuidRE rep None ?s = ?s"
    "replace_from ipv4RE rep None ?s = ?s" "replace_from ipv6CmpRE rep None ?s = ?s"
    "replace_from ipv6FullRE rep None ?s = ?s" "replace_from portRE rep None ?s = ?s" for rep
    by (rule needs; simp)+
  moreover have "replace_from epochRE rep None ?s = ?s" for rep
    by (simp add: replace_epoch_short sentence_short assms(2))
  moreover have "replace_from numberRE ''{n}'' None ?s = sentence (map placeholder ws)"
    by (rule replace_number_sentence[OF assms(2)]) simp
  moreover have "list_all solid (map placeholder ws)"
    by (simp only: placeholder_solid sentence_word_solid[OF assms(2)])
  ultimately show ?thesis
    using ne by (simp add: NormalizeSignature_def ReplaceAllString_def Let_def
        replace_space_sentence TrimSpace_sentence)
qed

section \<open>Properties\<close>

text \<open>
  C10: what makes the clustering work. A failure text of words and numbers (each at most nine
  digits, with an optional unit) has as its signature the same words with every number
  collapsed to \<open>{n}\<close>, and nothing else changed: texts that differ only in their numbers share
  a signature, texts that differ in a word do not.
\<close>

theorem signature_of_sentence:
  assumes "ws \<noteq> []" and "list_all (\<lambda>w. plain_word w \<or> number_word w) ws"
  shows "NormalizeSignature (Join ws '' '') = Join (map placeholder ws) '' ''"
  using NormalizeSignature_sentence[OF assms] by (simp add: sentence_def)

theorem signature_of_sentence_witness:
  "NormalizeSignature (Join [''order'', ''4821'', ''failed'', ''after'', ''30000ms''] '' '') =
     ''order {n} failed after {n}''"
proof -
  have "list_all (\<lambda>w. plain_word w \<or> number_word w) [''order'', ''4821'', ''failed'', ''after'', ''30000ms'']"
    by (simp add: plain_word_def plain_byte_def number_word_def is_space_def is_digit_def is_alpha_def)
  from signature_of_sentence[OF _ this] show ?thesis
    by (simp add: placeholder_def number_word_def is_digit_def is_alpha_def)
qed

end
