(* ===== verification/Jev_Pass.thy ===== *)
theory Jev_Pass
  imports Jev Signature
begin

text \<open>
  The full precedence chain of \<^verbatim>\<open>internal/recovery/jev.go\<close>: duplicate header,
  policy, Jev, rules. The evaluator (\<open>JevEvaluator\<close>, an HTTP service) is a parameter: a
  function of the state text and the questions over a service state that is not part of the
  repository. \<open>asSent\<close> records the states handed to it; the code has no such list, it only
  feeds the statements below.
\<close>

section \<open>The assessor\<close>

type_synonym 's evaluator =
  "string \<Rightarrow> (string \<times> question) list \<Rightarrow> 's \<Rightarrow> (goerr, response) result \<times> 's"

record 's assessor =
  asClient :: "'s evaluator option"
  asThreshold :: rat
  asCache :: "cache option"
  asMaxCalls :: int
  asOnlyInvestigate :: bool
  asCalls :: int
  asService :: 's
  asSent :: "string list"

definition Enabled :: "'s assessor option \<Rightarrow> bool" where
  "Enabled ao = (case ao of None \<Rightarrow> False | Some a \<Rightarrow> asClient a \<noteq> None)"

definition Calls :: "'s assessor option \<Rightarrow> int" where
  "Calls ao = (case ao of None \<Rightarrow> 0 | Some a \<Rightarrow> asCalls a)"

definition assessor_threshold :: "'s assessor option \<Rightarrow> rat" where
  "assessor_threshold ao =
     (case ao of None \<Rightarrow> DefaultThreshold
      | Some a \<Rightarrow> if asThreshold a \<le> 0 then DefaultThreshold else asThreshold a)"

section \<open>Texts\<close>

definition jevChoiceToClassification :: "string \<Rightarrow> classification" where
  "jevChoiceToClassification choice =
     (if choice = ''replayable'' then Replayable
      else if choice = ''requires_fix'' then RequiresFix
      else if choice = ''do_not_replay'' then DoNotReplay
      else Investigate)"

definition jevChoiceWhy :: "string \<Rightarrow> string" where
  "jevChoiceWhy choice =
     (if choice = ''replayable'' then ''failure looks transient'' @ dash_sep @ ''safe to retry''
      else if choice = ''requires_fix'' then ''failure looks permanent'' @ dash_sep @ ''fix payload or config first''
      else if choice = ''do_not_replay'' then ''event looks already processed'' @ dash_sep @ ''replay would duplicate work''
      else ''signals remain ambiguous'' @ dash_sep @ ''investigate before replaying'')"

text \<open>The \<open>%.2f\<close> verb on a number that is not negative: rounded to hundredths, halves to even.\<close>

definition round_half_even :: "rat \<Rightarrow> int" where
  "round_half_even q =
     (let f = \<lfloor>q\<rfloor>; r = q - of_int f
      in if r > 1/2 \<or> (r = 1/2 \<and> odd f) then f + 1 else f)"

definition fixed2 :: "rat \<Rightarrow> string" where
  "fixed2 q = (let n = round_half_even (q * 100) in Itoa (n div 100) @ ''.'' @ pad2 (n mod 100))"

definition jev_reason :: "jev_verdict \<Rightarrow> string" where
  "jev_reason v =
     ''jev '' @ vdModel v @ '' (p='' @ fixed2 (vdConfidence v) @ '', risk='' @ fixed2 (vdReplayRisk v) @ ''): ''
     @ jevChoiceWhy (vdClassification v)
     @ (if vdDuplicateProb v \<ge> DuplicateOverride \<and> vdClassification v = ''do_not_replay''
        then ''; duplicate probability '' @ fixed2 (vdDuplicateProb v) else [])"

section \<open>One message\<close>

text \<open>The cached answer for a state, or else a call, whose failure is neither counted nor cached.\<close>

definition ask_jev :: "'s evaluator \<Rightarrow> string \<Rightarrow> 's assessor \<Rightarrow> response option \<times> 's assessor" where
  "ask_jev client state a =
     (case cache_Get (asCache a) state of
        Some hit \<Rightarrow> (Some hit, a\<lparr>asCache := cache_Hit (asCache a)\<rparr>)
      | None \<Rightarrow>
          (case client state ClassificationQuestions (asService a) of
             (Inl e, s) \<Rightarrow> (None, a\<lparr>asService := s, asSent := asSent a @ [state]\<rparr>)
           | (Inr resp, s) \<Rightarrow>
               (Some resp, a\<lparr>asService := s, asSent := asSent a @ [state], asCalls := asCalls a + 1,
                             asCache := cache_Put state resp (asCache a)\<rparr>)))"

definition jev_result :: "class_result \<Rightarrow> jev_verdict \<Rightarrow> class_result" where
  "jev_result base v =
     base\<lparr>crClass := jevChoiceToClassification (vdClassification v), crConfidence := vdConfidence v,
          crSource := ''jev'', crJevModel := vdModel v, crReplayRisk := vdReplayRisk v,
          crReason := jev_reason v\<rparr>"

definition message_state :: "message \<Rightarrow> string" where
  "message_state m = BuildMessageState m (NormalizeSignature (mFailureReason m))"

definition ClassifyWithPolicyAndJev ::
    "message \<Rightarrow> policy option \<Rightarrow> 's assessor option \<Rightarrow> class_result \<times> 's assessor option" where
  "ClassifyWithPolicyAndJev m po ao =
     (let base = (ClassifyWithPolicy m po)\<lparr>crSource := ''rules''\<rparr>
      in if hget (mHeaders m) ''x-duplicate-of'' \<noteq> []
         then (base\<lparr>crSkipReason := ''header-duplicate''\<rparr>, ao)
         else if (case po of None \<Rightarrow> False | Some p \<Rightarrow> policy_match p m \<noteq> None)
         then (base\<lparr>crSource := ''policy'', crSkipReason := ''policy-matched''\<rparr>, ao)
         else case ao of
           None \<Rightarrow> (base\<lparr>crSkipReason := ''jev-disabled''\<rparr>, ao)
         | Some a \<Rightarrow>
             (case asClient a of
                None \<Rightarrow> (base\<lparr>crSkipReason := ''jev-disabled''\<rparr>, ao)
              | Some client \<Rightarrow>
                  if asOnlyInvestigate a \<and> crClass base \<noteq> Investigate
                  then (base\<lparr>crSkipReason := ''not-investigate''\<rparr>, ao)
                  else if asMaxCalls a > 0 \<and> asCalls a \<ge> asMaxCalls a
                  then (base\<lparr>crSkipReason := ''call-budget-exceeded''\<rparr>, ao)
                  else
                    (case ask_jev client (message_state m) a of
                       (None, a) \<Rightarrow> (base\<lparr>crSkipReason := ''jev-error''\<rparr>, Some a)
                     | (Some resp, a) \<Rightarrow>
                         (case MapResponse (Some resp) (assessor_threshold (Some a)) of
                            Inl e \<Rightarrow> (base\<lparr>crSkipReason := ''jev-error''\<rparr>, Some a)
                          | Inr (v, ok) \<Rightarrow>
                              if \<not> ok then (base\<lparr>crSkipReason := ''below-threshold''\<rparr>, Some a)
                              else (jev_result base v, Some a)))))"

text \<open>
  A run over many messages: what the loops of the analyzer and of the planner do with one
  assessor.
\<close>

fun classify_run ::
    "message list \<Rightarrow> policy option \<Rightarrow> 's assessor option \<Rightarrow> class_result list \<times> 's assessor option" where
  "classify_run [] po ao = ([], ao)"
| "classify_run (m # ms) po ao =
     (let (r, ao) = ClassifyWithPolicyAndJev m po ao;
          (rs, ao) = classify_run ms po ao
      in (r # rs, ao))"

section \<open>Lemmas\<close>

lemma jev_classes: "vdClassification v \<in> set jev_choices \<Longrightarrow>
    classification_text (jevChoiceToClassification (vdClassification v)) \<in>
      set [''REPLAYABLE'', ''REQUIRES_FIX'', ''DO_NOT_REPLAY'', ''INVESTIGATE'']"
  by (cases "jevChoiceToClassification (vdClassification v)") auto

lemma ask_jev_frame:
  assumes "ask_jev client state a = (ro, a')"
  shows "asClient a' = asClient a \<and> asThreshold a' = asThreshold a \<and> asMaxCalls a' = asMaxCalls a \<and>
    asOnlyInvestigate a' = asOnlyInvestigate a"
  using assms by (auto simp: ask_jev_def split: option.splits prod.splits sum.splits)

text \<open>The ways a message can go through the chain.\<close>

lemma jev_cases:
  assumes "ClassifyWithPolicyAndJev m po ao = (res, ao')"
  obtains
    (decided) "hget (mHeaders m) ''x-duplicate-of'' \<noteq> [] \<or> (\<exists>p. po = Some p \<and> policy_match p m \<noteq> None)"
      "ao' = ao" "crSource res \<noteq> ''jev''"
  | (skipped) "ao' = ao" "crSource res = ''rules''"
      "\<not> Enabled ao \<or> (\<exists>a. ao = Some a \<and> (asOnlyInvestigate a \<and> crClass (ClassifyWithPolicy m po) \<noteq> Investigate \<or>
         asMaxCalls a > 0 \<and> asCalls a \<ge> asMaxCalls a))"
  | (unusable) a client ro a' where "ao = Some a" "asClient a = Some client" "ask_jev client (message_state m) a = (ro, a')"
      "ao' = Some a'" "crSource res = ''rules''" "\<not> (asMaxCalls a > 0 \<and> asCalls a \<ge> asMaxCalls a)"
      "hget (mHeaders m) ''x-duplicate-of'' = []" "\<forall>p. po = Some p \<longrightarrow> policy_match p m = None"
  | (answered) a client resp a' v where "ao = Some a" "asClient a = Some client"
      "ask_jev client (message_state m) a = (Some resp, a')" "ao' = Some a'"
      "MapResponse (Some resp) (assessor_threshold (Some a)) = Ok (v, True)"
      "res = jev_result ((ClassifyWithPolicy m po)\<lparr>crSource := ''rules''\<rparr>) v"
      "hget (mHeaders m) ''x-duplicate-of'' = []" "\<forall>p. po = Some p \<longrightarrow> policy_match p m = None"
      "asOnlyInvestigate a \<longrightarrow> crClass (ClassifyWithPolicy m po) = Investigate"
      "\<not> (asMaxCalls a > 0 \<and> asCalls a \<ge> asMaxCalls a)"
proof -
  note defs = ClassifyWithPolicyAndJev_def Let_def
  show thesis
  proof (cases "hget (mHeaders m) ''x-duplicate-of'' \<noteq> [] \<or> (\<exists>p. po = Some p \<and> policy_match p m \<noteq> None)")
    case True
    then show ?thesis using assms
      by (intro decided) (auto simp: defs split: option.splits if_splits)
  next
    case undecided: False
    then have u: "hget (mHeaders m) ''x-duplicate-of'' = []" "(case po of None \<Rightarrow> False | Some p \<Rightarrow> policy_match p m \<noteq> None) = False"
      "\<forall>p. po = Some p \<longrightarrow> policy_match p m = None" by (auto split: option.splits)
    show ?thesis
    proof (cases "\<exists>a client. ao = Some a \<and> asClient a = Some client \<and>
        \<not> (asOnlyInvestigate a \<and> crClass (ClassifyWithPolicy m po) \<noteq> Investigate) \<and>
        \<not> (asMaxCalls a > 0 \<and> asCalls a \<ge> asMaxCalls a)")
      case False
      show ?thesis
      proof (rule skipped)
        show "ao' = ao" "crSource res = ''rules''"
          using assms u False by (auto simp: defs split: option.splits if_splits)
        show "\<not> Enabled ao \<or> (\<exists>a. ao = Some a \<and> (asOnlyInvestigate a \<and> crClass (ClassifyWithPolicy m po) \<noteq> Investigate \<or>
          asMaxCalls a > 0 \<and> asCalls a \<ge> asMaxCalls a))"
          using False by (auto simp: Enabled_def split: option.splits)
      qed
    next
      case True
      then obtain a client where a: "ao = Some a" "asClient a = Some client"
        "\<not> (asOnlyInvestigate a \<and> crClass (ClassifyWithPolicy m po) \<noteq> Investigate)"
        "\<not> (asMaxCalls a > 0 \<and> asCalls a \<ge> asMaxCalls a)" by blast
      obtain ro a' where ask: "ask_jev client (message_state m) a = (ro, a')" by fastforce
      have t: "assessor_threshold (Some a') = assessor_threshold (Some a)"
        using ask_jev_frame[OF ask] by (simp add: assessor_threshold_def)
      from assms u a ask t consider
          "ao' = Some a'" "crSource res = ''rules''"
        | resp v where "ro = Some resp" "ao' = Some a'" "MapResponse (Some resp) (assessor_threshold (Some a)) = Ok (v, True)"
            "res = jev_result ((ClassifyWithPolicy m po)\<lparr>crSource := ''rules''\<rparr>) v"
        by (auto simp: defs simp del: not_less split: option.splits sum.splits prod.splits if_splits)
      then show ?thesis
      proof cases
        case 1
        then show ?thesis using unusable[OF a(1,2) ask] a(4) u(1,3) by blast
      next
        case (2 resp v)
        then show ?thesis using answered[OF a(1,2) _ 2(2-4)] ask a(3,4) u(1,3) by blast
      qed
    qed
  qed
qed

lemma cache_Get_Hit [simp]: "cache_Get (cache_Hit c) s = cache_Get c s" "(cache_Hit c = None) = (c = None)"
  by (auto simp: cache_Get_def cache_Hit_def split: option.splits)

text \<open>An invariant of the assessor that every consultation keeps is kept by every run.\<close>

lemma classify_run_keeps:
  assumes "classify_run ms po (Some a) = (rs, ao')" and "I a"
    and step: "\<And>a client st ro a'. I a \<Longrightarrow> asClient a = Some client \<Longrightarrow>
      \<not> (asMaxCalls a > 0 \<and> asCalls a \<ge> asMaxCalls a) \<Longrightarrow> ask_jev client st a = (ro, a') \<Longrightarrow> I a'"
  shows "\<exists>a'. ao' = Some a' \<and> I a'"
  using assms(1,2)
proof (induction ms arbitrary: a rs)
  case (Cons m ms)
  obtain r ao1 rs' where one: "ClassifyWithPolicyAndJev m po (Some a) = (r, ao1)" "classify_run ms po ao1 = (rs', ao')"
    using Cons.prems(1) by (auto split: prod.splits)
  from one(1) have "\<exists>a1. ao1 = Some a1 \<and> I a1"
  proof (cases rule: jev_cases)
    case (unusable a2 client ro a')
    then show ?thesis using step[OF _ unusable(2) unusable(6) unusable(3)] Cons.prems(2) by auto
  next
    case (answered a2 client resp a' v)
    then show ?thesis using step[OF _ answered(2) answered(10) answered(3)] Cons.prems(2) by auto
  qed (use Cons.prems(2) in auto)
  then show ?case using Cons.IH one(2) by blast
qed auto

text \<open>A client that always answers.\<close>

definition answers_always :: "'s evaluator \<Rightarrow> bool" where
  "answers_always client = (\<forall>st q s. \<exists>r s'. client st q s = (Inr r, s'))"

definition asked_once :: "'s evaluator \<Rightarrow> 's assessor \<Rightarrow> bool" where
  "asked_once client a =
     (asClient a = Some client \<and> asCache a \<noteq> None \<and> distinct (map Key (asSent a)) \<and>
      (\<forall>st \<in> set (asSent a). cache_Get (asCache a) st \<noteq> None) \<and> asCalls a = int (length (asSent a)))"

lemma cache_key_known: "Key st = Key st' \<Longrightarrow> cache_Get c st = cache_Get c st'"
  by (cases c) (simp_all add: cache_Get_def)

lemma ask_jev_once:
  assumes "answers_always client" and "asked_once client a" and "ask_jev client st a = (ro, a')"
  shows "asked_once client a'"
proof (cases "cache_Get (asCache a) st")
  case (Some hit)
  with assms(2,3) show ?thesis by (auto simp: ask_jev_def asked_once_def cache_Hit_def cache_Get_def)
next
  case None
  obtain r s' where ok: "client st ClassificationQuestions (asService a) = (Inr r, s')"
    using assms(1) unfolding answers_always_def by blast
  have fresh: "Key st \<notin> set (map Key (asSent a))"
  proof
    assume "Key st \<in> set (map Key (asSent a))"
    then obtain st' where "st' \<in> set (asSent a)" "Key st = Key st'" by auto
    moreover from this have "cache_Get (asCache a) st' \<noteq> None" using assms(2) unfolding asked_once_def by blast
    ultimately show False using None cache_key_known by metis
  qed
  have a': "a' = a\<lparr>asService := s', asSent := asSent a @ [st], asCalls := asCalls a + 1,
      asCache := cache_Put st r (asCache a)\<rparr>"
    using assms(3) None ok by (simp add: ask_jev_def)
  have live: "asCache a \<noteq> None" using assms(2) by (simp add: asked_once_def)
  have "cache_Get (cache_Put st r (asCache a)) t \<noteq> None" if "t \<in> set (asSent a @ [st])" for t
    using that assms(2) jev_cache.get_put[OF live] by (auto simp: asked_once_def)
  with assms(2) fresh jev_cache.live_put[OF live] show ?thesis
    unfolding a' asked_once_def by simp
qed

lemma ask_jev_calls:
  assumes "ask_jev client st a = (ro, a')"
  shows "asCalls a' \<le> asCalls a + 1" "asCalls a \<le> asCalls a'" "asMaxCalls a' = asMaxCalls a"
  using assms by (auto simp: ask_jev_def split: option.splits sum.splits prod.splits)

section \<open>Properties\<close>

text \<open>
  C20: the order of precedence. Jev decides a message only when it carries no duplicate header,
  no policy rule applies, a client is configured and (in only-investigate mode) the rules were
  undecided, and only with a confidence that reaches the threshold; in every other case class,
  reason and confidence are those of the policy and the rules. A message with a duplicate
  header or an applicable policy rule is never sent to the service.
\<close>

theorem jev_only_resolves_undecided:
  "let (res, ao') = ClassifyWithPolicyAndJev m po ao; base = ClassifyWithPolicy m po;
       decided = (hget (mHeaders m) ''x-duplicate-of'' \<noteq> [] \<or> (\<exists>p. po = Some p \<and> policy_match p m \<noteq> None))
   in (crSource res \<noteq> ''jev'' \<longrightarrow> crClass res = crClass base \<and> crReason res = crReason base \<and> crConfidence res = crConfidence base)
    \<and> (crSource res = ''jev'' \<longrightarrow> \<not> decided \<and> Enabled ao \<and> assessor_threshold ao \<le> crConfidence res \<and>
         (asOnlyInvestigate (the ao) \<longrightarrow> crClass base = Investigate))
    \<and> (decided \<longrightarrow> ao' = ao)"
proof -
  obtain res ao' where r: "ClassifyWithPolicyAndJev m po ao = (res, ao')" by fastforce
  have kept: "crClass res = crClass (ClassifyWithPolicy m po) \<and> crReason res = crReason (ClassifyWithPolicy m po) \<and>
      crConfidence res = crConfidence (ClassifyWithPolicy m po)" if "crSource res \<noteq> ''jev''"
    using r that by (auto simp: ClassifyWithPolicyAndJev_def jev_result_def Let_def
        split: if_splits option.splits sum.splits prod.splits)
  from r have "(crSource res = ''jev'' \<longrightarrow> hget (mHeaders m) ''x-duplicate-of'' = [] \<and>
      (\<forall>p. po = Some p \<longrightarrow> policy_match p m = None) \<and> Enabled ao \<and> assessor_threshold ao \<le> crConfidence res \<and>
      (asOnlyInvestigate (the ao) \<longrightarrow> crClass (ClassifyWithPolicy m po) = Investigate)) \<and>
    (hget (mHeaders m) ''x-duplicate-of'' \<noteq> [] \<or> (\<exists>p. po = Some p \<and> policy_match p m \<noteq> None) \<longrightarrow> ao' = ao)"
  proof (cases rule: jev_cases)
    case (unusable a client ro a')
    then show ?thesis by auto
  next
    case (answered a client resp a' v)
    have "assessor_threshold (Some a) \<le> vdConfidence v"
      using answered(5) by (auto simp: MapResponse_def assessor_threshold_def DefaultThreshold_def not_less Let_def
          split: option.splits if_splits)
    with answered show ?thesis by (auto simp: Enabled_def jev_result_def)
  qed auto
  with r kept show ?thesis by (auto simp: Let_def)
qed

definition steady_service :: "nat evaluator" where
  "steady_service st q n = (Inr (sample_response 0), Suc n)"

definition failing_service :: "nat evaluator" where
  "failing_service st q n = (Inl (Text ''jev: call''), Suc n)"

definition demo_assessor :: "nat evaluator \<Rightarrow> nat assessor" where
  "demo_assessor client = \<lparr>asClient = Some client, asThreshold = 0, asCache = Some NewCache, asMaxCalls = 2,
     asOnlyInvestigate = False, asCalls = 0, asService = 0, asSent = []\<rparr>"

definition failed_with :: "string \<Rightarrow> message" where
  "failed_with r = empty_message\<lparr>mFailureReason := r\<rparr>"

theorem jev_only_resolves_undecided_witness:
  "\<exists>res. ClassifyWithPolicyAndJev ((failed_with ''odd'')\<lparr>mHeaders := [(''x-duplicate-of'', ''evt_1'')]\<rparr>) None
       (Some (demo_assessor steady_service)) = (res, Some (demo_assessor steady_service)) \<and> crClass res = DoNotReplay"
proof -
  let ?m = "(failed_with ''odd'')\<lparr>mHeaders := [(''x-duplicate-of'', ''evt_1'')]\<rparr>"
  have "crClass (ClassifyWithPolicy ?m None) = DoNotReplay"
    by (simp add: ClassifyWithPolicy_def Classify_def rules_result_def)
  with jev_only_resolves_undecided[of ?m None "Some (demo_assessor steady_service)"] show ?thesis
    by (auto simp: Let_def split: prod.splits)
qed

text \<open>
  C21: the cache works. With a cache and a service that answers, a whole run sends no two states
  with the same cache key, and the call counter is the number of states sent, within the
  budget when there is one.
\<close>

theorem cache_asks_each_state_once:
  assumes "classify_run ms po (Some a) = (rs, ao')" and "asClient a = Some client" and "answers_always client"
    and "asCache a = Some NewCache" and "asSent a = []" and "asCalls a = 0" and "0 < asMaxCalls a"
  shows "\<exists>a'. ao' = Some a' \<and> distinct (map Key (asSent a')) \<and> asCalls a' = int (length (asSent a')) \<and>
    asCalls a' \<le> asMaxCalls a"
proof -
  let ?I = "\<lambda>x. asked_once client x \<and> asMaxCalls x = asMaxCalls a \<and> asCalls x \<le> asMaxCalls a"
  have "\<exists>a'. ao' = Some a' \<and> ?I a'"
  proof (rule classify_run_keeps[OF assms(1), where I = ?I])
    show "?I a" using assms(2,4-7) by (simp add: asked_once_def)
  next
    fix x c st ro x'
    assume x: "?I x" "asClient x = Some c" "\<not> (asMaxCalls x > 0 \<and> asCalls x \<ge> asMaxCalls x)" "ask_jev c st x = (ro, x')"
    then have "c = client" by (simp add: asked_once_def)
    with x ask_jev_once[OF assms(3), of x st ro x'] ask_jev_calls[OF x(4)] assms(7) show "?I x'" by auto
  qed
  then show ?thesis by (auto simp: asked_once_def)
qed

theorem cache_asks_each_state_once_witness:
  "\<exists>rs a'. classify_run (map failed_with [''odd'', ''odd'', ''strange'']) None (Some (demo_assessor steady_service)) = (rs, Some a') \<and>
     distinct (map Key (asSent a')) \<and> asCalls a' \<le> 2"
proof -
  obtain rs ao' where r: "classify_run (map failed_with [''odd'', ''odd'', ''strange'']) None (Some (demo_assessor steady_service)) = (rs, ao')"
    by fastforce
  have "answers_always steady_service" by (simp add: answers_always_def steady_service_def)
  with cache_asks_each_state_once[OF r, of steady_service] r show ?thesis
    by (auto simp: demo_assessor_def)
qed

text \<open>
  Failed calls escape the budget. With a service that always fails, every undecided message
  of a run is sent, however small the budget: the counter that the budget is compared with
  only moves when a call succeeds.
\<close>

theorem failed_calls_escape_budget:
  assumes "asClient a = Some client" and "\<And>st q s. \<exists>e s'. client st q s = (Inl e, s')"
    and "asCache a = None" and "\<not> asOnlyInvestigate a" and "asCalls a = 0 \<and> 0 < asMaxCalls a"
    and "\<forall>m \<in> set ms. hget (mHeaders m) ''x-duplicate-of'' = []"
  shows "\<exists>rs a'. classify_run ms None (Some a) = (rs, Some a') \<and> asCalls a' = 0 \<and>
    asSent a' = asSent a @ map message_state ms"
  using assms
proof (induction ms arbitrary: a)
  case (Cons m ms)
  obtain e s' where e: "client (message_state m) ClassificationQuestions (asService a) = (Inl e, s')"
    using Cons.prems(2) by blast
  let ?a = "a\<lparr>asService := s', asSent := asSent a @ [message_state m]\<rparr>"
  have "\<exists>r. ClassifyWithPolicyAndJev m None (Some a) = (r, Some ?a)"
    using Cons.prems(1,3-6) e by (auto simp: ClassifyWithPolicyAndJev_def ask_jev_def cache_Get_def Let_def)
  moreover have "\<exists>rs a'. classify_run ms None (Some ?a) = (rs, Some a') \<and> asCalls a' = 0 \<and>
      asSent a' = asSent ?a @ map message_state ms"
    by (rule Cons.IH) (use Cons.prems in auto)
  ultimately show ?case by auto
qed simp

theorem failed_calls_escape_budget_witness:
  "\<exists>rs a'. classify_run (map failed_with [''a'', ''b'', ''c'']) None (Some ((demo_assessor failing_service)\<lparr>asCache := None\<rparr>)) =
       (rs, Some a') \<and> asCalls a' = 0 \<and> length (asSent a') = 3 \<and> asMaxCalls (demo_assessor failing_service) = 2"
  using failed_calls_escape_budget[of "(demo_assessor failing_service)\<lparr>asCache := None\<rparr>" failing_service
      "map failed_with [''a'', ''b'', ''c'']"]
  by (auto simp: demo_assessor_def failing_service_def failed_with_def empty_message_def)

text \<open>
  Messages of one signature do not share a cached answer. The state carries the failure
  text itself, so two texts of the same length that differ in a value, as two timeouts of one
  failure group do, are two states: the second one is sent again.
\<close>

theorem same_signature_two_states:
  assumes "TrimSpace (mFailureReason m) \<noteq> TrimSpace (mFailureReason m')"
    and "length (TrimSpace (mFailureReason m)) = length (TrimSpace (mFailureReason m'))"
    and "length (TrimSpace (mFailureReason m)) \<le> 2000"
  shows "message_state m \<noteq> message_state m'"
proof -
  have "\<exists>rest. message_state m = ''error='' @ TrimSpace (mFailureReason m) @ rest" if "length (TrimSpace (mFailureReason m)) \<le> 2000" for m
    using that unfolding message_state_def BuildMessageState_def by (simp only: truncate_text_def MaxErrorChars_def) simp
  from this[of m] this[of m'] assms(2,3) obtain r r' where
    "message_state m = ''error='' @ TrimSpace (mFailureReason m) @ r"
    "message_state m' = ''error='' @ TrimSpace (mFailureReason m') @ r'" by metis
  with assms(1,2) show ?thesis by (simp add: append_eq_append_conv)
qed

theorem same_signature_two_states_witness:
  "NormalizeSignature ''timeout after 31 ms'' = NormalizeSignature ''timeout after 47 ms'' \<and>
   message_state (failed_with ''timeout after 31 ms'') \<noteq> message_state (failed_with ''timeout after 47 ms'')"
proof
  have words: "list_all sentence_word [''timeout'', ''after'', ''31'', ''ms'']" "list_all sentence_word [''timeout'', ''after'', ''47'', ''ms'']"
    by (simp_all add: plain_word_def plain_byte_def number_word_def is_space_def is_digit_def is_alpha_def)
  from NormalizeSignature_sentence[OF _ words(1)] NormalizeSignature_sentence[OF _ words(2)]
  show "NormalizeSignature ''timeout after 31 ms'' = NormalizeSignature ''timeout after 47 ms''"
    by (simp add: sentence_def placeholder_def number_word_def is_digit_def is_alpha_def)
  have trim: "TrimSpace (sentence ws) = sentence ws" if "list_all sentence_word ws" for ws
    by (rule TrimSpace_sentence[OF sentence_word_solid[OF that]])
  show "message_state (failed_with ''timeout after 31 ms'') \<noteq> message_state (failed_with ''timeout after 47 ms'')"
    by (rule same_signature_two_states)
      (use trim[OF words(1)] trim[OF words(2)] in \<open>simp_all add: failed_with_def sentence_def empty_message_def\<close>)
qed

end
