(* ===== verification/Analyzer.thy ===== *)
theory Analyzer
  imports Jev_Pass "HOL-Library.Product_Lexorder"
begin

text \<open>
  The grouping of failed messages of \<^verbatim>\<open>internal/recovery/analyzer.go\<close>. Go iterates
  its maps in an order it does not specify, and \<open>sort.Slice\<close> is not stable: both are covered
  by the parameter \<open>orders\<close>, an arbitrary rearrangement of the groups before they are sorted and of
  the class counts of a group before the majority is taken.
\<close>

section \<open>Data\<close>

record group_key =
  gkSignature :: string
  gkDestination :: string
  gkEventType :: string
  gkRetryBucket :: string

record group_acc =
  acKey :: group_key
  acIds :: "string list"
  acClassCnt :: "(classification \<times> int) list"
  acConfSum :: "(classification \<times> rat) list"
  acFirst :: gotime
  acLast :: gotime
  acShape :: string
  acJevN :: int

record failure_group =
  fgID :: string
  fgLabel :: string
  fgSignature :: string
  fgMessageIDs :: "string list"
  fgCount :: int
  fgPercentage :: rat
  fgRecommendation :: classification
  fgConfidence :: rat
  fgDestination :: string
  fgEventType :: string
  fgRetryBucket :: string
  fgFirstSeen :: gotime
  fgLastSeen :: gotime
  fgPayloadShape :: string
  fgBreakdown :: "(classification \<times> int) list"
  fgJevDecided :: int

section \<open>The parts of a key\<close>

definition retryBucket :: "int \<Rightarrow> string" where
  "retryBucket retries =
     (if retries \<le> 0 then ''0'' else if retries \<le> 2 then ''1-2'' else if retries \<le> 5 then ''3-5'' else ''6+'')"

definition eventType :: "message \<Rightarrow> string" where
  "eventType m = first_header (mHeaders m) event_type_keys"

definition payloadShape :: "string \<Rightarrow> string" where
  "payloadShape payload =
     (if payload = [] then ''empty''
      else case object_keys payload of None \<Rightarrow> ''raw'' | Some ks \<Rightarrow> Join (sort ks) '','')"

definition groupID :: "string \<Rightarrow> string" where
  "groupID signature = take 8 (sha256_hex signature)"

definition key_of :: "message \<Rightarrow> group_key" where
  "key_of m = \<lparr>gkSignature = NormalizeSignature (mFailureReason m), gkDestination = mDestination m,
     gkEventType = eventType m, gkRetryBucket = retryBucket (mRetryCount m)\<rparr>"

section \<open>The majority\<close>

fun most_votes :: "(classification \<times> int) list \<Rightarrow> classification \<Rightarrow> int \<Rightarrow> classification \<times> int" where
  "most_votes [] best bestN = (best, bestN)"
| "most_votes ((c, n) # counts) best bestN =
     (if n > bestN then most_votes counts c n else most_votes counts best bestN)"

definition zget :: "('a \<times> 'b::zero) list \<Rightarrow> 'a \<Rightarrow> 'b" where
  "zget m k = (case map_of m k of None \<Rightarrow> 0 | Some v \<Rightarrow> v)"

definition majority :: "(classification \<times> int) list \<Rightarrow> (classification \<times> rat) list \<Rightarrow> classification \<times> rat" where
  "majority counts confSum =
     (let (best, bestN) = most_votes counts Investigate (-1)
      in if bestN \<le> 0 then (Investigate, 5/10) else (best, zget confSum best / of_int bestN))"

section \<open>The loop over the messages\<close>

definition new_acc :: "group_key \<Rightarrow> group_acc" where
  "new_acc k = \<lparr>acKey = k, acIds = [], acClassCnt = [], acConfSum = [], acFirst = 0, acLast = 0,
     acShape = [], acJevN = 0\<rparr>"

definition bump :: "'a \<Rightarrow> 'b::{zero,plus} \<Rightarrow> ('a \<times> 'b) list \<Rightarrow> ('a \<times> 'b) list" where
  "bump k d m = AList.update k (zget m k + d) m"

definition count_message :: "message \<Rightarrow> class_result \<Rightarrow> group_acc \<Rightarrow> group_acc" where
  "count_message m res a =
     a\<lparr>acIds := acIds a @ [mID m],
       acJevN := acJevN a + (if crSource res = ''jev'' then 1 else 0),
       acClassCnt := bump (crClass res) 1 (acClassCnt a),
       acConfSum := bump (crClass res) (crConfidence res) (acConfSum a),
       acFirst := (if IsZero (acFirst a) \<or> Before (mTimestamp m) (acFirst a) then mTimestamp m else acFirst a),
       acLast := (if After (mTimestamp m) (acLast a) then mTimestamp m else acLast a),
       acShape := (if acShape a = [] then payloadShape (mPayload m) else acShape a)\<rparr>"

fun into_group :: "message \<Rightarrow> class_result \<Rightarrow> group_acc list \<Rightarrow> group_acc list" where
  "into_group m res [] = [count_message m res (new_acc (key_of m))]"
| "into_group m res (a # groups) =
     (if acKey a = key_of m then count_message m res a # groups else a # into_group m res groups)"

definition classify_one ::
    "policy option \<Rightarrow> 's assessor option \<Rightarrow> message \<Rightarrow> class_result \<times> 's assessor option" where
  "classify_one po ao m =
     (if Enabled ao then ClassifyWithPolicyAndJev m po ao else (ClassifyWithPolicy m po, ao))"

fun group_messages ::
    "policy option \<Rightarrow> 's assessor option \<Rightarrow> message list \<Rightarrow> group_acc list \<Rightarrow> group_acc list \<times> 's assessor option" where
  "group_messages po ao [] groups = (groups, ao)"
| "group_messages po ao (m # ms) groups =
     (let (res, ao) = classify_one po ao m
      in group_messages po ao ms (into_group m res groups))"

section \<open>The result\<close>

record orders =
  orGroups :: "group_acc list \<Rightarrow> group_acc list"
  orClasses :: "group_key \<Rightarrow> (classification \<times> int) list \<Rightarrow> (classification \<times> int) list"

definition group_of :: "orders \<Rightarrow> int \<Rightarrow> group_acc \<Rightarrow> failure_group" where
  "group_of ords analyzed a =
     (let (rec, conf) = majority (orClasses ords (acKey a) (acClassCnt a)) (acConfSum a)
      in \<lparr>fgID = groupID (gkSignature (acKey a)), fgLabel = groupLabel (gkSignature (acKey a)),
          fgSignature = gkSignature (acKey a), fgMessageIDs = acIds a, fgCount = int (length (acIds a)),
          fgPercentage = of_nat (length (acIds a)) / of_int analyzed * 100,
          fgRecommendation = rec, fgConfidence = conf, fgDestination = gkDestination (acKey a),
          fgEventType = gkEventType (acKey a), fgRetryBucket = gkRetryBucket (acKey a),
          fgFirstSeen = acFirst a, fgLastSeen = acLast a, fgPayloadShape = acShape a,
          fgBreakdown = acClassCnt a, fgJevDecided = acJevN a\<rparr>)"

definition AnalyzeWithContext ::
    "orders \<Rightarrow> policy option \<Rightarrow> 's assessor option \<Rightarrow> message list \<Rightarrow> failure_group list \<times> 's assessor option" where
  "AnalyzeWithContext ords po ao msgs =
     (let analyzed = int (length msgs)
      in if analyzed = 0 then ([], ao)
         else
           let (groups, ao) = group_messages po ao msgs [];
               out = map (group_of ords analyzed) (orGroups ords groups)
           in (sort_key (\<lambda>g. (- fgCount g, fgSignature g)) out, ao))"

section \<open>Lemmas\<close>

text \<open>What a group holds for the messages of one key, given the results of the classifier.\<close>

definition fair :: "orders \<Rightarrow> bool" where
  "fair ords = ((\<forall>gs. mset (orGroups ords gs) = mset gs) \<and> (\<forall>k cs. mset (orClasses ords k cs) = mset cs))"

definition same_key :: "group_key \<Rightarrow> message \<Rightarrow> bool" where
  "same_key k m = (key_of m = k)"

text \<open>
  The reference for the loop: the accumulator of a key folded over its messages in input order.
\<close>

definition acc_for :: "(message \<times> class_result) list \<Rightarrow> group_key \<Rightarrow> group_acc" where
  "acc_for ps k = fold (\<lambda>(m, r). count_message m r) (filter (\<lambda>(m, r). same_key k m) ps) (new_acc k)"

fun results_of :: "policy option \<Rightarrow> 's assessor option \<Rightarrow> message list \<Rightarrow> class_result list \<times> 's assessor option" where
  "results_of po ao [] = ([], ao)"
| "results_of po ao (m # ms) =
     (let (r, ao) = classify_one po ao m; (rs, ao) = results_of po ao ms in (r # rs, ao))"

lemma results_of_Cons:
  "classify_one po ao m = (r, ao1) \<Longrightarrow>
     results_of po ao (m # ms) = (r # fst (results_of po ao1 ms), snd (results_of po ao1 ms))"
  by (simp add: Let_def split: prod.splits)

declare results_of.simps(2) [simp del]

lemma results_length: "length (fst (results_of po ao ms)) = length ms"
proof (induction ms arbitrary: ao)
  case (Cons m ms)
  obtain r ao1 where "classify_one po ao m = (r, ao1)" by fastforce
  with Cons show ?case by (simp add: results_of_Cons)
qed simp

lemma acKey_count [simp]: "acKey (count_message m r a) = acKey a"
  by (simp add: count_message_def)

lemma acKey_new [simp]: "acKey (new_acc k) = k"
  by (simp add: new_acc_def)

lemma acKey_acc_for [simp]: "acKey (acc_for ps k) = k"
proof -
  have "acKey (fold (\<lambda>(m, r). count_message m r) ps a) = acKey a" for ps and a :: group_acc
    by (induction ps arbitrary: a) auto
  then show ?thesis by (simp add: acc_for_def)
qed

definition grouped :: "(message \<times> class_result) list \<Rightarrow> group_acc list \<Rightarrow> bool" where
  "grouped ps groups =
     (distinct (map acKey groups) \<and> set (map acKey groups) = key_of ` fst ` set ps \<and>
      (\<forall>a \<in> set groups. a = acc_for ps (acKey a)))"

lemma acc_for_snoc:
  "acc_for (ps @ [(m, r)]) k = (if key_of m = k then count_message m r (acc_for ps k) else acc_for ps k)"
  by (simp add: acc_for_def same_key_def)

lemma acc_for_fresh: "k \<notin> key_of ` fst ` set ps \<Longrightarrow> acc_for ps k = new_acc k"
proof -
  assume "k \<notin> key_of ` fst ` set ps"
  then have "filter (\<lambda>(m, r). same_key k m) ps = []"
    by (force simp: filter_empty_conv same_key_def)
  then show ?thesis by (simp add: acc_for_def)
qed

lemma into_group_keys:
  "map acKey (into_group m r groups) =
     (if key_of m \<in> set (map acKey groups) then map acKey groups else map acKey groups @ [key_of m])"
  by (induction groups) auto

lemma into_group_member:
  "distinct (map acKey groups) \<Longrightarrow> a \<in> set (into_group m r groups) \<Longrightarrow>
     (acKey a \<noteq> key_of m \<and> a \<in> set groups) \<or>
     (acKey a = key_of m \<and> (\<exists>b. (b \<in> set groups \<or> (b = new_acc (key_of m) \<and> key_of m \<notin> set (map acKey groups))) \<and>
        acKey b = key_of m \<and> a = count_message m r b))"
proof (induction groups)
  case (Cons g groups)
  show ?case
  proof (cases "acKey g = key_of m")
    case True
    with Cons.prems have "a = count_message m r g \<or> (a \<in> set groups \<and> acKey a \<noteq> key_of m)" by force
    with True show ?thesis by auto
  next
    case False
    with Cons show ?thesis by auto
  qed
qed simp

lemma into_group_grouped:
  assumes "grouped ps groups"
  shows "grouped (ps @ [(m, r)]) (into_group m r groups)"
proof -
  have d: "distinct (map acKey groups)" and keys: "set (map acKey groups) = key_of ` fst ` set ps"
    and accs: "\<And>a. a \<in> set groups \<Longrightarrow> a = acc_for ps (acKey a)"
    using assms by (auto simp: grouped_def)
  have "a = acc_for (ps @ [(m, r)]) (acKey a)" if "a \<in> set (into_group m r groups)" for a
    using into_group_member[OF d that]
  proof
    assume "acKey a \<noteq> key_of m \<and> a \<in> set groups"
    then show ?thesis using accs[of a] by (auto simp: acc_for_snoc)
  next
    assume "acKey a = key_of m \<and> (\<exists>b. (b \<in> set groups \<or> (b = new_acc (key_of m) \<and> key_of m \<notin> set (map acKey groups))) \<and>
        acKey b = key_of m \<and> a = count_message m r b)"
    then obtain b where b: "acKey a = key_of m" "a = count_message m r b"
      "b \<in> set groups \<and> acKey b = key_of m \<or> b = new_acc (key_of m) \<and> key_of m \<notin> set (map acKey groups)" by blast
    then have "b = acc_for ps (key_of m)"
      using accs[of b] acc_for_fresh[of "key_of m" ps] keys by auto
    with b show ?thesis by (simp add: acc_for_snoc)
  qed
  moreover have "distinct (map acKey (into_group m r groups))" "set (map acKey (into_group m r groups)) = key_of ` fst ` set (ps @ [(m, r)])"
    using d keys unfolding into_group_keys by auto
  ultimately show ?thesis by (simp add: grouped_def)
qed

lemma group_messages_grouped:
  assumes "grouped ps groups" and "group_messages po ao ms groups = (out, ao')"
  shows "grouped (ps @ zip ms (fst (results_of po ao ms))) out \<and> ao' = snd (results_of po ao ms)"
  using assms
proof (induction ms arbitrary: ps groups ao)
  case (Cons m ms)
  obtain r ao1 where c: "classify_one po ao m = (r, ao1)" by fastforce
  with Cons.prems(2) have "group_messages po ao1 ms (into_group m r groups) = (out, ao')" by simp
  from Cons.IH[OF into_group_grouped[OF Cons.prems(1)] this] show ?case
    using c by (simp add: results_of_Cons)
qed simp

section \<open>Facts of a group\<close>

lemma count_fold_ids: "acIds (fold (\<lambda>(m, r). count_message m r) ps a) = acIds a @ map (mID \<circ> fst) ps"
  by (induction ps arbitrary: a) (auto simp: count_message_def)

lemma zget_bump: "zget (bump k d m) j = (if j = k then zget m k + d else zget m j)"
  by (simp add: zget_def bump_def update_conv')

lemma count_fold_votes:
  "zget (acClassCnt (fold (\<lambda>(m, r). count_message m r) ps a)) c =
     zget (acClassCnt a) c + int (length (filter (\<lambda>(m, r). crClass r = c) ps))"
  by (induction ps arbitrary: a) (auto simp: count_message_def zget_bump)

lemma count_fold_conf:
  "zget (acConfSum (fold (\<lambda>(m, r). count_message m r) ps a)) c =
     zget (acConfSum a) c + sum_list (map (crConfidence \<circ> snd) (filter (\<lambda>(m, r). crClass r = c) ps))"
  by (induction ps arbitrary: a) (auto simp: count_message_def zget_bump)

lemma distinct_bump: "distinct (map fst m) \<Longrightarrow> distinct (map fst (bump k d m))"
  by (simp add: bump_def distinct_update)

lemma count_fold_distinct:
  "distinct (map fst (acClassCnt a)) \<Longrightarrow> distinct (map fst (acClassCnt (fold (\<lambda>(m, r). count_message m r) ps a)))"
  by (induction ps arbitrary: a) (auto simp: count_message_def distinct_bump)

text \<open>The winner has the most votes; only the start value makes it Investigate.\<close>

lemma most_votes_max:
  assumes "most_votes cs b0 n0 = (b, n)"
  shows "n0 \<le> n \<and> (\<forall>(c, k) \<in> set cs. k \<le> n) \<and> ((b, n) \<in> set cs \<or> (b, n) = (b0, n0))"
  using assms
proof (induction cs arbitrary: b0 n0)
  case (Cons x cs)
  obtain c k where x: "x = (c, k)" by fastforce
  show ?case
  proof (cases "k > n0")
    case True
    with Cons.prems x have "most_votes cs c k = (b, n)" by simp
    from Cons.IH[OF this] True x show ?thesis by auto
  next
    case False
    with Cons.prems x have "most_votes cs b0 n0 = (b, n)" by simp
    from Cons.IH[OF this] False x show ?thesis by auto
  qed
qed simp

section \<open>Properties\<close>

text \<open>The messages that belong to a group, and the votes of a class among them.\<close>

definition belongs :: "failure_group \<Rightarrow> message \<Rightarrow> bool" where
  "belongs g m = (NormalizeSignature (mFailureReason m) = fgSignature g \<and> mDestination m = fgDestination g \<and>
     eventType m = fgEventType g \<and> retryBucket (mRetryCount m) = fgRetryBucket g)"

lemma belongs_group_of: "belongs (group_of ords n a) m = (key_of m = acKey a)"
  by (cases "acKey a") (auto simp: belongs_def group_of_def key_of_def split: prod.splits)

lemma group_of_fields [simp]:
  "fgMessageIDs (group_of ords n a) = acIds a" "fgCount (group_of ords n a) = int (length (acIds a))"
  "fgBreakdown (group_of ords n a) = acClassCnt a" "fgSignature (group_of ords n a) = gkSignature (acKey a)"
  by (simp_all add: group_of_def split: prod.splits)

lemma Analyze_groups:
  assumes "AnalyzeWithContext ords po ao msgs = (out, ao')" and "fair ords"
  obtains groups where "grouped (zip msgs (fst (results_of po ao msgs))) groups"
    "mset out = mset (map (group_of ords (int (length msgs))) groups)"
    "sorted (map (\<lambda>g. (- fgCount g, fgSignature g)) out)" "ao' = snd (results_of po ao msgs)"
proof (cases "msgs = []")
  case True
  with assms(1) show ?thesis by (intro that[of "[]"]) (auto simp: AnalyzeWithContext_def grouped_def)
next
  case False
  obtain groups ao1 where g: "group_messages po ao msgs [] = (groups, ao1)" by fastforce
  have "grouped [] []" by (simp add: grouped_def)
  from group_messages_grouped[OF this g] have ok: "grouped (zip msgs (fst (results_of po ao msgs))) groups"
    "ao1 = snd (results_of po ao msgs)" by simp_all
  have out: "out = sort_key (\<lambda>g. (- fgCount g, fgSignature g)) (map (group_of ords (int (length msgs))) (orGroups ords groups))"
    "ao' = ao1"
    using assms(1) False g by (simp_all add: AnalyzeWithContext_def Let_def)
  have "mset out = mset (map (group_of ords (int (length msgs))) groups)"
    using assms(2) by (simp add: out(1) fair_def)
  with ok out show ?thesis by (intro that[of groups]) simp_all
qed

lemma map_filter_zip_fst:
  "length xs = length ys \<Longrightarrow> map fst (filter (\<lambda>(x, y). P x) (zip xs ys)) = filter P xs"
  by (induction xs ys rule: list_induct2) auto

lemma acc_for_ids:
  assumes "length ms = length rs"
  shows "acIds (acc_for (zip ms rs) k) = map mID (filter (\<lambda>m. key_of m = k) ms)"
proof -
  have "acIds (acc_for (zip ms rs) k) = map mID (map fst (filter (\<lambda>(m, r). same_key k m) (zip ms rs)))"
    by (simp add: acc_for_def count_fold_ids new_acc_def)
  also have "\<dots> = map mID (filter (same_key k) ms)" unfolding map_filter_zip_fst[OF assms] ..
  finally show ?thesis by (simp add: same_key_def[abs_def])
qed

text \<open>
  C22: grouping is a partition. Whatever the order in which Go walks its maps, every message
  belongs to exactly one group of the result, a group lists the IDs of exactly its messages in
  input order and counts them, no two groups have the same key, and the groups come largest
  first.
\<close>

theorem analysis_partitions_messages:
  assumes "AnalyzeWithContext ords po ao msgs = (out, ao')" and "fair ords"
  shows "(\<forall>m \<in> set msgs. \<exists>!g. g \<in> set out \<and> belongs g m) \<and>
    (\<forall>g \<in> set out. fgMessageIDs g = map mID (filter (belongs g) msgs) \<and> fgCount g = int (length (fgMessageIDs g))) \<and>
    sorted (map (\<lambda>g. - fgCount g) out)"
proof -
  let ?rs = "fst (results_of po ao msgs)"
  from Analyze_groups[OF assms] obtain groups where g: "grouped (zip msgs ?rs) groups"
    "mset out = mset (map (group_of ords (int (length msgs))) groups)"
    "sorted (map (\<lambda>g. (- fgCount g, fgSignature g)) out)" by blast
  let ?f = "group_of ords (int (length msgs))"
  have out: "set out = ?f ` set groups" using g(2) by (metis set_map set_mset_mset)
  have len: "length msgs = length ?rs" by (simp add: results_length)
  have fst: "fst ` set (zip msgs ?rs) = set msgs" using len by (metis map_fst_zip set_map)
  have keys: "distinct (map acKey groups)" "acKey ` set groups = key_of ` set msgs"
  proof -
    show "distinct (map acKey groups)" using g(1) unfolding grouped_def by blast
    have "set (map acKey groups) = key_of ` fst ` set (zip msgs ?rs)" using g(1) unfolding grouped_def by blast
    then show "acKey ` set groups = key_of ` set msgs" by (simp only: fst set_map)
  qed
  have "\<exists>!g. g \<in> set out \<and> belongs g m" if m: "m \<in> set msgs" for m
  proof -
    from keys(2) m obtain a where a: "a \<in> set groups" "acKey a = key_of m" by (metis imageE image_eqI)
    have "b = a" if "b \<in> set groups" "acKey b = key_of m" for b
      using keys(1) a that by (metis distinct_map inj_onD)
    then have one: "g = ?f a" if "g \<in> set out" "belongs g m" for g
      using that unfolding out by (metis belongs_group_of imageE)
    have "?f a \<in> set out" "belongs (?f a) m" using a out by (simp_all add: belongs_group_of)
    with one show ?thesis by blast
  qed
  moreover have "fgMessageIDs (?f a) = map mID (filter (belongs (?f a)) msgs) \<and> fgCount (?f a) = int (length (fgMessageIDs (?f a)))"
    if "a \<in> set groups" for a
  proof -
    have "acIds a = map mID (filter (\<lambda>m. key_of m = acKey a) msgs)"
    proof -
      have "a = acc_for (zip msgs ?rs) (acKey a)" using g(1) that unfolding grouped_def by blast
      then have "acIds a = acIds (acc_for (zip msgs ?rs) (acKey a))" by (rule arg_cong)
      then show ?thesis unfolding acc_for_ids[OF len] .
    qed
    moreover have "belongs (?f a) = (\<lambda>m. key_of m = acKey a)" by (simp add: fun_eq_iff belongs_group_of)
    ultimately show ?thesis by simp
  qed
  moreover have "sorted (map (\<lambda>g. - fgCount g) out)"
    using g(3) unfolding sorted_map by (rule sorted_wrt_mono_rel[rotated]) (auto simp: less_eq_prod_def)
  ultimately show ?thesis unfolding out by blast
qed

definition go_orders :: orders where
  "go_orders = \<lparr>orGroups = rev, orClasses = (\<lambda>_. rev)\<rparr>"

lemma fair_go_orders: "fair go_orders"
  by (simp add: fair_def go_orders_def)

theorem analysis_partitions_messages_witness:
  "\<exists>out. AnalyzeWithContext go_orders None (None :: nat assessor option) (map failed_with [''a'', ''b'', ''a'']) = (out, None) \<and>
     (\<exists>!g. g \<in> set out \<and> belongs g (failed_with ''a'')) \<and>
     (\<forall>g \<in> set out. fgMessageIDs g = map mID (filter (belongs g) (map failed_with [''a'', ''b'', ''a''])))"
proof -
  obtain out ao where r: "AnalyzeWithContext go_orders None (None :: nat assessor option) (map failed_with [''a'', ''b'', ''a'']) = (out, ao)"
    by fastforce
  have "snd (results_of po None ms) = None" for po and ms :: "message list"
    by (induction ms) (simp_all add: results_of_Cons classify_one_def Enabled_def)
  with Analyze_groups[OF r fair_go_orders] have "ao = None" by metis
  with analysis_partitions_messages[OF r fair_go_orders] r show ?thesis by auto
qed

text \<open>The votes of a group, as the classifier cast them.\<close>

definition votes :: "(message \<times> class_result) list \<Rightarrow> failure_group \<Rightarrow> classification \<Rightarrow> class_result list" where
  "votes ps g c = map snd (filter (\<lambda>(m, r). crClass r = c) (filter (\<lambda>(m, r). belongs g m) ps))"

lemma acc_for_votes:
  "zget (acClassCnt (acc_for ps k)) c = int (length (filter (\<lambda>(m, r). crClass r = c) (filter (\<lambda>(m, r). same_key k m) ps)))"
  "zget (acConfSum (acc_for ps k)) c =
     sum_list (map (crConfidence \<circ> snd) (filter (\<lambda>(m, r). crClass r = c) (filter (\<lambda>(m, r). same_key k m) ps)))"
  by (simp_all only: acc_for_def count_fold_votes count_fold_conf) (simp_all add: new_acc_def zget_def)

lemma zget_member: "distinct (map fst m) \<Longrightarrow> (k, v) \<in> set m \<Longrightarrow> zget m k = v"
  by (simp add: zget_def)

lemma zget_nonzero: "zget m k \<noteq> 0 \<Longrightarrow> (k, zget m k) \<in> set m"
  by (auto simp: zget_def split: option.splits dest: map_of_SomeD)

text \<open>
  What a group recommends. Each class count of a group is the number of its messages the
  classifier put in that class; whatever the order in which the counts are walked, the
  recommended class is one with the most votes, and its confidence is the mean confidence of
  those votes.
\<close>

theorem group_recommends_most_votes:
  assumes "AnalyzeWithContext ords po ao msgs = (out, ao')" and "fair ords" and "g \<in> set out"
  shows "let ps = zip msgs (fst (results_of po ao msgs)); vs = votes ps g (fgRecommendation g) in
    (\<forall>c. zget (fgBreakdown g) c = int (length (votes ps g c))) \<and>
    (\<forall>c. length (votes ps g c) \<le> length vs) \<and>
    fgConfidence g * of_nat (length vs) = sum_list (map crConfidence vs)"
proof -
  let ?ps = "zip msgs (fst (results_of po ao msgs))"
  from Analyze_groups[OF assms(1,2)] obtain groups where gr: "grouped ?ps groups"
    "mset out = mset (map (group_of ords (int (length msgs))) groups)" by blast
  from gr(2) assms(3) obtain a where a: "a \<in> set groups" "g = group_of ords (int (length msgs)) a"
    by (metis (no_types, lifting) imageE set_map set_mset_mset)
  have acc: "a = acc_for ?ps (acKey a)" using gr(1) a(1) unfolding grouped_def by blast
  have sel: "(\<lambda>(m, r). belongs g m) = (\<lambda>(m, r). same_key (acKey a) m)"
    by (simp add: a(2) belongs_group_of same_key_def fun_eq_iff)
  have cnt: "zget (acClassCnt a) c = int (length (votes ?ps g c))" for c
  proof -
    have "zget (acClassCnt a) c = zget (acClassCnt (acc_for ?ps (acKey a))) c" using acc by (rule arg_cong)
    then show ?thesis unfolding votes_def sel by (simp add: acc_for_votes)
  qed
  have conf: "zget (acConfSum a) c = sum_list (map crConfidence (votes ?ps g c))" for c
  proof -
    have "zget (acConfSum a) c = zget (acConfSum (acc_for ?ps (acKey a))) c" using acc by (rule arg_cong)
    then show ?thesis unfolding votes_def sel by (simp add: acc_for_votes)
  qed
  have dist: "distinct (map fst (acClassCnt a))"
  proof -
    have "distinct (map fst (acClassCnt (acc_for ?ps (acKey a))))"
      unfolding acc_for_def by (rule count_fold_distinct) (simp add: new_acc_def)
    then show ?thesis using acc by (metis (no_types))
  qed
  let ?cs = "orClasses ords (acKey a) (acClassCnt a)"
  have cs: "set ?cs = set (acClassCnt a)" using assms(2) unfolding fair_def by (metis set_mset_mset)
  obtain best n where bn: "most_votes ?cs Investigate (-1) = (best, n)" by fastforce
  note mv = most_votes_max[OF bn]
  have recs: "fgRecommendation g = fst (majority ?cs (acConfSum a))" "fgConfidence g = snd (majority ?cs (acConfSum a))"
    by (simp_all add: a(2) group_of_def split: prod.splits)
  have top: "int (length (votes ?ps g c)) \<le> max n 0" for c
  proof (cases "length (votes ?ps g c) = 0")
    case False
    with cnt[of c] zget_nonzero[of "acClassCnt a" c] cs have "(c, int (length (votes ?ps g c))) \<in> set ?cs" by auto
    with mv show ?thesis by fastforce
  qed simp
  show ?thesis
  proof (cases "n \<le> 0")
    case True
    with top have "length (votes ?ps g c) = 0" for c using top[of c] by simp
    with cnt show ?thesis by (simp add: a(2)[symmetric] Let_def) (simp add: a(2))
  next
    case False
    then have b: "(best, n) \<in> set (acClassCnt a)" using mv cs by auto
    then have n: "int (length (votes ?ps g best)) = n" using zget_member[OF dist b] cnt[of best] by simp
    have r: "fgRecommendation g = best" "fgConfidence g = zget (acConfSum a) best / of_int n"
      using recs bn False by (simp_all add: majority_def)
    have le: "length (votes ?ps g c) \<le> length (votes ?ps g best)" for c
      using top[of c] n False by linarith
    have "of_int n = (of_nat (length (votes ?ps g best)) :: rat)" using n by (metis of_int_of_nat_eq)
    with False r(2) conf[of best] have "fgConfidence g * of_nat (length (votes ?ps g best)) = sum_list (map crConfidence (votes ?ps g best))"
      by simp
    with cnt le r(1) show ?thesis by (simp add: Let_def a(2)[symmetric]) (simp add: a(2))
  qed
qed

theorem group_recommends_most_votes_witness:
  "\<exists>out ao g. AnalyzeWithContext go_orders None (None :: nat assessor option) [failed_with ''a'', failed_with ''b''] = (out, ao) \<and>
     g \<in> set out \<and>
     (let ps = zip [failed_with ''a'', failed_with ''b''] (fst (results_of None (None :: nat assessor option) [failed_with ''a'', failed_with ''b'']))
      in \<forall>c. length (votes ps g c) \<le> length (votes ps g (fgRecommendation g)))"
proof -
  obtain out ao where r: "AnalyzeWithContext go_orders None (None :: nat assessor option) [failed_with ''a'', failed_with ''b''] = (out, ao)"
    by fastforce
  from Analyze_groups[OF r fair_go_orders] obtain groups where g: "grouped (zip [failed_with ''a'', failed_with ''b'']
      (fst (results_of None (None :: nat assessor option) [failed_with ''a'', failed_with ''b'']))) groups"
    "mset out = mset (map (group_of go_orders 2) groups)" by auto
  obtain r1 r2 where "fst (results_of None (None :: nat assessor option) [failed_with ''a'', failed_with ''b'']) = [r1, r2]"
    using results_length[of None "None :: nat assessor option" "[failed_with ''a'', failed_with ''b'']"]
    by (auto simp: length_Suc_conv)
  with g(1) have "groups \<noteq> []" unfolding grouped_def by auto
  with g(2) obtain x where x: "x \<in> set out" by (cases out) auto
  from group_recommends_most_votes[OF r fair_go_orders x] r x show ?thesis by (auto simp: Let_def)
qed

text \<open>
  A tie follows the iteration order. The comment on majority promises INVESTIGATE for a
  tie; but between two classes with the same, largest count the one that comes first in the
  iteration wins, so over the orders of Go's map either class can be the recommendation and
  INVESTIGATE is none of them.
\<close>

theorem majority_tie_follows_order:
  assumes "0 < n" and "c \<noteq> c'"
  shows "fst (majority [(c, n), (c', n)] conf) = c \<and> fst (majority [(c', n), (c, n)] conf) = c'"
  using assms by (auto simp: majority_def)

theorem majority_tie_follows_order_witness:
  "fst (majority [(Replayable, 3), (DoNotReplay, 3)] []) = Replayable \<and>
   fst (majority [(DoNotReplay, 3), (Replayable, 3)] []) = DoNotReplay"
  using majority_tie_follows_order[of 3 Replayable DoNotReplay "[]"] by simp

end
