(* ===== verification/Plan_Model.thy ===== *)
theory Plan_Model
  imports Classifier
begin

text \<open>
  The recovery plan of \<^verbatim>\<open>internal/recovery/planner.go\<close> as data: what the planner
  builds, the validator checks and the executor runs.
\<close>

record plan_limits =
  lBatchSize :: int
  lRateLimit :: string
  lConcurrency :: int

definition DefaultLimits :: plan_limits where
  "DefaultLimits = \<lparr>lBatchSize = 25, lRateLimit = ''10/s'', lConcurrency = 1\<rparr>"

record excluded_message =
  exMessageID :: string
  exClassification :: classification
  exReason :: string

record recovery_plan =
  plID :: string
  plCreatedAt :: gotime
  plQueue :: string
  plGroupID :: string
  plGroupLabel :: string
  plMessageIDs :: "string list"
  plExcluded :: "excluded_message list"
  plDestination :: string
  plAction :: string
  plLimits :: plan_limits
  plSafetyChecks :: "string list"

definition CheckSchema :: string where "CheckSchema = ''schema_validated''"
definition CheckDuplicate :: string where "CheckDuplicate = ''duplicate_checked''"
definition CheckDestination :: string where "CheckDestination = ''destination_checked''"

lemmas check_defs = CheckSchema_def CheckDuplicate_def CheckDestination_def

end
