(* ===== verification/Validator.thy ===== *)
theory Validator
  imports Plan_Model Json_Syntax Dedupe Val_Broker
begin

text \<open>
  The dry run of a plan (\<^verbatim>\<open>internal/recovery/validator.go\<close>): one scan of the queue, one
  probe of the destination, then every planned message is checked against what the queue
  and the audit trail say now.
\<close>

section \<open>Data\<close>

definition DefaultPendingThreshold :: int where "DefaultPendingThreshold = 100"

datatype skip_reason = SkipNotFound | SkipInvalid | SkipDuplicate | SkipNotPlanned

fun skip_text :: "skip_reason \<Rightarrow> string" where
  "skip_text SkipNotFound = ''not_found_in_queue''"
| "skip_text SkipInvalid = ''payload_invalid''"
| "skip_text SkipDuplicate = ''duplicate_evidence''"
| "skip_text SkipNotPlanned = ''not_in_plan''"

record skipped_message =
  smID :: string
  smReason :: skip_reason
  smDetail :: string

record validation_result =
  vrPlanID :: string
  vrQueue :: string
  vrSelected :: int
  vrValidated :: int
  vrDuplicates :: int
  vrSkipped :: int
  vrToReplay :: int
  vrChecksRun :: "string list"
  vrSkippedMessages :: "skipped_message list"
  vrDestinationMissing :: string
  vrDestinationPending :: int
  vrWarnings :: "string list"

section \<open>Helpers\<close>

definition pendingThreshold :: "int \<Rightarrow> int" where
  "pendingThreshold t = (if t > 0 then t else DefaultPendingThreshold)"

definition validationScanLimit :: "recovery_plan \<Rightarrow> int" where
  "validationScanLimit plan =
     (let limit = int (length (plMessageIDs plan)) * 2 in if limit < 10000 then 10000 else limit)"

definition schemaValid :: "message \<Rightarrow> bool" where
  "schemaValid m =
     (if mPayload m = [] then True else if \<not> json_Valid (mPayload m) then False else True)"

fun contains :: "string list \<Rightarrow> string \<Rightarrow> bool" where
  "contains [] s = False"
| "contains (x # xs) s = (if x = s then True else contains xs s)"

text \<open>\<open>byID\<close>: of two messages with one ID the later one stays.\<close>

definition byID :: "message list \<Rightarrow> string \<Rightarrow> message option" where
  "byID msgs = map_of (rev (map (\<lambda>m. (mID m, m)) msgs))"

section \<open>Validate\<close>

definition skip_message ::
    "string \<Rightarrow> skip_reason \<Rightarrow> string \<Rightarrow> validation_result \<Rightarrow> validation_result" where
  "skip_message i r d res =
     res\<lparr>vrSkipped := vrSkipped res + 1,
         vrSkippedMessages := vrSkippedMessages res @ [\<lparr>smID = i, smReason = r, smDetail = d\<rparr>]\<rparr>"

definition replayed_detail :: "dup_evidence \<Rightarrow> string" where
  "replayed_detail ev =
     (case PriorReplayAt ev of None \<Rightarrow> ''prior replay found in audit trail''
      | Some t \<Rightarrow> ''replayed at '' @ FormatUTC t)"

text \<open>One iteration of the loop over the planned IDs.\<close>

definition validate_id ::
    "env \<Rightarrow> recovery_plan \<Rightarrow> (string \<Rightarrow> message option) \<Rightarrow> string \<Rightarrow> validation_result \<Rightarrow> 'w world \<Rightarrow>
     (goerr, validation_result) result \<times> 'w world" where
  "validate_id env plan cur i res w =
     (case cur i of
        None \<Rightarrow> (Ok (skip_message i SkipNotFound [] res), w)
      | Some m \<Rightarrow>
          if contains (plSafetyChecks plan) CheckSchema \<and> \<not> schemaValid m
          then (Ok (skip_message i SkipInvalid ''payload does not parse as JSON'' res), w)
          else
            let res = res\<lparr>vrValidated := vrValidated res + 1\<rparr> in
            if contains (plSafetyChecks plan) CheckDuplicate \<and> wStore w \<noteq> None
            then (case CheckAudit env m w of
                    (Inl e, w) \<Rightarrow> (Err (Wrap (''validator: duplicate check for '' @ i @ '': '') e []), w)
                  | (Inr ev, w) \<Rightarrow>
                      if MatchFound ev
                      then (Ok (skip_message i SkipDuplicate (replayed_detail ev)
                                 (res\<lparr>vrDuplicates := vrDuplicates res + 1\<rparr>)), w)
                      else (Ok res, w))
            else (Ok res, w))"

fun validate_ids ::
    "env \<Rightarrow> recovery_plan \<Rightarrow> (string \<Rightarrow> message option) \<Rightarrow> string list \<Rightarrow> validation_result \<Rightarrow>
     'w world \<Rightarrow> (goerr, validation_result) result \<times> 'w world" where
  "validate_ids env plan cur [] res w = (Ok (res\<lparr>vrToReplay := vrSelected res - vrSkipped res\<rparr>), w)"
| "validate_ids env plan cur (i # is) res w =
     (case validate_id env plan cur i res w of
        (Inl e, w) \<Rightarrow> (Err e, w)
      | (Inr res, w) \<Rightarrow> validate_ids env plan cur is res w)"

definition missing_destination :: "string \<Rightarrow> string" where
  "missing_destination d =
     ''destination queue '' @ Quote d @ '' does not exist'' @ dash_sep @ ''a confirmed run will be refused''"

definition pending_backlog :: "string \<Rightarrow> int \<Rightarrow> string" where
  "pending_backlog d n =
     ''destination queue '' @ Quote d @ '' has '' @ Itoa n
       @ '' pending (unacknowledged) messages'' @ dash_sep @ ''consumers may be backed up''"

text \<open>The plan-level destination check.\<close>

definition check_destination ::
    "'w broker \<Rightarrow> int \<Rightarrow> recovery_plan \<Rightarrow> validation_result \<Rightarrow> 'w world \<Rightarrow>
     (goerr, validation_result) result \<times> 'w world" where
  "check_destination b threshold plan res w =
     (let d = plDestination plan in
      if contains (plSafetyChecks plan) CheckDestination then
        (if d = [] then (Err (Text ''validator: plan has no destination to check''), w)
         else case do_stats b d w of
             (Inl e, w) \<Rightarrow>
               if errors_is e ErrQueueNotFound
               then (Ok (res\<lparr>vrDestinationMissing := d,
                             vrWarnings := vrWarnings res @ [missing_destination d]\<rparr>), w)
               else (Err (Wrap (''validator: check destination '' @ Quote d @ '': '') e []), w)
           | (Inr st, w) \<Rightarrow>
               if qPending st \<ge> pendingThreshold threshold
               then (Ok (res\<lparr>vrDestinationPending := qPending st,
                             vrWarnings := vrWarnings res @ [pending_backlog d (qPending st)]\<rparr>), w)
               else (Ok res, w))
      else (Ok res, w))"

definition initial_result :: "recovery_plan \<Rightarrow> validation_result" where
  "initial_result plan =
     \<lparr>vrPlanID = plID plan, vrQueue = plQueue plan, vrSelected = int (length (plMessageIDs plan)),
      vrValidated = 0, vrDuplicates = 0, vrSkipped = 0, vrToReplay = 0,
      vrChecksRun = plSafetyChecks plan, vrSkippedMessages = [], vrDestinationMissing = [],
      vrDestinationPending = 0, vrWarnings = []\<rparr>"

definition Validate ::
    "env \<Rightarrow> 'w broker \<Rightarrow> int \<Rightarrow> recovery_plan option \<Rightarrow> 'w world \<Rightarrow>
     (goerr, validation_result) result \<times> 'w world" where
  "Validate env b threshold po w =
     (case po of None \<Rightarrow> (Err (Text ''validator: nil plan''), w)
      | Some plan \<Rightarrow>
     (if plSafetyChecks plan = [] then (Err (Sentinel ErrNoSafetyChecks), w)
      else case do_search b (plQueue plan) (limit_filter (validationScanLimit plan)) w of
        (Inl e, w) \<Rightarrow> (Err (Wrap (''validator: scan queue '' @ Quote (plQueue plan) @ '': '') e []), w)
      | (Inr msgs, w) \<Rightarrow>
     (case check_destination b threshold plan (initial_result plan) w of
        (Inl e, w) \<Rightarrow> (Err e, w)
      | (Inr res, w) \<Rightarrow> validate_ids env plan (byID msgs) (plMessageIDs plan) res w)))"

section \<open>Lemmas\<close>

lemma contains_iff [simp]: "contains xs s \<longleftrightarrow> s \<in> set xs"
  by (induction xs) auto

lemma byID_id: "byID msgs i = Some m \<Longrightarrow> mID m = i \<and> m \<in> set msgs"
  by (auto simp: byID_def dest: map_of_SomeD)

lemma byID_None: "byID msgs i = None \<longleftrightarrow> (\<forall>m\<in>set msgs. mID m \<noteq> i)"
  by (auto simp: byID_def map_of_eq_None_iff image_image)

text \<open>
  What the checks say about one message, as a function of the queue as it was scanned and
  of the trail: the reason to skip it, if any.
\<close>

definition verdict ::
    "string list \<Rightarrow> (string \<Rightarrow> message option) \<Rightarrow> store option \<Rightarrow> string \<Rightarrow> skip_reason option" where
  "verdict checks cur st i =
     (case cur i of
        None \<Rightarrow> Some SkipNotFound
      | Some m \<Rightarrow>
          if CheckSchema \<in> set checks \<and> mPayload m \<noteq> [] \<and> \<not> json_Valid (mPayload m) then Some SkipInvalid
          else if CheckDuplicate \<in> set checks \<and> st_evidence i st \<noteq> [] then Some SkipDuplicate
          else None)"

definition verdicts ::
    "(string \<Rightarrow> skip_reason option) \<Rightarrow> string list \<Rightarrow> (string \<times> skip_reason) list" where
  "verdicts v is = concat (map (\<lambda>i. case v i of None \<Rightarrow> [] | Some r \<Rightarrow> [(i, r)]) is)"

abbreviation skips :: "validation_result \<Rightarrow> (string \<times> skip_reason) list" where
  "skips res \<equiv> map (\<lambda>s. (smID s, smReason s)) (vrSkippedMessages res)"

lemma verdicts_simps [simp]:
  "verdicts v [] = []"
  "verdicts v (i # is) = (case v i of None \<Rightarrow> [] | Some r \<Rightarrow> [(i, r)]) @ verdicts v is"
  by (simp_all add: verdicts_def)

lemma length_verdicts: "length (verdicts v is) = length (filter (\<lambda>i. v i \<noteq> None) is)"
  by (induction "is") (auto split: option.splits)

lemma skip_message_simps [simp]:
  "skips (skip_message i r d res) = skips res @ [(i, r)]"
  "vrSkipped (skip_message i r d res) = vrSkipped res + 1"
  "vrSelected (skip_message i r d res) = vrSelected res"
  "vrValidated (skip_message i r d res) = vrValidated res"
  "vrDuplicates (skip_message i r d res) = vrDuplicates res"
  "vrDestinationMissing (skip_message i r d res) = vrDestinationMissing res"
  "vrWarnings (skip_message i r d res) = vrWarnings res"
  "vrChecksRun (skip_message i r d res) = vrChecksRun res"
  by (simp_all add: skip_message_def)

text \<open>The counters that the loop keeps in step with the list of skips.\<close>

definition counts_ok :: "validation_result \<Rightarrow> bool" where
  "counts_ok res =
     (vrSkipped res = int (length (vrSkippedMessages res)) \<and>
      vrDuplicates res = int (length (filter (\<lambda>s. smReason s = SkipDuplicate) (vrSkippedMessages res))))"

lemma validate_id_step:
  assumes "validate_id env plan cur i res w = (Inr res', w')"
    and cur: "\<And>j m. cur j = Some m \<Longrightarrow> mID m = j"
  shows "wStore w' = wStore w \<and> wTrace w' = wTrace w \<and> wServer w' = wServer w"
    and "skips res' = skips res @ verdicts (verdict (plSafetyChecks plan) cur (wStore w)) [i]"
    and "counts_ok res \<Longrightarrow> counts_ok res'"
    and "vrSelected res' = vrSelected res \<and> vrDestinationMissing res' = vrDestinationMissing res
         \<and> vrWarnings res' = vrWarnings res"
    and "vrValidated res' = vrValidated res +
      (if verdict (plSafetyChecks plan) cur (wStore w) i \<in> set [Some SkipNotFound, Some SkipInvalid] then 0 else 1)"
  using assms(1)
  by (auto simp: validate_id_def Let_def verdict_def schemaValid_def CheckAudit_cases counts_ok_def
      skip_message_def dest: cur split: option.splits if_splits sum.splits prod.splits)

lemma validate_id_error:
  assumes "validate_id env plan cur i res w = (Inl e, w')"
  shows "wStore w' = wStore w \<and> wTrace w' = wTrace w \<and> wServer w' = wServer w"
  using assms
  by (auto simp: validate_id_def Let_def CheckAudit_cases split: option.splits if_splits sum.splits prod.splits)

text \<open>The whole loop, by induction over the planned IDs.\<close>

lemma validate_ids_run:
  assumes "validate_ids env plan cur is res w = (Inr res', w')"
    and cur: "\<And>j m. cur j = Some m \<Longrightarrow> mID m = j"
  shows "wStore w' = wStore w \<and> wTrace w' = wTrace w \<and> wServer w' = wServer w \<and>
    skips res' = skips res @ verdicts (verdict (plSafetyChecks plan) cur (wStore w)) is \<and>
    (counts_ok res \<longrightarrow> counts_ok res') \<and>
    vrSelected res' = vrSelected res \<and> vrDestinationMissing res' = vrDestinationMissing res \<and>
    vrWarnings res' = vrWarnings res \<and> vrToReplay res' = vrSelected res' - vrSkipped res' \<and>
    vrValidated res' = vrValidated res + int (length (filter (\<lambda>i.
      verdict (plSafetyChecks plan) cur (wStore w) i \<notin> set [Some SkipNotFound, Some SkipInvalid]) is))"
  using assms(1)
proof (induction "is" arbitrary: res w)
  case Nil
  then show ?case by (auto simp: counts_ok_def)
next
  case (Cons i "is")
  then obtain r1 w1 where s: "validate_id env plan cur i res w = (Inr r1, w1)"
      "validate_ids env plan cur is r1 w1 = (Inr res', w')"
    by (auto split: prod.splits sum.splits)
  note step = validate_id_step[OF s(1) cur] and IH = Cons.IH[OF s(2)]
  have store: "wStore w1 = wStore w" using step(1) by blast
  show ?case
    using step IH unfolding store by (simp split: option.splits)
qed

lemma validate_ids_quiet:
  "validate_ids env plan cur is res w = (r, w') \<Longrightarrow>
     (\<And>j m. cur j = Some m \<Longrightarrow> mID m = j) \<Longrightarrow>
     wStore w' = wStore w \<and> wTrace w' = wTrace w \<and> wServer w' = wServer w"
proof (induction "is" arbitrary: res w)
  case (Cons i "is")
  obtain x w1 where s: "validate_id env plan cur i res w = (x, w1)" by fastforce
  show ?case
  proof (cases x)
    case (Inl e)
    with s Cons.prems(1) validate_id_error[of env plan cur i res w e w1] show ?thesis by simp
  next
    case (Inr r1)
    with s Cons.prems(1) have n: "validate_ids env plan cur is r1 w1 = (r, w')" by simp
    show ?thesis
      using Cons.IH[OF n Cons.prems(2)] validate_id_step(1)[of env plan cur i res w r1 w1] s Inr Cons.prems(2)
      by auto
  qed
qed auto

lemma initial_result_simps [simp]:
  "skips (initial_result plan) = []" "counts_ok (initial_result plan)"
  "vrSelected (initial_result plan) = int (length (plMessageIDs plan))"
  "vrValidated (initial_result plan) = 0" "vrWarnings (initial_result plan) = []"
  "vrDestinationMissing (initial_result plan) = []"
  by (simp_all add: initial_result_def counts_ok_def)

lemma check_destination_run:
  assumes "check_destination b t plan res w = (r, w')"
  shows "wStore w' = wStore w \<and>
    wTrace w' = wTrace w @ (if CheckDestination \<in> set (plSafetyChecks plan) \<and> plDestination plan \<noteq> []
      then [CStats (plDestination plan) (is_Ok (fst (bStats b (plDestination plan) (wServer w))))] else [])"
  using assms by (auto simp: check_destination_def Let_def do_stats_def split: sum.splits if_splits prod.splits)

lemma check_destination_result:
  assumes "check_destination b t plan res w = (Inr res', w')"
  shows "skips res' = skips res \<and> (counts_ok res \<longrightarrow> counts_ok res') \<and> vrSelected res' = vrSelected res
    \<and> vrValidated res' = vrValidated res"
  using assms by (auto simp: check_destination_def Let_def counts_ok_def split: sum.splits if_splits prod.splits)

lemma Validate_cases:
  assumes "Validate env b t (Some plan) w = (r, w')"
  obtains
    (no_checks) "plSafetyChecks plan = []" "r = Inl (Sentinel ErrNoSafetyChecks)" "w' = w"
  | (scan_failed) e e' where "plSafetyChecks plan \<noteq> []" "r = Inl e'"
      "do_search b (plQueue plan) (limit_filter (validationScanLimit plan)) w = (Inl e, w')"
  | (destination_failed) msgs w1 e where "plSafetyChecks plan \<noteq> []" "r = Inl e"
      "do_search b (plQueue plan) (limit_filter (validationScanLimit plan)) w = (Inr msgs, w1)"
      "check_destination b t plan (initial_result plan) w1 = (Inl e, w')"
  | (checked) msgs w1 res w2 where "plSafetyChecks plan \<noteq> []"
      "do_search b (plQueue plan) (limit_filter (validationScanLimit plan)) w = (Inr msgs, w1)"
      "check_destination b t plan (initial_result plan) w1 = (Inr res, w2)"
      "validate_ids env plan (byID msgs) (plMessageIDs plan) res w2 = (r, w')"
  using assms unfolding Validate_def by (auto split: prod.splits sum.splits if_splits)

text \<open>Read-only, whatever the outcome: no mutating call, the store untouched.\<close>

lemma Validate_quiet:
  assumes "Validate env b t (Some plan) w = (r, w')"
  shows "wStore w' = wStore w \<and> (\<exists>new. wTrace w' = wTrace w @ new \<and> \<not> list_ex mutating new \<and>
    (\<forall>c \<in> set new. case c of CSearch q _ \<Rightarrow> q = plQueue plan | CStats q _ \<Rightarrow> q = plDestination plan | _ \<Rightarrow> False))"
  using assms
proof (cases rule: Validate_cases)
  case (scan_failed e e')
  then show ?thesis by (auto dest!: do_search_frame)
next
  case (destination_failed msgs w1 e)
  then show ?thesis using check_destination_run[OF destination_failed(4)] by (auto dest!: do_search_frame)
next
  case (checked msgs w1 res w2)
  then show ?thesis
    using check_destination_run[OF checked(3)] validate_ids_quiet[OF checked(4) byID_id[THEN conjunct1]]
    by (auto dest!: do_search_frame)
qed auto

lemma Validate_result:
  assumes "Validate env b t (Some plan) w = (Inr res, w')"
  obtains msgs w1 where
    "do_search b (plQueue plan) (limit_filter (validationScanLimit plan)) w = (Inr msgs, w1)"
    "skips res = verdicts (verdict (plSafetyChecks plan) (byID msgs) (wStore w)) (plMessageIDs plan)"
    "counts_ok res" "vrSelected res = int (length (plMessageIDs plan))"
    "vrToReplay res = vrSelected res - vrSkipped res"
    "vrValidated res = int (length (filter (\<lambda>i. verdict (plSafetyChecks plan) (byID msgs) (wStore w) i
        \<notin> set [Some SkipNotFound, Some SkipInvalid]) (plMessageIDs plan)))"
  using assms
proof (cases rule: Validate_cases)
  case (checked msgs w1 res0 w2)
  note d = check_destination_result[OF checked(3)] check_destination_run[OF checked(3)]
  note v = validate_ids_run[OF checked(4) byID_id[THEN conjunct1]]
  have "wStore w2 = wStore w" using d(2) do_search_frame[OF checked(2)] by simp
  with v d(1) show ?thesis by (intro that[OF checked(2)]) auto
qed auto

lemma verdicts_duplicates:
  "length (filter (\<lambda>p. snd p = SkipDuplicate) (verdicts v is)) =
   length (filter (\<lambda>i. v i = Some SkipDuplicate) is)"
  by (induction "is") (auto split: option.splits)

lemma verdict_split:
  fixes v :: "string \<Rightarrow> skip_reason option"
  assumes "\<And>i. v i \<noteq> Some SkipNotPlanned"
  shows "length (filter (\<lambda>i. v i \<notin> set [Some SkipNotFound, Some SkipInvalid]) is) =
    length (filter (\<lambda>i. v i = None) is) + length (filter (\<lambda>i. v i = Some SkipDuplicate) is)"
proof (induction "is")
  case (Cons i "is")
  then show ?case using assms[of i] by (cases "v i") (auto split: skip_reason.splits, metis skip_reason.exhaust)
qed simp

lemma verdict_planned: "verdict checks cur st i \<noteq> Some SkipNotPlanned"
  by (simp add: verdict_def split: option.splits)

text \<open>A message with recorded evidence is among the skipped ones.\<close>

lemma evidence_skips:
  assumes "Validate env b t (Some plan) w = (Inr res, w')"
    and "i \<in> set (plMessageIDs plan)" and "CheckDuplicate \<in> set (plSafetyChecks plan)"
    and "wEvidence i w \<noteq> []"
  shows "\<exists>r. (i, r) \<in> set (skips res)"
proof -
  from assms(1) obtain msgs where
    sk: "skips res = verdicts (verdict (plSafetyChecks plan) (byID msgs) (wStore w)) (plMessageIDs plan)"
    by (rule Validate_result)
  have "verdict (plSafetyChecks plan) (byID msgs) (wStore w) i \<noteq> None"
    using assms(3,4) by (auto simp: verdict_def split: option.splits)
  then obtain r where "verdict (plSafetyChecks plan) (byID msgs) (wStore w) i = Some r" by blast
  with assms(2) show ?thesis unfolding sk verdicts_def by (intro exI[of _ r]) force
qed

section \<open>Properties\<close>

text \<open>
  The dry run never changes anything. Whatever the broker and the database answer, it
  makes no mutating call, reads only the plan's queue and destination, and leaves the audit
  store exactly as it was.
\<close>

theorem validate_read_only:
  "wStore (snd (Validate env b t po w)) = wStore w \<and>
   (\<exists>new. wTrace (snd (Validate env b t po w)) = wTrace w @ new \<and> \<not> list_ex mutating new)"
proof (cases po)
  case (Some plan)
  obtain r w' where run: "Validate env b t (Some plan) w = (r, w')" by fastforce
  from Validate_quiet[OF run] Some run show ?thesis by auto
qed (simp add: Validate_def)


definition demo_plan :: "string list \<Rightarrow> recovery_plan" where
  "demo_plan ids = \<lparr>plID = ''plan_test'', plCreatedAt = 1, plQueue = ''orders-dlq'', plGroupID = [],
     plGroupLabel = [], plMessageIDs = ids, plExcluded = [], plDestination = ''orders'',
     plAction = ''replay'', plLimits = DefaultLimits,
     plSafetyChecks = [CheckSchema, CheckDuplicate, CheckDestination]\<rparr>"

lemma json_Valid_object [simp]: "json_Valid ''{}''"
  by (simp add: json_Valid_def json_evals)

text \<open>Two planned messages, one of which is no longer in the queue.\<close>

lemma demo_validation:
  "\<exists>res w'. Validate calm val_broker 0 (Some (demo_plan [''m1'', ''gone''])) (val_world (val_server [''m1''])) =
     (Ok res, w') \<and> vrToReplay res = 1"
  by (simp add: Validate_def demo_plan_def check_destination_def pendingThreshold_def
      DefaultPendingThreshold_def initial_result_def byID_def validate_id_def check_defs schemaValid_def
      skip_message_def CheckAudit_cases Let_def)


text \<open>
  Recorded evidence always blocks. A planned message for which the trail holds a
  confirmed successful replay is skipped by the duplicate check (or by an earlier one); it
  is never left to the operator as a warning, and a confirmed run will not touch it.
\<close>

theorem replayed_message_is_skipped:
  assumes "Validate env b t (Some plan) w = (Ok res, w')"
    and "i \<in> set (plMessageIDs plan)" and "CheckDuplicate \<in> set (plSafetyChecks plan)"
    and "wEvidence i w \<noteq> []"
  shows "\<exists>r. (i, r) \<in> set (skips res)"
  using evidence_skips[OF assms] by force

definition confirmed_replay :: "string \<Rightarrow> entry" where
  "confirmed_replay i = \<lparr>eTimestamp = 63900000000000000000, eAction = ActionReplay, eMessageID = i,
     ePlanID = [], eSourceQueue = ''orders-dlq'', eDestination = ''orders'', eDryRun = False,
     eConfirmed = True, eResult = ''success'', eBroker = [], eProfile = [], eReason = [],
     ePayloadDiff = []\<rparr>"

definition replayed_world :: "val_state world" where
  "replayed_world = (val_world (val_server [''m1'']))\<lparr>wStore := Some (insert_entry
     (confirmed_replay ''m1'') empty_store)\<rparr>"

theorem replayed_message_is_skipped_witness:
  "\<exists>res w' r. Validate calm val_broker 0 (Some (demo_plan [''m1''])) replayed_world = (Ok res, w') \<and>
     (''m1'', r) \<in> set (skips res)"
proof -
  have ev: "st_evidence ''m1'' (Some (insert_entry (confirmed_replay ''m1'') empty_store)) =
      [confirmed_replay ''m1'']"
    by (simp add: st_Some store_log.ev_ins confirmed_replay_def is_replay_success_def)
  obtain res w' where v: "Validate calm val_broker 0 (Some (demo_plan [''m1''])) replayed_world = (Ok res, w')"
    by (simp add: ev Validate_def demo_plan_def check_destination_def pendingThreshold_def replayed_world_def
        DefaultPendingThreshold_def initial_result_def byID_def validate_id_def check_defs schemaValid_def
        skip_message_def CheckAudit_cases Let_def)
  have "wEvidence ''m1'' replayed_world \<noteq> []"
    by (simp add: replayed_world_def ev)
  from replayed_message_is_skipped[OF v _ _ this] v show ?thesis
    by (auto simp: demo_plan_def)
qed

text \<open>
  A missing destination is reported, not an error: the dry run names the plan's
  destination exactly when the probe answered that the queue does not exist.
\<close>

theorem missing_destination_is_reported:
  assumes "Validate env b t (Some plan) w = (Ok res, w')"
    and "CheckDestination \<in> set (plSafetyChecks plan)"
  shows "plDestination plan \<noteq> [] \<and>
    (case fst (bStats b (plDestination plan)
            (snd (bSearch b (plQueue plan) (limit_filter (validationScanLimit plan)) (wServer w)))) of
       Ok _ \<Rightarrow> vrDestinationMissing res = []
     | Err e \<Rightarrow> errors_is e ErrQueueNotFound \<and> vrDestinationMissing res = plDestination plan)"
  using assms(1)
proof (cases rule: Validate_cases)
  case (checked msgs w1 r0 w2)
  have "wServer w1 = snd (bSearch b (plQueue plan) (limit_filter (validationScanLimit plan)) (wServer w))"
    using do_search_frame[OF checked(2)] by simp
  moreover have "vrDestinationMissing res = vrDestinationMissing r0"
    using validate_ids_run[OF checked(4) byID_id[THEN conjunct1]] by simp
  ultimately show ?thesis
    using checked(3) assms(2)
    by (auto simp: check_destination_def Let_def do_stats_def split: if_splits sum.splits prod.splits)
qed simp_all

theorem missing_destination_is_reported_witness:
  "\<exists>res w'. Validate calm val_broker 0 (Some (demo_plan [''m1'']))
       (val_world (val_server [''m1'']\<lparr>vbMissing := [''orders'']\<rparr>)) = (Ok res, w') \<and>
     vrDestinationMissing res = ''orders''"
proof -
  let ?w = "val_world (val_server [''m1'']\<lparr>vbMissing := [''orders'']\<rparr>)"
  obtain res w' where v: "Validate calm val_broker 0 (Some (demo_plan [''m1''])) ?w = (Ok res, w')"
    by (simp add: Validate_def demo_plan_def check_destination_def pendingThreshold_def
        DefaultPendingThreshold_def initial_result_def byID_def validate_id_def check_defs schemaValid_def
        skip_message_def CheckAudit_cases Let_def)
  have "CheckDestination \<in> set (plSafetyChecks (demo_plan [''m1'']))" by (simp add: demo_plan_def)
  from missing_destination_is_reported[OF v this] v show ?thesis
    by (auto simp: demo_plan_def vb_search_def vb_stats_def split: sum.splits)
qed

end
