(* ===== verification/Executor.thy ===== *)
theory Executor
  imports Validator
begin

text \<open>
  The batch executor (\<^verbatim>\<open>internal/recovery/executor.go\<close>): a confirmed run probes the
  destination, re-validates the plan, audits what it leaves alone and replays the rest in
  batches under a circuit breaker. The messages of a batch are processed one after the other
  here, which is what the code does with the default concurrency of one; \<open>Batch_Workers\<close> has the
  worker pool. The rate limiter is
  third-party code: whether a wait succeeds is part of the environment. The batch loop is a
  \<open>partial_function\<close>, because a batch size of zero makes the code loop for ever.
\<close>

section \<open>Data\<close>

definition DefaultFailureThreshold :: rat where "DefaultFailureThreshold = 2/10"

record executor_options =
  xoConfirm :: bool
  xoResume :: bool
  xoBatchSize :: int
  xoConcurrency :: int
  xoRateLimit :: string
  xoRetryPerMessage :: int
  xoFailureThreshold :: rat
  xoPendingThreshold :: int
  xoBrokerName :: string
  xoProfile :: string
  xoReason :: string

record execution_result =
  erPlanID :: string
  erSelected :: int
  erReplayed :: int
  erSkipped :: int
  erExcluded :: int
  erFailed :: int
  erNewDLQEntries :: int
  erTripped :: bool
  erTrippedFailureRate :: rat
  erRemaining :: "string list"
  erDuration :: int

datatype outcome = Replayed_ok | Publish_failed | Ack_failed

section \<open>Rate limits\<close>

text \<open>
  \<open>strconv.ParseFloat\<close> on decimal numbers and on the names of the infinities and NaN, with
  exact values (hexadecimal literals are left out). A decimal too large for a float64 is an
  error.
\<close>

datatype gofloat = Finite rat | PosInf | NegInf | NotANumber

definition digits_rat :: "string \<Rightarrow> rat" where
  "digits_rat ds = of_int (digits_val 0 ds)"

definition float_max :: rat where "float_max = 2 ^ 1024 - 2 ^ 970"

definition parse_exp :: "string \<Rightarrow> int option" where
  "parse_exp s =
     (case s of [] \<Rightarrow> Some 0
      | c # t \<Rightarrow> if c = CHR ''e'' \<or> c = CHR ''E'' then parse_dec t else None)"

definition parse_unsigned :: "string \<Rightarrow> rat option" where
  "parse_unsigned s =
     (let (i, t) = span is_digit s;
          (f, u) = (case expect CHR ''.'' t of None \<Rightarrow> ([], t) | Some t' \<Rightarrow> span is_digit t')
      in if i = [] \<and> f = [] then None
         else case parse_exp u of None \<Rightarrow> None
         | Some e \<Rightarrow>
             let m = digits_rat (i @ f); k = e - int (length f)
             in Some (if k \<ge> 0 then m * 10 ^ nat k else m / 10 ^ nat (- k)))"

definition ParseFloat :: "string \<Rightarrow> gofloat option" where
  "ParseFloat s =
     (let neg = (s \<noteq> [] \<and> hd s = CHR ''-'');
          body = (if s \<noteq> [] \<and> (hd s = CHR ''-'' \<or> hd s = CHR ''+'') then tl s else s);
          low = ToLower body
      in if ToLower s = ''nan'' then Some NotANumber
         else if low = ''inf'' \<or> low = ''infinity'' then Some (if neg then NegInf else PosInf)
         else case parse_unsigned body of None \<Rightarrow> None
           | Some x \<Rightarrow> if x > float_max then None else Some (Finite (if neg then - x else x)))"

text \<open>A limit in events per second; no limit is \<open>rate.Inf\<close>.\<close>

definition per_second :: "rat \<Rightarrow> gofloat \<Rightarrow> gofloat" where
  "per_second secs x = (case x of Finite r \<Rightarrow> Finite (r / secs) | _ \<Rightarrow> x)"

definition ParseRateLimit :: "string \<Rightarrow> (goerr, gofloat) result" where
  "ParseRateLimit s0 =
     (let s = TrimSpace (ToLower s0) in
      if s \<in> set [[], ''0'', ''unlimited''] then Ok PosInf
      else
        let (t, per) = (if HasSuffix s ''/s'' then (TrimSuffix s ''/s'', 1)
                        else if HasSuffix s ''/m'' then (TrimSuffix s ''/m'', 60) else (s, 1));
            bad = Err (Text (''invalid rate limit '' @ Quote t
                    @ '' (want e.g. 10/s, 100/m, or 0 for unlimited)''))
        in case ParseFloat t of
             None \<Rightarrow> bad
           | Some NegInf \<Rightarrow> bad
           | Some (Finite r) \<Rightarrow> if r \<le> 0 then bad else Ok (per_second per (Finite r))
           | Some x \<Rightarrow> Ok x)"

section \<open>Audit writes\<close>

definition detailFor :: "skipped_message \<Rightarrow> string" where
  "detailFor s = (if smDetail s \<noteq> [] then smDetail s else skip_text (smReason s))"

definition recoverEntry ::
    "recovery_plan \<Rightarrow> string \<Rightarrow> string \<Rightarrow> executor_options \<Rightarrow> string \<Rightarrow> gotime \<Rightarrow> entry" where
  "recoverEntry plan mid res opts reason now =
     \<lparr>eTimestamp = now, eAction = ActionRecover, eMessageID = mid, ePlanID = plID plan,
      eSourceQueue = plQueue plan, eDestination = plDestination plan, eDryRun = False,
      eConfirmed = True, eResult = res, eBroker = xoBrokerName opts, eProfile = xoProfile opts,
      eReason = reason, ePayloadDiff = []\<rparr>"

definition audit ::
    "env \<Rightarrow> recovery_plan \<Rightarrow> string \<Rightarrow> string \<Rightarrow> executor_options \<Rightarrow> string \<Rightarrow> 'w world \<Rightarrow> 'w world" where
  "audit env plan mid res opts detail w =
     (let reason = (if detail \<noteq> [] then TrimSpace (xoReason opts @ dash_sep @ detail) else xoReason opts)
      in try_append env (recoverEntry plan mid res opts reason) w)"

definition auditPlan ::
    "env \<Rightarrow> recovery_plan \<Rightarrow> string \<Rightarrow> executor_options \<Rightarrow> 'w world \<Rightarrow> 'w world" where
  "auditPlan env plan res opts w = try_append env (recoverEntry plan [] res opts (xoReason opts)) w"

definition snapshot_of :: "recovery_plan \<Rightarrow> message \<Rightarrow> gotime \<Rightarrow> snapshot" where
  "snapshot_of plan m now =
     \<lparr>sPlanID = plID plan, sMessageID = mID m, sSourceQueue = plQueue plan,
      sDestination = plDestination plan, sPayload = mPayload m, sContentType = mContentType m,
      sHeaders = mHeaders m, sTimestamp = now\<rparr>"

definition take_snapshot :: "env \<Rightarrow> recovery_plan \<Rightarrow> message \<Rightarrow> 'w world \<Rightarrow> 'w world" where
  "take_snapshot env plan m w = try_snapshot env (snapshot_of plan m) w"

section \<open>One message\<close>

text \<open>The publish loop: up to \<open>n\<close> attempts, the first success ends it.\<close>

fun publish_retry :: "'w broker \<Rightarrow> string \<Rightarrow> message \<Rightarrow> nat \<Rightarrow> 'w world \<Rightarrow> bool \<times> 'w world" where
  "publish_retry b d m 0 w = (False, w)"
| "publish_retry b d m (Suc n) w =
     (case do_publish b d m w of
        (None, w) \<Rightarrow> (True, w)
      | (Some e, w) \<Rightarrow> publish_retry b d m n w)"

definition attempts :: "executor_options \<Rightarrow> nat" where
  "attempts opts = nat (xoRetryPerMessage opts + 1)"

definition process ::
    "env \<Rightarrow> 'w broker \<Rightarrow> recovery_plan \<Rightarrow> executor_options \<Rightarrow> string \<Rightarrow> 'w world \<Rightarrow> outcome \<times> 'w world" where
  "process env b plan opts i w =
     (case do_inspect b (plQueue plan) i w of
        (Inl e, w) \<Rightarrow>
          (Publish_failed, audit env plan i ''publish_failed'' opts ''message vanished before replay'' w)
      | (Inr m, w) \<Rightarrow>
     (case publish_retry b (plDestination plan) m (attempts opts) w of
        (False, w) \<Rightarrow>
          (Publish_failed, audit env plan i ''publish_failed'' opts
             ''publish failed after retries; DLQ copy left in place'' w)
      | (True, w) \<Rightarrow>
     (case do_ack b (plQueue plan) i w of
        (Some e, w) \<Rightarrow>
          (Ack_failed, audit env plan i ''ack_failed'' opts
             ''published but ack failed; message may be duplicated'' w)
      | (None, w) \<Rightarrow>
          (Replayed_ok, audit env plan i ''success'' opts [] (take_snapshot env plan m w)))))"

section \<open>One batch\<close>

text \<open>A limiter wait before every message; a failed wait counts as a failed publish.\<close>

definition limiter_wait :: "env \<Rightarrow> 'w world \<Rightarrow> bool \<times> 'w world" where
  "limiter_wait env w = (limiter_ok env (wTick w), w\<lparr>wTick := Suc (wTick w)\<rparr>)"

definition batch_item ::
    "env \<Rightarrow> 'w broker \<Rightarrow> recovery_plan \<Rightarrow> executor_options \<Rightarrow> string \<Rightarrow> 'w world \<Rightarrow> outcome \<times> 'w world" where
  "batch_item env b plan opts i w =
     (case limiter_wait env w of
        (False, w) \<Rightarrow> (Publish_failed, w)
      | (True, w) \<Rightarrow> process env b plan opts i w)"

fun batch_items ::
    "env \<Rightarrow> 'w broker \<Rightarrow> recovery_plan \<Rightarrow> executor_options \<Rightarrow> string list \<Rightarrow> 'w world \<Rightarrow>
     outcome list \<times> 'w world" where
  "batch_items env b plan opts [] w = ([], w)"
| "batch_items env b plan opts (i # is) w =
     (let (r, w) = batch_item env b plan opts i w; (rs, w) = batch_items env b plan opts is w
      in (r # rs, w))"

definition countOutcome :: "outcome list \<Rightarrow> outcome \<Rightarrow> int" where
  "countOutcome rs r = int (length (filter (\<lambda>x. x = r) rs))"

text \<open>(publish failures, ack failures, replayed): a failed ack counts as both failures.\<close>

definition runBatch ::
    "env \<Rightarrow> 'w broker \<Rightarrow> recovery_plan \<Rightarrow> executor_options \<Rightarrow> string list \<Rightarrow> 'w world \<Rightarrow>
     (int \<times> int \<times> int) \<times> 'w world" where
  "runBatch env b plan opts is w =
     (let (rs, w) = batch_items env b plan opts is w
      in ((countOutcome rs Publish_failed + countOutcome rs Ack_failed,
           countOutcome rs Ack_failed, countOutcome rs Replayed_ok), w))"

section \<open>The batch loop\<close>

definition add_batch :: "int \<times> int \<times> int \<Rightarrow> execution_result \<Rightarrow> execution_result" where
  "add_batch c res =
     (case c of (failures, ackFailures, replayed) \<Rightarrow>
        res\<lparr>erReplayed := erReplayed res + replayed, erFailed := erFailed res + failures,
            erNewDLQEntries := erNewDLQEntries res + ackFailures\<rparr>)"

text \<open>
  \<open>batchFailures / len(batch)\<close> against the threshold. An empty batch gives 0/0, a NaN, which
  is not above any threshold.
\<close>

definition failure_rate :: "int \<Rightarrow> nat \<Rightarrow> rat" where
  "failure_rate failures n = of_int failures / of_nat n"

definition trips :: "int \<Rightarrow> nat \<Rightarrow> rat \<Rightarrow> bool" where
  "trips failures n threshold = (n \<noteq> 0 \<and> failure_rate failures n > threshold)"

partial_function (option) batches ::
    "env \<Rightarrow> 'w broker \<Rightarrow> recovery_plan \<Rightarrow> executor_options \<Rightarrow> string list \<Rightarrow> execution_result \<Rightarrow>
     'w world \<Rightarrow> ((goerr, execution_result) result \<times> 'w world) option" where
  "batches env b plan opts remaining res w =
     (if remaining = [] then Some (Ok res, w)
      else if xoBatchSize opts < 0 then Some (Err (GoPanic ''slice bounds out of range''), w)
      else
        let n = nat (min (xoBatchSize opts) (int (length remaining)));
            batch = take n remaining; rest = drop n remaining;
            (c, w) = runBatch env b plan opts batch w;
            res = add_batch c res
        in if trips (fst c) (length batch) (xoFailureThreshold opts)
           then Some (Ok (res\<lparr>erTripped := True,
                              erTrippedFailureRate := failure_rate (fst c) (length batch),
                              erRemaining := rest\<rparr>),
                      auditPlan env plan ''tripped'' opts w)
           else batches env b plan opts rest res w)"

section \<open>Execute\<close>

text \<open>The options after the fallbacks to the plan's limits.\<close>

definition resolve_options :: "recovery_plan \<Rightarrow> executor_options \<Rightarrow> executor_options" where
  "resolve_options plan opts =
     opts\<lparr>xoBatchSize := (if xoBatchSize opts \<le> 0 then lBatchSize (plLimits plan) else xoBatchSize opts),
          xoConcurrency := (if xoConcurrency opts \<le> 0 then lConcurrency (plLimits plan) else xoConcurrency opts),
          xoRateLimit := (if xoRateLimit opts = [] then lRateLimit (plLimits plan) else xoRateLimit opts),
          xoFailureThreshold := (if xoFailureThreshold opts \<le> 0 \<or> xoFailureThreshold opts > 1
            then DefaultFailureThreshold else xoFailureThreshold opts)\<rparr>"

text \<open>\<open>filterCompleted\<close>: the messages still to do and the number of those already done.\<close>

fun drop_completed :: "env \<Rightarrow> string list \<Rightarrow> 'w world \<Rightarrow> (string list \<times> int) \<times> 'w world" where
  "drop_completed env [] w = (([], 0), w)"
| "drop_completed env (i # is) w =
     (case wStore w of None \<Rightarrow> ((i # is, 0), w)
      | Some s \<Rightarrow>
          (let (r, w) = ask_replayed env i s w;
               ((rest, n), w) = drop_completed env is w
           in case r of
                Inr es \<Rightarrow> if es \<noteq> [] then ((rest, n + 1), w) else ((i # rest, n), w)
              | Inl _ \<Rightarrow> ((i # rest, n), w)))"

definition filterCompleted ::
    "env \<Rightarrow> string list \<Rightarrow> execution_result \<Rightarrow> 'w world \<Rightarrow> (string list \<times> execution_result) \<times> 'w world" where
  "filterCompleted env attempt res w =
     (if wStore w = None then ((attempt, res), w)
      else let ((out, n), w) = drop_completed env attempt w
           in ((out, res\<lparr>erSkipped := erSkipped res + n\<rparr>), w))"

fun audit_skips ::
    "env \<Rightarrow> recovery_plan \<Rightarrow> executor_options \<Rightarrow> skipped_message list \<Rightarrow> execution_result \<Rightarrow>
     'w world \<Rightarrow> execution_result \<times> 'w world" where
  "audit_skips env plan opts [] res w = (res, w)"
| "audit_skips env plan opts (s # ss) res w =
     audit_skips env plan opts ss (res\<lparr>erSkipped := erSkipped res + 1\<rparr>)
       (audit env plan (smID s) ''skipped'' opts (detailFor s) w)"

fun audit_excluded ::
    "env \<Rightarrow> recovery_plan \<Rightarrow> executor_options \<Rightarrow> excluded_message list \<Rightarrow> execution_result \<Rightarrow>
     'w world \<Rightarrow> execution_result \<times> 'w world" where
  "audit_excluded env plan opts [] res w = (res, w)"
| "audit_excluded env plan opts (x # xs) res w =
     audit_excluded env plan opts xs (res\<lparr>erExcluded := erExcluded res + 1\<rparr>)
       (audit env plan (exMessageID x) ''skipped'' opts (exReason x) w)"

definition new_result :: "recovery_plan \<Rightarrow> execution_result" where
  "new_result plan =
     \<lparr>erPlanID = plID plan, erSelected = int (length (plMessageIDs plan)), erReplayed = 0,
      erSkipped = 0, erExcluded = 0, erFailed = 0, erNewDLQEntries = 0, erTripped = False,
      erTrippedFailureRate = 0, erRemaining = [], erDuration = 0\<rparr>"

definition attempt_list :: "recovery_plan \<Rightarrow> validation_result \<Rightarrow> string list" where
  "attempt_list plan vres =
     filter (\<lambda>i. i \<notin> set (map smID (vrSkippedMessages vres))) (plMessageIDs plan)"

text \<open>From the re-validation to the first batch: what is attempted, and the result so far.\<close>

definition prepare_run ::
    "env \<Rightarrow> recovery_plan \<Rightarrow> executor_options \<Rightarrow> validation_result \<Rightarrow> 'w world \<Rightarrow>
     (string list \<times> execution_result) \<times> 'w world" where
  "prepare_run env plan opts vres w =
     (let attempt = attempt_list plan vres; res = new_result plan;
          ((attempt, res), w) = (if xoResume opts then filterCompleted env attempt res w
                                 else ((attempt, res), w));
          (res, w) = audit_skips env plan opts (vrSkippedMessages vres) res w;
          (res, w) = audit_excluded env plan opts (plExcluded plan) res w
      in ((attempt, res), w))"

text \<open>After the last batch: the duration and the plan-level entry of a completed run.\<close>

definition finish_run ::
    "env \<Rightarrow> recovery_plan \<Rightarrow> executor_options \<Rightarrow> gotime \<Rightarrow>
     (goerr, execution_result) result \<times> 'w world \<Rightarrow> (goerr, execution_result) result \<times> 'w world" where
  "finish_run env plan opts start rw =
     (case rw of
        (Inl e, w) \<Rightarrow> (Err e, w)
      | (Inr res, w) \<Rightarrow>
          if erTripped res then (Ok res, w)
          else (Ok (res\<lparr>erDuration := clock env (wTick w) - start\<rparr>), auditPlan env plan ''completed'' opts w))"

definition execute_probed ::
    "env \<Rightarrow> 'w broker \<Rightarrow> recovery_plan \<Rightarrow> executor_options \<Rightarrow> 'w world \<Rightarrow>
     ((goerr, execution_result) result \<times> 'w world) option" where
  "execute_probed env b plan opts0 w =
     (let start = clock env (wTick w); opts = resolve_options plan opts0 in
      case ParseRateLimit (xoRateLimit opts) of
        Inl e \<Rightarrow> Some (Err e, w)
      | Inr limit \<Rightarrow>
     (case Validate env b (xoPendingThreshold opts) (Some plan) w of
        (Inl e, w) \<Rightarrow> Some (Err e, w)
      | (Inr vres, w) \<Rightarrow>
          (let ((attempt, res), w) = prepare_run env plan opts vres w
           in map_option (finish_run env plan opts start) (batches env b plan opts attempt res w))))"

definition Execute_plan ::
    "env \<Rightarrow> 'w broker \<Rightarrow> recovery_plan \<Rightarrow> executor_options \<Rightarrow> 'w world \<Rightarrow>
     ((goerr, execution_result) result \<times> 'w world) option" where
  "Execute_plan env b plan opts w =
     (if \<not> xoConfirm opts then Some (Err (Sentinel ErrConfirmRequired), w)
      else if plSafetyChecks plan = [] then Some (Err (Sentinel ErrNoSafetyChecks), w)
      else if plDestination plan \<noteq> [] then
        (case do_stats b (plDestination plan) w of
           (Inl e, w) \<Rightarrow>
             if errors_is e ErrQueueNotFound
             then Some (Err (Wrap [] (Sentinel ErrDestinationMissing)
                          ('': queue '' @ Quote (plDestination plan))),
                        auditPlan env plan ''refused'' opts w)
             else Some (Err (Wrap (''executor: check destination '' @ Quote (plDestination plan) @ '': '') e []), w)
         | (Inr _, w) \<Rightarrow> execute_probed env b plan opts w)
      else execute_probed env b plan opts w)"

section \<open>Lemmas: effects that do not touch the broker\<close>

lemma audit_frame [simp]:
  "wTrace (audit env plan i r opts d w) = wTrace w" "wServer (audit env plan i r opts d w) = wServer w"
  "wSnaps (audit env plan i r opts d w) = wSnaps w"
  "(wStore (audit env plan i r opts d w) = None) = (wStore w = None)"
  "wTrace (auditPlan env plan r opts w) = wTrace w" "wServer (auditPlan env plan r opts w) = wServer w"
  "(wStore (auditPlan env plan r opts w) = None) = (wStore w = None)"
  "wSnaps (auditPlan env plan r opts w) = wSnaps w"
  by (simp_all add: audit_def auditPlan_def Let_def)

lemma take_snapshot_frame [simp]:
  "wTrace (take_snapshot env plan m w) = wTrace w" "wServer (take_snapshot env plan m w) = wServer w"
  "wTrail (take_snapshot env plan m w) = wTrail w"
  "wEvidence mid (take_snapshot env plan m w) = wEvidence mid w"
  "(wStore (take_snapshot env plan m w) = None) = (wStore w = None)"
  by (simp_all add: take_snapshot_def)

lemma drop_completed_frame:
  "drop_completed env is w = (r, w') \<Longrightarrow>
     wTrace w' = wTrace w \<and> wServer w' = wServer w \<and> wStore w' = wStore w"
proof (induction "is" arbitrary: r w)
  case (Cons i "is")
  then show ?case
    by (fastforce simp: Let_def dest: ask_replayed_frame split: option.splits prod.splits sum.splits if_splits)
qed simp

lemma drop_completed_count:
  "drop_completed env is w = ((out, n), w') \<Longrightarrow> int (length is) = int (length out) + n \<and> set out \<subseteq> set is \<and> (distinct is \<longrightarrow> distinct out)"
proof (induction "is" arbitrary: out n w)
  case (Cons i "is")
  from Cons.prems show ?case
    by (fastforce simp: Let_def dest: Cons.IH split: option.splits prod.splits sum.splits if_splits)
qed simp

lemma filterCompleted_effect:
  assumes "filterCompleted env attempt res w = ((out, res'), w')"
  shows "wTrace w' = wTrace w \<and> wServer w' = wServer w \<and> wStore w' = wStore w \<and>
    int (length attempt) + erSkipped res = int (length out) + erSkipped res' \<and> set out \<subseteq> set attempt \<and>
    (distinct attempt \<longrightarrow> distinct out) \<and>
    (\<exists>k. res' = res\<lparr>erSkipped := k\<rparr>)"
  using assms
  by (auto simp: filterCompleted_def Let_def intro!: exI[of _ "erSkipped res'"]
      dest: drop_completed_frame drop_completed_count
      split: if_splits prod.splits)

lemma audit_skips_effect:
  "audit_skips env plan opts ss res w = (res', w') \<Longrightarrow>
     wTrace w' = wTrace w \<and> wServer w' = wServer w \<and> wSnaps w' = wSnaps w \<and>
     (wStore w' = None) = (wStore w = None) \<and>
     res' = res\<lparr>erSkipped := erSkipped res + int (length ss)\<rparr>"
proof (induction ss arbitrary: res w)
  case (Cons x ss)
  from Cons.prems Cons.IH[of "res\<lparr>erSkipped := erSkipped res + 1\<rparr>"] show ?case by (simp add: algebra_simps)
qed simp

lemma audit_excluded_effect:
  "audit_excluded env plan opts xs res w = (res', w') \<Longrightarrow>
     wTrace w' = wTrace w \<and> wServer w' = wServer w \<and> wSnaps w' = wSnaps w \<and>
     (wStore w' = None) = (wStore w = None) \<and>
     res' = res\<lparr>erExcluded := erExcluded res + int (length xs)\<rparr>"
proof (induction xs arbitrary: res w)
  case (Cons x xs)
  from Cons.prems Cons.IH[of "res\<lparr>erExcluded := erExcluded res + 1\<rparr>"] show ?case by (simp add: algebra_simps)
qed simp

lemma prepare_run_effect:
  assumes "prepare_run env plan opts vres w = ((attempt, res), w')"
  shows "wTrace w' = wTrace w \<and> wServer w' = wServer w \<and> wSnaps w' = wSnaps w \<and>
    (wStore w' = None) = (wStore w = None) \<and> set attempt \<subseteq> set (attempt_list plan vres) \<and>
    (distinct (plMessageIDs plan) \<longrightarrow> distinct attempt) \<and>
    int (length attempt) + erSkipped res =
      int (length (attempt_list plan vres)) + int (length (vrSkippedMessages vres)) \<and>
    res = (new_result plan)\<lparr>erSkipped := erSkipped res, erExcluded := int (length (plExcluded plan))\<rparr>"
proof -
  obtain a0 r0 w0 where f: "(if xoResume opts then filterCompleted env (attempt_list plan vres) (new_result plan) w
      else ((attempt_list plan vres, new_result plan), w)) = ((a0, r0), w0)" by (metis surj_pair)
  obtain r1 w1 where s: "audit_skips env plan opts (vrSkippedMessages vres) r0 w0 = (r1, w1)" by fastforce
  obtain r2 w2 where x: "audit_excluded env plan opts (plExcluded plan) r1 w1 = (r2, w2)" by fastforce
  have eq: "attempt = a0" "res = r2" "w' = w2"
    using assms f s x by (auto simp: prepare_run_def Let_def)
  have f': "wTrace w0 = wTrace w \<and> wServer w0 = wServer w \<and> wStore w0 = wStore w \<and>
      int (length (attempt_list plan vres)) + erSkipped (new_result plan) = int (length a0) + erSkipped r0 \<and>
      set a0 \<subseteq> set (attempt_list plan vres) \<and> (distinct (plMessageIDs plan) \<longrightarrow> distinct a0) \<and> (\<exists>k. r0 = (new_result plan)\<lparr>erSkipped := k\<rparr>)"
  proof (cases "xoResume opts")
    case True
    with f filterCompleted_effect[of env "attempt_list plan vres" "new_result plan" w a0 r0 w0]
    show ?thesis by (simp add: attempt_list_def)
  next
    case False
    with f show ?thesis
      by (intro conjI exI[of _ "erSkipped (new_result plan)"]) (auto simp: attempt_list_def)
  qed
  then obtain k where r0: "r0 = (new_result plan)\<lparr>erSkipped := k\<rparr>" by blast
  have r2: "r2 = (new_result plan)\<lparr>erSkipped := k + int (length (vrSkippedMessages vres)),
      erExcluded := int (length (plExcluded plan))\<rparr>"
    using audit_skips_effect[OF s] audit_excluded_effect[OF x] by (simp add: r0 new_result_def)
  have "erSkipped (new_result plan) = 0" by (simp add: new_result_def)
  then show ?thesis
    using f' audit_skips_effect[OF s] audit_excluded_effect[OF x] unfolding eq
    by (simp add: r0 r2)
qed

section \<open>Lemmas: the calls of a run\<close>

text \<open>The calls made for one message, whatever happens.\<close>

lemma publish_retry_trace:
  assumes "publish_retry b d m n w = (ok, w')"
  shows "wStore w' = wStore w \<and> wTick w' = wTick w \<and>
    (\<exists>fails. set fails \<subseteq> {CPublish d m False} \<and>
      wTrace w' = wTrace w @ fails @ (if ok then [CPublish d m True] else []) \<and>
      length fails + (if ok then 1 else 0) \<le> n)"
  using assms
proof (induction n arbitrary: w)
  case 0
  then show ?case by auto
next
  case (Suc n)
  obtain r w1 where p: "do_publish b d m w = (r, w1)" by fastforce
  note f = do_publish_frame[OF p]
  show ?case
  proof (cases r)
    case None
    with Suc.prems p have "ok" "w' = w1" by auto
    with f None show ?thesis by (intro conjI exI[of _ "[]"]) auto
  next
    case (Some e)
    with Suc.prems p have "publish_retry b d m n w1 = (ok, w')" by simp
    from Suc.IH[OF this] obtain fails where i: "wStore w' = wStore w1" "wTick w' = wTick w1"
        "set fails \<subseteq> {CPublish d m False}"
        "wTrace w' = wTrace w1 @ fails @ (if ok then [CPublish d m True] else [])"
        "length fails + (if ok then 1 else 0) \<le> n" by blast
    then show ?thesis
      using f Some by (intro conjI exI[of _ "CPublish d m False # fails"]) (auto split: if_splits)
  qed
qed

lemma process_cases:
  assumes "process env b plan opts i w = (oc, w')"
  obtains
    (vanished) e w1 where "do_inspect b (plQueue plan) i w = (Inl e, w1)" "oc = Publish_failed"
      "w' = audit env plan i ''publish_failed'' opts ''message vanished before replay'' w1"
  | (unpublished) m w1 w2 where "do_inspect b (plQueue plan) i w = (Inr m, w1)"
      "publish_retry b (plDestination plan) m (attempts opts) w1 = (False, w2)" "oc = Publish_failed"
      "w' = audit env plan i ''publish_failed'' opts ''publish failed after retries; DLQ copy left in place'' w2"
  | (unacked) m w1 w2 e w3 where "do_inspect b (plQueue plan) i w = (Inr m, w1)"
      "publish_retry b (plDestination plan) m (attempts opts) w1 = (True, w2)"
      "do_ack b (plQueue plan) i w2 = (Some e, w3)" "oc = Ack_failed"
      "w' = audit env plan i ''ack_failed'' opts ''published but ack failed; message may be duplicated'' w3"
  | (replayed) m w1 w2 w3 where "do_inspect b (plQueue plan) i w = (Inr m, w1)"
      "publish_retry b (plDestination plan) m (attempts opts) w1 = (True, w2)"
      "do_ack b (plQueue plan) i w2 = (None, w3)" "oc = Replayed_ok"
      "w' = audit env plan i ''success'' opts [] (take_snapshot env plan m w3)"
  using assms unfolding process_def
  by (auto split: prod.splits sum.splits option.splits bool.splits)

text \<open>
  \<open>item_calls\<close>: the shape of the calls for message \<open>i\<close>, and what they say of the outcome.
\<close>

fun item_call :: "recovery_plan \<Rightarrow> string \<Rightarrow> call \<Rightarrow> bool" where
  "item_call plan i (CInspect q j k) \<longleftrightarrow> q = plQueue plan \<and> j = i"
| "item_call plan i (CPublish d m k) \<longleftrightarrow> d = plDestination plan"
| "item_call plan i (CAck q j k) \<longleftrightarrow> q = plQueue plan \<and> j = i"
| "item_call plan i _ \<longleftrightarrow> False"

definition acks :: "call list \<Rightarrow> nat" where
  "acks cs = length (filter (\<lambda>c. case c of CAck _ _ k \<Rightarrow> k | _ \<Rightarrow> False) cs)"

lemma acks_simps [simp]:
  "acks [] = 0" "acks (xs @ ys) = acks xs + acks ys"
  "acks (CAck q i k # cs) = (if k then Suc (acks cs) else acks cs)"
  "acks (CInspect q i k # cs) = acks cs" "acks (CPublish d m k # cs) = acks cs"
  "acks (CSearch q k # cs) = acks cs" "acks (CStats q k # cs) = acks cs"
  by (simp_all add: acks_def)

lemma failed_publishes:
  assumes "set fails \<subseteq> {CPublish d m False}"
  shows "list_all (item_call plan i) fails \<longleftrightarrow> fails = [] \<or> d = plDestination plan" "acks fails = 0"
    "ack_safe p (fails @ CPublish d m True # cs) \<longleftrightarrow> ack_safe (Some (CPublish d m True)) cs"
    "ack_safe p fails"
  using assms
proof (induction fails arbitrary: p)
  case (Cons c fails)
  { case 1 then show ?case using Cons.IH(1) by auto
  next case 2 then show ?case using Cons.IH(2) by auto
  next case 3 then show ?case using Cons.IH(3) by auto
  next case 4 then show ?case using Cons.IH(4) by auto }
qed auto

text \<open>The messages whose confirmed publish was directly followed by a confirmed ack.\<close>

fun acked :: "call option \<Rightarrow> call list \<Rightarrow> message list" where
  "acked p [] = []"
| "acked p (CAck q i k # cs) =
     (case p of Some (CPublish d m True) \<Rightarrow> if k then [m] else [] | _ \<Rightarrow> []) @ acked (Some (CAck q i k)) cs"
| "acked p (c # cs) = acked (Some c) cs"

fun inspect_first :: "call list \<Rightarrow> bool" where
  "inspect_first [] = True"
| "inspect_first (CInspect _ _ _ # _) = True"
| "inspect_first _ = False"

lemma acked_append:
  "acked p (xs @ ys) = acked p xs @ acked (if xs = [] then p else Some (last xs)) ys"
proof (induction xs arbitrary: p)
  case (Cons c xs)
  then show ?case by (cases c) (auto split: option.splits call.splits)
qed simp

lemma acked_inspect_first: "inspect_first ys \<Longrightarrow> acked p ys = acked None ys"
  by (induction ys rule: inspect_first.induct) auto

lemma inspect_first_append: "inspect_first xs \<Longrightarrow> inspect_first ys \<Longrightarrow> inspect_first (xs @ ys)"
  by (induction xs rule: inspect_first.induct) auto

lemma acked_failed: "set fails \<subseteq> {CPublish d m False} \<Longrightarrow>
    acked p (fails @ CPublish d m True # cs) = acked (Some (CPublish d m True)) cs \<and> acked p fails = []"
  by (induction fails arbitrary: p) auto

fun outcome_text :: "outcome \<Rightarrow> string" where
  "outcome_text Replayed_ok = ''success''"
| "outcome_text Publish_failed = ''publish_failed''"
| "outcome_text Ack_failed = ''ack_failed''"

type_synonym entry_key = "string \<times> string \<times> action \<times> bool"

definition entry_key :: "entry \<Rightarrow> entry_key" where
  "entry_key e = (eMessageID e, eResult e, eAction e, eConfirmed e)"

text \<open>The key of an entry that the executor writes.\<close>

definition recovered :: "string \<Rightarrow> string \<Rightarrow> entry_key" where
  "recovered i res = (i, res, ActionRecover, True)"

abbreviation outcome_keys :: "string list \<Rightarrow> outcome list \<Rightarrow> entry_key list" where
  "outcome_keys is rs \<equiv> map2 (\<lambda>i r. recovered i (outcome_text r)) is rs"

definition snap_key ::
    "snapshot \<Rightarrow> string \<times> string \<times> string \<times> string \<times> string \<times> headers \<times> string" where
  "snap_key s = (sPlanID s, sMessageID s, sSourceQueue s, sDestination s, sPayload s, sHeaders s, sContentType s)"

definition msg_key ::
    "recovery_plan \<Rightarrow> message \<Rightarrow> string \<times> string \<times> string \<times> string \<times> string \<times> headers \<times> string" where
  "msg_key plan m =
     (plID plan, mID m, plQueue plan, plDestination plan, mPayload m, mHeaders m, mContentType m)"

text \<open>Every statement and every limiter wait of the run succeeds.\<close>

definition all_ok :: "env \<Rightarrow> bool" where
  "all_ok env = ((\<forall>n. db_ok env n) \<and> (\<forall>n. limiter_ok env n))"

text \<open>
  \<open>ran\<close>: from one world to the next, the messages of a list were processed with the given
  outcomes. The calls are those of these messages, every ack follows a confirmed publish, and
  as many acks were confirmed as messages count as replayed; with a working store each
  message leaves one audit entry that names its outcome, and each acknowledged message a
  snapshot of what was published.
\<close>

definition ran_by ::
    "call list \<Rightarrow> env \<Rightarrow> recovery_plan \<Rightarrow> 'w world \<Rightarrow> string list \<Rightarrow> outcome list \<Rightarrow> 'w world \<Rightarrow> bool" where
  "ran_by new env plan w is rs w' =
     (length rs = length is \<and> wTrace w' = wTrace w @ new \<and>
      (\<forall>c \<in> set new. \<exists>i \<in> set is. item_call plan i c) \<and>
      ack_safe None new \<and> inspect_first new \<and> int (acks new) = countOutcome rs Replayed_ok \<and>
      (wStore w' = None) = (wStore w = None) \<and>
      (wStore w \<noteq> None \<and> all_ok env \<longrightarrow>
         map entry_key (wTrail w') = map entry_key (wTrail w) @ outcome_keys is rs \<and>
         map snap_key (wSnaps w') = map snap_key (wSnaps w) @ map (msg_key plan) (acked None new)))"

definition ran ::
    "env \<Rightarrow> recovery_plan \<Rightarrow> 'w world \<Rightarrow> string list \<Rightarrow> outcome list \<Rightarrow> 'w world \<Rightarrow> bool" where
  "ran env plan w is rs w' = (\<exists>new. ran_by new env plan w is rs w')"

lemma countOutcome_simps [simp]:
  "countOutcome [] r = 0"
  "countOutcome (x # xs) r = (if x = r then 1 else 0) + countOutcome xs r"
  by (auto simp: countOutcome_def)

lemma countOutcome_total:
  "countOutcome rs Publish_failed + countOutcome rs Ack_failed + countOutcome rs Replayed_ok = int (length rs)"
proof (induction rs)
  case (Cons r rs)
  then show ?case by (cases r) auto
qed simp

lemma countOutcome_nonneg [simp]: "0 \<le> countOutcome rs r"
  by (simp add: countOutcome_def)

lemma countOutcome_append [simp]: "countOutcome (xs @ ys) r = countOutcome xs r + countOutcome ys r"
  by (simp add: countOutcome_def)

lemma ran_Nil [simp]: "ran env plan w [] [] w"
  unfolding ran_def ran_by_def by (intro exI[of _ "[]"]) simp

text \<open>Runs compose.\<close>

lemma ran_append:
  assumes "ran env plan w is rs w1" "ran env plan w1 js ts w2"
  shows "ran env plan w (is @ js) (rs @ ts) w2"
proof -
  from assms obtain n1 n2 where "ran_by n1 env plan w is rs w1" "ran_by n2 env plan w1 js ts w2"
    unfolding ran_def by blast
  note h = this[unfolded ran_by_def]
  have len: "length rs = length is" "length ts = length js" using h by blast+
  have tr: "wTrace w2 = wTrace w @ n1 @ n2" using h by simp
  have calls: "\<forall>c \<in> set (n1 @ n2). \<exists>i \<in> set (is @ js). item_call plan i c"
    using h unfolding set_append by blast
  have order: "ack_safe None (n1 @ n2)" "inspect_first (n1 @ n2)"
    using h ack_safe_append inspect_first_append by blast+
  have count: "int (acks (n1 @ n2)) = countOutcome (rs @ ts) Replayed_ok" using h by simp
  have store: "(wStore w2 = None) = (wStore w = None)" using h by simp
  have acked: "acked None (n1 @ n2) = acked None n1 @ acked None n2"
    using h acked_inspect_first acked_append by metis
  have logs: "map entry_key (wTrail w2) = map entry_key (wTrail w) @ outcome_keys (is @ js) (rs @ ts) \<and>
      map snap_key (wSnaps w2) = map snap_key (wSnaps w) @ map (msg_key plan) (acked None (n1 @ n2))"
    if "wStore w \<noteq> None \<and> all_ok env"
    using h that len acked by simp
  have "ran_by (n1 @ n2) env plan w (is @ js) (rs @ ts) w2"
    unfolding ran_by_def using len tr calls order count store logs by simp
  then show ?thesis unfolding ran_def by blast
qed

lemma audit_trail:
  "wStore w \<noteq> None \<Longrightarrow> all_ok env \<Longrightarrow>
     map entry_key (wTrail (audit env plan i r opts d w)) = map entry_key (wTrail w) @ [recovered i r]"
  "wStore w \<noteq> None \<Longrightarrow> all_ok env \<Longrightarrow>
     map entry_key (wTrail (auditPlan env plan r opts w)) = map entry_key (wTrail w) @ [recovered [] r]"
  by (simp_all add: audit_def auditPlan_def written_def recoverEntry_def entry_key_def recovered_def all_ok_def Let_def)

lemma wSnaps_audit [simp]: "wSnaps (audit env plan i r opts d w) = wSnaps w"
  by simp

lemma take_snapshot_snaps:
  "wStore w \<noteq> None \<Longrightarrow> all_ok env \<Longrightarrow>
     map snap_key (wSnaps (take_snapshot env plan m w)) = map snap_key (wSnaps w) @ [msg_key plan m]"
  by (auto simp: take_snapshot_def try_snapshot_def SaveSnapshot_def snapshot_of_def snap_key_def
      msg_key_def all_ok_def st_snaps_def Let_def)

lemma process_ran:
  assumes "process env b plan opts i w = (oc, w')"
  shows "ran env plan w [i] [oc] w'"
  using assms
proof (cases rule: process_cases)
  case (vanished e w1)
  note f = do_inspect_frame[OF vanished(1)]
  have "ran_by [CInspect (plQueue plan) i False] env plan w [i] [oc] w'"
    using f vanished(2,3) by (auto simp: ran_by_def audit_trail)
  then show ?thesis unfolding ran_def by blast
next
  case (unpublished m w1 w2)
  from publish_retry_trace[OF unpublished(2)] obtain fails where p:
    "set fails \<subseteq> {CPublish (plDestination plan) m False}" "wTrace w2 = wTrace w1 @ fails"
    "wStore w2 = wStore w1" by auto
  note f = do_inspect_frame[OF unpublished(1)] failed_publishes[OF p(1)] acked_failed[OF p(1)]
  have "ran_by (CInspect (plQueue plan) i True # fails) env plan w [i] [oc] w'"
    using f p unpublished(3,4) by (auto simp: ran_by_def audit_trail)
  then show ?thesis unfolding ran_def by blast
next
  case (unacked m w1 w2 e w3)
  from publish_retry_trace[OF unacked(2)] obtain fails where p:
    "set fails \<subseteq> {CPublish (plDestination plan) m False}"
    "wTrace w2 = wTrace w1 @ fails @ [CPublish (plDestination plan) m True]"
    "wStore w2 = wStore w1" by auto
  note f = do_inspect_frame[OF unacked(1)] do_ack_frame[OF unacked(3)] failed_publishes[OF p(1)]
    acked_failed[OF p(1)]
  have "ran_by (CInspect (plQueue plan) i True # fails @ [CPublish (plDestination plan) m True,
      CAck (plQueue plan) i False]) env plan w [i] [oc] w'"
    using f p unacked(4,5) by (auto simp: ran_by_def audit_trail)
  then show ?thesis unfolding ran_def by blast
next
  case (replayed m w1 w2 w3)
  from publish_retry_trace[OF replayed(2)] obtain fails where p:
    "set fails \<subseteq> {CPublish (plDestination plan) m False}"
    "wTrace w2 = wTrace w1 @ fails @ [CPublish (plDestination plan) m True]"
    "wStore w2 = wStore w1" by auto
  note f = do_inspect_frame[OF replayed(1)] do_ack_frame[OF replayed(3)] failed_publishes[OF p(1)]
    acked_failed[OF p(1)]
  have "ran_by (CInspect (plQueue plan) i True # fails @ [CPublish (plDestination plan) m True,
      CAck (plQueue plan) i True]) env plan w [i] [oc] w'"
    using f p replayed(4,5) by (auto simp: ran_by_def audit_trail take_snapshot_snaps)
  then show ?thesis unfolding ran_def by blast
qed

lemma batch_item_ran:
  assumes "batch_item env b plan opts i w = (oc, w')"
  shows "ran env plan w [i] [oc] w'"
proof (cases "limiter_ok env (wTick w)")
  case True
  with assms have "process env b plan opts i (w\<lparr>wTick := Suc (wTick w)\<rparr>) = (oc, w')"
    by (simp add: batch_item_def limiter_wait_def)
  from process_ran[OF this] show ?thesis by (auto simp: ran_def ran_by_def)
next
  case False
  with assms have "oc = Publish_failed" "w' = w\<lparr>wTick := Suc (wTick w)\<rparr>"
    by (auto simp: batch_item_def limiter_wait_def)
  with False have "ran_by [] env plan w [i] [oc] w'" by (auto simp: ran_by_def all_ok_def)
  then show ?thesis unfolding ran_def by blast
qed

lemma batch_items_ran: "batch_items env b plan opts is w = (rs, w') \<Longrightarrow> ran env plan w is rs w'"
proof (induction "is" arbitrary: rs w)
  case (Cons i "is")
  obtain r w1 where h: "batch_item env b plan opts i w = (r, w1)" by fastforce
  obtain rs' w2 where t: "batch_items env b plan opts is w1 = (rs', w2)" by fastforce
  from Cons.prems h t have eq: "rs = r # rs'" "w' = w2" by auto
  with Cons.IH[of w1 rs'] t have "ran env plan w1 is rs' w'" by simp
  from ran_append[OF batch_item_ran[OF h] this] show ?case unfolding eq by simp
qed simp

lemma runBatch_ran:
  assumes "runBatch env b plan opts is w = (c, w')"
  shows "\<exists>rs. ran env plan w is rs w' \<and>
    c = (countOutcome rs Publish_failed + countOutcome rs Ack_failed, countOutcome rs Ack_failed,
         countOutcome rs Replayed_ok)"
proof -
  obtain rs w2 where i: "batch_items env b plan opts is w = (rs, w2)" by fastforce
  with assms batch_items_ran[OF i] show ?thesis by (auto simp: runBatch_def)
qed

section \<open>Lemmas: the batch loop\<close>

lemma batches_zero:
  assumes "batches env b plan opts remaining res w = Some y" and "remaining \<noteq> []"
  shows "xoBatchSize opts \<noteq> 0"
proof -
  have "remaining \<noteq> [] \<longrightarrow> xoBatchSize opts \<noteq> 0"
  proof (rule batches.raw_induct[OF _ assms(1),
      where P = "\<lambda>env b plan opts remaining res w y. remaining \<noteq> [] \<longrightarrow> xoBatchSize opts \<noteq> 0"], intro impI)
    fix f env b plan opts remaining res w y
    assume IH: "\<And>env b plan opts remaining res w y. f env b plan opts remaining res w = Some y \<Longrightarrow>
        remaining \<noteq> [] \<longrightarrow> xoBatchSize opts \<noteq> 0"
      and run: "(if remaining = [] then Some (Ok res, w)
        else if xoBatchSize opts < 0 then Some (Err (GoPanic ''slice bounds out of range''), w)
        else
          let n = nat (min (xoBatchSize opts) (int (length remaining)));
              batch = take n remaining; rest = drop n remaining;
              (c, w) = runBatch env b plan opts batch w;
              res = add_batch c res
          in if trips (fst c) (length batch) (xoFailureThreshold opts)
             then Some (Ok (res\<lparr>erTripped := True,
                                erTrippedFailureRate := failure_rate (fst c) (length batch),
                                erRemaining := rest\<rparr>), auditPlan env plan ''tripped'' opts w)
             else f env b plan opts rest res w) = Some y"
      and ne: "remaining \<noteq> []"
    show "xoBatchSize opts \<noteq> 0"
    proof
      assume zero: "xoBatchSize opts = 0"
      with run ne obtain c w1 where "f env b plan opts remaining (add_batch c res) w1 = Some y"
        by (auto simp: Let_def trips_def split: prod.splits)
      from IH[OF this] ne zero show False by simp
    qed
  qed
  with assms(2) show ?thesis by simp
qed

text \<open>One iteration with a positive batch size.\<close>

definition batch_len :: "executor_options \<Rightarrow> string list \<Rightarrow> nat" where
  "batch_len opts remaining = nat (min (xoBatchSize opts) (int (length remaining)))"

lemma batch_len_pos: "remaining \<noteq> [] \<Longrightarrow> 0 < xoBatchSize opts \<Longrightarrow>
    0 < batch_len opts remaining \<and> batch_len opts remaining \<le> length remaining"
  by (auto simp: batch_len_def)

lemma batches_Nil [simp]: "batches env b plan opts [] res w = Some (Ok res, w)"
  by (subst batches.simps) simp

lemma batches_step:
  assumes "remaining \<noteq> []" "0 < xoBatchSize opts"
    and "runBatch env b plan opts (take (batch_len opts remaining) remaining) w = (c, w1)"
  shows "batches env b plan opts remaining res w =
    (if trips (fst c) (batch_len opts remaining) (xoFailureThreshold opts)
     then Some (Ok ((add_batch c res)\<lparr>erTripped := True,
                      erTrippedFailureRate := failure_rate (fst c) (batch_len opts remaining),
                      erRemaining := drop (batch_len opts remaining) remaining\<rparr>),
                auditPlan env plan ''tripped'' opts w1)
     else batches env b plan opts (drop (batch_len opts remaining) remaining) (add_batch c res) w1)"
proof -
  have "length (take (batch_len opts remaining) remaining) = batch_len opts remaining"
    using batch_len_pos[OF assms(1,2)] by simp
  with assms show ?thesis
    by (subst batches.simps) (simp add: Let_def batch_len_def)
qed

text \<open>
  A positive batch size ends the loop, and an invariant of the batches holds at the end: of
  the empty rest when the loop ran through, of the rest left alone when the breaker tripped.
\<close>

lemma batches_invariant:
  assumes pos: "0 < xoBatchSize opts" and "I remaining res w"
    and step: "\<And>rem res w n c w1. I rem res w \<Longrightarrow> 0 < n \<Longrightarrow> n \<le> length rem \<Longrightarrow>
      runBatch env b plan opts (take n rem) w = (c, w1) \<Longrightarrow> I (drop n rem) (add_batch c res) w1"
  shows "\<exists>rest res' w1. I rest res' w1 \<and>
    (batches env b plan opts remaining res w = Some (Ok res', w1) \<and> rest = [] \<or>
     (\<exists>rate. batches env b plan opts remaining res w =
        Some (Ok (res'\<lparr>erTripped := True, erTrippedFailureRate := rate, erRemaining := rest\<rparr>),
              auditPlan env plan ''tripped'' opts w1) \<and> xoFailureThreshold opts < rate))"
  using assms(2)
proof (induction "length remaining" arbitrary: remaining res w rule: less_induct)
  case less
  show ?case
  proof (cases "remaining = []")
    case True
    with less.prems show ?thesis by (intro exI[of _ "[]"] exI[of _ res] exI[of _ w]) simp
  next
    case False
    let ?n = "batch_len opts remaining"
    note n = batch_len_pos[OF False pos]
    obtain c w1 where r: "runBatch env b plan opts (take ?n remaining) w = (c, w1)" by fastforce
    note unfold = batches_step[OF False pos r, of res]
    have I: "I (drop ?n remaining) (add_batch c res) w1"
      using step[OF less.prems _ _ r] n by simp
    show ?thesis
    proof (cases "trips (fst c) ?n (xoFailureThreshold opts)")
      case True
      with I unfold show ?thesis
        by (intro exI[of _ "drop ?n remaining"] exI[of _ "add_batch c res"] exI[of _ w1])
          (auto simp: trips_def)
    next
      case False
      have "length (drop ?n remaining) < length remaining" using n by (simp only: length_drop) linarith
      from less.hyps[OF this I] False unfold show ?thesis by simp
    qed
  qed
qed

definition add_outcomes :: "outcome list \<Rightarrow> execution_result \<Rightarrow> execution_result" where
  "add_outcomes rs res =
     add_batch (countOutcome rs Publish_failed + countOutcome rs Ack_failed, countOutcome rs Ack_failed,
                countOutcome rs Replayed_ok) res"

lemma add_outcomes_append: "add_outcomes ts (add_outcomes rs res) = add_outcomes (rs @ ts) res"
  by (simp add: add_outcomes_def add_batch_def)

lemma add_outcomes_Nil [simp]: "add_outcomes [] res = res"
  by (simp add: add_outcomes_def add_batch_def)

text \<open>The batch loop as one run over the messages it reached.\<close>

lemma batches_ran:
  assumes "0 < xoBatchSize opts"
  shows "\<exists>fin rest rs w1. attempt = fin @ rest \<and> ran env plan w fin rs w1 \<and>
    (batches env b plan opts attempt res w = Some (Ok (add_outcomes rs res), w1) \<and> rest = [] \<or>
     (\<exists>rate. batches env b plan opts attempt res w =
        Some (Ok ((add_outcomes rs res)\<lparr>erTripped := True, erTrippedFailureRate := rate, erRemaining := rest\<rparr>),
              auditPlan env plan ''tripped'' opts w1) \<and> xoFailureThreshold opts < rate))"
proof -
  let ?I = "\<lambda>rest res' w1. \<exists>fin rs. attempt = fin @ rest \<and> ran env plan w fin rs w1 \<and>
    res' = add_outcomes rs res"
  have "?I attempt res w" by (intro exI[of _ "[]"]) simp
  moreover have "?I (drop n rem) (add_batch c res1) w2"
    if "?I rem res1 w1" "0 < n" "n \<le> length rem"
      "runBatch env b plan opts (take n rem) w1 = (c, w2)" for rem res1 w1 n c w2
  proof -
    from that(1) obtain d rs where d: "attempt = d @ rem" "ran env plan w d rs w1" "res1 = add_outcomes rs res"
      by blast
    from runBatch_ran[OF that(4)] obtain ts where t: "ran env plan w1 (take n rem) ts w2"
        "add_batch c res1 = add_outcomes ts res1"
      unfolding add_outcomes_def by blast
    show ?thesis
      using ran_append[OF d(2) t(1)] d t(2)
      by (intro exI[of _ "d @ take n rem"] exI[of _ "rs @ ts"]) (simp add: add_outcomes_append)
  qed
  ultimately have "\<exists>rest res' w1. ?I rest res' w1 \<and>
    (batches env b plan opts attempt res w = Some (Ok res', w1) \<and> rest = [] \<or>
     (\<exists>rate. batches env b plan opts attempt res w =
        Some (Ok (res'\<lparr>erTripped := True, erTrippedFailureRate := rate, erRemaining := rest\<rparr>),
              auditPlan env plan ''tripped'' opts w1) \<and> xoFailureThreshold opts < rate))"
    by (rule batches_invariant[OF assms, of ?I])
  then show ?thesis by blast
qed

lemma batches_negative:
  "attempt \<noteq> [] \<Longrightarrow> xoBatchSize opts < 0 \<Longrightarrow>
   batches env b plan opts attempt res w = Some (Err (GoPanic ''slice bounds out of range''), w)"
  by (subst batches.simps) simp

lemma batches_diverge:
  "attempt \<noteq> [] \<Longrightarrow> xoBatchSize opts = 0 \<Longrightarrow> batches env b plan opts attempt res w = None"
  using batches_zero by (metis not_None_eq)

text \<open>All the ways the loop can end.\<close>

lemma batches_result:
  assumes "batches env b plan opts attempt res w = Some (r, w')"
  obtains
    (panic) "r = Inl (GoPanic ''slice bounds out of range'')" "w' = w"
  | (finished) rs where "ran env plan w attempt rs w'" "r = Inr (add_outcomes rs res)"
  | (tripped) fin rest rs w1 rate where "attempt = fin @ rest" "ran env plan w fin rs w1"
      "r = Inr ((add_outcomes rs res)\<lparr>erTripped := True, erTrippedFailureRate := rate, erRemaining := rest\<rparr>)"
      "w' = auditPlan env plan ''tripped'' opts w1" "xoFailureThreshold opts < rate"
proof (cases "attempt = []")
  case True
  with assms have "r = Inr (add_outcomes [] res)" "w' = w" by simp_all
  with True show ?thesis by (intro finished[of "[]"]) simp_all
next
  case ne: False
  show ?thesis
  proof (cases "0 < xoBatchSize opts")
    case True
    from batches_ran[OF True, of attempt env plan w b res] assms show ?thesis
      by (auto intro: finished tripped)
  next
    case False
    then consider "xoBatchSize opts < 0" | "xoBatchSize opts = 0" by linarith
    then show ?thesis
    proof cases
      case 1
      from batches_negative[OF ne 1, of env b plan res w] assms show ?thesis by (intro panic) simp_all
    next
      case 2
      from batches_diverge[OF ne 2, of env b plan res w] assms show ?thesis by simp
    qed
  qed
qed

lemma audit_skips_trail:
  "audit_skips env plan opts ss res w = (res', w') \<Longrightarrow> wStore w \<noteq> None \<Longrightarrow> all_ok env \<Longrightarrow>
     map entry_key (wTrail w') = map entry_key (wTrail w) @ map (\<lambda>s. recovered (smID s) ''skipped'') ss"
proof (induction ss arbitrary: res w)
  case (Cons s ss)
  from Cons.IH[OF Cons.prems(1)[simplified]] Cons.prems(2,3) show ?case by (simp add: audit_trail)
qed simp

lemma audit_excluded_trail:
  "audit_excluded env plan opts xs res w = (res', w') \<Longrightarrow> wStore w \<noteq> None \<Longrightarrow> all_ok env \<Longrightarrow>
     map entry_key (wTrail w') = map entry_key (wTrail w) @ map (\<lambda>x. recovered (exMessageID x) ''skipped'') xs"
proof (induction xs arbitrary: res w)
  case (Cons x xs)
  from Cons.IH[OF Cons.prems(1)[simplified]] Cons.prems(2,3) show ?case by (simp add: audit_trail)
qed simp

lemma prepare_run_trail:
  assumes "prepare_run env plan opts vres w = ((attempt, res), w')" "wStore w \<noteq> None" "all_ok env"
  shows "map entry_key (wTrail w') = map entry_key (wTrail w)
    @ map (\<lambda>s. recovered (smID s) ''skipped'') (vrSkippedMessages vres)
    @ map (\<lambda>x. recovered (exMessageID x) ''skipped'') (plExcluded plan)"
proof -
  obtain a0 r0 w0 where f: "(if xoResume opts then filterCompleted env (attempt_list plan vres) (new_result plan) w
      else ((attempt_list plan vres, new_result plan), w)) = ((a0, r0), w0)" by (metis surj_pair)
  then have s0: "wStore w0 = wStore w" by (auto split: if_splits dest: filterCompleted_effect)
  obtain r1 w1 where s: "audit_skips env plan opts (vrSkippedMessages vres) r0 w0 = (r1, w1)" by fastforce
  obtain r2 w2 where x: "audit_excluded env plan opts (plExcluded plan) r1 w1 = (r2, w2)" by fastforce
  have w': "w' = w2" using assms(1) unfolding prepare_run_def Let_def f by (simp add: s x)
  have "wStore w0 \<noteq> None" "wStore w1 \<noteq> None"
    using s0 assms(2) audit_skips_effect[OF s] by simp_all
  note t = audit_skips_trail[OF s this(1) assms(3)] audit_excluded_trail[OF x this(2) assms(3)]
  show ?thesis unfolding w' t s0 by (simp only: append_assoc)
qed

lemma verdicts_ids: "i \<in> fst ` set (verdicts v is) \<longleftrightarrow> i \<in> set is \<and> v i \<noteq> None"
  by (induction "is") (auto split: option.splits)

lemma attempt_list_count:
  assumes "Validate env b t (Some plan) w = (Inr vres, w')"
  shows "int (length (attempt_list plan vres)) + int (length (vrSkippedMessages vres)) =
    int (length (plMessageIDs plan))"
proof -
  from assms obtain msgs where
    sk: "skips vres = verdicts (verdict (plSafetyChecks plan) (byID msgs) (wStore w)) (plMessageIDs plan)"
    by (rule Validate_result)
  let ?v = "verdict (plSafetyChecks plan) (byID msgs) (wStore w)" and ?ids = "plMessageIDs plan"
  have ids: "map smID (vrSkippedMessages vres) = map fst (skips vres)" by simp
  have "attempt_list plan vres = filter (\<lambda>i. ?v i = None) ?ids"
    unfolding attempt_list_def ids sk
    by (rule filter_cong[OF refl]) (simp only: set_map verdicts_ids, blast)
  moreover have "length (vrSkippedMessages vres) = length (filter (\<lambda>i. ?v i \<noteq> None) ?ids)"
    using sk length_verdicts by (metis length_map)
  ultimately show ?thesis
    using sum_length_filter_compl[of "\<lambda>i. ?v i = None" ?ids] by simp
qed

section \<open>Lemmas: a whole run\<close>

lemma Validate_no_mutation:
  assumes "Validate env b t (Some plan) w = (r, w')"
  shows "wStore w' = wStore w \<and>
    (\<exists>new. wTrace w' = wTrace w @ new \<and> \<not> list_ex mutating new \<and> (\<forall>q i k. CInspect q i k \<notin> set new))"
  using Validate_quiet[OF assms] by fastforce

lemma execute_probed_cases:
  assumes "execute_probed env b plan opts w = Some (r, w')"
  obtains
    (early) e where "r = Inl e" "wTrace w' = wTrace w" "wStore w' = wStore w"
  | (invalid) e where "r = Inl e" "Validate env b (xoPendingThreshold opts) (Some plan) w = (Inl e, w')"
  | (run) vres w1 attempt res w2 r2 w3 where
      "Validate env b (xoPendingThreshold opts) (Some plan) w = (Inr vres, w1)"
      "prepare_run env plan (resolve_options plan opts) vres w1 = ((attempt, res), w2)"
      "batches env b plan (resolve_options plan opts) attempt res w2 = Some (r2, w3)"
      "(r, w') = finish_run env plan (resolve_options plan opts) (clock env (wTick w)) (r2, w3)"
  using assms unfolding execute_probed_def
  by (auto simp: Let_def resolve_options_def split: sum.splits prod.splits)

text \<open>A run that returns a result.\<close>

lemma execute_probed_ok:
  assumes "execute_probed env b plan opts w = Some (Inr res, w')"
  obtains vres attempt w2 fin rest rs w3 final where
    "fst (Validate env b (xoPendingThreshold opts) (Some plan) w) = Inr vres"
    "\<exists>reads. wTrace w2 = wTrace w @ reads \<and> \<not> list_ex mutating reads \<and> (\<forall>q i k. CInspect q i k \<notin> set reads)"
    "(wStore w2 = None) = (wStore w = None)" "wSnaps w2 = wSnaps w"
    "set attempt \<subseteq> set (attempt_list plan vres)" "distinct (plMessageIDs plan) \<longrightarrow> distinct attempt"
    "attempt = fin @ rest"
    "ran env plan w2 fin rs w3" "w' = auditPlan env plan final (resolve_options plan opts) w3"
    "final = (if erTripped res then ''tripped'' else ''completed'')"
    "erTripped res \<or> rest = []" "erRemaining res = rest"
    "erTripped res \<Longrightarrow> xoFailureThreshold (resolve_options plan opts) < erTrippedFailureRate res"
    "erSelected res = int (length (plMessageIDs plan))"
    "erReplayed res = countOutcome rs Replayed_ok"
    "erFailed res = countOutcome rs Publish_failed + countOutcome rs Ack_failed"
    "erNewDLQEntries res = countOutcome rs Ack_failed"
    "int (length attempt) + erSkipped res = erSelected res"
    "erExcluded res = int (length (plExcluded plan))"
    "wStore w \<noteq> None \<and> all_ok env \<longrightarrow> map entry_key (wTrail w2) = map entry_key (wTrail w)
       @ map (\<lambda>s. recovered (smID s) ''skipped'') (vrSkippedMessages vres)
       @ map (\<lambda>x. recovered (exMessageID x) ''skipped'') (plExcluded plan)"
  using assms
proof (cases rule: execute_probed_cases)
  case (run vres w1 attempt res0 w2 r2 w3)
  let ?opts = "resolve_options plan opts"
  obtain r3 where r3: "r2 = Inr r3" using run(4) by (auto simp: finish_run_def split: sum.splits)
  note v = Validate_no_mutation[OF run(1)] and c = attempt_list_count[OF run(1)]
    and p = prepare_run_effect[OF run(2)]
  have att: "set attempt \<subseteq> set (attempt_list plan vres)" "distinct (plMessageIDs plan) \<longrightarrow> distinct attempt"
    using p by auto
  have reads: "\<exists>reads. wTrace w2 = wTrace w @ reads \<and> \<not> list_ex mutating reads \<and> (\<forall>q i k. CInspect q i k \<notin> set reads)" using v p by auto
  have store: "(wStore w2 = None) = (wStore w = None)" "wSnaps w2 = wSnaps w" using v p by auto
  have fields: "erSelected res0 = int (length (plMessageIDs plan))" "erReplayed res0 = 0"
    "erFailed res0 = 0" "erNewDLQEntries res0 = 0" "\<not> erTripped res0" "erRemaining res0 = []"
    "erExcluded res0 = int (length (plExcluded plan))"
    "int (length attempt) + erSkipped res0 = int (length (plMessageIDs plan))"
  proof -
    have r0: "res0 = (new_result plan)\<lparr>erSkipped := erSkipped res0, erExcluded := int (length (plExcluded plan))\<rparr>"
      using p by blast
    show "erSelected res0 = int (length (plMessageIDs plan))" "erReplayed res0 = 0"
      "erFailed res0 = 0" "erNewDLQEntries res0 = 0" "\<not> erTripped res0" "erRemaining res0 = []"
      "erExcluded res0 = int (length (plExcluded plan))"
      by (subst r0; simp add: new_result_def)+
    show "int (length attempt) + erSkipped res0 = int (length (plMessageIDs plan))"
      using p c by simp
  qed
  have trail: "wStore w \<noteq> None \<and> all_ok env \<longrightarrow> map entry_key (wTrail w2) = map entry_key (wTrail w)
       @ map (\<lambda>s. recovered (smID s) ''skipped'') (vrSkippedMessages vres)
       @ map (\<lambda>x. recovered (exMessageID x) ''skipped'') (plExcluded plan)"
    using prepare_run_trail[OF run(2)] v by simp
  have val: "fst (Validate env b (xoPendingThreshold opts) (Some plan) w) = Inr vres"
    using run(1) by simp
  from run(3) show ?thesis
  proof (cases rule: batches_result)
    case panic
    with r3 show ?thesis by simp
  next
    case (finished rs)
    then have res: "res = (add_outcomes rs res0)\<lparr>erDuration := clock env (wTick w3) - clock env (wTick w)\<rparr>"
      and w': "w' = auditPlan env plan ''completed'' ?opts w3"
      using run(4) r3 fields(5) by (simp_all add: finish_run_def add_outcomes_def add_batch_def)
    show ?thesis
      by (rule that[OF val reads store att _ finished(1) w' _ _ _ _ _ _ _ _ _ _ trail, of "[]"])
        (use fields in \<open>simp_all add: res add_outcomes_def add_batch_def\<close>)
  next
    case (tripped fin rest rs w4 rate)
    then have res: "res = (add_outcomes rs res0)\<lparr>erTripped := True, erTrippedFailureRate := rate, erRemaining := rest\<rparr>"
      and w': "w' = auditPlan env plan ''tripped'' ?opts w4"
      using run(4) r3 by (simp_all add: finish_run_def)
    show ?thesis
      by (rule that[OF val reads store att tripped(1,2) w' _ _ _ _ _ _ _ _ _ _ trail])
        (use fields tripped(5) in \<open>simp_all add: res add_outcomes_def add_batch_def\<close>)
  qed
qed simp_all

end
