(* ===== verification/Executor_Properties.thy ===== *)
theory Executor_Properties
  imports Executor
begin

text \<open>
  What a batch recovery guarantees: nothing without confirmation, nothing lost, nothing
  unaudited, an end. The concrete run replays a message of the validator tests'
  broker.
\<close>

section \<open>Whole runs\<close>

lemma Execute_plan_cases:
  assumes "Execute_plan env b plan opts w = Some (r, w')"
  obtains
    (unconfirmed) "\<not> xoConfirm opts" "r = Inl (Sentinel ErrConfirmRequired)" "w' = w"
  | (no_checks) "plSafetyChecks plan = []" "r = Inl (Sentinel ErrNoSafetyChecks)" "w' = w"
  | (refused) e w1 where "plDestination plan \<noteq> []" "do_stats b (plDestination plan) w = (Inl e, w1)"
      "errors_is e ErrQueueNotFound" "w' = auditPlan env plan ''refused'' opts w1"
      "r = Inl (Wrap [] (Sentinel ErrDestinationMissing) ('': queue '' @ Quote (plDestination plan)))"
  | (probe_failed) e e' where "plDestination plan \<noteq> []"
      "do_stats b (plDestination plan) w = (Inl e, w')" "r = Inl e'"
  | (probed) st w1 where "xoConfirm opts" "plDestination plan \<noteq> []"
      "do_stats b (plDestination plan) w = (Inr st, w1)" "execute_probed env b plan opts w1 = Some (r, w')"
  | (unprobed) "xoConfirm opts" "plDestination plan = []" "execute_probed env b plan opts w = Some (r, w')"
  using assms unfolding Execute_plan_def by (auto split: if_splits sum.splits prod.splits)

lemma Validate_reads:
  assumes "Validate env b t (Some plan) w = (r, w')"
  shows "\<exists>reads. wTrace w' = wTrace w @ reads \<and> \<not> list_ex mutating reads \<and>
    (\<forall>c \<in> set reads. case c of CSearch q _ \<Rightarrow> q = plQueue plan | CStats q _ \<Rightarrow> q = plDestination plan | _ \<Rightarrow> False) \<and>
    (plDestination plan = [] \<longrightarrow> (\<forall>q k. CStats q k \<notin> set reads))"
  using assms
proof (cases rule: Validate_cases)
  case (scan_failed e e')
  then show ?thesis by (auto dest!: do_search_frame)
next
  case (destination_failed msgs w1 e)
  then show ?thesis using check_destination_run[OF destination_failed(4)] by (auto dest!: do_search_frame)
next
  case (checked msgs w1 res w2)
  then show ?thesis
    using check_destination_run[OF checked(3)] validate_ids_quiet[OF checked(4) byID_id[THEN conjunct1]]
    by (auto dest!: do_search_frame)
qed auto

text \<open>The reads before the first batch: the probe, the scan, the destination check.\<close>

text \<open>What a run may work on: planned messages without evidence, when the plan checks for it.\<close>

definition attemptable :: "recovery_plan \<Rightarrow> store option \<Rightarrow> string \<Rightarrow> bool" where
  "attemptable plan st i =
     (i \<in> set (plMessageIDs plan) \<and> \<not> (CheckDuplicate \<in> set (plSafetyChecks plan) \<and> st_evidence i st \<noteq> []))"

lemma attempt_list_attemptable:
  assumes "Validate env b t (Some plan) w = (Inr vres, w')" "i \<in> set (attempt_list plan vres)"
  shows "attemptable plan (wStore w) i"
  unfolding attemptable_def
proof (intro conjI notI)
  show ids: "i \<in> set (plMessageIDs plan)" using assms(2) by (simp add: attempt_list_def)
  assume "CheckDuplicate \<in> set (plSafetyChecks plan) \<and> wEvidence i w \<noteq> []"
  with evidence_skips[OF assms(1) ids] obtain r where "(i, r) \<in> set (skips vres)" by blast
  then have "i \<in> set (map smID (vrSkippedMessages vres))" by force
  with assms(2) show False by (simp add: attempt_list_def)
qed

lemma execute_probed_reads:
  assumes "execute_probed env b plan opts w = Some (r, w')"
  shows "\<exists>reads new. wTrace w' = wTrace w @ reads @ new \<and> \<not> list_ex mutating reads \<and>
    (\<forall>c \<in> set reads. case c of CSearch q _ \<Rightarrow> q = plQueue plan | CStats q _ \<Rightarrow> q = plDestination plan | _ \<Rightarrow> False) \<and>
    (plDestination plan = [] \<longrightarrow> (\<forall>q k. CStats q k \<notin> set reads)) \<and>
    ack_safe None new \<and> (\<forall>c \<in> set new. \<exists>i. attemptable plan (wStore w) i \<and> item_call plan i c) \<and>
    (case r of Inl _ \<Rightarrow> new = [] | Inr res \<Rightarrow> int (acks new) = erReplayed res)"
  using assms
proof (cases rule: execute_probed_cases)
  case (early e)
  then show ?thesis by (intro exI[of _ "[]"]) simp
next
  case (invalid e)
  from Validate_reads[OF invalid(2)] obtain reads where "wTrace w' = wTrace w @ reads" "\<not> list_ex mutating reads"
    "\<forall>c \<in> set reads. case c of CSearch q _ \<Rightarrow> q = plQueue plan | CStats q _ \<Rightarrow> q = plDestination plan | _ \<Rightarrow> False"
    "plDestination plan = [] \<longrightarrow> (\<forall>q k. CStats q k \<notin> set reads)" by blast
  with invalid(1) show ?thesis by (intro exI[of _ reads] exI[of _ "[]"]) simp
next
  case (run vres w1 attempt res w2 r2 w3)
  from Validate_reads[OF run(1)] obtain reads where reads: "wTrace w1 = wTrace w @ reads" "\<not> list_ex mutating reads"
    "\<forall>c \<in> set reads. case c of CSearch q _ \<Rightarrow> q = plQueue plan | CStats q _ \<Rightarrow> q = plDestination plan | _ \<Rightarrow> False"
    "plDestination plan = [] \<longrightarrow> (\<forall>q k. CStats q k \<notin> set reads)" by blast
  have t2: "wTrace w2 = wTrace w1" and att: "\<forall>i \<in> set attempt. attemptable plan (wStore w) i"
    using prepare_run_effect[OF run(2)] attempt_list_attemptable[OF run(1)] by auto
  have "res = (new_result plan)\<lparr>erSkipped := erSkipped res, erExcluded := int (length (plExcluded plan))\<rparr>"
    using prepare_run_effect[OF run(2)] by blast
  then have r0: "erReplayed res = 0" by (rule ssubst[where P = "\<lambda>r. erReplayed r = 0"]) (simp add: new_result_def)
  have ran: "\<exists>new. wTrace w3' = wTrace w2 @ new \<and> ack_safe None new \<and>
      (\<forall>c \<in> set new. \<exists>i. attemptable plan (wStore w) i \<and> item_call plan i c) \<and> int (acks new) = countOutcome rs Replayed_ok"
    if "ran env plan w2 is rs w3'" "set is \<subseteq> set attempt" for "is" rs w3'
    using that att unfolding ran_def ran_by_def by blast
  from run(3) show ?thesis
  proof (cases rule: batches_result)
    case panic
    with run(4) have "wTrace w' = wTrace w1" "is_Ok r = False" using t2 by (auto simp: finish_run_def)
    then show ?thesis using reads by (intro exI[of _ reads] exI[of _ "[]"]) (auto split: sum.splits)
  next
    case (finished rs)
    from ran[OF finished(1)] obtain new where new: "wTrace w3 = wTrace w2 @ new" "ack_safe None new"
      "\<forall>c \<in> set new. \<exists>i. attemptable plan (wStore w) i \<and> item_call plan i c"
      "int (acks new) = countOutcome rs Replayed_ok" by blast
    from run(4) finished(2) have "wTrace w' = wTrace w3" "\<exists>res'. r = Inr res' \<and> erReplayed res' = countOutcome rs Replayed_ok"
      using r0 by (auto simp: finish_run_def add_outcomes_def add_batch_def split: if_splits)
    with reads new t2 show ?thesis by (intro exI[of _ reads] exI[of _ new]) auto
  next
    case (tripped fin rest rs w4 rate)
    from ran[OF tripped(2)] tripped(1) obtain new where new: "wTrace w4 = wTrace w2 @ new" "ack_safe None new"
      "\<forall>c \<in> set new. \<exists>i. attemptable plan (wStore w) i \<and> item_call plan i c"
      "int (acks new) = countOutcome rs Replayed_ok" by auto
    from run(4) tripped(3,4) have "wTrace w' = wTrace w4" "\<exists>res'. r = Inr res' \<and> erReplayed res' = countOutcome rs Replayed_ok"
      using r0 by (auto simp: finish_run_def add_outcomes_def add_batch_def)
    with reads new t2 show ?thesis by (intro exI[of _ reads] exI[of _ new]) auto
  qed
qed

lemma execute_probed_reads_quiet:
  assumes "execute_probed env b plan opts w = Some (r, w')"
  shows "\<exists>reads new. wTrace w' = wTrace w @ reads @ new \<and> \<not> list_ex mutating reads \<and>
    (\<forall>q i k. CInspect q i k \<notin> set reads) \<and>
    (plDestination plan = [] \<longrightarrow> (\<forall>q k. CStats q k \<notin> set reads)) \<and>
    ack_safe None new \<and> (\<forall>c \<in> set new. \<exists>i. attemptable plan (wStore w) i \<and> item_call plan i c) \<and>
    (case r of Inl _ \<Rightarrow> new = [] | Inr res \<Rightarrow> int (acks new) = erReplayed res)"
proof -
  from execute_probed_reads[OF assms] obtain reads new where h: "wTrace w' = wTrace w @ reads @ new"
    "\<not> list_ex mutating reads"
    "\<forall>c \<in> set reads. case c of CSearch q _ \<Rightarrow> q = plQueue plan | CStats q _ \<Rightarrow> q = plDestination plan | _ \<Rightarrow> False"
    "plDestination plan = [] \<longrightarrow> (\<forall>q k. CStats q k \<notin> set reads)"
    "ack_safe None new" "\<forall>c \<in> set new. \<exists>i. attemptable plan (wStore w) i \<and> item_call plan i c"
    "case r of Inl _ \<Rightarrow> new = [] | Inr res \<Rightarrow> int (acks new) = erReplayed res" by blast
  have "\<forall>q i k. CInspect q i k \<notin> set reads" using h(3) by fastforce
  with h show ?thesis by blast
qed

lemma Execute_plan_calls:
  assumes "Execute_plan env b plan opts w = Some (r, w')"
  shows "\<exists>reads new. wTrace w' = wTrace w @ reads @ new \<and> \<not> list_ex mutating reads \<and>
    (\<forall>q i k. CInspect q i k \<notin> set reads) \<and>
    (plDestination plan = [] \<longrightarrow> (\<forall>q k. CStats q k \<notin> set reads)) \<and>
    (plDestination plan \<noteq> [] \<and> new \<noteq> [] \<longrightarrow> CStats (plDestination plan) True \<in> set reads) \<and>
    ack_safe None new \<and> (\<forall>c \<in> set new. \<exists>i. attemptable plan (wStore w) i \<and> item_call plan i c) \<and>
    (case r of Inl _ \<Rightarrow> new = [] | Inr res \<Rightarrow> int (acks new) = erReplayed res)"
  using assms
proof (cases rule: Execute_plan_cases)
  case (refused e w1)
  then show ?thesis
    by (intro exI[of _ "[CStats (plDestination plan) False]"] exI[of _ "[]"])
      (auto dest!: do_stats_frame)
next
  case (probe_failed e e')
  then show ?thesis
    by (intro exI[of _ "[CStats (plDestination plan) False]"] exI[of _ "[]"])
      (auto dest!: do_stats_frame)
next
  case (probed st w1)
  have st: "wStore w1 = wStore w" using do_stats_frame[OF probed(3)] by simp
  from execute_probed_reads_quiet[OF probed(4)] obtain reads new where h: "wTrace w' = wTrace w1 @ reads @ new"
    "\<not> list_ex mutating reads" "\<forall>q i k. CInspect q i k \<notin> set reads" "ack_safe None new"
    "\<forall>c \<in> set new. \<exists>i. attemptable plan (wStore w) i \<and> item_call plan i c"
    "case r of Inl _ \<Rightarrow> new = [] | Inr res \<Rightarrow> int (acks new) = erReplayed res" unfolding st by blast
  then show ?thesis using probed(2) do_stats_frame[OF probed(3)]
    by (intro exI[of _ "CStats (plDestination plan) True # reads"] exI[of _ new]) auto
next
  case unprobed
  from execute_probed_reads_quiet[OF unprobed(3)] obtain reads new where h: "wTrace w' = wTrace w @ reads @ new"
    "\<not> list_ex mutating reads" "\<forall>q i k. CInspect q i k \<notin> set reads" "plDestination plan = [] \<longrightarrow> (\<forall>q k. CStats q k \<notin> set reads)" "ack_safe None new"
    "\<forall>c \<in> set new. \<exists>i. attemptable plan (wStore w) i \<and> item_call plan i c"
    "case r of Inl _ \<Rightarrow> new = [] | Inr res \<Rightarrow> int (acks new) = erReplayed res" by blast
  then show ?thesis using unprobed(2) by blast
qed (auto intro: exI[of _ "[]"])

lemma Execute_plan_probed:
  assumes "Execute_plan env b plan opts w = Some (Inr res, w')"
  shows "\<exists>v. execute_probed env b plan opts v = Some (Inr res, w') \<and> wStore v = wStore w \<and>
    (\<exists>reads. wTrace v = wTrace w @ reads \<and> \<not> list_ex mutating reads \<and> (\<forall>c \<in> set reads. \<exists>q k. c = CStats q k))
    \<and> wSnaps v = wSnaps w \<and> xoConfirm opts"
  using assms
proof (cases rule: Execute_plan_cases)
  case (probed st w1)
  with do_stats_frame[OF probed(3)] show ?thesis
    by (intro exI[of _ w1]) auto
next
  case unprobed
  then show ?thesis by (intro exI[of _ w]) auto
qed simp_all

lemma Validate_skips_planned:
  assumes "fst (Validate env b t (Some plan) w) = Inr res"
  shows "set (map smID (vrSkippedMessages res)) \<subseteq> set (plMessageIDs plan)"
proof -
  obtain w' where "Validate env b t (Some plan) w = (Inr res, w')" using assms by (metis prod.collapse)
  then obtain msgs where
    sk: "skips res = verdicts (verdict (plSafetyChecks plan) (byID msgs) (wStore w)) (plMessageIDs plan)"
    by (rule Validate_result)
  have "map smID (vrSkippedMessages res) = map fst (skips res)" by simp
  then show ?thesis using verdicts_ids unfolding sk by (metis (no_types, lifting) set_map subsetI)
qed

lemma validate_ids_no_panic:
  "validate_ids env plan cur is res w = (Inl e, w') \<Longrightarrow> e \<noteq> GoPanic s"
proof (induction "is" arbitrary: res w)
  case (Cons i "is")
  obtain x w1 where v: "validate_id env plan cur i res w = (x, w1)" by fastforce
  show ?case
  proof (cases x)
    case (Inl e')
    with Cons.prems v show ?thesis
      by (auto simp: validate_id_def Let_def split: option.splits if_splits prod.splits sum.splits)
  next
    case (Inr r)
    with Cons v show ?thesis by simp
  qed
qed simp

lemma Validate_no_panic:
  assumes "Validate env b t (Some plan) w = (Inl e, w')"
  shows "e \<noteq> GoPanic s"
  using assms
proof (cases rule: Validate_cases)
  case (scan_failed e1 e2)
  with assms show ?thesis by (auto simp: Validate_def split: prod.splits sum.splits if_splits)
next
  case (destination_failed msgs w1 e1)
  then show ?thesis by (auto simp: check_destination_def Let_def split: if_splits sum.splits prod.splits)
next
  case (checked msgs w1 res w2)
  from checked(4) have "validate_ids env plan (byID msgs) (plMessageIDs plan) res w2 = (Inl e, w')" by simp
  then show ?thesis by (rule validate_ids_no_panic)
qed simp_all

lemma acked_reads: "\<not> list_ex mutating reads \<Longrightarrow> acked p reads = []"
proof (induction reads arbitrary: p)
  case (Cons c reads)
  then show ?case by (cases c) auto
qed simp

lemma acked_after_reads: "\<not> list_ex mutating reads \<Longrightarrow> inspect_first new \<Longrightarrow> acked p (reads @ new) = acked None new"
  unfolding acked_append using acked_reads acked_inspect_first by (metis append_Nil)

lemma pub_safe_after_reads:
  assumes "\<not> list_ex mutating reads"
    and "\<And>ok'. set ok \<union> {q. CStats q True \<in> set reads} \<subseteq> set ok' \<Longrightarrow> pub_safe ok' new"
  shows "pub_safe ok (reads @ new)"
  using assms
proof (induction reads arbitrary: ok)
  case Nil
  then show ?case by simp
next
  case (Cons c reads)
  show ?case
  proof (cases "\<exists>q. c = CStats q True")
    case True
    then obtain q where c: "c = CStats q True" by blast
    have "pub_safe (q # ok) (reads @ new)"
      by (rule Cons.IH) (use Cons.prems c in auto)
    then show ?thesis by (simp add: c)
  next
    case False
    have "pub_safe ok (reads @ new)"
      by (rule Cons.IH) (use Cons.prems False in auto)
    with False Cons.prems(1) show ?thesis by (cases c) auto
  qed
qed

lemma pub_safe_reads:
  assumes "\<not> list_ex mutating reads" "new \<noteq> [] \<longrightarrow> CStats (plDestination plan) True \<in> set reads"
    and "\<forall>c \<in> set new. \<exists>i. P i \<and> item_call plan i c"
  shows "pub_safe [] (reads @ new)"
proof (rule pub_safe_after_reads[OF assms(1)])
  fix ok' assume "set [] \<union> {q. CStats q True \<in> set reads} \<subseteq> set ok'"
  then have ok: "new \<noteq> [] \<longrightarrow> plDestination plan \<in> set ok'" using assms(2) by auto
  show "pub_safe ok' new"
  proof (rule pub_safe_known)
    fix d p k assume c: "CPublish d p k \<in> set new"
    with assms(3) have "d = plDestination plan" by fastforce
    with c ok show "d \<in> set ok'" by auto
  qed
qed

lemma quiet_reads: "\<not> list_ex mutating reads \<Longrightarrow> ack_safe None reads \<and> acks reads = 0"
proof (induction reads)
  case (Cons c reads)
  then show ?case by (cases c) (auto simp: ack_safe_Cons intro: ack_safe_weaken)
qed simp

section \<open>A concrete run\<close>

definition demo_options :: executor_options where
  "demo_options = \<lparr>xoConfirm = True, xoResume = False, xoBatchSize = 0, xoConcurrency = 0,
     xoRateLimit = [], xoRetryPerMessage = 0, xoFailureThreshold = 0, xoPendingThreshold = 0,
     xoBrokerName = ''rabbitmq'', xoProfile = ''prod'', xoReason = ''incident 42''\<rparr>"

lemma demo_simps [simp]:
  "plQueue (demo_plan is) = ''orders-dlq''" "plMessageIDs (demo_plan is) = is"
  "plDestination (demo_plan is) = ''orders''" "plExcluded (demo_plan is) = []"
  "plSafetyChecks (demo_plan is) = [CheckSchema, CheckDuplicate, CheckDestination]"
  "plID (demo_plan is) = ''plan_test''" "plLimits (demo_plan is) = DefaultLimits"
  "xoConfirm demo_options" "\<not> xoResume demo_options"
  by (simp_all add: demo_plan_def demo_options_def)

lemma parse_default_rate [simp]: "ParseRateLimit ''10/s'' = Ok (Finite 10)"
  by (simp add: ParseRateLimit_def ParseFloat_def parse_unsigned_def parse_exp_def span_def is_digit_def
      expect_def digits_rat_def digit_val_def HasSuffix_def HasPrefix_def TrimSuffix_def per_second_def
      float_max_def Let_def text_evals)

lemmas run_evals = Execute_plan_def execute_probed_def resolve_options_def demo_plan_def demo_options_def
  DefaultLimits_def DefaultFailureThreshold_def
  Validate_def check_destination_def pendingThreshold_def DefaultPendingThreshold_def initial_result_def
  byID_def validate_id_def check_defs schemaValid_def skip_message_def CheckAudit_cases
  prepare_run_def attempt_list_def new_result_def finish_run_def
  batches.simps runBatch_def batch_item_def limiter_wait_def process_def attempts_def
  countOutcome_def add_batch_def trips_def failure_rate_def audit_def auditPlan_def take_snapshot_def

lemma demo_run:
  "\<exists>res w'. Execute_plan calm val_broker (demo_plan [''m1'']) demo_options (val_world (val_server [''m1''])) =
     Some (Ok res, w') \<and> erReplayed res = 1 \<and>
     wTrace w' = [CStats ''orders'' True, CSearch ''orders-dlq'' True, CStats ''orders'' True,
       CInspect ''orders-dlq'' ''m1'' True, CPublish ''orders'' (val_msg ''m1'') True,
       CAck ''orders-dlq'' ''m1'' True]"
  by (simp add: run_evals Let_def)

section \<open>Properties\<close>

text \<open>
  Without an explicit confirm a batch recovery refuses and does nothing, whatever the
  plan; and so does a plan without safety checks.
\<close>

theorem recover_needs_confirm:
  assumes "\<not> xoConfirm opts \<or> plSafetyChecks plan = []"
  shows "\<exists>e. Execute_plan env b plan opts w = Some (Err (Sentinel e), w) \<and>
    e = (if xoConfirm opts then ErrNoSafetyChecks else ErrConfirmRequired)"
  using assms by (auto simp: Execute_plan_def)

theorem recover_needs_confirm_witness:
  "Execute_plan calm val_broker (demo_plan [''m1'']) (demo_options\<lparr>xoConfirm := False\<rparr>) (val_world (val_server [''m1''])) =
     Some (Err (Sentinel ErrConfirmRequired), val_world (val_server [''m1'']))"
  using recover_needs_confirm[of "demo_options\<lparr>xoConfirm := False\<rparr>" "demo_plan [''m1'']" calm val_broker
      "val_world (val_server [''m1''])"] by (simp add: demo_options_def)



text \<open>
  The gap in the destination guard. The probe is skipped for a plan whose destination is
  empty, and the validator only asks for one when the plan declares the destination check:
  such a plan is run without any existence probe, publishing to the queue named "" and
  acknowledging the DLQ copies.
\<close>

theorem empty_destination_is_not_probed:
  assumes "Execute_plan env b plan opts w = Some (r, w')" and "plDestination plan = []"
  shows "\<exists>new. wTrace w' = wTrace w @ new \<and> (\<forall>q k. CStats q k \<notin> set new) \<and>
    (\<forall>d m k. CPublish d m k \<in> set new \<longrightarrow> d = [])"
proof -
  from Execute_plan_calls[OF assms(1)] assms(2) obtain reads new where h: "wTrace w' = wTrace w @ reads @ new"
    "\<not> list_ex mutating reads" "\<forall>q k. CStats q k \<notin> set reads"
    "\<forall>c \<in> set new. \<exists>i. attemptable plan (wStore w) i \<and> item_call plan i c" by blast
  then have "(\<forall>q k. CStats q k \<notin> set (reads @ new)) \<and> (\<forall>d m k. CPublish d m k \<in> set (reads @ new) \<longrightarrow> d = [])"
    using assms(2) by (fastforce simp: list_ex_iff)
  with h(1) show ?thesis by (intro exI[of _ "reads @ new"]) simp
qed

definition undirected_plan :: recovery_plan where
  "undirected_plan = (demo_plan [''m1''])\<lparr>plDestination := [], plSafetyChecks := [CheckSchema]\<rparr>"

theorem empty_destination_is_not_probed_witness:
  "\<exists>res w'. Execute_plan calm val_broker undirected_plan demo_options (val_world (val_server [''m1''])) =
     Some (Ok res, w') \<and> (\<forall>q k. CStats q k \<notin> set (wTrace w')) \<and>
     CPublish [] (val_msg ''m1'') True \<in> set (wTrace w') \<and> CAck ''orders-dlq'' ''m1'' True \<in> set (wTrace w')"
proof -
  obtain res w' where r: "Execute_plan calm val_broker undirected_plan demo_options
      (val_world (val_server [''m1''])) = Some (Ok res, w')"
    "CPublish [] (val_msg ''m1'') True \<in> set (wTrace w')" "CAck ''orders-dlq'' ''m1'' True \<in> set (wTrace w')"
    by (simp add: run_evals undirected_plan_def Let_def)
  from empty_destination_is_not_probed[OF r(1)] r show ?thesis
    by (intro exI[of _ res] exI[of _ w']) (auto simp: undirected_plan_def)
qed

text \<open>
  A destination that does not exist stops a confirmed run before it starts: the run
  returns ErrDestinationMissing, has made the one probe and nothing else, and with a working
  store leaves one plan-level entry "refused".
\<close>

theorem recover_refuses_missing_destination:
  assumes "xoConfirm opts" and "plSafetyChecks plan \<noteq> []" and "plDestination plan \<noteq> []"
    and "fst (bStats b (plDestination plan) (wServer w)) = Err e" and "errors_is e ErrQueueNotFound"
  shows "\<exists>err w'. Execute_plan env b plan opts w = Some (Err err, w') \<and> errors_is err ErrDestinationMissing \<and>
    wTrace w' = wTrace w @ [CStats (plDestination plan) False] \<and> wSnaps w' = wSnaps w \<and>
    (wStore w \<noteq> None \<and> all_ok env \<longrightarrow>
       map entry_key (wTrail w') = map entry_key (wTrail w) @ [recovered [] ''refused''])"
proof -
  obtain r w1 where p: "do_stats b (plDestination plan) w = (r, w1)" by fastforce
  note f = do_stats_frame[OF p]
  with assms(4) have r: "r = Inl e" by auto
  show ?thesis
    using assms p f unfolding r Execute_plan_def by (auto simp: audit_trail)
qed

theorem recover_refuses_missing_destination_witness:
  "\<exists>err w'. Execute_plan calm val_broker (demo_plan [''m1'']) demo_options
      (val_world (val_server [''m1'']\<lparr>vbMissing := [''orders'']\<rparr>)) = Some (Err err, w') \<and>
     errors_is err ErrDestinationMissing \<and> wTrace w' = [CStats ''orders'' False]"
proof -
  let ?w = "val_world (val_server [''m1'']\<lparr>vbMissing := [''orders'']\<rparr>)"
  have "fst (bStats val_broker (plDestination (demo_plan [''m1''])) (wServer ?w)) = Err (no_queue ''orders'')"
    by (simp add: demo_plan_def vb_stats_def no_queue_def)
  from recover_refuses_missing_destination[OF _ _ _ this no_queue_is, of demo_options calm]
  show ?thesis by auto
qed

text \<open>
  C11: every planned message is accounted for. When a run returns a result, the planned
  messages are exactly the replayed, the failed, the skipped and (after a trip) the remaining
  ones; the failed acks are among the failures.
\<close>

theorem recover_accounts_for_all:
  assumes "Execute_plan env b plan opts w = Some (Ok res, w')"
  shows "erReplayed res + erFailed res + erSkipped res + int (length (erRemaining res)) = int (length (plMessageIDs plan)) \<and>
    erSelected res = int (length (plMessageIDs plan)) \<and> erExcluded res = int (length (plExcluded plan)) \<and>
    0 \<le> erReplayed res \<and> 0 \<le> erNewDLQEntries res \<and> erNewDLQEntries res \<le> erFailed res \<and>
    (\<not> erTripped res \<longrightarrow> erRemaining res = [])"
proof -
  from Execute_plan_probed[OF assms] obtain v where "execute_probed env b plan opts v = Some (Ok res, w')" by blast
  then show ?thesis
  proof (rule execute_probed_ok)
    fix attempt fin rest rs w2 w3
    assume "attempt = fin @ rest" "ran env plan w2 fin rs w3" "erRemaining res = rest"
      "erTripped res \<or> rest = []" "erSelected res = int (length (plMessageIDs plan))"
      "erReplayed res = countOutcome rs Replayed_ok"
      "erFailed res = countOutcome rs Publish_failed + countOutcome rs Ack_failed"
      "erNewDLQEntries res = countOutcome rs Ack_failed"
      "int (length attempt) + erSkipped res = erSelected res"
      "erExcluded res = int (length (plExcluded plan))"
    moreover from this(2) have "length rs = length fin" by (auto simp: ran_def ran_by_def)
    ultimately show ?thesis using countOutcome_total[of rs] by auto
  qed
qed

theorem recover_accounts_for_all_witness:
  "\<exists>res w'. Execute_plan calm val_broker (demo_plan [''m1'']) demo_options (val_world (val_server [''m1''])) =
     Some (Ok res, w') \<and> erReplayed res = 1 \<and> erFailed res + erSkipped res + int (length (erRemaining res)) = 0"
proof -
  obtain res w' where r: "Execute_plan calm val_broker (demo_plan [''m1'']) demo_options
      (val_world (val_server [''m1''])) = Some (Ok res, w')" "erReplayed res = 1"
    using demo_run by blast
  from recover_accounts_for_all[OF r(1)] r show ?thesis
    by (intro exI[of _ res] exI[of _ w']) simp
qed

text \<open>
  C12: the circuit breaker stops the damage. A tripped run had a batch whose failure rate was
  above the threshold, and from then on touched nothing: no message left in \<open>Remaining\<close> was
  even inspected.
\<close>

theorem tripped_run_leaves_the_rest:
  assumes "Execute_plan env b plan opts w = Some (Ok res, w')" and "erTripped res"
    and "distinct (plMessageIDs plan)"
  shows "xoFailureThreshold (resolve_options plan opts) < erTrippedFailureRate res \<and>
    (\<exists>new. wTrace w' = wTrace w @ new \<and>
      (\<forall>q i k. CInspect q i k \<in> set new \<or> CAck q i k \<in> set new \<longrightarrow> i \<notin> set (erRemaining res)))"
proof -
  from Execute_plan_probed[OF assms(1)] obtain v reads where v: "execute_probed env b plan opts v = Some (Ok res, w')"
    "wTrace v = wTrace w @ reads" "\<not> list_ex mutating reads" "\<forall>c \<in> set reads. \<exists>q k. c = CStats q k" by blast
  from v(1) show ?thesis
  proof (rule execute_probed_ok)
    fix vres attempt fin rest rs w2 w3 final
    assume a: "\<exists>reads. wTrace w2 = wTrace v @ reads \<and> \<not> list_ex mutating reads \<and> (\<forall>q i k. CInspect q i k \<notin> set reads)"
      "distinct (plMessageIDs plan) \<longrightarrow> distinct attempt" "attempt = fin @ rest"
      "ran env plan w2 fin rs w3" "w' = auditPlan env plan final (resolve_options plan opts) w3"
      "erRemaining res = rest"
      "erTripped res \<Longrightarrow> xoFailureThreshold (resolve_options plan opts) < erTrippedFailureRate res"
    from a(4) obtain new where new: "wTrace w3 = wTrace w2 @ new" "\<forall>c \<in> set new. \<exists>i \<in> set fin. item_call plan i c"
      unfolding ran_def ran_by_def by blast
    from a(1) obtain reads2 where r2: "wTrace w2 = wTrace v @ reads2" "\<not> list_ex mutating reads2"
        "\<forall>q i k. CInspect q i k \<notin> set reads2" by blast
    have "set fin \<inter> set rest = {}" using a(2,3) assms(3) by simp
    then have "\<forall>q i k. CInspect q i k \<in> set new \<or> CAck q i k \<in> set new \<longrightarrow> i \<notin> set rest"
      using new(2) by fastforce
    moreover have "\<forall>q i k. CInspect q i k \<notin> set (reads @ reads2) \<and> CAck q i k \<notin> set (reads @ reads2)"
      using v(3,4) r2(2,3) by (fastforce simp: list_ex_iff)
    moreover have "wTrace w' = wTrace w @ (reads @ reads2) @ new"
      using a(5) new(1) r2(1) v(2) by simp
    ultimately show ?thesis
      using a(6,7) assms(2) by (intro conjI exI[of _ "(reads @ reads2) @ new"]) auto
  qed
qed

definition failing_server :: val_state where
  "failing_server = (val_server [''m1'', ''m2''])\<lparr>vbFailAck := [''m1'']\<rparr>"

theorem tripped_run_leaves_the_rest_witness:
  "\<exists>res w'. Execute_plan calm val_broker (demo_plan [''m1'', ''m2'']) (demo_options\<lparr>xoBatchSize := 1\<rparr>)
     (val_world failing_server) = Some (Ok res, w') \<and> erRemaining res = [''m2''] \<and>
     (\<forall>q k. CInspect q ''m2'' k \<notin> set (wTrace w'))"
proof -
  obtain res w' where r: "Execute_plan calm val_broker (demo_plan [''m1'', ''m2'']) (demo_options\<lparr>xoBatchSize := 1\<rparr>)
      (val_world failing_server) = Some (Ok res, w')" "erTripped res" "erRemaining res = [''m2'']"
    by (simp add: run_evals failing_server_def Let_def)
  from tripped_run_leaves_the_rest[OF r(1,2)] r show ?thesis
    by (intro exI[of _ res] exI[of _ w']) auto
qed



text \<open>
  With a working store, the snapshots a run adds are, in order, exactly the messages it
  published and then acknowledged.
\<close>

lemma run_snapshots:
  assumes "Execute_plan env b plan opts w = Some (Ok res, w')" and "wStore w \<noteq> None" and "all_ok env"
  shows "\<exists>new. wTrace w' = wTrace w @ new \<and>
    map snap_key (wSnaps w') = map snap_key (wSnaps w) @ map (msg_key plan) (acked None new)"
proof -
  from Execute_plan_probed[OF assms(1)] obtain v reads where v: "execute_probed env b plan opts v = Some (Ok res, w')"
    "wStore v = wStore w" "wTrace v = wTrace w @ reads" "\<not> list_ex mutating reads" "wSnaps v = wSnaps w" by blast
  from v(1) show ?thesis
  proof (rule execute_probed_ok)
    fix attempt :: "string list" and fin rest rs w2 w3 final
    assume a: "\<exists>reads. wTrace w2 = wTrace v @ reads \<and> \<not> list_ex mutating reads \<and> (\<forall>q i k. CInspect q i k \<notin> set reads)"
      "(wStore w2 = None) = (wStore v = None)" "wSnaps w2 = wSnaps v" "ran env plan w2 fin rs w3"
      "w' = auditPlan env plan final (resolve_options plan opts) w3"
    from a(1) obtain reads2 where r2: "wTrace w2 = wTrace v @ reads2" "\<not> list_ex mutating reads2" by blast
    have "wStore w2 \<noteq> None" using a(2) v(2) assms(2) by simp
    with a(4) assms(3) obtain new where new: "wTrace w3 = wTrace w2 @ new" "inspect_first new"
      "map snap_key (wSnaps w3) = map snap_key (wSnaps w2) @ map (msg_key plan) (acked None new)"
      unfolding ran_def ran_by_def by blast
    have "acked None ((reads @ reads2) @ new) = acked None new"
      by (rule acked_after_reads) (use v(4) r2(2) new(2) in simp_all)
    with new a(3,5) r2 v(3,5) show ?thesis
      by (intro exI[of _ "(reads @ reads2) @ new"]) simp
  qed
qed

lemma execute_probed_returns:
  assumes "0 < xoBatchSize (resolve_options plan opts)"
  shows "\<exists>r w'. execute_probed env b plan opts v = Some (r, w') \<and> (\<forall>t. r \<noteq> Err (GoPanic t))"
proof (cases "ParseRateLimit (xoRateLimit (resolve_options plan opts))")
  case (Inl e)
  then show ?thesis by (auto simp: execute_probed_def Let_def ParseRateLimit_def split: if_splits option.splits gofloat.splits)
next
  case (Inr limit)
  obtain x v1 where val: "Validate env b (xoPendingThreshold (resolve_options plan opts)) (Some plan) v = (x, v1)"
    by fastforce
  show ?thesis
  proof (cases x)
    case (Inl e)
    with val Inr Validate_no_panic[OF val[unfolded Inl]] show ?thesis
      by (auto simp: execute_probed_def Let_def)
  next
    case vres: (Inr vres)
    obtain attempt res v2 where prep: "prepare_run env plan (resolve_options plan opts) vres v1 = ((attempt, res), v2)"
      by (metis surj_pair)
    from batches_ran[OF assms, of attempt env plan v2 b res] obtain y v3 where
      "batches env b plan (resolve_options plan opts) attempt res v2 = Some (Ok y, v3)" by blast
    with Inr val vres prep show ?thesis
      by (auto simp: execute_probed_def Let_def finish_run_def)
  qed
qed

text \<open>With a positive batch size every run returns, and not with a panic.\<close>

lemma Execute_plan_returns:
  assumes "0 < xoBatchSize (resolve_options plan opts)"
  shows "\<exists>r w'. Execute_plan env b plan opts w = Some (r, w') \<and> (\<forall>t. r \<noteq> Err (GoPanic t))"
proof -
  obtain st v where "do_stats b (plDestination plan) w = (st, v)" by fastforce
  with execute_probed_returns[OF assms] show ?thesis
    by (auto simp: Execute_plan_def split: sum.splits)
qed

text \<open>
  A plan without a batch size hangs. When neither the options nor the plan give a batch
  size (a plan file edited by hand, say) and there is a message to replay, the run passes
  all checks and then never returns; with a negative size in the plan it panics.
\<close>

theorem zero_batch_size_never_returns:
  assumes "xoConfirm opts" and "\<not> xoResume opts" and "xoBatchSize opts \<le> 0" and "lBatchSize (plLimits plan) \<le> 0"
    and "plSafetyChecks plan \<noteq> []" and "plDestination plan = []"
    and "is_Ok (ParseRateLimit (xoRateLimit (resolve_options plan opts)))"
    and "Validate env b (xoPendingThreshold opts) (Some plan) w = (Ok vres, w1)" and "attempt_list plan vres \<noteq> []"
  shows "if lBatchSize (plLimits plan) = 0 then Execute_plan env b plan opts w = None
    else \<exists>w'. Execute_plan env b plan opts w = Some (Err (GoPanic ''slice bounds out of range''), w')"
proof -
  let ?o = "resolve_options plan opts"
  have size: "xoBatchSize ?o = lBatchSize (plLimits plan)" "xoPendingThreshold ?o = xoPendingThreshold opts"
    "\<not> xoResume ?o"
    using assms(2,3) by (simp_all add: resolve_options_def)
  obtain limit where limit: "ParseRateLimit (xoRateLimit ?o) = Inr limit"
    using assms(7) by (cases "ParseRateLimit (xoRateLimit ?o)") auto
  obtain attempt res w2 where prep: "prepare_run env plan ?o vres w1 = ((attempt, res), w2)"
    by (metis surj_pair)
  have "attempt = attempt_list plan vres"
    using prep size(3) by (auto simp: prepare_run_def Let_def split: prod.splits)
  with assms(9) have ne: "attempt \<noteq> []" by simp
  have run: "Execute_plan env b plan opts w =
      map_option (finish_run env plan ?o (clock env (wTick w))) (batches env b plan ?o attempt res w2)"
    using assms(1,5,6,8) limit size(2) prep by (simp add: Execute_plan_def execute_probed_def Let_def)
  show ?thesis
  proof (cases "lBatchSize (plLimits plan) = 0")
    case True
    with run size batches_diverge[OF ne, of ?o env b plan res w2] show ?thesis by simp
  next
    case False
    with assms(4) size have "xoBatchSize ?o < 0" by simp
    with run batches_negative[OF ne this, of env b plan res w2] False show ?thesis
      by (simp add: finish_run_def)
  qed
qed

definition unlimited_plan :: recovery_plan where
  "unlimited_plan = undirected_plan\<lparr>plLimits := \<lparr>lBatchSize = 0, lRateLimit = ''10/s'', lConcurrency = 1\<rparr>\<rparr>"

theorem zero_batch_size_never_returns_witness:
  "Execute_plan calm val_broker unlimited_plan demo_options (val_world (val_server [''m1''])) = None"
proof -
  obtain vres w1 where v: "Validate calm val_broker (xoPendingThreshold demo_options) (Some unlimited_plan)
      (val_world (val_server [''m1''])) = (Ok vres, w1)" "attempt_list unlimited_plan vres \<noteq> []"
    by (simp add: run_evals unlimited_plan_def undirected_plan_def Let_def)
  from zero_batch_size_never_returns[OF _ _ _ _ _ _ _ v] show ?thesis
    by (simp add: unlimited_plan_def undirected_plan_def demo_options_def demo_plan_def resolve_options_def)
qed

lemma success_is_evidence:
  assumes "recovered i ''success'' \<in> set (map entry_key (wTrail w))"
  shows "wEvidence i w \<noteq> []"
proof -
  from assms obtain e where e: "e \<in> set (wTrail w)" "entry_key e = recovered i ''success''" by auto
  then have "is_replay_success e" "eMessageID e = i"
    by (auto simp: entry_key_def recovered_def is_replay_success_def action_defs)
  with e(1) show ?thesis by (auto simp: wTrail_evidence filter_empty_conv)
qed

text \<open>
  C10: no message is replayed twice. After a run with a working store, a later run of any plan
  that declares the duplicate check does not even inspect a message for which the first run
  recorded a success: not when it came back to the queue, and not on another broker.
\<close>

theorem no_second_replay:
  assumes "Execute_plan env b plan opts w = Some (r, w1)"
    and "recovered i ''success'' \<in> set (map entry_key (wTrail w1))"
    and "Execute_plan env2 b2 plan2 opts2 w1' = Some (r2, w2)" and "wStore w1' = wStore w1"
    and "CheckDuplicate \<in> set (plSafetyChecks plan2)"
  shows "\<exists>new. wTrace w2 = wTrace w1' @ new \<and> (\<forall>q k. CInspect q i k \<notin> set new \<and> CAck q i k \<notin> set new)"
proof -
  have "wEvidence i w1' \<noteq> []"
    using assms(2,4) by (simp add: success_is_evidence)
  then have "\<not> attemptable plan2 (wStore w1') i" using assms(5) by (simp add: attemptable_def)
  moreover from Execute_plan_calls[OF assms(3)] obtain reads new where h: "wTrace w2 = wTrace w1' @ reads @ new"
    "\<not> list_ex mutating reads" "\<forall>q i k. CInspect q i k \<notin> set reads"
    "\<forall>c \<in> set new. \<exists>i. attemptable plan2 (wStore w1') i \<and> item_call plan2 i c" by blast
  ultimately have "CInspect q i k \<notin> set (reads @ new) \<and> CAck q i k \<notin> set (reads @ new)" for q k
    using h(2,3,4) by (fastforce simp: list_ex_iff)
  with h(1) show ?thesis by blast
qed

lemma demo_runs_twice:
  "\<exists>res w1 r2 w2. Execute_plan calm val_broker (demo_plan [''m1'']) demo_options (val_world (val_server [''m1''])) =
       Some (Ok res, w1) \<and> recovered ''m1'' ''success'' \<in> set (map entry_key (wTrail w1)) \<and> erReplayed res = 1 \<and>
     Execute_plan calm val_broker (demo_plan [''m1'']) demo_options (w1\<lparr>wTrace := []\<rparr>) = Some (r2, w2)"
proof -
  have "\<exists>res w1. Execute_plan calm val_broker (demo_plan [''m1'']) demo_options (val_world (val_server [''m1''])) =
       Some (Ok res, w1) \<and> recovered ''m1'' ''success'' \<in> set (map entry_key (wTrail w1)) \<and> erReplayed res = 1"
    by (simp add: run_evals Let_def recovered_def entry_key_def recoverEntry_def written_def)
  moreover have "\<exists>r2 w2. Execute_plan calm val_broker (demo_plan [''m1'']) demo_options v = Some (r2, w2)" for v
    using Execute_plan_returns[of "demo_plan [''m1'']" demo_options calm val_broker v]
    by (auto simp: resolve_options_def demo_options_def DefaultLimits_def)
  ultimately show ?thesis by blast
qed

theorem no_second_replay_witness:
  "\<exists>res w1 r2 w2. Execute_plan calm val_broker (demo_plan [''m1'']) demo_options (val_world (val_server [''m1''])) =
       Some (Ok res, w1) \<and> erReplayed res = 1 \<and>
     Execute_plan calm val_broker (demo_plan [''m1'']) demo_options (w1\<lparr>wTrace := []\<rparr>) = Some (r2, w2) \<and>
     (\<forall>q k. CInspect q ''m1'' k \<notin> set (wTrace w2) \<and> CAck q ''m1'' k \<notin> set (wTrace w2))"
proof -
  obtain res w1 r2 w2 where r: "Execute_plan calm val_broker (demo_plan [''m1'']) demo_options
      (val_world (val_server [''m1''])) = Some (Ok res, w1)" "recovered ''m1'' ''success'' \<in> set (map entry_key (wTrail w1))"
      "erReplayed res = 1"
    "Execute_plan calm val_broker (demo_plan [''m1'']) demo_options (w1\<lparr>wTrace := []\<rparr>) = Some (r2, w2)"
    using demo_runs_twice by blast
  from no_second_replay[OF r(1,2,4)]
  have "\<forall>q k. CInspect q ''m1'' k \<notin> set (wTrace w2) \<and> CAck q ''m1'' k \<notin> set (wTrace w2)" by auto
  with r show ?thesis by blast
qed

end
