(* ===== verification/Rollback.thy ===== *)
theory Rollback
  imports Executor_Properties
begin

text \<open>
  Restoring the snapshots of a plan to the queue they came from, after
  \<^verbatim>\<open>internal/recovery/rollback.go\<close>. Go returns the result next to the error, so
  both are components of the value here: the refusal of a confirmed run carries both.
\<close>

section \<open>Options and result\<close>

record rollback_options =
  roConfirm :: bool
  roReason :: string
  roBrokerName :: string
  roProfile :: string

record rollback_result =
  rrPlanID :: string
  rrSnapshots :: int
  rrRestored :: int
  rrFailed :: int
  rrDLQ :: string
  rrMissingDLQ :: string
  rrDuration :: int

section \<open>The restored message\<close>

definition snapshotMessage :: "snapshot \<Rightarrow> message" where
  "snapshotMessage s =
     \<lparr>mID = sMessageID s, mQueue = sSourceQueue s, mDestination = sDestination s, mPayload = sPayload s,
      mHeaders = (if sDestination s \<noteq> [] then hset ''x-destination'' (sDestination s) (sHeaders s) else sHeaders s),
      mContentType = sContentType s, mTimestamp = sTimestamp s, mRetryCount = 0, mFailureReason = [],
      mEventID = [], mIdempotencyKey = []\<rparr>"

section \<open>Audit entries\<close>

definition rollbackEntry :: "snapshot \<Rightarrow> string \<Rightarrow> string \<Rightarrow> rollback_options \<Rightarrow> string \<Rightarrow> gotime \<Rightarrow> entry" where
  "rollbackEntry s mid res opts reason now =
     \<lparr>eTimestamp = now, eAction = ActionRollback, eMessageID = mid, ePlanID = sPlanID s,
      eSourceQueue = sSourceQueue s, eDestination = sSourceQueue s, eDryRun = False, eConfirmed = True,
      eResult = res, eBroker = roBrokerName opts, eProfile = roProfile opts, eReason = reason,
      ePayloadDiff = []\<rparr>"

definition rollbackAudit ::
    "env \<Rightarrow> snapshot \<Rightarrow> string \<Rightarrow> rollback_options \<Rightarrow> string \<Rightarrow> 'w world \<Rightarrow> 'w world" where
  "rollbackAudit env s res opts detail w =
     (let reason = (if detail \<noteq> [] then TrimSpace (roReason opts @ dash_sep @ detail) else roReason opts)
      in try_append env (rollbackEntry s (sMessageID s) res opts reason) w)"

definition rollbackPlanAudit ::
    "env \<Rightarrow> snapshot \<Rightarrow> string \<Rightarrow> rollback_options \<Rightarrow> string \<Rightarrow> 'w world \<Rightarrow> 'w world" where
  "rollbackPlanAudit env s res opts reason w =
     try_append env (rollbackEntry s [] res opts (TrimSpace (roReason opts @ dash_sep @ reason))) w"

section \<open>The run\<close>

definition restore_one ::
    "env \<Rightarrow> 'w broker \<Rightarrow> rollback_options \<Rightarrow> snapshot \<Rightarrow> rollback_result \<Rightarrow> 'w world \<Rightarrow> rollback_result \<times> 'w world" where
  "restore_one env b opts s res w =
     (case do_publish b (sSourceQueue s) (snapshotMessage s) w of
        (Some e, w) \<Rightarrow>
          (res\<lparr>rrFailed := rrFailed res + 1\<rparr>,
           rollbackAudit env s ''failed'' opts ''publish back to the DLQ failed; the message is not restored'' w)
      | (None, w) \<Rightarrow>
          (res\<lparr>rrRestored := rrRestored res + 1\<rparr>, rollbackAudit env s ''success'' opts [] w))"

fun restore ::
    "env \<Rightarrow> 'w broker \<Rightarrow> rollback_options \<Rightarrow> snapshot list \<Rightarrow> rollback_result \<Rightarrow> 'w world \<Rightarrow> rollback_result \<times> 'w world" where
  "restore env b opts [] res w = (res, w)"
| "restore env b opts (s # ss) res w =
     (let (res, w) = restore_one env b opts s res w in restore env b opts ss res w)"

definition first_rollback_result :: "snapshot list \<Rightarrow> rollback_result" where
  "first_rollback_result snaps =
     \<lparr>rrPlanID = sPlanID (hd snaps), rrSnapshots = int (length snaps), rrRestored = 0, rrFailed = 0,
      rrDLQ = sSourceQueue (hd snaps), rrMissingDLQ = [], rrDuration = 0\<rparr>"

definition Rollback_snaps ::
    "env \<Rightarrow> 'w broker \<Rightarrow> snapshot list \<Rightarrow> rollback_options \<Rightarrow> 'w world \<Rightarrow>
     (rollback_result option \<times> goerr option) \<times> 'w world" where
  "Rollback_snaps env b snaps opts w =
     (if snaps = [] then ((None, Some (Text ''rollback: no snapshots to restore'')), w)
      else
        let dlq = sSourceQueue (hd snaps);
            start = clock env (wTick w);
            res = first_rollback_result snaps
        in case do_stats b dlq w of
             (Inl e, w) \<Rightarrow>
               if errors_is e ErrQueueNotFound then
                 let res = res\<lparr>rrMissingDLQ := dlq\<rparr>
                 in if \<not> roConfirm opts then ((Some res, None), w)
                    else ((Some res, Some (Wrap [] (Sentinel ErrDestinationMissing) ('': queue '' @ Quote dlq))),
                          rollbackPlanAudit env (hd snaps) ''refused'' opts (''DLQ '' @ Quote dlq @ '' does not exist'') w)
               else ((None, Some (Wrap (''rollback: check DLQ '' @ Quote dlq @ '': '') e [])), w)
           | (Inr _, w) \<Rightarrow>
               if \<not> roConfirm opts then ((Some res, None), w)
               else
                 let (res, w) = restore env b opts snaps res w;
                     res = res\<lparr>rrDuration := clock env (wTick w) - start\<rparr>
                 in ((Some res, None), rollbackPlanAudit env (hd snaps) ''completed'' opts [] w))"

section \<open>How the loop changes the world\<close>

definition rolled :: "string \<Rightarrow> bool \<Rightarrow> entry_key" where
  "rolled i k = (i, (if k then ''success'' else ''failed''), ActionRollback, True)"

lemma rollback_entry_keys:
  assumes "wStore w \<noteq> None" and "all_ok env"
  shows "map entry_key (wTrail (rollbackAudit env s (if k then ''success'' else ''failed'') opts d w)) =
      map entry_key (wTrail w) @ [rolled (sMessageID s) k]"
    and "map entry_key (wTrail (rollbackPlanAudit env s r opts d w)) =
      map entry_key (wTrail w) @ [([], r, ActionRollback, True)]"
  using assms
  by (auto simp: rollbackAudit_def rollbackPlanAudit_def written_def rollbackEntry_def entry_key_def rolled_def
      all_ok_def Let_def)

lemma rollback_audit_frame [simp]:
  "wTrace (rollbackAudit env s r opts d w) = wTrace w" "wSnaps (rollbackAudit env s r opts d w) = wSnaps w"
  "(wStore (rollbackAudit env s r opts d w) = None) = (wStore w = None)"
  "wTrace (rollbackPlanAudit env s r opts d w) = wTrace w" "wSnaps (rollbackPlanAudit env s r opts d w) = wSnaps w"
  "(wStore (rollbackPlanAudit env s r opts d w) = None) = (wStore w = None)"
  by (simp_all add: rollbackAudit_def rollbackPlanAudit_def Let_def)

lemma restore_one_effect:
  assumes "restore_one env b opts s res w = (res', w')"
  shows "\<exists>k. wTrace w' = wTrace w @ [CPublish (sSourceQueue s) (snapshotMessage s) k] \<and>
    res' = (if k then res\<lparr>rrRestored := rrRestored res + 1\<rparr> else res\<lparr>rrFailed := rrFailed res + 1\<rparr>) \<and>
    (wStore w' = None) = (wStore w = None) \<and> wSnaps w' = wSnaps w \<and>
    (wStore w \<noteq> None \<and> all_ok env \<longrightarrow>
       map entry_key (wTrail w') = map entry_key (wTrail w) @ [rolled (sMessageID s) k])"
proof -
  obtain r v where p: "do_publish b (sSourceQueue s) (snapshotMessage s) w = (r, v)" by fastforce
  note f = do_publish_frame[OF p]
  show ?thesis
  proof (cases r)
    case None
    with assms p f rollback_entry_keys(1)[of v env s True opts "[]"] show ?thesis
      by (intro exI[of _ True]) (auto simp: restore_one_def)
  next
    case (Some e)
    with assms p f rollback_entry_keys(1)[of v env s False opts
        "''publish back to the DLQ failed; the message is not restored''"] show ?thesis
      by (intro exI[of _ False]) (auto simp: restore_one_def)
  qed
qed

abbreviation restore_calls :: "snapshot list \<Rightarrow> bool list \<Rightarrow> call list" where
  "restore_calls ss ks \<equiv> map2 (\<lambda>s k. CPublish (sSourceQueue s) (snapshotMessage s) k) ss ks"

definition count_true :: "bool list \<Rightarrow> int" where
  "count_true ks = int (length (filter id ks))"

lemma restore_effect:
  assumes "restore env b opts ss res w = (res', w')"
  shows "\<exists>ks. length ks = length ss \<and> wTrace w' = wTrace w @ restore_calls ss ks \<and>
    res' = res\<lparr>rrRestored := rrRestored res + count_true ks,
               rrFailed := rrFailed res + (int (length ss) - count_true ks)\<rparr> \<and>
    (wStore w' = None) = (wStore w = None) \<and> wSnaps w' = wSnaps w \<and>
    (wStore w \<noteq> None \<and> all_ok env \<longrightarrow>
       map entry_key (wTrail w') = map entry_key (wTrail w) @ map2 (\<lambda>s k. rolled (sMessageID s) k) ss ks)"
  using assms
proof (induction ss arbitrary: res w)
  case Nil
  then show ?case by (simp add: count_true_def)
next
  case (Cons s ss)
  obtain r1 w1 where one: "restore_one env b opts s res w = (r1, w1)" by fastforce
  with Cons.prems have rest: "restore env b opts ss r1 w1 = (res', w')" by simp
  from restore_one_effect[OF one] obtain k where k:
    "wTrace w1 = wTrace w @ [CPublish (sSourceQueue s) (snapshotMessage s) k]"
    "r1 = (if k then res\<lparr>rrRestored := rrRestored res + 1\<rparr> else res\<lparr>rrFailed := rrFailed res + 1\<rparr>)"
    "(wStore w1 = None) = (wStore w = None)" "wSnaps w1 = wSnaps w"
    "wStore w \<noteq> None \<and> all_ok env \<longrightarrow>
       map entry_key (wTrail w1) = map entry_key (wTrail w) @ [rolled (sMessageID s) k]"
    by (elim exE conjE) (rule that; assumption)
  from Cons.IH[OF rest] obtain ks where ks: "length ks = length ss"
    "wTrace w' = wTrace w1 @ restore_calls ss ks"
    "res' = r1\<lparr>rrRestored := rrRestored r1 + count_true ks,
               rrFailed := rrFailed r1 + (int (length ss) - count_true ks)\<rparr>"
    "(wStore w' = None) = (wStore w1 = None)" "wSnaps w' = wSnaps w1"
    "wStore w1 \<noteq> None \<and> all_ok env \<longrightarrow>
       map entry_key (wTrail w') = map entry_key (wTrail w1) @ map2 (\<lambda>s k. rolled (sMessageID s) k) ss ks"
    by (elim exE conjE) (rule that; assumption)
  show ?case
    by (intro exI[of _ "k # ks"]) (use k ks in \<open>auto simp: count_true_def\<close>)
qed

lemma count_true_bounds: "0 \<le> count_true ks" "count_true ks \<le> int (length ks)"
  by (auto simp: count_true_def)

lemma Rollback_cases:
  assumes "Rollback_snaps env b snaps opts w = (r, w')"
  obtains
    (none) "snaps = []" "fst r = None" "w' = w"
  | (dry) st where "snaps \<noteq> []" "\<not> roConfirm opts" "do_stats b (sSourceQueue (hd snaps)) w = (st, w')"
      "is_Ok st" "r = (Some (first_rollback_result snaps), None)"
  | (dry_missing) e where "snaps \<noteq> []" "\<not> roConfirm opts" "do_stats b (sSourceQueue (hd snaps)) w = (Inl e, w')"
      "errors_is e ErrQueueNotFound"
      "r = (Some ((first_rollback_result snaps)\<lparr>rrMissingDLQ := sSourceQueue (hd snaps)\<rparr>), None)"
  | (refused) e w1 d where "snaps \<noteq> []" "roConfirm opts" "do_stats b (sSourceQueue (hd snaps)) w = (Inl e, w1)"
      "errors_is e ErrQueueNotFound" "w' = rollbackPlanAudit env (hd snaps) ''refused'' opts d w1"
      "r = (Some ((first_rollback_result snaps)\<lparr>rrMissingDLQ := sSourceQueue (hd snaps)\<rparr>),
            Some (Wrap [] (Sentinel ErrDestinationMissing) ('': queue '' @ Quote (sSourceQueue (hd snaps)))))"
  | (probe_failed) e e' where "snaps \<noteq> []" "do_stats b (sSourceQueue (hd snaps)) w = (Inl e, w')"
      "r = (None, Some e')"
  | (run) st w1 res w2 d where "snaps \<noteq> []" "roConfirm opts" "do_stats b (sSourceQueue (hd snaps)) w = (Inr st, w1)"
      "restore env b opts snaps (first_rollback_result snaps) w1 = (res, w2)"
      "r = (Some (res\<lparr>rrDuration := d\<rparr>), None)" "w' = rollbackPlanAudit env (hd snaps) ''completed'' opts [] w2"
  using assms unfolding Rollback_snaps_def Let_def
  by (auto split: if_splits sum.splits prod.splits)

section \<open>A concrete rollback\<close>

definition demo_snapshot :: "string \<Rightarrow> snapshot" where
  "demo_snapshot i = \<lparr>sPlanID = ''plan_test'', sMessageID = i, sSourceQueue = ''orders-dlq'', sDestination = ''orders'',
     sPayload = ''{}'', sContentType = [], sHeaders = [], sTimestamp = 7\<rparr>"

definition demo_rollback :: "bool \<Rightarrow> rollback_options" where
  "demo_rollback c = \<lparr>roConfirm = c, roReason = ''bad fix'', roBrokerName = ''rabbitmq'', roProfile = ''prod''\<rparr>"

lemma demo_snapshot_simps [simp]:
  "sPlanID (demo_snapshot i) = ''plan_test''" "sSourceQueue (demo_snapshot i) = ''orders-dlq''"
  "sMessageID (demo_snapshot i) = i" "roConfirm (demo_rollback c) = c"
  by (simp_all add: demo_snapshot_def demo_rollback_def)

definition without_dlq :: val_state where
  "without_dlq = (val_server [])\<lparr>vbMissing := [''orders-dlq'']\<rparr>"

lemma without_dlq_stats:
  "vb_stats ''orders-dlq'' without_dlq = (Inl (no_queue ''orders-dlq''), without_dlq)"
  by (simp add: without_dlq_def vb_stats_def no_queue_def val_server_def)

lemma all_ok_calm [simp]: "all_ok calm"
  by (simp add: all_ok_def)

section \<open>Properties\<close>

text \<open>
  A rollback without confirm is a dry run. Whatever the snapshots and the broker, it makes
  at most the one existence probe, writes neither a snapshot nor an audit entry, and a
  missing queue is a warning of its result instead of an error.
\<close>

theorem rollback_dry_run:
  assumes "\<not> roConfirm opts"
  shows "let ((res, err), w') = Rollback_snaps env b snaps opts w; dlq = sSourceQueue (hd snaps) in
    wStore w' = wStore w \<and> (wTrace w' = wTrace w \<or> (\<exists>k. wTrace w' = wTrace w @ [CStats dlq k])) \<and>
    (snaps \<noteq> [] \<and> (case fst (bStats b dlq (wServer w)) of Inl e \<Rightarrow> errors_is e ErrQueueNotFound | _ \<Rightarrow> False) \<longrightarrow>
       err = None \<and> map_option rrMissingDLQ res = Some dlq \<and> map_option rrSnapshots res = Some (int (length snaps)))"
proof -
  obtain r w' where rw: "Rollback_snaps env b snaps opts w = (r, w')" by fastforce
  then show ?thesis
  proof (cases rule: Rollback_cases)
    case none
    with rw show ?thesis by (auto simp: Let_def split: prod.splits)
  next
    case (dry st)
    with rw do_stats_frame[OF dry(3)] show ?thesis by (auto simp: Let_def split: sum.splits prod.splits)
  next
    case (dry_missing e)
    with rw do_stats_frame[OF dry_missing(3)] show ?thesis
      by (auto simp: Let_def first_rollback_result_def split: prod.splits)
  next
    case (probe_failed e e')
    with rw do_stats_frame[OF probe_failed(2)] assms show ?thesis
      by (auto simp: Rollback_snaps_def Let_def split: prod.splits if_splits)
  qed (use assms in simp_all)
qed

theorem rollback_dry_run_witness:
  "\<exists>res w'. Rollback_snaps calm val_broker [demo_snapshot ''m1''] (demo_rollback False) (val_world without_dlq) = ((Some res, None), w') \<and>
     rrMissingDLQ res = ''orders-dlq'' \<and> rrSnapshots res = 1 \<and> wStore w' = Some empty_store"
  using rollback_dry_run[of "demo_rollback False" calm val_broker "[demo_snapshot ''m1'']" "val_world without_dlq"]
  by (auto simp: Let_def without_dlq_stats split: prod.splits)

text \<open>
  A confirmed rollback into a queue that is gone refuses before it publishes anything:
  one probe, ErrDestinationMissing, and with a working store one plan-level entry "refused".
\<close>

theorem rollback_refuses_missing_dlq:
  assumes "roConfirm opts" and "snaps \<noteq> []"
    and "fst (bStats b (sSourceQueue (hd snaps)) (wServer w)) = Inl e" and "errors_is e ErrQueueNotFound"
  shows "\<exists>res err w'. Rollback_snaps env b snaps opts w = ((Some res, Some err), w') \<and>
    errors_is err ErrDestinationMissing \<and> rrRestored res = 0 \<and> rrMissingDLQ res = sSourceQueue (hd snaps) \<and>
    wTrace w' = wTrace w @ [CStats (sSourceQueue (hd snaps)) False] \<and>
    (wStore w \<noteq> None \<and> all_ok env \<longrightarrow>
       map entry_key (wTrail w') = map entry_key (wTrail w) @ [([], ''refused'', ActionRollback, True)])"
proof -
  obtain st w1 where st: "do_stats b (sSourceQueue (hd snaps)) w = (st, w1)" by fastforce
  with assms(3) have "st = Inl e" by (auto dest!: do_stats_frame)
  with st assms do_stats_frame[OF st] rollback_entry_keys(2)[of w1 env "hd snaps" "''refused''" opts
      "''DLQ '' @ Quote (sSourceQueue (hd snaps)) @ '' does not exist''"] show ?thesis
    by (auto simp: Rollback_snaps_def first_rollback_result_def Let_def)
qed

theorem rollback_refuses_missing_dlq_witness:
  "\<exists>res err w'. Rollback_snaps calm val_broker [demo_snapshot ''m1''] (demo_rollback True) (val_world without_dlq) =
       ((Some res, Some err), w') \<and> errors_is err ErrDestinationMissing \<and> wTrace w' = [CStats ''orders-dlq'' False] \<and>
     map entry_key (wTrail w') = [([], ''refused'', ActionRollback, True)]"
  using rollback_refuses_missing_dlq[of "demo_rollback True" "[demo_snapshot ''m1'']" val_broker "val_world without_dlq"
      "no_queue ''orders-dlq''" calm]
  by (auto simp: without_dlq_stats)

text \<open>
  A confirmed rollback whose queue exists publishes every snapshot exactly once, in order,
  to the queue it was taken from, acknowledges nothing, and counts every snapshot as restored
  or failed according to the broker's answer; with a working store it leaves one entry per
  snapshot with that outcome and a last plan-level entry "completed".
\<close>

theorem rollback_restores_each_once:
  assumes "roConfirm opts" and "snaps \<noteq> []" and "is_Ok (fst (bStats b (sSourceQueue (hd snaps)) (wServer w)))"
  shows "\<exists>res ks w'. Rollback_snaps env b snaps opts w = ((Some res, None), w') \<and> length ks = length snaps \<and>
    wTrace w' = wTrace w @ CStats (sSourceQueue (hd snaps)) True # restore_calls snaps ks \<and>
    rrRestored res = count_true ks \<and> rrRestored res + rrFailed res = rrSnapshots res \<and>
    rrSnapshots res = int (length snaps) \<and>
    (wStore w \<noteq> None \<and> all_ok env \<longrightarrow>
       map entry_key (wTrail w') = map entry_key (wTrail w) @
         map2 (\<lambda>s k. rolled (sMessageID s) k) snaps ks @ [([], ''completed'', ActionRollback, True)])"
proof -
  obtain x w1 where st: "do_stats b (sSourceQueue (hd snaps)) w = (x, w1)" by fastforce
  note f = do_stats_frame[OF st]
  from f assms(3) obtain st' where x: "x = Inr st'" by (cases x) auto
  obtain res w2 where rs: "restore env b opts snaps (first_rollback_result snaps) w1 = (res, w2)" by fastforce
  obtain ks where ks: "length ks = length snaps" "wTrace w2 = wTrace w1 @ restore_calls snaps ks"
    "res = (first_rollback_result snaps)\<lparr>rrRestored := rrRestored (first_rollback_result snaps) + count_true ks,
       rrFailed := rrFailed (first_rollback_result snaps) + (int (length snaps) - count_true ks)\<rparr>"
    "(wStore w2 = None) = (wStore w1 = None)"
    "wStore w1 \<noteq> None \<and> all_ok env \<longrightarrow>
       map entry_key (wTrail w2) = map entry_key (wTrail w1) @ map2 (\<lambda>s k. rolled (sMessageID s) k) snaps ks"
    using restore_effect[OF rs] by (elim exE conjE) (rule that; assumption)
  let ?w = "rollbackPlanAudit env (hd snaps) ''completed'' opts [] w2"
  have run: "Rollback_snaps env b snaps opts w =
      ((Some (res\<lparr>rrDuration := clock env (wTick w2) - clock env (wTick w)\<rparr>), None), ?w)"
    using assms(1,2) st x rs by (simp add: Rollback_snaps_def Let_def)
  have "map entry_key (wTrail ?w) = map entry_key (wTrail w) @
      map2 (\<lambda>s k. rolled (sMessageID s) k) snaps ks @ [([], ''completed'', ActionRollback, True)]"
    if "wStore w \<noteq> None \<and> all_ok env"
    using that ks(4,5) f rollback_entry_keys(2)[of w2] by simp
  with run ks(1,2) f x show ?thesis
    by (intro exI[of _ "res\<lparr>rrDuration := clock env (wTick w2) - clock env (wTick w)\<rparr>"] exI[of _ ks] exI[of _ ?w])
      (auto simp: ks(3) first_rollback_result_def)
qed

theorem rollback_restores_each_once_witness:
  "\<exists>res ks w'. Rollback_snaps calm val_broker [demo_snapshot ''m1'', demo_snapshot ''m2''] (demo_rollback True) (val_world (val_server [])) =
       ((Some res, None), w') \<and> rrRestored res + rrFailed res = 2 \<and>
     wTrace w' = CStats ''orders-dlq'' True # restore_calls [demo_snapshot ''m1'', demo_snapshot ''m2''] ks"
  using rollback_restores_each_once[of "demo_rollback True" "[demo_snapshot ''m1'', demo_snapshot ''m2'']" val_broker
      "val_world (val_server [])" calm]
  by (auto simp: vb_stats_def)

text \<open>The call that puts a replayed message back: same ID, payload, type and headers, but for \<open>x-destination\<close>.\<close>

definition puts_back :: "recovery_plan \<Rightarrow> message \<Rightarrow> call \<Rightarrow> bool" where
  "puts_back plan m c =
     (case c of
        CPublish q m' k \<Rightarrow> q = plQueue plan \<and> mID m' = mID m \<and> mPayload m' = mPayload m \<and>
          mContentType m' = mContentType m \<and> mDestination m' = plDestination plan \<and>
          mHeaders m' = (if plDestination plan = [] then mHeaders m
            else hset ''x-destination'' (plDestination plan) (mHeaders m))
      | _ \<Rightarrow> False)"

lemma restore_puts_back:
  assumes "map snap_key ss = map (msg_key plan) ms" and "length ks = length ss"
  shows "list_all2 (puts_back plan) ms (restore_calls ss ks)"
  using assms
proof (induction ss arbitrary: ms ks)
  case (Cons s ss)
  then obtain m ms' k ks' where "ms = m # ms'" "ks = k # ks'" by (cases ms; cases ks) auto
  with Cons show ?case by (auto simp: puts_back_def snapshotMessage_def snap_key_def msg_key_def)
qed simp

lemma snapshots_of_run:
  assumes "map snap_key sn1 = map snap_key sn0 @ map (msg_key plan) ms" and "\<forall>s \<in> set sn0. sPlanID s \<noteq> plID plan"
  shows "map snap_key (filter (\<lambda>s. sPlanID s = plID plan) sn1) = map (msg_key plan) ms"
proof -
  from assms(1) obtain xs ys where split: "sn1 = xs @ ys" "map snap_key xs = map snap_key sn0" "map snap_key ys = map (msg_key plan) ms"
    by (auto simp: map_eq_append_conv)
  have plans: "map sPlanID zs = map fst (map snap_key zs)" for zs
    by (simp add: snap_key_def)
  have "map sPlanID xs = map sPlanID sn0" unfolding plans split(2) ..
  then have "sPlanID ` set xs = sPlanID ` set sn0" by (metis set_map)
  then have "filter (\<lambda>s. sPlanID s = plID plan) xs = []"
    using assms(2) by (metis (mono_tags, lifting) filter_empty_conv imageE image_eqI)
  moreover have "map sPlanID ys = map (\<lambda>_. plID plan) ms"
    unfolding plans split(3) by (simp add: msg_key_def)
  then have "sPlanID ` set ys \<subseteq> {plID plan}" by (metis (no_types, lifting) image_subsetI list.set_map set_map singletonI imageE)
  then have "filter (\<lambda>s. sPlanID s = plID plan) ys = ys" by (auto simp: filter_id_conv)
  ultimately show ?thesis using split by simp
qed



end
