(* ===== verification/Planner.thy ===== *)
theory Planner
  imports Analyzer Rollback
begin

text \<open>
  Building a recovery plan, after \<^verbatim>\<open>internal/recovery/planner.go\<close>: defaults for the
  limits, selection of the messages of a group that may be replayed, one destination, and
  the record of what was left out. The current time is an argument; the assessor, when there
  is one, is threaded through the classification of the messages.
\<close>

section \<open>Options\<close>

record 's plan_options =
  poQueue :: string
  poGroupID :: string
  poDestination :: string
  poLimits :: plan_limits
  poIncludeDoNotReplay :: bool
  poPolicy :: "policy option"
  poJev :: "'s assessor option"

definition fill_limits :: "plan_limits \<Rightarrow> plan_limits" where
  "fill_limits l =
     \<lparr>lBatchSize = (if lBatchSize l \<le> 0 then lBatchSize DefaultLimits else lBatchSize l),
      lRateLimit = (if lRateLimit l = [] then lRateLimit DefaultLimits else lRateLimit l),
      lConcurrency = (if lConcurrency l \<le> 0 then lConcurrency DefaultLimits else lConcurrency l)\<rparr>"

section \<open>Selection\<close>

text \<open>The variables of the loop; the map \<open>destinations\<close> is the list of its keys.\<close>

record selection =
  slDestinations :: "string list"
  slIds :: "string list"
  slExcluded :: "excluded_message list"
  slFirstSig :: string

definition no_selection :: selection where
  "no_selection = \<lparr>slDestinations = [], slIds = [], slExcluded = [], slFirstSig = []\<rparr>"

definition in_group :: "string \<Rightarrow> message \<Rightarrow> bool" where
  "in_group gid m = (\<not> (gid \<noteq> [] \<and> groupID (NormalizeSignature (mFailureReason m)) \<noteq> gid))"

definition excluded_of :: "message \<Rightarrow> class_result \<Rightarrow> excluded_message" where
  "excluded_of m cls = \<lparr>exMessageID = mID m, exClassification = DoNotReplay, exReason = crReason cls\<rparr>"

definition select_one :: "'s plan_options \<Rightarrow> message \<Rightarrow> class_result \<Rightarrow> selection \<Rightarrow> selection" where
  "select_one opts m cls s =
     (if \<not> poIncludeDoNotReplay opts \<and> crClass cls = DoNotReplay
      then s\<lparr>slExcluded := slExcluded s @ [excluded_of m cls]\<rparr>
      else s\<lparr>slFirstSig := (if slFirstSig s = [] then NormalizeSignature (mFailureReason m) else slFirstSig s),
             slDestinations := List.insert (mDestination m) (slDestinations s),
             slIds := slIds s @ [mID m]\<rparr>)"

fun select_messages ::
    "'s plan_options \<Rightarrow> 's assessor option \<Rightarrow> message list \<Rightarrow> selection \<Rightarrow> selection \<times> 's assessor option" where
  "select_messages opts ao [] s = (s, ao)"
| "select_messages opts ao (m # ms) s =
     (if \<not> in_group (poGroupID opts) m then select_messages opts ao ms s
      else let (cls, ao) = classify_one (poPolicy opts) ao m
           in select_messages opts ao ms (select_one opts m cls s))"

section \<open>The plan\<close>

definition newPlanID :: "string \<Rightarrow> string \<Rightarrow> gotime \<Rightarrow> string" where
  "newPlanID queue grp now =
     ''plan_'' @ take 10 (sha256_hex (queue @ [CHR 0x00] @ grp @ [CHR 0x00] @ FormatNanoUTC now))"

definition plan_destination :: "'s plan_options \<Rightarrow> selection \<Rightarrow> (goerr, string) result" where
  "plan_destination opts s =
     (if poDestination opts \<noteq> [] then Ok (poDestination opts)
      else case slDestinations s of
        [d] \<Rightarrow> if d = [] then Err (Text (''cannot determine replay destination (messages have no dead-letter metadata)''
                                     @ dash_sep @ ''pass --destination''))
               else Ok d
      | ds \<Rightarrow> Err (Text (''cannot determine a single replay destination (found '' @ Itoa (int (length ds)) @ '')''
                        @ dash_sep @ ''pass --destination'')))"

definition BuildPlanWithContext ::
    "gotime \<Rightarrow> message list \<Rightarrow> 's plan_options \<Rightarrow> (goerr, recovery_plan) result \<times> 's assessor option" where
  "BuildPlanWithContext now msgs opts =
     (if msgs = [] then (Err (Text ''no messages to plan''), poJev opts)
      else
        let limits = fill_limits (poLimits opts);
            (s, ao) = select_messages opts (poJev opts) msgs no_selection
        in if slIds s = [] then
             (Err (Text (''no messages selected (group '' @ Quote (poGroupID opts)
                @ '' found nothing, or all were DO_NOT_REPLAY)'')), ao)
           else case plan_destination opts s of
             Inl e \<Rightarrow> (Err e, ao)
           | Inr dest \<Rightarrow>
               (Ok \<lparr>plID = newPlanID (poQueue opts) (poGroupID opts) now, plCreatedAt = now,
                    plQueue = poQueue opts, plGroupID = poGroupID opts,
                    plGroupLabel = (if poGroupID opts \<noteq> [] \<and> slFirstSig s \<noteq> [] then groupLabel (slFirstSig s) else []),
                    plMessageIDs = sort (slIds s), plExcluded = slExcluded s, plDestination = dest,
                    plAction = ''replay'', plLimits = limits,
                    plSafetyChecks = [CheckSchema, CheckDuplicate, CheckDestination]\<rparr>, ao))"

section \<open>What is selected\<close>

text \<open>The messages of the group with the classifier's results, and those of them a plan keeps.\<close>

definition judged :: "'s plan_options \<Rightarrow> message list \<Rightarrow> (message \<times> class_result) list" where
  "judged opts msgs =
     (let ms = filter (in_group (poGroupID opts)) msgs
      in zip ms (fst (results_of (poPolicy opts) (poJev opts) ms)))"

definition keeps :: "'s plan_options \<Rightarrow> message \<times> class_result \<Rightarrow> bool" where
  "keeps opts mr = (poIncludeDoNotReplay opts \<or> crClass (snd mr) \<noteq> DoNotReplay)"

lemma select_messages_spec:
  assumes "select_messages opts ao ms s = (s', ao')"
    and "ps = zip (filter (in_group (poGroupID opts)) ms)
      (fst (results_of (poPolicy opts) ao (filter (in_group (poGroupID opts)) ms)))"
  shows "slIds s' = slIds s @ map (mID \<circ> fst) (filter (keeps opts) ps) \<and>
    slExcluded s' = slExcluded s @ map (\<lambda>(m, r). excluded_of m r) (filter (\<lambda>p. \<not> keeps opts p) ps) \<and>
    set (slDestinations s') = set (slDestinations s) \<union> (mDestination \<circ> fst) ` set (filter (keeps opts) ps)"
  using assms
proof (induction ms arbitrary: ao s ps)
  case (Cons m ms)
  show ?case
  proof (cases "in_group (poGroupID opts) m")
    case False
    with Cons show ?thesis by simp
  next
    case True
    obtain r ao1 where c: "classify_one (poPolicy opts) ao m = (r, ao1)" by fastforce
    let ?ms = "filter (in_group (poGroupID opts)) ms"
    let ?ps = "zip ?ms (fst (results_of (poPolicy opts) ao1 ?ms))"
    have ps: "ps = (m, r) # ?ps" using Cons.prems(2) True c by (simp add: results_of_Cons)
    have "select_messages opts ao1 ms (select_one opts m r s) = (s', ao')"
      using Cons.prems(1) True c by simp
    from Cons.IH[OF this refl] show ?thesis
      unfolding ps by (auto simp: select_one_def keeps_def)
  qed
qed simp

lemma BuildPlan_ok:
  assumes "BuildPlanWithContext now msgs opts = (Ok plan, ao')"
  obtains s where "select_messages opts (poJev opts) msgs no_selection = (s, ao')" "slIds s \<noteq> []"
    "plan_destination opts s = Ok (plDestination plan)" "plMessageIDs plan = sort (slIds s)"
    "plExcluded plan = slExcluded s" "plSafetyChecks plan = [CheckSchema, CheckDuplicate, CheckDestination]"
    "plLimits plan = fill_limits (poLimits opts)" "plQueue plan = poQueue opts"
  using assms by (auto simp: BuildPlanWithContext_def Let_def split: if_splits prod.splits sum.splits)

lemma plan_destination_ok:
  assumes "plan_destination opts s = Ok d"
  shows "d \<noteq> [] \<and> (poDestination opts = [] \<longrightarrow> slDestinations s = [d])"
  using assms by (auto simp: plan_destination_def split: if_splits list.splits)

lemma BuildPlan_ids:
  assumes "BuildPlanWithContext now msgs opts = (Ok plan, ao')"
  shows "plMessageIDs plan = sort (map (mID \<circ> fst) (filter (keeps opts) (judged opts msgs)))"
    and "plExcluded plan = map (\<lambda>(m, r). excluded_of m r) (filter (\<lambda>p. \<not> keeps opts p) (judged opts msgs))"
    and "poDestination opts = [] \<Longrightarrow> \<forall>p \<in> set (filter (keeps opts) (judged opts msgs)). mDestination (fst p) = plDestination plan"
    and "plDestination plan \<noteq> []" and "plMessageIDs plan \<noteq> []"
proof -
  from BuildPlan_ok[OF assms] obtain s where s: "select_messages opts (poJev opts) msgs no_selection = (s, ao')" "slIds s \<noteq> []"
    "plan_destination opts s = Ok (plDestination plan)" "plMessageIDs plan = sort (slIds s)" "plExcluded plan = slExcluded s"
    by blast
  note spec = select_messages_spec[OF s(1) refl, folded judged_def[unfolded Let_def]]
  show "plMessageIDs plan = sort (map (mID \<circ> fst) (filter (keeps opts) (judged opts msgs)))"
    "plExcluded plan = map (\<lambda>(m, r). excluded_of m r) (filter (\<lambda>p. \<not> keeps opts p) (judged opts msgs))"
    using s(4,5) spec by (simp_all add: no_selection_def)
  show "\<forall>p \<in> set (filter (keeps opts) (judged opts msgs)). mDestination (fst p) = plDestination plan"
    if "poDestination opts = []"
  proof
    fix p assume "p \<in> set (filter (keeps opts) (judged opts msgs))"
    then have "mDestination (fst p) \<in> set (slDestinations s)" using spec by force
    then show "mDestination (fst p) = plDestination plan" using plan_destination_ok[OF s(3)] that by simp
  qed
  show "plDestination plan \<noteq> []" using plan_destination_ok[OF s(3)] by blast
  show "plMessageIDs plan \<noteq> []" using s(2,4) by (metis length_0_conv length_sort)
qed

lemma BuildPlan_checks:
  assumes "BuildPlanWithContext now msgs opts = (Ok plan, ao')"
  shows "plSafetyChecks plan = [CheckSchema, CheckDuplicate, CheckDestination]" "plQueue plan = poQueue opts"
    "0 < lBatchSize (plLimits plan)" "0 < lConcurrency (plLimits plan)" "lRateLimit (plLimits plan) \<noteq> []"
proof -
  from BuildPlan_ok[OF assms] obtain s where
    s: "plSafetyChecks plan = [CheckSchema, CheckDuplicate, CheckDestination]" "plLimits plan = fill_limits (poLimits opts)"
      "plQueue plan = poQueue opts" by blast
  show "plSafetyChecks plan = [CheckSchema, CheckDuplicate, CheckDestination]" "plQueue plan = poQueue opts"
    using s(1,3) .
  show "0 < lBatchSize (plLimits plan)" "0 < lConcurrency (plLimits plan)" "lRateLimit (plLimits plan) \<noteq> []"
    unfolding s(2) by (simp_all add: fill_limits_def DefaultLimits_def)
qed

text \<open>What the application or the operator has ruled out: a duplicate header or a policy rule.\<close>

definition vetoed :: "policy option \<Rightarrow> message \<Rightarrow> bool" where
  "vetoed po m =
     (hget (mHeaders m) ''x-duplicate-of'' \<noteq> [] \<or>
      (case po of None \<Rightarrow> False
       | Some p \<Rightarrow> (case policy_match p m of None \<Rightarrow> False | Some r \<Rightarrow> ruAction r = PolicyDoNotReplay)))"

lemma vetoed_class: "vetoed po m \<Longrightarrow> crClass (ClassifyWithPolicy m po) = DoNotReplay"
proof (cases "hget (mHeaders m) ''x-duplicate-of'' = []")
  case False
  then have "crClass (Classify m) = DoNotReplay" by (simp add: Classify_def rules_result_def)
  with False show ?thesis by (simp add: ClassifyWithPolicy_def Let_def split: option.splits)
next
  case True
  have "policy_class PolicyDoNotReplay = Some DoNotReplay"
    by (simp add: policy_class_def PolicyDoNotReplay_def PolicyReplay_def PolicyRequireFix_def)
  moreover assume "vetoed po m"
  ultimately show ?thesis using True by (auto simp: vetoed_def ClassifyWithPolicy_def Let_def split: option.splits)
qed

lemma vetoed_classify_one:
  assumes "vetoed po m" shows "crClass (fst (classify_one po ao m)) = DoNotReplay"
proof -
  obtain r ao' where c: "ClassifyWithPolicyAndJev m po ao = (r, ao')" by fastforce
  have "hget (mHeaders m) ''x-duplicate-of'' \<noteq> [] \<or> (case po of None \<Rightarrow> False | Some p \<Rightarrow> policy_match p m \<noteq> None)"
    using assms by (auto simp: vetoed_def split: option.splits)
  with c have "crClass r = crClass (ClassifyWithPolicy m po)"
    by (auto simp: ClassifyWithPolicyAndJev_def Let_def split: if_splits)
  with c vetoed_class[OF assms] show ?thesis by (simp add: classify_one_def)
qed

lemma vetoed_results:
  "(m, r) \<in> set (zip ms (fst (results_of po ao ms))) \<Longrightarrow> vetoed po m \<Longrightarrow> crClass r = DoNotReplay"
proof (induction ms arbitrary: ao)
  case (Cons x ms)
  obtain c ao1 where one: "classify_one po ao x = (c, ao1)" by fastforce
  from Cons.prems(1) consider "m = x" "r = c" | "(m, r) \<in> set (zip ms (fst (results_of po ao1 ms)))"
    by (auto simp: results_of_Cons[OF one])
  then show ?case
  proof cases
    case 1
    then show ?thesis using vetoed_classify_one[OF Cons.prems(2), of ao] one by simp
  next
    case 2
    then show ?thesis using Cons.IH Cons.prems(2) by blast
  qed
qed simp

section \<open>Properties\<close>


definition demo_plan_options :: "policy option \<Rightarrow> nat plan_options" where
  "demo_plan_options po = \<lparr>poQueue = ''orders-dlq'', poGroupID = [], poDestination = ''orders'',
     poLimits = \<lparr>lBatchSize = 0, lRateLimit = [], lConcurrency = 0\<rparr>, poIncludeDoNotReplay = False,
     poPolicy = po, poJev = None\<rparr>"

definition dup_msg :: "string \<Rightarrow> message" where
  "dup_msg i = (val_msg i)\<lparr>mHeaders := [(''x-duplicate-of'', ''evt_9'')]\<rparr>"

lemma demo_judged:
  "judged (demo_plan_options None) [val_msg ''m2'', dup_msg ''m3'', val_msg ''m1''] =
     [(val_msg ''m2'', Classify (val_msg ''m2'')), (dup_msg ''m3'', Classify (dup_msg ''m3'')),
      (val_msg ''m1'', Classify (val_msg ''m1''))]"
  by (simp add: judged_def demo_plan_options_def in_group_def results_of.simps classify_one_def Enabled_def ClassifyWithPolicy_def)

lemma demo_classes:
  "crClass (Classify (val_msg i)) = Investigate" "crClass (Classify (dup_msg i)) = DoNotReplay"
  by (simp_all add: Classify_def dup_msg_def val_msg_def empty_message_def rules_result_def ToLower_def
      dupKeywords_def transientKeywords_def permanentKeywords_def)

lemma demo_plan_built:
  "\<exists>plan. BuildPlanWithContext 7 [val_msg ''m2'', dup_msg ''m3'', val_msg ''m1''] (demo_plan_options None) = (Ok plan, None)"
  using demo_classes
  by (simp add: BuildPlanWithContext_def demo_plan_options_def in_group_def classify_one_def Enabled_def ClassifyWithPolicy_def
      select_one_def no_selection_def plan_destination_def Let_def)




text \<open>
  C23: a planned run ends. Every plan the planner builds can be run with any options: the run
  returns, and not with a panic, whatever the broker does.
\<close>

theorem planned_run_ends:
  assumes "BuildPlanWithContext now msgs opts = (Ok plan, ao')"
  shows "\<exists>r w'. Execute_plan env b plan xopts w = Some (r, w') \<and> (\<forall>t. r \<noteq> Err (GoPanic t))"
  by (rule Execute_plan_returns) (use BuildPlan_checks(3)[OF assms] in \<open>simp add: resolve_options_def\<close>)

theorem planned_run_ends_witness:
  "\<exists>plan r w'. BuildPlanWithContext 7 [val_msg ''m2'', dup_msg ''m3'', val_msg ''m1''] (demo_plan_options None) = (Ok plan, None) \<and>
     Execute_plan calm val_broker plan (demo_options\<lparr>xoBatchSize := -3\<rparr>) (val_world (val_server [''m1''])) = Some (r, w')"
  using demo_plan_built planned_run_ends by metis

end
