(* ===== verification/Semver.thy ===== *)
theory Semver
  imports Go_Errors "HOL-Library.List_Lexorder" "HOL-Library.Char_ord" "HOL-Library.Product_Lexorder"
begin

text \<open>
  The version order of \<^verbatim>\<open>internal/selfupdate/version.go\<close>. The code compares two parsed
  versions step by step; the reference is a linear order on a key (major, minor, patch, prerelease),
  in which a release comes after its prereleases and a numeric identifier before any other.
\<close>

section \<open>Parsing\<close>

record semver =
  svMajor :: int
  svMinor :: int
  svPatch :: int
  svPre :: "string list"

definition cut_before :: "char \<Rightarrow> string \<Rightarrow> string" where
  "cut_before c s = (case IndexByte s c of None \<Rightarrow> s | Some i \<Rightarrow> take i s)"

fun parse_components :: "string \<Rightarrow> string list \<Rightarrow> (goerr, int list) result" where
  "parse_components s [] = Ok []"
| "parse_components s (p # ps) =
     (case Atoi p of
        None \<Rightarrow> Err (Text (''invalid version component '' @ Quote p @ '' in '' @ Quote s))
      | Some n \<Rightarrow>
          if n < 0 then Err (Text (''invalid version component '' @ Quote p @ '' in '' @ Quote s))
          else (case parse_components s ps of Inl e \<Rightarrow> Err e | Inr ns \<Rightarrow> Ok (n # ns)))"

definition parseSemver :: "string \<Rightarrow> (goerr, semver) result" where
  "parseSemver s =
     (let s = TrimSpace s;
          s = TrimPrefix s ''v'';
          s = TrimPrefix s ''V'';
          s = cut_before (CHR ''+'') s;
          core = cut_before (CHR ''-'') s;
          preStr = (case IndexByte s (CHR ''-'') of None \<Rightarrow> [] | Some i \<Rightarrow> drop (i + 1) s);
          parts = Split (CHR ''.'') core
      in if length parts \<noteq> 3 then Err (Text (Quote s @ '' is not a semantic version''))
         else case parse_components s parts of
           Inl e \<Rightarrow> Err e
         | Inr nums \<Rightarrow>
             Ok \<lparr>svMajor = nums ! 0, svMinor = nums ! 1, svPatch = nums ! 2,
                 svPre = (if preStr \<noteq> [] then Split (CHR ''.'') preStr else [])\<rparr>)"

section \<open>Comparing\<close>

definition cmpInt :: "int \<Rightarrow> int \<Rightarrow> int" where
  "cmpInt a b = (if a < b then -1 else if a > b then 1 else 0)"

text \<open>\<open>strings.Compare\<close>.\<close>

definition cmp_text :: "string \<Rightarrow> string \<Rightarrow> int" where
  "cmp_text a b = (if a = b then 0 else if a < b then -1 else 1)"

definition cmpPreIdentifier :: "string \<Rightarrow> string \<Rightarrow> int" where
  "cmpPreIdentifier a b =
     (case (Atoi a, Atoi b) of
        (Some an, Some bn) \<Rightarrow> cmpInt an bn
      | (Some an, None) \<Rightarrow> -1
      | (None, Some bn) \<Rightarrow> 1
      | (None, None) \<Rightarrow> cmp_text a b)"

fun cmp_identifiers :: "string list \<Rightarrow> string list \<Rightarrow> int option" where
  "cmp_identifiers (a # as) (b # bs) =
     (let c = cmpPreIdentifier a b in if c \<noteq> 0 then Some c else cmp_identifiers as bs)"
| "cmp_identifiers _ _ = None"

definition cmpPrerelease :: "string list \<Rightarrow> string list \<Rightarrow> int" where
  "cmpPrerelease a b =
     (if a = [] \<and> b = [] then 0
      else if a = [] then 1
      else if b = [] then -1
      else case cmp_identifiers a b of Some c \<Rightarrow> c | None \<Rightarrow> cmpInt (int (length a)) (int (length b)))"

definition Compare :: "semver \<Rightarrow> semver \<Rightarrow> int" where
  "Compare s v =
     (let c = cmpInt (svMajor s) (svMajor v) in if c \<noteq> 0 then c
      else let c = cmpInt (svMinor s) (svMinor v) in if c \<noteq> 0 then c
      else let c = cmpInt (svPatch s) (svPatch v) in if c \<noteq> 0 then c
      else cmpPrerelease (svPre s) (svPre v))"

section \<open>The reference order\<close>

datatype pre_ident = Numeric int | Alpha string

instantiation pre_ident :: linorder
begin

fun less_eq_pre_ident :: "pre_ident \<Rightarrow> pre_ident \<Rightarrow> bool" where
  "less_eq_pre_ident (Numeric a) (Numeric b) = (a \<le> b)"
| "less_eq_pre_ident (Numeric a) (Alpha b) = True"
| "less_eq_pre_ident (Alpha a) (Numeric b) = False"
| "less_eq_pre_ident (Alpha a) (Alpha b) = (a \<le> b)"

definition less_pre_ident :: "pre_ident \<Rightarrow> pre_ident \<Rightarrow> bool" where
  "less_pre_ident a b = (a \<le> b \<and> \<not> b \<le> a)"

instance
proof
  fix a b c :: pre_ident
  show "a < b \<longleftrightarrow> a \<le> b \<and> \<not> b \<le> a" by (simp add: less_pre_ident_def)
  show "a \<le> a" by (cases a) auto
  show "a \<le> b \<Longrightarrow> b \<le> c \<Longrightarrow> a \<le> c" by (cases a; cases b; cases c) auto
  show "a \<le> b \<Longrightarrow> b \<le> a \<Longrightarrow> a = b" by (cases a; cases b) auto
  show "a \<le> b \<or> b \<le> a" by (cases a; cases b) auto
qed

end

datatype pre_key = Pre "pre_ident list" | Release

instantiation pre_key :: linorder
begin

fun less_eq_pre_key :: "pre_key \<Rightarrow> pre_key \<Rightarrow> bool" where
  "less_eq_pre_key (Pre a) (Pre b) = (a \<le> b)"
| "less_eq_pre_key (Pre a) Release = True"
| "less_eq_pre_key Release (Pre b) = False"
| "less_eq_pre_key Release Release = True"

definition less_pre_key :: "pre_key \<Rightarrow> pre_key \<Rightarrow> bool" where
  "less_pre_key a b = (a \<le> b \<and> \<not> b \<le> a)"

instance
proof
  fix a b c :: pre_key
  show "a < b \<longleftrightarrow> a \<le> b \<and> \<not> b \<le> a" by (simp add: less_pre_key_def)
  show "a \<le> a" by (cases a) auto
  show "a \<le> b \<Longrightarrow> b \<le> c \<Longrightarrow> a \<le> c" by (cases a; cases b; cases c) auto
  show "a \<le> b \<Longrightarrow> b \<le> a \<Longrightarrow> a = b" by (cases a; cases b) auto
  show "a \<le> b \<or> b \<le> a" by (cases a; cases b) auto
qed

end

definition ident_of :: "string \<Rightarrow> pre_ident" where
  "ident_of s = (case Atoi s of Some n \<Rightarrow> Numeric n | None \<Rightarrow> Alpha s)"

definition version_key :: "semver \<Rightarrow> int \<times> int \<times> int \<times> pre_key" where
  "version_key v = (svMajor v, svMinor v, svPatch v,
     if svPre v = [] then Release else Pre (map ident_of (svPre v)))"

text \<open>How an element of a linear order compares with another, as Go's comparison functions say it.\<close>

definition cmp_of :: "'a::linorder \<Rightarrow> 'a \<Rightarrow> int" where
  "cmp_of a b = (if a < b then -1 else if b < a then 1 else 0)"

lemma cmp_of_iff [simp]: "cmp_of a b = -1 \<longleftrightarrow> a < b" "cmp_of a b = 1 \<longleftrightarrow> b < a" "cmp_of a b = 0 \<longleftrightarrow> a = b"
  by (auto simp: cmp_of_def)

lemma cmp_of_refl [simp]: "cmp_of a a = 0"
  by simp

lemma cmp_of_sign: "cmp_of b a = - cmp_of a b"
  by (auto simp: cmp_of_def)

lemma cmpInt_of: "cmpInt a b = cmp_of a b"
  by (simp add: cmpInt_def cmp_of_def)

lemma cmp_text_of: "cmp_text a b = cmp_of a b"
  by (auto simp: cmp_text_def cmp_of_def)

lemma cmp_of_Pair: "cmp_of (a, x) (b, y) = (if a = b then cmp_of x y else cmp_of a b)"
  by (auto simp: cmp_of_def less_prod_def' order.strict_iff_order)

lemma cmp_of_Cons: "cmp_of (a # x) (b # y) = (if a = b then cmp_of x y else cmp_of a b)"
  by (auto simp: cmp_of_def)

lemma ident_cmp: "cmpPreIdentifier a b = cmp_of (ident_of a) (ident_of b)"
  by (auto simp: cmpPreIdentifier_def ident_of_def cmpInt_of cmp_text_of cmp_of_def less_pre_ident_def split: option.splits)

lemma Nil_less: "[] < xs \<longleftrightarrow> xs \<noteq> []" for xs :: "'a::linorder list"
  by (cases xs) auto

lemma identifiers_cmp:
  "cmp_of (map ident_of as) (map ident_of bs) =
     (case cmp_identifiers as bs of Some c \<Rightarrow> c | None \<Rightarrow> cmpInt (int (length as)) (int (length bs)))"
proof (induction as bs rule: cmp_identifiers.induct)
  case (1 a as b bs)
  then show ?case by (auto simp: cmp_of_Cons ident_cmp Let_def cmpInt_def split: option.splits)
qed (auto simp: cmp_of_def cmpInt_def Nil_less)

lemma prerelease_cmp:
  "cmpPrerelease as bs = cmp_of (if as = [] then Release else Pre (map ident_of as)) (if bs = [] then Release else Pre (map ident_of bs))"
proof -
  have k: "cmp_of (Pre a) (Pre b) = cmp_of a b" "cmp_of Release (Pre b) = 1" "cmp_of (Pre a) Release = -1" for a b
    by (auto simp: cmp_of_def less_pre_key_def)
  show ?thesis
    by (simp add: cmpPrerelease_def identifiers_cmp k del: cmp_of_iff)
qed

lemma Compare_is_key:
  "Compare a b = cmp_of (version_key a) (version_key b)"
  by (simp add: Compare_def version_key_def cmpInt_of prerelease_cmp cmp_of_Pair Let_def)

section \<open>Properties\<close>

text \<open>
  C24: the hand-written comparison is a linear order on versions: it is the comparison of the
  versions' keys, so it is antisymmetric and transitive and calls two versions equal exactly
  when their keys are.
\<close>

theorem Compare_is_key_order:
  "Compare a b = (if version_key a < version_key b then -1 else if version_key b < version_key a then 1 else 0)"
  by (simp only: Compare_is_key cmp_of_def)

end
