(* ===== verification/Self_Update.thy ===== *)
theory Self_Update
  imports Semver Sha256
begin

text \<open>
  The updater of \<^verbatim>\<open>internal/selfupdate\<close>: release and asset selection, the retrying
  GET, checksums, and the order of checks before a binary is replaced. The network, the
  archive formats and the file system are outside the repository: \<open>exchange\<close> answers one
  HTTP request, \<open>unpack\<close> lists the regular files of an archive and \<open>install\<close> replaces the
  binary; each works on a machine state of its own.
\<close>

section \<open>Releases and configuration\<close>

record asset =
  asName :: string
  asURL :: string

record release =
  reTagName :: string
  reAssets :: "asset list"

record update_result =
  urCurrentVersion :: string
  urLatestVersion :: string
  urUpdateAvailable :: bool
  urAssetName :: string
  urInstallPath :: string
  urInstalled :: bool
  urPending :: bool
  urSkippedReason :: string

record update_options =
  uoForce :: bool
  uoInstallPath :: string

record config =
  cfRepo :: string
  cfProject :: string
  cfVersion :: string
  cfGoos :: string
  cfGoarch :: string
  cfAPIRoot :: string
  cfDownloadRoot :: string
  cfToken :: string
  cfUserAgent :: string

definition maxMetadataBytes :: int where "maxMetadataBytes = 4 * 1048576"
definition maxArchiveBytes :: int where "maxArchiveBytes = 1073741824"
definition maxBinaryBytes :: int where "maxBinaryBytes = 512 * 1048576"
definition maxEntries :: int where "maxEntries = 16"
definition maxAttempts :: nat where "maxAttempts = 3"

definition DefaultRepo :: string where "DefaultRepo = ''HalxDocs/dlq_inspector''"
definition DefaultProject :: string where "DefaultProject = ''dlq-inspector''"

definition or_default :: "string \<Rightarrow> string \<Rightarrow> string" where
  "or_default s d = (if s = [] then d else s)"

text \<open>\<open>New\<close>: the platform the binary runs on is an argument; timeouts and clients are not modelled.\<close>

definition New_updater :: "string \<Rightarrow> string \<Rightarrow> config \<Rightarrow> (goerr, config) result" where
  "New_updater goos goarch cfg =
     (let cfg = cfg\<lparr>cfRepo := or_default (cfRepo cfg) DefaultRepo,
                    cfProject := or_default (cfProject cfg) DefaultProject,
                    cfGoos := or_default (cfGoos cfg) goos, cfGoarch := or_default (cfGoarch cfg) goarch,
                    cfAPIRoot := or_default (cfAPIRoot cfg) ''https://api.github.com'',
                    cfDownloadRoot := or_default (cfDownloadRoot cfg) ''https://github.com'',
                    cfUserAgent := or_default (cfUserAgent cfg) ''dlq-self-update''\<rparr>;
          parts = Split (CHR ''/'') (cfRepo cfg)
      in if length parts \<noteq> 2 \<or> parts ! 0 = [] \<or> parts ! 1 = []
         then Err (Text (''invalid repo '' @ Quote (cfRepo cfg) @ '': want owner/repo''))
         else Ok cfg)"

section \<open>Choosing what to download\<close>

definition AssetFor :: "config \<Rightarrow> release \<Rightarrow> (goerr, asset) result" where
  "AssetFor cfg rel =
     (let ext = (if cfGoos cfg = ''windows'' then ''.zip'' else ''.tar.gz'');
          suffix = ''_'' @ cfGoos cfg @ ''_'' @ cfGoarch cfg @ ext
      in case filter (\<lambda>a. HasPrefix (asName a) (cfProject cfg @ ''_'') \<and> HasSuffix (asName a) suffix) (reAssets rel) of
           a # _ \<Rightarrow> Ok a
         | [] \<Rightarrow> Err (Text (''no '' @ cfProject cfg @ '' release archive for '' @ cfGoos cfg @ ''/'' @ cfGoarch cfg
                       @ '' in release '' @ reTagName rel @ '' (assets: '' @ Join (map asName (reAssets rel)) '', '' @ '')'')))"

definition UpdateAvailable :: "string \<Rightarrow> string \<Rightarrow> (goerr, bool) result" where
  "UpdateAvailable current latest =
     (case parseSemver latest of
        Inl e \<Rightarrow> Err (Wrap (''latest version '' @ Quote latest @ '' is not a semantic version: '') e [])
      | Inr lat \<Rightarrow>
          (case parseSemver current of
             Inl e \<Rightarrow> Ok (current \<noteq> latest)
           | Inr cur \<Rightarrow> Ok (Compare cur lat < 0)))"

fun findAsset :: "asset list \<Rightarrow> string \<Rightarrow> asset option" where
  "findAsset [] n = None"
| "findAsset (a # as) n = (if asName a = n then Some a else findAsset as n)"

section \<open>Checksums\<close>

definition is_hex_byte :: "char \<Rightarrow> bool" where
  "is_hex_byte c = (let n = (of_char c :: nat) in (48 \<le> n \<and> n \<le> 57) \<or> (97 \<le> n \<and> n \<le> 102) \<or> (65 \<le> n \<and> n \<le> 70))"

text \<open>\<open>bufio.Scanner\<close>: lines without their end, a carriage return before it dropped, no empty last line.\<close>

definition scan_lines :: "string \<Rightarrow> string list" where
  "scan_lines data =
     (let ls = Split (CHR 0x0A) data;
          ls = (if last ls = [] then butlast ls else ls)
      in map (\<lambda>l. TrimSuffix l [CHR 0x0D]) ls)"

fun parse_checksum_lines :: "int \<Rightarrow> string list \<Rightarrow> (string \<times> string) list \<Rightarrow> (goerr, (string \<times> string) list) result" where
  "parse_checksum_lines n [] entries = Ok entries"
| "parse_checksum_lines n (l # ls) entries =
     (if length l \<ge> 65536 then Err (Text ''bufio.Scanner: token too long'')
      else case Fields l of
        f0 # f1 # _ \<Rightarrow>
          let hash = TrimPrefix f0 ''*''; name = TrimPrefix f1 ''*''
          in if length hash \<noteq> 64 then Err (Text (''line '' @ Itoa n @ '': invalid sha256 '' @ Quote hash))
             else if \<not> list_all is_hex_byte hash
             then Err (Wrap (''line '' @ Itoa n @ '': invalid sha256 '' @ Quote hash @ '': '')
                         (Text ''encoding/hex: invalid byte'') [])
             else parse_checksum_lines (n + 1) ls ((name, ToLower hash) # entries)
      | _ \<Rightarrow> parse_checksum_lines (n + 1) ls entries)"

text \<open>The map is the list of its assignments, the last one first.\<close>

definition ParseChecksums :: "string \<Rightarrow> (goerr, (string \<times> string) list) result" where
  "ParseChecksums data = parse_checksum_lines 1 (scan_lines data) []"

section \<open>HTTP\<close>

record http_response =
  hrStatus :: int
  hrStatusText :: string
  hrRateRemaining :: string   \<comment> \<open>the X-RateLimit-Remaining header\<close>
  hrBody :: "string option"   \<comment> \<open>None when reading the body fails\<close>

text \<open>An entry of an archive; a tar stream can break off with an error after some entries.\<close>

record archive_entry =
  aeName :: string
  aeRegular :: bool
  aeData :: string

record 's host =
  hoExchange :: "string \<Rightarrow> string \<Rightarrow> 's \<Rightarrow> (goerr, http_response) result \<times> 's"   \<comment> \<open>URL, Accept\<close>
  hoExecutable :: "(goerr, string) result"
  hoUnpack :: "string \<Rightarrow> string \<Rightarrow> (goerr, archive_entry list \<times> goerr option) result"   \<comment> \<open>asset name, content\<close>
  hoInstall :: "string \<Rightarrow> string \<Rightarrow> 's \<Rightarrow> goerr option \<times> bool \<times> 's"   \<comment> \<open>binary, path; error, pending\<close>

text \<open>One GET with retries; the context is never cancelled here, and the waits take no time.\<close>

fun get_attempts :: "'s host \<Rightarrow> string \<Rightarrow> string \<Rightarrow> nat \<Rightarrow> goerr \<Rightarrow> 's \<Rightarrow> (goerr, http_response) result \<times> 's" where
  "get_attempts h url accept 0 lastErr s = (Err lastErr, s)"
| "get_attempts h url accept (Suc n) lastErr s =
     (case hoExchange h url accept s of
        (Inl e, s) \<Rightarrow> get_attempts h url accept n e s
      | (Inr resp, s) \<Rightarrow>
          if hrStatus resp = 429 \<or> hrStatus resp \<ge> 500
          then get_attempts h url accept n (Text (''GET '' @ url @ '': '' @ hrStatusText resp)) s
          else (Ok resp, s))"

definition http_get :: "'s host \<Rightarrow> string \<Rightarrow> string \<Rightarrow> 's \<Rightarrow> (goerr, http_response) result \<times> 's" where
  "http_get h url accept s = get_attempts h url accept maxAttempts (Text []) s"

definition statusError :: "config \<Rightarrow> string \<Rightarrow> http_response \<Rightarrow> goerr" where
  "statusError cfg url resp =
     (if hrStatus resp = 404
      then if Contains url ''/releases/latest'' then Text (''no GitHub releases found for '' @ cfRepo cfg)
           else Text (''GitHub resource not found: '' @ hrStatusText resp)
      else if hrStatus resp = 403 \<or> hrStatus resp = 401
      then if hrRateRemaining resp = ''0''
           then Text (''GitHub API rate limit exceeded ('' @ hrStatusText resp
                      @ ''); set --github-token or $GITHUB_TOKEN to raise it'')
           else Text (''GitHub rejected the request ('' @ hrStatusText resp @ ''); check --github-token'')
      else Text (''GitHub request failed: '' @ hrStatusText resp))"

definition read_error :: goerr where "read_error = Text ''unexpected EOF''"

definition getBody :: "config \<Rightarrow> 's host \<Rightarrow> string \<Rightarrow> string \<Rightarrow> 's \<Rightarrow> (goerr, string) result \<times> 's" where
  "getBody cfg h url accept s =
     (case http_get h url accept s of
        (Inl e, s) \<Rightarrow> (Err e, s)
      | (Inr resp, s) \<Rightarrow>
          if hrStatus resp \<noteq> 200 then (Err (statusError cfg url resp), s)
          else case hrBody resp of
            None \<Rightarrow> (Err read_error, s)
          | Some data \<Rightarrow>
              if int (length data) > maxMetadataBytes
              then (Err (Text (''response from '' @ url @ '' exceeds '' @ Itoa maxMetadataBytes @ '' bytes'')), s)
              else (Ok data, s))"

record downloaded =
  dfContent :: string
  dfSHA256 :: string

definition downloadToTemp :: "config \<Rightarrow> 's host \<Rightarrow> string \<Rightarrow> 's \<Rightarrow> (goerr, downloaded) result \<times> 's" where
  "downloadToTemp cfg h url s =
     (case http_get h url ''application/octet-stream'' s of
        (Inl e, s) \<Rightarrow> (Err e, s)
      | (Inr resp, s) \<Rightarrow>
          if hrStatus resp \<noteq> 200 then (Err (statusError cfg url resp), s)
          else case hrBody resp of
            None \<Rightarrow> (Err (Wrap (''download '' @ url @ '': '') read_error []), s)
          | Some data \<Rightarrow>
              if int (length data) > maxArchiveBytes
              then (Err (Wrap (''download '' @ url @ '': '')
                      (Text (''response exceeds '' @ Itoa maxArchiveBytes @ '' bytes'')) []), s)
              else (Ok \<lparr>dfContent = data, dfSHA256 = sha256_hex data\<rparr>, s))"

section \<open>The archive\<close>

definition base_name :: "string \<Rightarrow> string" where
  "base_name p =
     (if p = [] then ''.''
      else let q = rev (dropWhile (\<lambda>c. c = CHR ''/'') (rev p))
           in if q = [] then ''/'' else rev (takeWhile (\<lambda>c. c \<noteq> CHR ''/'') (rev q)))"

definition isBinaryName :: "string \<Rightarrow> bool" where
  "isBinaryName n = (base_name (TrimPrefix n ''./'') \<in> set [''dlq'', ''dlq.exe''])"

definition readLimited :: "string \<Rightarrow> int \<Rightarrow> (goerr, string) result" where
  "readLimited data m =
     (if int (length data) > m then Err (Text (''binary exceeds '' @ Itoa m @ '' bytes'')) else Ok data)"

fun find_binary_tar :: "int \<Rightarrow> archive_entry list \<Rightarrow> goerr option \<Rightarrow> (goerr, string) result" where
  "find_binary_tar n [] broken =
     (case broken of
        Some e \<Rightarrow> Err (Wrap ''read tar archive: '' e [])
      | None \<Rightarrow> Err (Text ''archive contains no dlq binary''))"
| "find_binary_tar n (x # xs) broken =
     (if \<not> aeRegular x then find_binary_tar n xs broken
      else if n + 1 > maxEntries
      then Err (Text (''archive contains more than '' @ Itoa maxEntries @ '' files; refusing''))
      else if isBinaryName (aeName x) then readLimited (aeData x) maxBinaryBytes
      else find_binary_tar (n + 1) xs broken)"

fun find_binary_zip :: "archive_entry list \<Rightarrow> (goerr, string) result" where
  "find_binary_zip [] = Err (Text ''archive contains no dlq binary'')"
| "find_binary_zip (x # xs) =
     (if \<not> aeRegular x then find_binary_zip xs
      else if isBinaryName (aeName x)
      then if int (length (aeData x)) > maxBinaryBytes
           then Err (Text (''binary in archive exceeds '' @ Itoa maxBinaryBytes @ '' bytes''))
           else readLimited (aeData x) maxBinaryBytes
      else find_binary_zip xs)"

definition extractZip :: "archive_entry list \<Rightarrow> (goerr, string) result" where
  "extractZip xs =
     (if xs = [] then Err (Text ''zip archive is empty'')
      else if int (length xs) > maxEntries
      then Err (Text (''archive contains more than '' @ Itoa maxEntries @ '' files; refusing''))
      else find_binary_zip xs)"

definition extractBinary :: "'s host \<Rightarrow> string \<Rightarrow> string \<Rightarrow> (goerr, string) result" where
  "extractBinary h assetName content =
     (case hoUnpack h assetName content of
        Inl e \<Rightarrow> Err e
      | Inr (xs, broken) \<Rightarrow>
          if HasSuffix assetName ''.zip'' then extractZip xs else find_binary_tar 0 xs broken)"

section \<open>The update\<close>

text \<open>\<open>url.PathEscape\<close>: bytes other than unreserved ones and \<open>$&+:=@\<close> become \<open>%XX\<close>.\<close>

definition path_safe :: "char \<Rightarrow> bool" where
  "path_safe c = (let n = (of_char c :: nat) in
     is_digit c \<or> is_upper_byte c \<or> (97 \<le> n \<and> n \<le> 122) \<or> c \<in> set ''-_.~$&+:=@'')"

definition upper_hex :: "nat \<Rightarrow> char" where
  "upper_hex n = (if n < 10 then char_of (48 + n) else char_of (55 + n))"

definition PathEscape :: "string \<Rightarrow> string" where
  "PathEscape s = concat (map (\<lambda>c. if path_safe c then [c]
     else let n = (of_char c :: nat) in [CHR ''%'', upper_hex (n div 16), upper_hex (n mod 16)]) s)"

definition assetURL :: "config \<Rightarrow> string \<Rightarrow> string \<Rightarrow> string" where
  "assetURL cfg tag n =
     cfDownloadRoot cfg @ ''/'' @ cfRepo cfg @ ''/releases/download/'' @ PathEscape tag @ ''/'' @ PathEscape n"

definition apiURL :: "config \<Rightarrow> string \<Rightarrow> string" where
  "apiURL cfg path = cfAPIRoot cfg @ ''/repos/'' @ cfRepo cfg @ ''/'' @ path"

definition asset_location :: "config \<Rightarrow> release \<Rightarrow> asset \<Rightarrow> string" where
  "asset_location cfg rel a = (if asURL a = [] then assetURL cfg (reTagName rel) (asName a) else asURL a)"

definition checksumFor :: "config \<Rightarrow> 's host \<Rightarrow> release \<Rightarrow> string \<Rightarrow> 's \<Rightarrow> (goerr, string) result \<times> 's" where
  "checksumFor cfg h rel n s =
     (case findAsset (reAssets rel) ''checksums.txt'' of
        None \<Rightarrow> (Err (Text (''release '' @ reTagName rel
                   @ '' has no checksums.txt asset; refusing to update without a checksum to verify against'')), s)
      | Some a \<Rightarrow>
          (case getBody cfg h (asset_location cfg rel a) ''application/octet-stream'' s of
             (Inl e, s) \<Rightarrow> (Err e, s)
           | (Inr data, s) \<Rightarrow>
               (case ParseChecksums data of
                  Inl e \<Rightarrow> (Err (Wrap ''checksums.txt: '' e []), s)
                | Inr entries \<Rightarrow>
                    (case map_of entries n of
                       None \<Rightarrow> (Err (Text (''checksums.txt has no entry for '' @ n)), s)
                     | Some expected \<Rightarrow> (Ok expected, s)))))"

definition skipped_up_to_date :: "update_result \<Rightarrow> update_result" where
  "skipped_up_to_date r = r\<lparr>urSkippedReason := ''already up to date''\<rparr>"

definition first_update_result :: "config \<Rightarrow> release \<Rightarrow> asset \<Rightarrow> string \<Rightarrow> update_result" where
  "first_update_result cfg rel a path =
     \<lparr>urCurrentVersion = cfVersion cfg, urLatestVersion = reTagName rel, urUpdateAvailable = False,
      urAssetName = asName a, urInstallPath = path, urInstalled = False, urPending = False, urSkippedReason = []\<rparr>"

definition Update_plan :: "config \<Rightarrow> 's host \<Rightarrow> release \<Rightarrow> (goerr, update_result) result" where
  "Update_plan cfg h rel =
     (case AssetFor cfg rel of
        Inl e \<Rightarrow> Err e
      | Inr a \<Rightarrow>
          let res = first_update_result cfg rel a (case hoExecutable h of Inr exe \<Rightarrow> exe | Inl _ \<Rightarrow> [])
          in case UpdateAvailable (cfVersion cfg) (reTagName rel) of
               Inl e \<Rightarrow> Err e
             | Inr available \<Rightarrow>
                 Ok (if available then res\<lparr>urUpdateAvailable := True\<rparr> else skipped_up_to_date res))"

text \<open>The steps once an update is wanted: checksum, download, compare, unpack, install.\<close>

definition fetch_and_install ::
    "config \<Rightarrow> 's host \<Rightarrow> release \<Rightarrow> asset \<Rightarrow> string \<Rightarrow> update_result \<Rightarrow> 's \<Rightarrow> (goerr, update_result) result \<times> 's" where
  "fetch_and_install cfg h rel a path res s =
     (case checksumFor cfg h rel (asName a) s of
        (Inl e, s) \<Rightarrow> (Err e, s)
      | (Inr expected, s) \<Rightarrow>
     (case downloadToTemp cfg h (asset_location cfg rel a) s of
        (Inl e, s) \<Rightarrow> (Err e, s)
      | (Inr dl, s) \<Rightarrow>
          if \<not> EqualFold (dfSHA256 dl) expected
          then (Err (Text (''checksum mismatch for '' @ asName a @ '': checksums.txt says '' @ expected
                  @ '', downloaded '' @ dfSHA256 dl @ dash_sep @ ''refusing to install'')), s)
          else
     (case extractBinary h (asName a) (dfContent dl) of
        Inl e \<Rightarrow> (Err e, s)
      | Inr bin \<Rightarrow>
     (case hoInstall h bin path s of
        (Some e, pending, s) \<Rightarrow> if pending then (Ok (res\<lparr>urPending := True\<rparr>), s) else (Err e, s)
      | (None, pending, s) \<Rightarrow> (Ok (res\<lparr>urInstalled := True\<rparr>), s)))))"

definition Update :: "config \<Rightarrow> 's host \<Rightarrow> release \<Rightarrow> update_options \<Rightarrow> 's \<Rightarrow> (goerr, update_result) result \<times> 's" where
  "Update cfg h rel opts s =
     (case (if uoInstallPath opts = []
            then (case hoExecutable h of Inl e \<Rightarrow> Err (Wrap ''resolve current executable: '' e []) | Inr exe \<Rightarrow> Ok exe)
            else Ok (uoInstallPath opts)) of
        Inl e \<Rightarrow> (Err e, s)
      | Inr path \<Rightarrow>
     (case AssetFor cfg rel of
        Inl e \<Rightarrow> (Err e, s)
      | Inr a \<Rightarrow>
     (case UpdateAvailable (cfVersion cfg) (reTagName rel) of
        Inl e \<Rightarrow> (Err e, s)
      | Inr available \<Rightarrow>
          let res = first_update_result cfg rel a path
          in if \<not> available \<and> \<not> uoForce opts then (Ok (skipped_up_to_date res), s)
             else fetch_and_install cfg h rel a path (res\<lparr>urUpdateAvailable := True\<rparr>) s)))"

section \<open>Lemmas\<close>

text \<open>What the network cannot change: a part of the machine that no exchange touches.\<close>

definition network_only :: "'s host \<Rightarrow> ('s \<Rightarrow> 'b) \<Rightarrow> bool" where
  "network_only h part = (\<forall>u a s. part (snd (hoExchange h u a s)) = part s)"

lemma get_attempts_part:
  assumes "network_only h part" and "get_attempts h u a n e s = (r, s')"
  shows "part s' = part s"
  using assms(2)
proof (induction n arbitrary: e s)
  case (Suc n)
  obtain x s1 where x: "hoExchange h u a s = (x, s1)" by fastforce
  then have p: "part s1 = part s" using assms(1) unfolding network_only_def by (metis snd_conv)
  from Suc.prems x consider e' where "get_attempts h u a n e' s1 = (r, s')" | "s' = s1"
    by (auto split: sum.splits if_splits)
  then show ?case using Suc.IH p by cases auto
qed simp

lemma network_part:
  assumes "network_only h part"
  shows "getBody cfg h u a s = (r, s') \<Longrightarrow> part s' = part s"
    and "downloadToTemp cfg h u s = (d, s') \<Longrightarrow> part s' = part s"
    and "checksumFor cfg h rel n s = (c, s') \<Longrightarrow> part s' = part s"
proof -
  show body: "part s' = part s" if "getBody cfg h u a s = (r, s')" for u a s s' r
  proof -
    obtain x s1 where x: "http_get h u a s = (x, s1)" by fastforce
    with that have "s' = s1" by (auto simp: getBody_def split: sum.splits if_splits option.splits)
    with get_attempts_part[OF assms] x show ?thesis by (auto simp: http_get_def)
  qed
  show "part s' = part s" if "downloadToTemp cfg h u s = (d, s')"
  proof -
    obtain x s1 where x: "http_get h u ''application/octet-stream'' s = (x, s1)" by fastforce
    with that have "s' = s1" by (auto simp: downloadToTemp_def split: sum.splits if_splits option.splits)
    with get_attempts_part[OF assms] x show ?thesis by (auto simp: http_get_def)
  qed
  show "part s' = part s" if c: "checksumFor cfg h rel n s = (c, s')"
  proof (cases "findAsset (reAssets rel) ''checksums.txt''")
    case None
    with c show ?thesis by (simp add: checksumFor_def)
  next
    case (Some a)
    obtain x s1 where x: "getBody cfg h (asset_location cfg rel a) ''application/octet-stream'' s = (x, s1)" by fastforce
    with c Some have "s' = s1" by (auto simp: checksumFor_def split: sum.splits option.splits)
    with body[OF x] show ?thesis by simp
  qed
qed

lemma downloaded_hash: "downloadToTemp cfg h u s = (Inr dl, s') \<Longrightarrow> dfSHA256 dl = sha256_hex (dfContent dl)"
  by (auto simp: downloadToTemp_def split: sum.splits prod.splits if_splits option.splits)

lemma readLimited_ok: "readLimited d m = Inr b \<Longrightarrow> b = d \<and> int (length b) \<le> m"
  by (auto simp: readLimited_def split: if_splits)

lemma find_binary_ok:
  "find_binary_tar n xs broken = Inr b \<Longrightarrow> \<exists>x \<in> set xs. isBinaryName (aeName x) \<and> aeData x = b \<and> int (length b) \<le> maxBinaryBytes"
  "find_binary_zip xs = Inr b \<Longrightarrow> \<exists>x \<in> set xs. isBinaryName (aeName x) \<and> aeData x = b \<and> int (length b) \<le> maxBinaryBytes"
  by (induction xs arbitrary: n) (auto split: if_splits option.splits dest: readLimited_ok)

lemma extractBinary_ok:
  "extractBinary h n c = Inr b \<Longrightarrow> \<exists>xs broken. hoUnpack h n c = Inr (xs, broken) \<and>
     (\<exists>x \<in> set xs. isBinaryName (aeName x) \<and> aeData x = b) \<and> int (length b) \<le> maxBinaryBytes"
  using find_binary_ok
  by (fastforce simp: extractBinary_def extractZip_def split: sum.splits prod.splits if_splits)

text \<open>The release's own checksums.txt lists this checksum for this file.\<close>

definition listed_checksum :: "config \<Rightarrow> 's host \<Rightarrow> release \<Rightarrow> string \<Rightarrow> 's \<Rightarrow> string \<Rightarrow> bool" where
  "listed_checksum cfg h rel n s expected =
     (\<exists>a data entries. findAsset (reAssets rel) ''checksums.txt'' = Some a \<and>
        fst (getBody cfg h (asset_location cfg rel a) ''application/octet-stream'' s) = Ok data \<and>
        ParseChecksums data = Ok entries \<and> map_of entries n = Some expected)"

lemma checksumFor_ok:
  assumes "checksumFor cfg h rel n s = (Inr expected, s')"
  shows "listed_checksum cfg h rel n s expected"
  using assms by (auto simp: checksumFor_def listed_checksum_def split: option.splits sum.splits prod.splits)

section \<open>Properties\<close>

text \<open>
  C25: only a verified binary replaces the installed one. When an update changes the installed
  binary (any part of the machine that network requests leave alone), what it installed is
  a file named dlq or dlq.exe, of bounded size, of an archive whose SHA-256 is the one that the
  release's own checksums.txt lists for that archive. In particular a missing checksums.txt, a
  missing entry or a mismatch changes nothing.
\<close>

theorem only_verified_binary_is_installed:
  assumes "Update cfg h rel opts s = (r, s')" and "network_only h part" and "part s' \<noteq> part s"
  shows "\<exists>a content expected bin xs broken path s2. AssetFor cfg rel = Ok a \<and>
    listed_checksum cfg h rel (asName a) s expected \<and> EqualFold (sha256_hex content) expected \<and>
    hoUnpack h (asName a) content = Ok (xs, broken) \<and>
    (\<exists>x \<in> set xs. isBinaryName (aeName x) \<and> aeData x = bin) \<and> int (length bin) \<le> maxBinaryBytes \<and>
    part s2 = part s \<and> s' = snd (snd (hoInstall h bin path s2))"
proof -
  obtain a path res where f: "AssetFor cfg rel = Ok a" "fetch_and_install cfg h rel a path res s = (r, s')"
    using assms(1,3) by (auto simp: Update_def Let_def split: sum.splits if_splits)
  obtain c s1 where c: "checksumFor cfg h rel (asName a) s = (c, s1)" by fastforce
  have p1: "part s1 = part s" using network_part(3)[OF assms(2) c] .
  from f(2) c assms(3) p1 obtain expected where e: "c = Inr expected"
    by (cases c) (auto simp: fetch_and_install_def)
  obtain d s2 where d: "downloadToTemp cfg h (asset_location cfg rel a) s1 = (d, s2)" by fastforce
  have p2: "part s2 = part s" using network_part(2)[OF assms(2) d] p1 by simp
  from f(2) c e d assms(3) p2 obtain dl where dl: "d = Inr dl"
    by (cases d) (auto simp: fetch_and_install_def)
  from f(2) c e d dl assms(3) p2 have eq: "EqualFold (dfSHA256 dl) expected"
    by (auto simp: fetch_and_install_def split: if_splits)
  from f(2) c e d dl eq assms(3) p2 obtain bin where b: "extractBinary h (asName a) (dfContent dl) = Inr bin"
    by (cases "extractBinary h (asName a) (dfContent dl)") (auto simp: fetch_and_install_def)
  have "s' = snd (snd (hoInstall h bin path s2))"
    using f(2) c e d dl eq b by (auto simp: fetch_and_install_def split: prod.splits option.splits if_splits)
  moreover have "EqualFold (sha256_hex (dfContent dl)) expected" using eq downloaded_hash d dl by metis
  moreover obtain xs broken where "hoUnpack h (asName a) (dfContent dl) = Ok (xs, broken)"
    "\<exists>x \<in> set xs. isBinaryName (aeName x) \<and> aeData x = bin" "int (length bin) \<le> maxBinaryBytes"
    using extractBinary_ok[OF b] by blast
  ultimately show ?thesis using f(1) checksumFor_ok[OF c[unfolded e]] p2 by blast
qed

text \<open>
  When an update is offered. With a released current version it is offered exactly when
  that version is strictly older in the version order; a build without a semantic version is
  offered every release.
\<close>

theorem update_offered_iff_older:
  assumes "parseSemver latest = Ok lat"
  shows "UpdateAvailable current latest =
    Ok (case parseSemver current of Err _ \<Rightarrow> True | Ok cur \<Rightarrow> version_key cur < version_key lat)"
proof (cases "parseSemver current")
  case (Inl e)
  then have "current \<noteq> latest" using assms by auto
  with Inl assms show ?thesis by (simp add: UpdateAvailable_def)
next
  case (Inr cur)
  have "Compare cur lat < 0 \<longleftrightarrow> version_key cur < version_key lat"
    by (simp add: Compare_is_key cmp_of_def)
  with Inr assms show ?thesis by (simp add: UpdateAvailable_def)
qed

lemma some_versions:
  "parseSemver ''v1.10.0'' = Ok \<lparr>svMajor = 1, svMinor = 10, svPatch = 0, svPre = []\<rparr>"
  "parseSemver ''1.9.2'' = Ok \<lparr>svMajor = 1, svMinor = 9, svPatch = 2, svPre = []\<rparr>"
  "\<exists>e. parseSemver ''dev'' = Err e"
  by (simp_all add: parseSemver_def text_evals TrimPrefix_def cut_before_def Atoi_def parse_dec_def is_digit_def
      digit_val_def maxInt_def minInt_def Let_def)

theorem update_offered_iff_older_witness:
  "UpdateAvailable ''1.9.2'' ''v1.10.0'' = Ok True \<and> UpdateAvailable ''dev'' ''1.9.2'' = Ok True \<and>
   UpdateAvailable ''v1.10.0'' ''v1.10.0'' = Ok False"
  using update_offered_iff_older[OF some_versions(1), of "''1.9.2''"] update_offered_iff_older[OF some_versions(2), of "''dev''"]
    update_offered_iff_older[OF some_versions(1), of "''v1.10.0''"] some_versions
  by (auto simp: version_key_def)

section \<open>A concrete update\<close>

lemma hex_digit_byte: "n < 16 \<Longrightarrow> is_hex_byte (hex_digit n)"
  by (auto simp: is_hex_byte_def hex_digit_def Let_def)

lemma hex_byte_solid: "is_hex_byte c \<Longrightarrow> \<not> is_space c \<and> c \<noteq> CHR ''*''"
  by (auto simp: is_hex_byte_def is_space_def)

lemma sha256_hex_byte:
  assumes "c \<in> set (sha256_hex s)"
  shows "is_hex_byte c \<and> \<not> is_space c \<and> c \<noteq> CHR ''*''"
proof -
  have small: "unat (x AND 0xF :: 32 word) < 16" for x
  proof -
    have "x AND 0xF \<le> (0xF :: 32 word)" by (rule word_and_le1)
    then have "unat (x AND 0xF) \<le> unat (0xF :: 32 word)" by (simp only: word_le_nat_alt)
    then show ?thesis by simp
  qed
  from assms obtain w where "c \<in> set (word_hex w)" unfolding sha256_hex_def set_concat set_map by blast
  then obtain i where "c = hex_digit (unat (drop_bit (4 * i) w AND 0xF))"
    unfolding word_hex_def set_map by blast
  then have "is_hex_byte c" using hex_digit_byte[OF small] by simp
  then show ?thesis using hex_byte_solid by blast
qed

lemma Split_prefix: "c \<notin> set w \<Longrightarrow> Split c (w @ c # s) = w # Split c s"
  by (induction w) auto

lemma Fields_word:
  "w \<noteq> [] \<or> cur \<noteq> [] \<Longrightarrow> list_all (\<lambda>c. \<not> is_space c) w \<Longrightarrow> is_space c \<Longrightarrow> Fields_go cur (w @ c # s) = (rev cur @ w) # Fields_go [] s"
  by (induction w arbitrary: cur) auto

definition demo_release :: release where
  "demo_release = \<lparr>reTagName = ''v1.10.0'', reAssets = [\<lparr>asName = ''checksums.txt'', asURL = ''/sums''\<rparr>,
     \<lparr>asName = ''dlq-inspector_linux_amd64.tar.gz'', asURL = ''/archive''\<rparr>]\<rparr>"

definition demo_config :: config where
  "demo_config = \<lparr>cfRepo = ''o/r'', cfProject = ''dlq-inspector'', cfVersion = ''1.9.2'', cfGoos = ''linux'',
     cfGoarch = ''amd64'', cfAPIRoot = [], cfDownloadRoot = [], cfToken = [], cfUserAgent = []\<rparr>"

definition demo_checksums :: string where
  "demo_checksums = sha256_hex ''PK'' @ CHR '' '' # ''dlq-inspector_linux_amd64.tar.gz''"

text \<open>The machine's state is its installed binary.\<close>

definition demo_host :: "string host" where
  "demo_host = \<lparr>hoExchange = (\<lambda>u a s. (Ok \<lparr>hrStatus = 200, hrStatusText = [], hrRateRemaining = [],
       hrBody = Some (if u = ''/sums'' then demo_checksums else ''PK'')\<rparr>, s)),
     hoExecutable = Ok ''/usr/bin/dlq'',
     hoUnpack = (\<lambda>n c. Ok ([\<lparr>aeName = ''dlq'', aeRegular = True, aeData = ''new''\<rparr>], None)),
     hoInstall = (\<lambda>b p s. (None, False, b))\<rparr>"

lemma demo_asset: "AssetFor demo_config demo_release = Ok \<lparr>asName = ''dlq-inspector_linux_amd64.tar.gz'', asURL = ''/archive''\<rparr>"
  by (simp add: AssetFor_def demo_config_def demo_release_def text_evals)

lemma demo_parse: "ParseChecksums demo_checksums = Ok [(''dlq-inspector_linux_amd64.tar.gz'', ToLower (sha256_hex ''PK''))]"
proof -
  let ?h = "sha256_hex ''PK''" and ?n = "''dlq-inspector_linux_amd64.tar.gz''"
  have ne: "?h \<noteq> []" using length_sha256_hex[of "''PK''"] by (metis list.size(3) zero_neq_numeral)
  have nl: "CHR 0x0A \<notin> set demo_checksums"
    using sha256_hex_byte[of "CHR 0x0A" "''PK''"] by (auto simp: demo_checksums_def is_space_def)
  have "Split c w = [w]" if "c \<notin> set w" for c w
    using that by (induction w) auto
  with nl have "Split (CHR 0x0A) demo_checksums = [demo_checksums]" by blast
  moreover have "TrimSuffix demo_checksums [CHR 0x0D] = demo_checksums"
    by (simp add: TrimSuffix_def HasSuffix_def HasPrefix_def demo_checksums_def)
  ultimately have lines: "scan_lines demo_checksums = [demo_checksums]"
    by (simp add: scan_lines_def Let_def) (simp add: demo_checksums_def)
  have "Fields demo_checksums = ?h # Fields ?n"
    using Fields_word[of ?h "[]" "CHR '' ''" ?n] ne sha256_hex_byte[of _ "''PK''"]
    by (auto simp: Fields_def demo_checksums_def list_all_iff is_space_def)
  also have "Fields ?n = [?n]" by (simp add: Fields_def is_space_def)
  finally have f: "Fields demo_checksums = [?h, ?n]" .
  have star: "TrimPrefix ?h ''*'' = ?h"
    using ne sha256_hex_byte[of "hd ?h" "''PK''"] by (cases ?h) (auto simp: TrimPrefix_def HasPrefix_def)
  have "TrimPrefix ?n ''*'' = ?n" by (simp add: TrimPrefix_def HasPrefix_def)
  moreover have "length demo_checksums < 65536" by (simp add: demo_checksums_def)
  moreover have "list_all is_hex_byte ?h" using sha256_hex_byte by (simp add: list_all_iff)
  ultimately show ?thesis using f star by (simp add: ParseChecksums_def lines Let_def)
qed

lemma demo_update: "\<exists>res. Update demo_config demo_host demo_release \<lparr>uoForce = False, uoInstallPath = []\<rparr> ''old'' = (Ok res, ''new'')"
proof -
  have g: "http_get demo_host u a s = (Ok \<lparr>hrStatus = 200, hrStatusText = [], hrRateRemaining = [],
       hrBody = Some (if u = ''/sums'' then demo_checksums else ''PK'')\<rparr>, s)" for u a s
    by (simp add: http_get_def maxAttempts_def numeral_3_eq_3 demo_host_def)
  have "length demo_checksums < 65536" by (simp add: demo_checksums_def)
  then have c: "checksumFor demo_config demo_host demo_release ''dlq-inspector_linux_amd64.tar.gz'' s = (Ok (ToLower (sha256_hex ''PK'')), s)" for s
    using demo_parse by (simp add: checksumFor_def demo_release_def getBody_def asset_location_def g maxMetadataBytes_def)
  have d: "downloadToTemp demo_config demo_host ''/archive'' s = (Ok \<lparr>dfContent = ''PK'', dfSHA256 = sha256_hex ''PK''\<rparr>, s)" for s
    by (simp add: downloadToTemp_def g maxArchiveBytes_def)
  have b: "extractBinary demo_host ''dlq-inspector_linux_amd64.tar.gz'' ''PK'' = Ok ''new''"
    by (simp add: extractBinary_def demo_host_def HasSuffix_def HasPrefix_def maxEntries_def isBinaryName_def base_name_def
        TrimPrefix_def readLimited_def maxBinaryBytes_def)
  have u: "UpdateAvailable (cfVersion demo_config) (reTagName demo_release) = Ok True"
    using some_versions by (simp add: UpdateAvailable_def demo_config_def demo_release_def Compare_is_key cmp_of_def version_key_def)
  have "hoInstall demo_host x y s = (None, False, x)" "hoExecutable demo_host = Ok ''/usr/bin/dlq''" for x y s
    by (simp_all add: demo_host_def)
  then show ?thesis using demo_asset c d b u
    by (simp add: Update_def fetch_and_install_def asset_location_def EqualFold_def)
qed

theorem only_verified_binary_is_installed_witness:
  "\<exists>a content expected. AssetFor demo_config demo_release = Ok a \<and>
     listed_checksum demo_config demo_host demo_release (asName a) ''old'' expected \<and> EqualFold (sha256_hex content) expected"
proof -
  obtain res where u: "Update demo_config demo_host demo_release \<lparr>uoForce = False, uoInstallPath = []\<rparr> ''old'' = (Ok res, ''new'')"
    using demo_update by blast
  have n: "network_only demo_host id" by (simp add: network_only_def demo_host_def)
  have "id ''new'' \<noteq> id (''old'' :: string)" by simp
  from only_verified_binary_is_installed[OF u n this] show ?thesis by blast
qed

end
