(* ===== verification/Go_Float.thy ===== *)
theory Go_Float
  imports Go_Strings
begin

text \<open>
  Go's \<^verbatim>\<open>float64\<close> as far as a decoded JSON number needs it: the finite values, reading a
  decimal literal (\<open>strconv.ParseFloat\<close>: the nearest value, ties to even, an error when out of
  range), and the shortest decimal that reads back as the same value, written as \<open>%v\<close> or as
  \<^verbatim>\<open>encoding/json\<close> does.
\<close>

section \<open>Values and rounding\<close>

text \<open>
  A sign, a significand and a power of two. Of each value the representation with the
  smallest exponent that keeps 53 bits is used (\<open>valid64\<close>).
\<close>

datatype float64 = F64 (fNeg: bool) (fMan: nat) (fExp: int)

definition valid64 :: "nat \<times> int \<Rightarrow> bool" where
  "valid64 x = (case x of (m, e) \<Rightarrow>
     m < 2 ^ 53 \<and> - 1074 \<le> e \<and> e \<le> 971 \<and> (2 ^ 52 \<le> m \<or> e = - 1074))"

fun bits :: "nat \<Rightarrow> nat" where
  "bits n = (if n = 0 then 0 else Suc (bits (n div 2)))"

declare bits.simps [simp del]

definition half_even :: "nat \<Rightarrow> nat \<Rightarrow> nat" where
  "half_even a b =
     (let q = a div b; r = a mod b in if 2 * r < b \<or> 2 * r = b \<and> even q then q else q + 1)"

text \<open>The ratio \<open>a / b\<close> divided by \<open>2 ^ e\<close>, and the exponent of its leading bit.\<close>

definition scaled :: "nat \<Rightarrow> nat \<Rightarrow> int \<Rightarrow> nat \<times> nat" where
  "scaled a b e = (if e \<ge> 0 then (a, b * 2 ^ nat e) else (a * 2 ^ nat (- e), b))"

definition floor_log2 :: "nat \<Rightarrow> nat \<Rightarrow> int" where
  "floor_log2 a b =
     (let l = int (bits a) - int (bits b); (x, y) = scaled a b l in if y \<le> x then l else l - 1)"

definition round64 :: "nat \<Rightarrow> nat \<Rightarrow> (nat \<times> int) option" where
  "round64 a b =
     (if a = 0 then Some (0, - 1074)
      else let e = max (- 1074) (floor_log2 a b - 52);
               (x, y) = scaled a b e;
               q = half_even x y;
               (m, e) = (if q = 2 ^ 53 then (2 ^ 52, e + 1) else (q, e))
           in if e > 971 then None else Some (m, e))"

section \<open>Reading a literal\<close>

definition round_decimal :: "nat \<Rightarrow> int \<Rightarrow> (nat \<times> int) option" where
  "round_decimal d k = (if k \<ge> 0 then round64 (d * 10 ^ nat k) 1 else round64 d (10 ^ nat (- k)))"

text \<open>The sign, the digits without the point, and the power of ten of a JSON number.\<close>

definition read_literal :: "string \<Rightarrow> bool \<times> nat \<times> int" where
  "read_literal s =
     (let neg = HasPrefix s ''-'';
          body = TrimPrefix s ''-'';
          mant = takeWhile (\<lambda>c. c \<noteq> CHR ''e'' \<and> c \<noteq> CHR ''E'') body;
          ex = drop (length mant + 1) body;
          ip = takeWhile (\<lambda>c. c \<noteq> CHR ''.'') mant;
          fp = drop (length ip + 1) mant
      in (neg, nat (digits_val 0 (ip @ fp)),
          (if ex = [] then 0 else the (parse_dec ex)) - int (length fp)))"

definition ParseFloat :: "string \<Rightarrow> float64 option" where
  "ParseFloat s = (case read_literal s of (neg, d, k) \<Rightarrow>
     map_option (\<lambda>(m, e). F64 neg m e) (round_decimal d k))"

section \<open>The shortest decimal\<close>

definition exact_decimal :: "nat \<Rightarrow> int \<Rightarrow> nat \<times> int" where
  "exact_decimal m e = (if e \<ge> 0 then (m * 2 ^ nat e, 0) else (m * 5 ^ nat (- e), e))"

text \<open>
  Dropping the last \<open>p\<close> digits of \<open>d * 10 ^ k\<close>: rounding down or up is allowed when the result
  still reads back as \<open>x\<close>; when both are, the nearer one is taken.
\<close>

definition shorten :: "nat \<times> int \<Rightarrow> nat \<Rightarrow> int \<Rightarrow> nat \<Rightarrow> (nat \<times> int) option" where
  "shorten x d k p =
     (let q = 10 ^ p; lo = d div q; r = d mod q; k = k + int p;
          down = (round_decimal lo k = Some x); up = (round_decimal (lo + 1) k = Some x)
      in if down \<and> up
         then Some (if 2 * r < q \<or> 2 * r = q \<and> even lo then lo else lo + 1, k)
         else if down then Some (lo, k) else if up then Some (lo + 1, k) else None)"

fun shortest_from :: "nat \<times> int \<Rightarrow> nat \<Rightarrow> int \<Rightarrow> nat \<Rightarrow> nat \<times> int" where
  "shortest_from x d k 0 = (d, k)"
| "shortest_from x d k (Suc p) =
     (case shorten x d k (Suc p) of Some r \<Rightarrow> r | None \<Rightarrow> shortest_from x d k p)"

text \<open>The digits without trailing zeros, and the position of the decimal point before them.\<close>

definition trim_zeros :: "string \<Rightarrow> string" where
  "trim_zeros ds = rev (dropWhile (\<lambda>c. c = CHR ''0'') (rev ds))"

definition shortest :: "nat \<Rightarrow> int \<Rightarrow> string \<times> int" where
  "shortest m e =
     (if m = 0 then ([], 0)
      else let (d, k) = exact_decimal m e;
               (d, k) = shortest_from (m, e) d k (length (nat_text d) - 1)
           in (trim_zeros (nat_text d), int (length (nat_text d)) + k))"

section \<open>Writing\<close>

definition fmtF :: "string \<Rightarrow> int \<Rightarrow> string" where
  "fmtF ds dp =
     (if dp > 0 then take (nat dp) ds @ replicate (nat dp - length ds) (CHR ''0'') else ''0'') @
     (if int (length ds) > dp
      then ''.'' @ replicate (nat (- dp)) (CHR ''0'') @ drop (nat dp) ds else [])"

definition fmtE :: "string \<Rightarrow> int \<Rightarrow> string" where
  "fmtE ds dp =
     (case ds of [] \<Rightarrow> ''0e+00''
      | d # fs \<Rightarrow>
          let x = dp - 1; t = nat_text (nat \<bar>x\<bar>)
          in [d] @ (if fs = [] then [] else CHR ''.'' # fs) @ ''e'' @ (if x < 0 then ''-'' else ''+'')
             @ (if length t < 2 then CHR ''0'' # t else t))"

text \<open>The verb \<open>%v\<close>: exponent form below \<open>10 ^ -4\<close> and from \<open>10 ^ 6\<close> on.\<close>

definition sign_text :: "bool \<Rightarrow> string" where
  "sign_text neg = (if neg then ''-'' else [])"

definition FormatG :: "float64 \<Rightarrow> string" where
  "FormatG x = (case shortest (fMan x) (fExp x) of (ds, dp) \<Rightarrow>
     sign_text (fNeg x) @ (if dp - 1 < - 4 \<or> dp - 1 \<ge> 6 then fmtE ds dp else fmtF ds dp))"

definition less64 :: "nat \<times> int \<Rightarrow> nat \<times> int \<Rightarrow> bool" where
  "less64 x y = (snd x < snd y \<or> snd x = snd y \<and> fst x < fst y)"

text \<open>
  \<^verbatim>\<open>encoding/json\<close>: exponent form for non-zero values below \<open>1e-6\<close> and from \<open>1e21\<close> on, with
  a one-digit negative exponent written as one digit.
\<close>

definition clean_exponent :: "string \<Rightarrow> string" where
  "clean_exponent t =
     (let n = length t in
      if n \<ge> 4 \<and> t ! (n - 4) = CHR ''e'' \<and> t ! (n - 3) = CHR ''-'' \<and> t ! (n - 2) = CHR ''0''
      then take (n - 2) t @ [t ! (n - 1)] else t)"

definition FormatJSON :: "float64 \<Rightarrow> string" where
  "FormatJSON x =
     (let a = (fMan x, fExp x); (ds, dp) = shortest (fMan x) (fExp x)
      in sign_text (fNeg x) @
         (if fMan x \<noteq> 0 \<and> (less64 a (the (round_decimal 1 (- 6))) \<or> \<not> less64 a (the (round_decimal 1 21)))
          then clean_exponent (fmtE ds dp) else fmtF ds dp))"

section \<open>Rounding depends on the value only\<close>

lemma bits_bounds: "0 < n \<Longrightarrow> 2 ^ (bits n - 1) \<le> n \<and> n < 2 ^ bits n \<and> 0 < bits n"
proof (induction n rule: bits.induct)
  case (1 n)
  show ?case
  proof (cases "n div 2 = 0")
    case True
    with "1.prems" have "n = 1" by simp
    then show ?thesis by (simp add: bits.simps)
  next
    case False
    with "1.IH" "1.prems" have ih: "2 ^ (bits (n div 2) - 1) \<le> n div 2" "n div 2 < 2 ^ bits (n div 2)"
        "0 < bits (n div 2)" by auto
    have b: "bits n = Suc (bits (n div 2))" using "1.prems" by (simp add: bits.simps[of n])
    define P where "P = (2::nat) ^ (bits (n div 2) - 1)"
    have "2 ^ bits (n div 2) = 2 * P"
      using ih(3) by (simp add: P_def flip: power_Suc)
    then have "P \<le> n div 2" "n div 2 < 2 * P" "2 ^ (bits n - 1) = 2 * P" "2 ^ bits n = 4 * P"
      using ih b by (simp_all add: P_def)
    then show ?thesis by (auto simp: b)
  qed
qed

lemma powi_le_iff: "(2::real) powi i \<le> 2 powi j \<longleftrightarrow> i \<le> j"
  using power_int_increasing[of i j "2::real"] power_int_strict_increasing[of j i "2::real"]
  by (auto simp: not_less[symmetric] dest: leD)

lemma power_real_iff:
  "(2::real) ^ k \<le> real n \<longleftrightarrow> 2 ^ k \<le> n" "real n < (2::real) ^ k \<longleftrightarrow> n < 2 ^ k"
proof -
  have "(2::real) ^ k = real (2 ^ k)" by simp
  then show "(2::real) ^ k \<le> real n \<longleftrightarrow> 2 ^ k \<le> n" "real n < (2::real) ^ k \<longleftrightarrow> n < 2 ^ k"
    by (simp_all only: of_nat_le_iff of_nat_less_iff)
qed

lemma ratio_scaled:
  assumes "scaled a b e = (x, y)" "0 < b"
  shows "real x / real y = real a / real b / 2 powi e" and "0 < y"
  using assms by (auto simp: scaled_def power_int_def field_simps split: if_splits)

lemma floor_log2_bounds:
  assumes "0 < a" "0 < b"
  shows "2 powi floor_log2 a b \<le> real a / real b" and "real a / real b < 2 powi (floor_log2 a b + 1)"
proof -
  define l where "l = int (bits a) - int (bits b)"
  obtain x y where s: "scaled a b l = (x, y)" by fastforce
  have a: "2 ^ (bits a - 1) \<le> real a" "real a < 2 ^ bits a" "0 < bits a"
    and b: "2 ^ (bits b - 1) \<le> real b" "real b < 2 ^ bits b" "0 < bits b"
    using bits_bounds[OF assms(1)] bits_bounds[OF assms(2)] by (simp_all only: power_real_iff)
  have p: "(2::real) powi l = 2 ^ bits a / 2 ^ bits b"
    by (simp add: l_def power_int_diff)
  have q: "(2::real) ^ bits a = 2 * 2 ^ (bits a - 1)" "(2::real) ^ bits b = 2 * 2 ^ (bits b - 1)"
    using a(3) b(3) by (simp_all flip: power_Suc)
  have up: "real a / real b < 2 * 2 powi l"
  proof -
    have "real a / real b < 2 ^ bits a / 2 ^ (bits b - 1)"
      using a b assms by (intro frac_less) auto
    then show ?thesis by (simp add: p q)
  qed
  have lo: "2 powi l / 2 \<le> real a / real b"
  proof -
    have "2 ^ (bits a - 1) / 2 ^ bits b \<le> real a / real b"
      using a b assms by (intro frac_le) auto
    then show ?thesis by (simp add: p q)
  qed
  have sc: "y \<le> x \<longleftrightarrow> 2 powi l \<le> real a / real b"
  proof -
    have "y \<le> x \<longleftrightarrow> 1 \<le> real x / real y" using ratio_scaled(2)[OF s assms(2)] by simp
    also have "\<dots> \<longleftrightarrow> 2 powi l \<le> real a / real b"
      unfolding ratio_scaled(1)[OF s assms(2)] by (simp only: pos_le_divide_eq[OF zero_less_power_int[OF zero_less_numeral]] mult_1)
    finally show ?thesis .
  qed
  show "2 powi floor_log2 a b \<le> real a / real b" "real a / real b < 2 powi (floor_log2 a b + 1)"
    using up lo sc s by (auto simp: floor_log2_def l_def[symmetric] power_int_add power_int_diff)
qed

lemma floor_log2_unique:
  assumes "0 < a" "0 < b" "2 powi l \<le> real a / real b" "real a / real b < 2 powi (l + 1)"
  shows "floor_log2 a b = l"
proof -
  have "(2::real) powi l < 2 powi (floor_log2 a b + 1)" "(2::real) powi floor_log2 a b < 2 powi (l + 1)"
    using assms floor_log2_bounds[OF assms(1,2)] by linarith+
  then show ?thesis
    using powi_le_iff[of "floor_log2 a b + 1" l] powi_le_iff[of "l + 1" "floor_log2 a b"] by linarith
qed

lemma half_even_scale: "0 < c \<Longrightarrow> half_even (a * c) (b * c) = half_even a b"
proof -
  assume c: "0 < c"
  have "(2 * (a mod b * c) < b * c) = (2 * (a mod b) < b)" "(2 * (a mod b * c) = b * c) = (2 * (a mod b) = b)"
    using c by (metis mult.assoc mult_less_cancel2, metis c mult.assoc mult_cancel2 less_irrefl)
  then show ?thesis using c by (simp add: half_even_def Let_def mod_mult_mult2)
qed

lemma round64_scale:
  assumes "0 < b" "0 < c"
  shows "round64 (a * c) (b * c) = round64 a b"
proof (cases "a = 0")
  case False
  have "floor_log2 (a * c) (b * c) = floor_log2 a b"
    using floor_log2_bounds[of a b] False assms by (intro floor_log2_unique) auto
  moreover have "scaled (a * c) (b * c) e = (case scaled a b e of (x, y) \<Rightarrow> (x * c, y * c))" for e
    by (simp add: scaled_def ac_simps)
  ultimately show ?thesis
    using assms by (simp add: round64_def Let_def half_even_scale split: prod.split)
qed (simp add: round64_def)

lemma round64_cong:
  assumes "a * d = c * b" "0 < b" "0 < d"
  shows "round64 a b = round64 c d"
  using round64_scale[OF assms(2,3), of a] round64_scale[OF assms(3,2), of c] assms(1)
  by (simp add: mult.commute)

lemma round64_exact:
  assumes v: "valid64 (m, e)" and b: "0 < b" and m: "0 < m" and r: "real a / real b = real m * 2 powi e"
  shows "round64 a b = Some (m, e)"
proof -
  have a: "0 < a" using r m b by (cases a) auto
  have bnd: "m < 2 ^ 53" "- 1074 \<le> e" "e \<le> 971" "2 ^ 52 \<le> m \<or> e = - 1074"
    using v by (auto simp: valid64_def)
  have ex: "max (- 1074) (floor_log2 a b - 52) = e"
  proof (cases "2 ^ 52 \<le> m")
    case True
    have "floor_log2 a b = e + 52"
    proof (rule floor_log2_unique[OF a b])
      have "(2::real) ^ 52 \<le> real m" "real m < 2 ^ 53"
        using True bnd(1) by (simp_all only: power_real_iff)
      then show "2 powi (e + 52) \<le> real a / real b" "real a / real b < 2 powi (e + 52 + 1)"
        by (auto simp: r power_int_add)
    qed
    with bnd show ?thesis by simp
  next
    case False
    then have "real m < 2 ^ 52"
      by (simp only: power_real_iff not_le)
    then have "real a / real b < 2 powi (e + 52)" by (auto simp: r power_int_add)
    then have "(2::real) powi floor_log2 a b < 2 powi (e + 52)"
      using floor_log2_bounds(1)[OF a b] by linarith
    then have "floor_log2 a b < e + 52" using powi_le_iff[of "e + 52" "floor_log2 a b"] by linarith
    with False bnd show ?thesis by auto
  qed
  obtain x y where s: "scaled a b e = (x, y)" by fastforce
  have "real x / real y = real m" using ratio_scaled(1)[OF s b] r by simp
  then have xy: "x = m * y" using ratio_scaled(2)[OF s b]
    by (simp add: field_simps flip: of_nat_mult of_nat_eq_iff)
  have "half_even x y = m" using ratio_scaled(2)[OF s b] by (simp add: xy half_even_def)
  with a ex s bnd show ?thesis by (simp add: round64_def Let_def)
qed

section \<open>The shortest decimal reads back\<close>

lemma round64_cong_real:
  assumes "0 < b" "0 < d" "real a / real b = real c / real d"
  shows "round64 a b = round64 c d"
proof -
  have "real (a * d) = real (c * b)" using assms by (simp add: field_simps)
  then have "a * d = c * b" by (simp only: of_nat_eq_iff)
  then show ?thesis using assms by (rule_tac round64_cong)
qed

lemma round_decimal_ratio:
  obtains a b where "0 < b" "round_decimal d k = round64 a b" "real a / real b = real d * 10 powi k"
proof (cases "0 \<le> k")
  case True
  then show ?thesis
    by (intro that[of 1 "d * 10 ^ nat k"]) (simp_all add: round_decimal_def power_int_def)
next
  case False
  then show ?thesis
    by (intro that[of "10 ^ nat (- k)" d]) (simp_all add: round_decimal_def power_int_def field_simps)
qed

lemma round_decimal_cong:
  assumes "real d * 10 powi k = real d' * 10 powi k'"
  shows "round_decimal d k = round_decimal d' k'"
proof -
  obtain a b c e where "0 < b" "round_decimal d k = round64 a b" "real a / real b = real d * 10 powi k"
    "0 < e" "round_decimal d' k' = round64 c e" "real c / real e = real d' * 10 powi k'"
    by (metis round_decimal_ratio)
  then show ?thesis using round64_cong_real[of b e a c] assms by simp
qed

lemma round_decimal_exact:
  assumes "valid64 (m, e)" "0 < m" "real d * 10 powi k = real m * 2 powi e"
  shows "round_decimal d k = Some (m, e)"
proof -
  obtain a b where "0 < b" "round_decimal d k = round64 a b" "real a / real b = real d * 10 powi k"
    by (rule round_decimal_ratio)
  then show ?thesis using round64_exact[OF assms(1) _ assms(2)] assms(3) by simp
qed

lemma exact_decimal_value: "exact_decimal m e = (d, k) \<Longrightarrow> real d * 10 powi k = real m * 2 powi e"
proof (cases "0 \<le> e")
  case False
  assume "exact_decimal m e = (d, k)"
  with False have "d = m * 5 ^ nat (- e)" "k = e" by (auto simp: exact_decimal_def)
  moreover have "(10::real) powi e = 2 powi e / 5 ^ nat (- e)"
    using False by (simp add: power_int_def power_mult_distrib[symmetric] field_simps)
  ultimately show ?thesis by simp
qed (auto simp: exact_decimal_def power_int_def)

lemma shorten_reads: "shorten x d k p = Some (d', k') \<Longrightarrow> round_decimal d' k' = Some x"
  by (auto simp: shorten_def Let_def split: if_splits)

lemma shortest_from_reads:
  "round_decimal d k = Some x \<Longrightarrow> shortest_from x d k p = (d', k') \<Longrightarrow> round_decimal d' k' = Some x"
  by (induction p) (auto dest: shorten_reads split: option.splits)

section \<open>Digits\<close>

lemma digits_val_append: "digits_val acc (s @ t) = digits_val (digits_val acc s) t"
  by (induction s arbitrary: acc) simp_all

lemma digits_val_acc: "digits_val acc s = acc * 10 ^ length s + digits_val 0 s"
proof (induction s arbitrary: acc)
  case (Cons c s)
  show ?case
    using Cons[of "10 * acc + digit_val c"] Cons[of "digit_val c"] by (simp add: algebra_simps)
qed simp

lemma digits_val_zeros [simp]: "digits_val acc (replicate n (CHR ''0'')) = acc * 10 ^ n"
  by (induction n arbitrary: acc) (simp_all add: digit_val_def)

lemma digits_val_nonneg: "list_all is_digit s \<Longrightarrow> 0 \<le> acc \<Longrightarrow> 0 \<le> digits_val acc s"
  by (induction s arbitrary: acc) (auto simp: is_digit_def digit_val_def)

lemma digit_char_digit: "n < 10 \<Longrightarrow> is_digit (digit_char n) \<and> digit_val (digit_char n) = int n"
  by (simp add: is_digit_def digit_val_def)

lemma nat_text_value: "digits_val 0 (nat_text n) = int n"
proof (induction n rule: nat_text.induct)
  case (1 n)
  show ?case
  proof (cases "n < 10")
    case True
    then show ?thesis using digit_char_digit[of n] by (simp add: nat_text.simps[of n] del: digit_char.simps)
  next
    case False
    then have "digits_val 0 (nat_text n) = 10 * int (n div 10) + int (n mod 10)"
      using 1 digit_char_digit[of "n mod 10"]
      by (simp add: nat_text.simps[of n] digits_val_append del: digit_char.simps)
    then show ?thesis by (simp add: zdiv_int zmod_int)
  qed
qed

lemma nat_text_digits: "list_all is_digit (nat_text n)"
proof (induction n rule: nat_text.induct)
  case (1 n)
  then show ?case
    using digit_char_digit[of n] digit_char_digit[of "n mod 10"]
    by (cases "n < 10") (simp_all add: nat_text.simps[of n] del: digit_char.simps)
qed

lemma nat_text_nonempty [simp]: "nat_text n \<noteq> []"
  by (subst nat_text.simps) simp

lemma parse_dec_Itoa: "parse_dec (Itoa n) = Some n"
proof -
  have t: "list_all is_digit (nat_text k)" "nat_text k \<noteq> []" "digits_val 0 (nat_text k) = int k" for k
    using nat_text_digits[of k] nat_text_nonempty[of k] nat_text_value[of k] by simp_all
  have h: "hd (nat_text k) \<noteq> CHR ''-''" "hd (nat_text k) \<noteq> CHR ''+''" for k
    using t(1,2)[of k] by (cases "nat_text k"; auto simp: is_digit_def)+
  show ?thesis
    by (cases "n < 0") (simp_all add: Itoa_def parse_dec_def Let_def t h)
qed

lemma Atoi_Itoa: "minInt \<le> n \<Longrightarrow> n \<le> maxInt \<Longrightarrow> Atoi (Itoa n) = Some n"
  by (simp add: Atoi_def parse_dec_Itoa)

lemma nat_text_hd: "0 < n \<Longrightarrow> hd (nat_text n) \<noteq> CHR ''0''"
proof (induction n rule: nat_text.induct)
  case (1 n)
  show ?case
  proof (cases "n < 10")
    case True
    have "digit_val (digit_char n) = int n" using digit_char_digit[OF True] by simp
    moreover have "digit_val (CHR ''0'') = 0" by (simp add: digit_val_def)
    ultimately have "digit_char n \<noteq> CHR ''0''" using 1(2) by fastforce
    then show ?thesis using True by (simp add: nat_text.simps[of n] del: digit_char.simps)
  next
    case False
    then show ?thesis using 1 by (simp add: nat_text.simps[of n])
  qed
qed

lemma trim_zeros_split: obtains z where "s = trim_zeros s @ replicate z (CHR ''0'')"
proof -
  let ?p = "\<lambda>c. c = CHR ''0''"
  have "rev s = takeWhile ?p (rev s) @ dropWhile ?p (rev s)" by simp
  then have "s = trim_zeros s @ rev (takeWhile ?p (rev s))"
    unfolding trim_zeros_def by (metis rev_append rev_rev_ident)
  moreover have "rev (takeWhile ?p (rev s)) = replicate (length (takeWhile ?p (rev s))) (CHR ''0'')"
    by (rule replicate_eqI) (auto dest: set_takeWhileD)
  ultimately show ?thesis using that by metis
qed

text \<open>What \<open>shortest\<close> hands to the writers: digits without a leading zero, and their value.\<close>

lemma shortest_reads:
  assumes v: "valid64 (m, e)" and m: "0 < m" and s: "shortest m e = (ds, dp)"
  shows "list_all is_digit ds" and "ds \<noteq> []" and "hd ds \<noteq> CHR ''0''"
    and "real d * 10 powi k = real_of_int (digits_val 0 ds) * 10 powi (dp - int (length ds)) \<Longrightarrow>
      round_decimal d k = Some (m, e)"
proof -
  obtain d0 k0 where x: "exact_decimal m e = (d0, k0)" by fastforce
  obtain d1 k1 where f: "shortest_from (m, e) d0 k0 (length (nat_text d0) - 1) = (d1, k1)" by fastforce
  have "round_decimal d0 k0 = Some (m, e)"
    by (rule round_decimal_exact[OF v m exact_decimal_value[OF x]])
  then have r: "round_decimal d1 k1 = Some (m, e)" using f by (rule shortest_from_reads)
  have d1: "0 < d1"
    using r m by (cases "d1 = 0") (auto simp: round_decimal_def round64_def split: if_splits)
  have ds: "ds = trim_zeros (nat_text d1)" "dp = int (length (nat_text d1)) + k1"
    using s m x f by (auto simp: shortest_def)
  obtain z where z: "nat_text d1 = ds @ replicate z (CHR ''0'')"
    using trim_zeros_split[of "nat_text d1"] ds(1) by metis
  show "list_all is_digit ds" using nat_text_digits[of d1] by (simp add: z)
  show ne: "ds \<noteq> []"
  proof
    assume "ds = []"
    with z have "digits_val 0 (nat_text d1) = 0" by simp
    with d1 show False by (simp add: nat_text_value)
  qed
  show "hd ds \<noteq> CHR ''0''" using nat_text_hd[OF d1] ne by (simp add: z)
  have "int d1 = digits_val 0 ds * 10 ^ z"
    using nat_text_value[of d1] by (simp add: z digits_val_append)
  then have "real d1 = real_of_int (digits_val 0 ds) * 10 ^ z"
    by (metis of_int_mult of_int_numeral of_int_of_nat_eq of_int_power)
  moreover have "dp - int (length ds) = k1 + int z" using ds(2) by (simp add: z)
  ultimately have "real_of_int (digits_val 0 ds) * 10 powi (dp - int (length ds)) = real d1 * 10 powi k1"
    by (simp add: power_int_add)
  then show "real d * 10 powi k = real_of_int (digits_val 0 ds) * 10 powi (dp - int (length ds)) \<Longrightarrow>
      round_decimal d k = Some (m, e)"
    using round_decimal_cong[of d k d1 k1] r by simp
qed

section \<open>A written number reads back\<close>

text \<open>
  The parts of a number of the grammar: sign, integer digits, fraction digits, and the
  exponent with its sign.
\<close>

definition no_leading_zero :: "string \<Rightarrow> bool" where
  "no_leading_zero ip = (list_all is_digit ip \<and> ip \<noteq> [] \<and> (hd ip = CHR ''0'' \<longrightarrow> ip = ''0''))"

definition exponent_text :: "(string \<times> string) option \<Rightarrow> string" where
  "exponent_text x = (case x of None \<Rightarrow> [] | Some (sg, ds) \<Rightarrow> ''e'' @ sg @ ds)"

definition exponent_ok :: "(string \<times> string) option \<Rightarrow> bool" where
  "exponent_ok x = (case x of None \<Rightarrow> True
     | Some (sg, ds) \<Rightarrow> sg \<in> {''+'', ''-''} \<and> ds \<noteq> [] \<and> list_all is_digit ds)"

definition exponent_value :: "(string \<times> string) option \<Rightarrow> int" where
  "exponent_value x = (case x of None \<Rightarrow> 0
     | Some (sg, ds) \<Rightarrow> if sg = ''-'' then - digits_val 0 ds else digits_val 0 ds)"

definition number_text :: "bool \<Rightarrow> string \<Rightarrow> string \<Rightarrow> (string \<times> string) option \<Rightarrow> string" where
  "number_text neg ip fp x = sign_text neg @ ip @ (if fp = [] then [] else ''.'' @ fp) @ exponent_text x"

definition number_ok :: "string \<Rightarrow> string \<Rightarrow> (string \<times> string) option \<Rightarrow> bool" where
  "number_ok ip fp x = (no_leading_zero ip \<and> list_all is_digit fp \<and> exponent_ok x)"

lemma digit_not_mark:
  assumes "is_digit c"
  shows "c \<noteq> CHR ''.''" "c \<noteq> CHR ''e''" "c \<noteq> CHR ''E''" "c \<noteq> CHR ''-''" "c \<noteq> CHR ''+''"
  using assms by (auto simp: is_digit_def)

lemma takeWhile_digits:
  assumes "list_all is_digit ds" "\<And>c. is_digit c \<Longrightarrow> P c" "s = [] \<or> \<not> P (hd s)"
  shows "takeWhile P (ds @ s) = ds" "dropWhile P (ds @ s) = s"
  using assms by (induction ds) (auto simp: takeWhile_eq_Nil_iff dropWhile_eq_self_iff)

lemma read_literal_number:
  assumes ok: "number_ok ip fp x"
  shows "read_literal (number_text neg ip fp x) =
    (neg, nat (digits_val 0 (ip @ fp)), exponent_value x - int (length fp))"
proof -
  let ?mant = "ip @ (if fp = [] then [] else ''.'' @ fp)"
  let ?P = "\<lambda>c. c \<noteq> CHR ''e'' \<and> c \<noteq> CHR ''E''"
  have ip: "list_all is_digit ip" "ip \<noteq> []" and fp: "list_all is_digit fp" and x: "exponent_ok x"
    using ok by (auto simp: number_ok_def no_leading_zero_def)
  have body: "TrimPrefix (number_text neg ip fp x) ''-'' = ?mant @ exponent_text x"
    "HasPrefix (number_text neg ip fp x) ''-'' = neg"
    using ip by (cases ip; auto simp: number_text_def sign_text_def TrimPrefix_def HasPrefix_def
        dest: digit_not_mark)+
  have fpP: "takeWhile ?P (fp @ exponent_text x) = fp"
    using fp by (intro takeWhile_digits)
      (auto dest: digit_not_mark simp: exponent_text_def split: option.split)
  have mant: "takeWhile ?P (?mant @ exponent_text x) = ?mant"
  proof (cases "fp = []")
    case True
    then show ?thesis using ip(1)
      by (simp, intro takeWhile_digits) (auto dest: digit_not_mark simp: exponent_text_def split: option.split)
  next
    case False
    have "\<forall>c \<in> set ?mant. ?P c"
      using ip(1) fp by (auto simp: list_all_iff dest: digit_not_mark)
    then have "takeWhile ?P (?mant @ exponent_text x) = ?mant @ takeWhile ?P (exponent_text x)"
      by (intro takeWhile_append2) auto
    also have "takeWhile ?P (exponent_text x) = []"
      by (auto simp: exponent_text_def split: option.split)
    finally show ?thesis by simp
  qed
  have int: "takeWhile (\<lambda>c. c \<noteq> CHR ''.'') ?mant = ip"
    by (rule takeWhile_digits(1)[OF ip(1)]) (auto dest: digit_not_mark)
  have frac: "drop (length ip + 1) ?mant = fp" by simp
  have ex: "drop (length ?mant + 1) (?mant @ exponent_text x) =
      (case x of None \<Rightarrow> [] | Some (sg, ds) \<Rightarrow> sg @ ds)"
    by (simp only: drop_append) (auto simp: exponent_text_def split: option.split)
  have dec: "(if (case x of None \<Rightarrow> [] | Some (sg, ds) \<Rightarrow> sg @ ds) = [] then 0
       else the (parse_dec (case x of None \<Rightarrow> [] | Some (sg, ds) \<Rightarrow> sg @ ds))) = exponent_value x"
    using x by (auto simp: exponent_ok_def exponent_value_def parse_dec_def split: option.split)
  show ?thesis
    unfolding read_literal_def Let_def body mant int frac ex dec ..
qed

lemma ParseFloat_number:
  assumes v: "valid64 (m, e)" and m: "0 < m" and s: "shortest m e = (ds, dp)"
    and ok: "number_ok ip fp x"
    and val: "real_of_int (digits_val 0 (ip @ fp)) * 10 powi (exponent_value x - int (length fp)) =
      real_of_int (digits_val 0 ds) * 10 powi (dp - int (length ds))"
  shows "ParseFloat (number_text neg ip fp x) = Some (F64 neg m e)"
proof -
  have "list_all is_digit (ip @ fp)" using ok by (auto simp: number_ok_def no_leading_zero_def)
  then have "real (nat (digits_val 0 (ip @ fp))) = real_of_int (digits_val 0 (ip @ fp))"
    using digits_val_nonneg[of "ip @ fp" 0] by simp
  then have "round_decimal (nat (digits_val 0 (ip @ fp))) (exponent_value x - int (length fp)) = Some (m, e)"
    using shortest_reads(4)[OF v m s] val by simp
  then show ?thesis by (simp add: ParseFloat_def read_literal_number[OF ok])
qed

lemma digits_val_take_drop:
  "digits_val 0 ds = digits_val 0 (take n ds) * 10 ^ (length ds - n) + digits_val 0 (drop n ds)"
  using digits_val_append[of 0 "take n ds" "drop n ds"] digits_val_acc[of "digits_val 0 (take n ds)" "drop n ds"]
  by simp

lemma fmtF_number:
  assumes ds: "list_all is_digit ds" "ds \<noteq> []" "hd ds \<noteq> CHR ''0''"
  obtains ip fp where "sign_text neg @ fmtF ds dp = number_text neg ip fp None" "number_ok ip fp None"
    "real_of_int (digits_val 0 (ip @ fp)) * 10 powi (exponent_value None - int (length fp)) =
      real_of_int (digits_val 0 ds) * 10 powi (dp - int (length ds))"
proof -
  consider (int) "int (length ds) \<le> dp" | (mixed) "0 < dp" "dp < int (length ds)" | (frac) "dp \<le> 0"
    by linarith
  then show ?thesis
  proof cases
    case int
    with ds(2) have pos: "0 < dp" by (cases ds) auto
    let ?z = "replicate (nat dp - length ds) (CHR ''0'')"
    have "hd (ds @ ?z) \<noteq> CHR ''0''" using ds by simp
    moreover have "(10::real) powi (dp - int (length ds)) = 10 ^ (nat dp - length ds)"
      using int by (simp add: power_int_def nat_diff_distrib)
    ultimately show ?thesis using int pos ds
      by (intro that[of "ds @ ?z" "[]"])
        (auto simp: fmtF_def number_text_def exponent_text_def number_ok_def no_leading_zero_def
          exponent_ok_def exponent_value_def digits_val_append is_digit_def list_all_iff)
  next
    case mixed
    have "hd (take (nat dp) ds) \<noteq> CHR ''0''" "take (nat dp) ds \<noteq> []"
      using mixed ds by (auto simp: hd_take)
    moreover have "list_all is_digit (take (nat dp) ds)" "list_all is_digit (drop (nat dp) ds)"
      using ds(1) by (auto simp: list_all_iff dest: in_set_takeD in_set_dropD)
    ultimately show ?thesis using mixed ds
      by (intro that[of "take (nat dp) ds" "drop (nat dp) ds"])
        (auto simp: fmtF_def number_text_def exponent_text_def number_ok_def no_leading_zero_def
          exponent_ok_def exponent_value_def)
  next
    case frac
    let ?z = "replicate (nat (- dp)) (CHR ''0'')"
    have "digits_val 0 (''0'' @ ?z @ ds) = digits_val 0 ds"
      by (simp add: digits_val_append digit_val_def)
    moreover have "dp < int (length ds)" using frac ds(2) by (cases ds) auto
    ultimately show ?thesis using frac ds
      by (intro that[of "''0''" "?z @ ds"])
        (auto simp: fmtF_def number_text_def exponent_text_def number_ok_def no_leading_zero_def
          exponent_ok_def exponent_value_def is_digit_def list_all_iff)
  qed
qed

lemma clean_exponent_text:
  assumes t: "list_all is_digit t" "2 \<le> length t"
  obtains t' where "clean_exponent (pre @ ''e'' @ sg # t) = pre @ ''e'' @ sg # t'"
    "list_all is_digit t'" "t' \<noteq> []" "digits_val 0 t' = digits_val 0 t"
proof -
  let ?s = "pre @ ''e'' @ sg # t"
  have n: "length ?s = length pre + 2 + length t" by simp
  show ?thesis
  proof (cases "length t = 2")
    case True
    then obtain a b where ab: "t = [a, b]" by (metis length_0_conv length_Suc_conv numeral_2_eq_2)
    show ?thesis
    proof (cases "sg = CHR ''-'' \<and> a = CHR ''0''")
      case True
      have "clean_exponent ?s = pre @ ''e'' @ sg # [b]"
        by (simp add: clean_exponent_def ab True nth_append numeral_eq_Suc)
      then show ?thesis using t True by (intro that[of "[b]"]) (auto simp: ab digit_val_def)
    next
      case False
      have "clean_exponent ?s = ?s"
        using False by (auto simp: clean_exponent_def ab nth_append numeral_eq_Suc)
      then show ?thesis using t by (intro that[of t]) auto
    qed
  next
    case False
    then have "3 \<le> length t" using t(2) by simp
    define xs where "xs = drop (length t - 3) t"
    have "length xs = Suc (Suc (Suc 0))" using \<open>3 \<le> length t\<close> by (simp add: xs_def)
    then obtain a b c where "xs = [a, b, c]" by (auto simp: length_Suc_conv)
    then have abc: "drop (length t - 3) t = [a, b, c]" by (simp add: xs_def)
    have "t = take (length t - 3) t @ [a, b, c]" using append_take_drop_id[of "length t - 3" t] abc by simp
    then obtain w where w: "t = w @ [a, b, c]" by blast
    have "?s ! (length ?s - 4) \<noteq> CHR ''e'' \<or> ?s ! (length ?s - 3) \<noteq> CHR ''-''"
      using t(1) digit_not_mark(4)[of a] by (simp add: w nth_append numeral_eq_Suc)
    then have "clean_exponent ?s = ?s" by (auto simp: clean_exponent_def)
    then show ?thesis using t by (intro that[of t]) auto
  qed
qed

lemma fmtE_number:
  assumes ds: "list_all is_digit ds" "ds \<noteq> []"
  obtains ip fp x where "sign_text neg @ clean_exponent (fmtE ds dp) = number_text neg ip fp x" "number_ok ip fp x"
    "real_of_int (digits_val 0 (ip @ fp)) * 10 powi (exponent_value x - int (length fp)) =
      real_of_int (digits_val 0 ds) * 10 powi (dp - int (length ds))"
proof -
  obtain d fs where d: "ds = d # fs" using ds by (cases ds) auto
  define sg where "sg = (if dp - 1 < 0 then CHR ''-'' else CHR ''+'')"
  define t where "t = nat_text (nat \<bar>dp - 1\<bar>)"
  define u where "u = (if length t < 2 then CHR ''0'' # t else t)"
  have t: "list_all is_digit t" "digits_val 0 t = \<bar>dp - 1\<bar>" "t \<noteq> []"
    by (simp_all add: t_def nat_text_digits nat_text_value)
  have zero: "is_digit (CHR ''0'')" "digit_val (CHR ''0'') = 0" by (simp_all add: is_digit_def digit_val_def)
  have u: "list_all is_digit u" "digits_val 0 u = digits_val 0 t" using t(1) by (auto simp: u_def zero)
  have "2 \<le> length u" using t(3) by (cases t; cases "tl t") (auto simp: u_def)
  with u   obtain t' where t': "clean_exponent (([d] @ (if fs = [] then [] else CHR ''.'' # fs)) @ ''e'' @ sg # u) =
      ([d] @ (if fs = [] then [] else CHR ''.'' # fs)) @ ''e'' @ sg # t'"
      "list_all is_digit t'" "t' \<noteq> []" "digits_val 0 t' = \<bar>dp - 1\<bar>"
    using clean_exponent_text[of u "[d] @ (if fs = [] then [] else CHR ''.'' # fs)" sg] t(2) by metis
  have "fmtE ds dp = ([d] @ (if fs = [] then [] else CHR ''.'' # fs)) @ ''e'' @ sg # u"
    by (simp add: fmtE_def d sg_def u_def t_def Let_def)
  with t'(1) have c: "sign_text neg @ clean_exponent (fmtE ds dp) = number_text neg [d] fs (Some ([sg], t'))"
    by (simp add: number_text_def exponent_text_def)
  have ok: "number_ok [d] fs (Some ([sg], t'))"
    using ds t' by (auto simp: number_ok_def no_leading_zero_def exponent_ok_def d sg_def)
  have x: "exponent_value (Some ([sg], t')) - int (length fs) = dp - int (length ds)"
    using t'(4) by (auto simp: exponent_value_def sg_def d)
  show ?thesis by (rule that[OF c ok]) (simp only: x, simp add: d)
qed

lemma FormatJSON_number:
  assumes v: "valid64 (m, e)"
  obtains ip fp x where "FormatJSON (F64 neg m e) = number_text neg ip fp x" "number_ok ip fp x"
    "ParseFloat (FormatJSON (F64 neg m e)) = Some (F64 neg m e)"
proof (cases "m = 0")
  case True
  with v have e: "e = - 1074" by (auto simp: valid64_def)
  have "FormatJSON (F64 neg m e) = number_text neg ''0'' [] None" "number_ok ''0'' [] None"
    by (simp_all add: FormatJSON_def shortest_def True fmtF_def number_text_def exponent_text_def
        number_ok_def no_leading_zero_def exponent_ok_def is_digit_def)
  then show ?thesis
    using read_literal_number[of "''0''" "[]" None neg]
    by (intro that[of "''0''" "[]" None])
      (auto simp: ParseFloat_def round_decimal_def round64_def True e digit_val_def exponent_value_def)
next
  case False
  then have m: "0 < m" by simp
  obtain ds dp where s: "shortest m e = (ds, dp)" by fastforce
  note ds = shortest_reads(1-3)[OF v m s]
  have j: "FormatJSON (F64 neg m e) = sign_text neg @ clean_exponent (fmtE ds dp) \<or>
      FormatJSON (F64 neg m e) = sign_text neg @ fmtF ds dp"
    by (simp add: FormatJSON_def s Let_def)
  show ?thesis
  proof (cases "FormatJSON (F64 neg m e) = sign_text neg @ fmtF ds dp")
    case True
    obtain ip fp where "sign_text neg @ fmtF ds dp = number_text neg ip fp None" "number_ok ip fp None"
      "real_of_int (digits_val 0 (ip @ fp)) * 10 powi (exponent_value None - int (length fp)) =
        real_of_int (digits_val 0 ds) * 10 powi (dp - int (length ds))"
      using fmtF_number[OF ds] .
    then show ?thesis using ParseFloat_number[OF v m s, of ip fp None neg] True
      by (intro that[of ip fp None]) auto
  next
    case False
    with j have f: "FormatJSON (F64 neg m e) = sign_text neg @ clean_exponent (fmtE ds dp)" by blast
    obtain ip fp x where "sign_text neg @ clean_exponent (fmtE ds dp) = number_text neg ip fp x" "number_ok ip fp x"
      "real_of_int (digits_val 0 (ip @ fp)) * 10 powi (exponent_value x - int (length fp)) =
        real_of_int (digits_val 0 ds) * 10 powi (dp - int (length ds))"
      using fmtE_number[OF ds(1,2)] .
    then show ?thesis using ParseFloat_number[OF v m s, of ip fp x neg] f
      by (intro that[of ip fp x]) auto
  qed
qed

end
