(* ===== verification/Go_Json.thy ===== *)
theory Go_Json
  imports Json_Syntax Go_Float "HOL-Library.List_Lexorder" "HOL-Library.Char_ord"
begin

text \<open>
  Decoded JSON: what \<^verbatim>\<open>json.Unmarshal\<close> stores in an \<^verbatim>\<open>any\<close> and what
  \<^verbatim>\<open>json.Marshal\<close> writes for it. A \<^verbatim>\<open>map[string]any\<close> is an association list in
  key order without duplicates, so that equality of values is \<^verbatim>\<open>reflect.DeepEqual\<close>. The
  main facts: writing a value and reading the text gives the value back
  (\<open>Unmarshal_Marshal\<close>), and everything \<open>Unmarshal\<close> returns is well formed.
\<close>

section \<open>Values\<close>

datatype gval =
    GNil
  | GBool bool
  | GNum float64
  | GStr string
  | GArr "gval list"
  | GObj "(string \<times> gval) list"

text \<open>Assignment to a map entry.\<close>

fun obj_put :: "string \<Rightarrow> 'a \<Rightarrow> (string \<times> 'a) list \<Rightarrow> (string \<times> 'a) list" where
  "obj_put k v [] = [(k, v)]"
| "obj_put k v ((j, w) # ms) =
     (if k < j then (k, v) # (j, w) # ms else if k = j then (k, v) # ms else (j, w) # obj_put k v ms)"

section \<open>Reading\<close>

text \<open>A number out of range is an error of the whole document; a repeated key keeps the last value.\<close>

fun decode :: "json \<Rightarrow> gval option"
and decode_list :: "json list \<Rightarrow> gval list option"
and decode_members :: "(string \<times> json) list \<Rightarrow> (string \<times> gval) list option" where
  "decode JNull = Some GNil"
| "decode (JBool b) = Some (GBool b)"
| "decode (JNum s) = map_option GNum (ParseFloat s)"
| "decode (JStr s) = Some (GStr s)"
| "decode (JArr xs) = map_option GArr (decode_list xs)"
| "decode (JObj ms) = map_option (\<lambda>kvs. GObj (fold (\<lambda>(k, v). obj_put k v) kvs [])) (decode_members ms)"
| "decode_list [] = Some []"
| "decode_list (x # xs) =
     (case decode x of None \<Rightarrow> None
      | Some v \<Rightarrow> (case decode_list xs of None \<Rightarrow> None | Some vs \<Rightarrow> Some (v # vs)))"
| "decode_members [] = Some []"
| "decode_members ((k, x) # ms) =
     (case decode x of None \<Rightarrow> None
      | Some v \<Rightarrow> (case decode_members ms of None \<Rightarrow> None | Some kvs \<Rightarrow> Some ((k, v) # kvs)))"

definition Unmarshal :: "string \<Rightarrow> gval option" where
  "Unmarshal s = Option.bind (json_parse s) decode"

section \<open>Writing\<close>

definition hex4_text :: "nat \<Rightarrow> string" where
  "hex4_text n = [hex_digit (n div 4096), hex_digit (n div 256 mod 16), hex_digit (n div 16 mod 16),
     hex_digit (n mod 16)]"

text \<open>One ASCII byte: \<open><\<close>, \<open>>\<close> and \<open>&\<close> are escaped too.\<close>

definition escape_byte :: "char \<Rightarrow> string" where
  "escape_byte c =
     (if c = CHR 0x22 \<or> c = CHR 0x5C then [CHR 0x5C, c]
      else if c = CHR 0x08 then [CHR 0x5C, CHR ''b''] else if c = CHR 0x0C then [CHR 0x5C, CHR ''f'']
      else if c = CHR 0x0A then [CHR 0x5C, CHR ''n''] else if c = CHR 0x0D then [CHR 0x5C, CHR ''r'']
      else if c = CHR 0x09 then [CHR 0x5C, CHR ''t'']
      else if between 0 31 c \<or> c = CHR ''<'' \<or> c = CHR ''>'' \<or> c = CHR ''&''
      then [CHR 0x5C, CHR ''u''] @ hex4_text (of_char c)
      else [c])"

text \<open>A wider rune is copied, except U+2028 and U+2029; a byte outside any is written as U+FFFD.\<close>

definition escape_rune :: "string \<Rightarrow> string" where
  "escape_rune r =
     (if length r = 1 then escape_byte (hd r)
      else if r = utf8 8232 then [CHR 0x5C, CHR ''u''] @ hex4_text 8232
      else if r = utf8 8233 then [CHR 0x5C, CHR ''u''] @ hex4_text 8233 else r)"

function escape_text :: "string \<Rightarrow> string" where
  "escape_text s =
     (if s = [] then []
      else if rune_width s = 0 then [CHR 0x5C, CHR ''u''] @ hex4_text 65533 @ escape_text (tl s)
      else escape_rune (take (rune_width s) s) @ escape_text (drop (rune_width s) s))"
  by pat_completeness auto
termination by (relation "measure length") (auto simp: diff_less)

declare escape_text.simps [simp del]

definition quoted :: "string \<Rightarrow> string" where
  "quoted s = [CHR 0x22] @ escape_text s @ [CHR 0x22]"

fun Marshal :: "gval \<Rightarrow> string"
and Marshal_list :: "gval list \<Rightarrow> string list"
and Marshal_members :: "(string \<times> gval) list \<Rightarrow> string list" where
  "Marshal GNil = ''null''"
| "Marshal (GBool b) = (if b then ''true'' else ''false'')"
| "Marshal (GNum x) = FormatJSON x"
| "Marshal (GStr s) = quoted s"
| "Marshal (GArr vs) = ''['' @ Join (Marshal_list vs) '','' @ '']''"
| "Marshal (GObj ms) = ''{'' @ Join (Marshal_members ms) '','' @ ''}''"
| "Marshal_list [] = []"
| "Marshal_list (v # vs) = Marshal v # Marshal_list vs"
| "Marshal_members [] = []"
| "Marshal_members ((k, v) # ms) = (quoted k @ '':'' @ Marshal v) # Marshal_members ms"

section \<open>The verb %v\<close>

fun FormatV :: "gval \<Rightarrow> string"
and FormatV_list :: "gval list \<Rightarrow> string list"
and FormatV_members :: "(string \<times> gval) list \<Rightarrow> string list" where
  "FormatV GNil = ''<nil>''"
| "FormatV (GBool b) = (if b then ''true'' else ''false'')"
| "FormatV (GNum x) = FormatG x"
| "FormatV (GStr s) = s"
| "FormatV (GArr vs) = ''['' @ Join (FormatV_list vs) '' '' @ '']''"
| "FormatV (GObj ms) = ''map['' @ Join (FormatV_members ms) '' '' @ '']''"
| "FormatV_list [] = []"
| "FormatV_list (v # vs) = FormatV v # FormatV_list vs"
| "FormatV_members [] = []"
| "FormatV_members ((k, v) # ms) = (k @ '':'' @ FormatV v) # FormatV_members ms"

section \<open>Well-formed values\<close>

definition utf8_ok :: "string \<Rightarrow> bool" where
  "utf8_ok s = (valid_utf8 s = s)"

fun wf_gval :: "nat \<Rightarrow> gval \<Rightarrow> bool"
and wf_list :: "nat \<Rightarrow> gval list \<Rightarrow> bool"
and wf_members :: "nat \<Rightarrow> (string \<times> gval) list \<Rightarrow> bool" where
  "wf_gval d (GNum x) = valid64 (fMan x, fExp x)"
| "wf_gval d (GStr s) = utf8_ok s"
| "wf_gval d (GArr vs) = (0 < d \<and> wf_list (d - 1) vs)"
| "wf_gval d (GObj ms) = (0 < d \<and> sorted (map fst ms) \<and> distinct (map fst ms) \<and> wf_members (d - 1) ms)"
| "wf_gval d v = True"
| "wf_list d [] = True"
| "wf_list d (v # vs) = (wf_gval d v \<and> wf_list d vs)"
| "wf_members d [] = True"
| "wf_members d ((k, v) # ms) = (utf8_ok k \<and> wf_gval d v \<and> wf_members d ms)"

section \<open>Text round trip\<close>

text \<open>A valid rune: one ASCII byte, or two to four bytes from 128 on.\<close>

lemma rune_cases:
  assumes "0 < rune_width s"
  obtains (one) c t where "s = c # t" "rune_width s = 1" "between 0 127 c"
    | (wide) r t where "s = r @ t" "rune_width s = length r" "2 \<le> length r"
        "\<forall>c \<in> set r. 128 \<le> (of_char c :: nat)" "\<And>u. rune_width (r @ u) = length r"
proof -
  obtain c t where s: "s = c # t" using assms by (cases s) auto
  consider "between 0 127 c" | "between 194 223 c" | "between 224 239 c" | "between 240 244 c"
    using assms by (auto simp: s split: if_splits)
  then show ?thesis
  proof cases
    case 1
    then show ?thesis by (intro one[of c t]) (simp_all add: s)
  next
    case 2
    then have n: "\<not> between 0 127 c" by (simp add: between_def)
    from 2 n obtain x u where "t = x # u" "continuation x"
      using assms by (simp add: s split: list.splits if_splits)
    with 2 n show ?thesis by (intro wide[of "[c, x]" u]) (auto simp: s between_def)
  next
    case 3
    then have n: "\<not> between 0 127 c" "\<not> between 194 223 c" by (simp_all add: between_def)
    from 3 n obtain x y u where t: "t = x # y # u"
        "if c = CHR 0xE0 then between 160 191 x else if c = CHR 0xED then between 128 159 x else continuation x"
        "continuation y"
      using assms by (simp add: s split: list.splits if_splits)
    then have "128 \<le> (of_char x :: nat)" by (auto simp: between_def split: if_splits)
    moreover have "rune_width ([c, x, y] @ u) = 3" for u using 3 n t by simp
    ultimately show ?thesis using 3 t
      by (intro wide[of "[c, x, y]" u]) (simp_all only: s, auto simp: between_def)
  next
    case 4
    then have n: "\<not> between 0 127 c" "\<not> between 194 223 c" "\<not> between 224 239 c"
      by (simp_all add: between_def)
    from 4 n obtain x y z u where t: "t = x # y # z # u"
        "if c = CHR 0xF0 then between 144 191 x else if c = CHR 0xF4 then between 128 143 x else continuation x"
        "continuation y" "continuation z"
      using assms by (simp add: s split: list.splits if_splits)
    then have "128 \<le> (of_char x :: nat)" by (auto simp: between_def split: if_splits)
    moreover have "rune_width ([c, x, y, z] @ u) = 4" for u using 4 n t by simp
    ultimately show ?thesis using 4 t
      by (intro wide[of "[c, x, y, z]" u]) (simp_all only: s, auto simp: between_def)
  qed
qed

lemma rune_width_le: "rune_width s \<le> length s"
  by (cases "0 < rune_width s") (auto elim!: rune_cases)

lemma rune_width_take: "0 < rune_width s \<Longrightarrow> rune_width (take (rune_width s) s @ t) = rune_width s"
  by (erule rune_cases) auto

lemma char_ofI: "of_char c = (n::nat) \<Longrightarrow> char_of n = c"
  by auto

lemma replacement_text: "replacement = [CHR 0xEF, CHR 0xBF, CHR 0xBD]"
  by (simp add: replacement_def utf8_def) (intro conjI char_ofI; simp)

lemma rune_width_replacement: "rune_width (replacement @ t) = 3"
  by (simp add: replacement_text between_def)

lemma valid_utf8_Nil [simp]: "valid_utf8 [] = []"
  by (simp add: valid_utf8.simps)

lemma valid_utf8_rune:
  "0 < rune_width s \<Longrightarrow> valid_utf8 (take (rune_width s) s @ t) = take (rune_width s) s @ valid_utf8 t"
  using rune_width_le[of s]
  by (subst valid_utf8.simps) (auto simp: rune_width_take)

lemma utf8_ok_valid [simp]: "utf8_ok (valid_utf8 s)"
proof (induction s rule: valid_utf8.induct)
  case (1 s)
  consider (nil) "s = []" | (bad) "s \<noteq> []" "rune_width s = 0" | (good) "s \<noteq> []" "0 < rune_width s"
    by blast
  then show ?case
  proof cases
    case bad
    then have "valid_utf8 s = replacement @ valid_utf8 (tl s)" by (subst valid_utf8.simps) simp
    moreover have "valid_utf8 (replacement @ t) = replacement @ valid_utf8 t" for t
      using valid_utf8_rune[of replacement t] rune_width_replacement[of "[]"]
      by (simp add: replacement_text)
    ultimately show ?thesis using 1(1)[OF bad] by (simp add: utf8_ok_def)
  next
    case good
    then have "valid_utf8 s = take (rune_width s) s @ valid_utf8 (drop (rune_width s) s)"
      by (subst valid_utf8.simps) simp
    then show ?thesis using 1(2)[of] good valid_utf8_rune[OF good(2)] by (simp add: utf8_ok_def)
  qed (simp add: utf8_ok_def)
qed

lemma utf8_ok_step:
  assumes "utf8_ok s" "s \<noteq> []"
  shows "0 < rune_width s" and "utf8_ok (drop (rune_width s) s)"
proof -
  show w: "0 < rune_width s"
  proof (rule ccontr)
    assume "\<not> 0 < rune_width s"
    then have "valid_utf8 s = replacement @ valid_utf8 (tl s)"
      using assms(2) by (subst valid_utf8.simps) simp
    then have "s = replacement @ valid_utf8 (tl s)" using assms(1) by (simp add: utf8_ok_def)
    then have "rune_width s = 3" by (metis rune_width_replacement)
    then show False using \<open>\<not> 0 < rune_width s\<close> by simp
  qed
  then have "valid_utf8 s = take (rune_width s) s @ valid_utf8 (drop (rune_width s) s)"
    using assms(2) by (subst valid_utf8.simps) simp
  then show "utf8_ok (drop (rune_width s) s)"
    using assms(1) by (metis utf8_ok_def append_take_drop_id same_append_eq)
qed

text \<open>Escapes read back: \<open>reads e w\<close> says that the literal text \<open>e\<close> denotes \<open>w\<close>.\<close>

definition reads :: "string \<Rightarrow> string \<Rightarrow> bool" where
  "reads e w = (\<exists>pre. (\<forall>t us r. string_units t = Some (us, r) \<longrightarrow> string_units (e @ t) = Some (pre @ us, r)) \<and>
     (\<forall>us. units_text (pre @ us) = w @ units_text us))"

lemma reads_Nil: "reads [] []"
  by (auto simp: reads_def intro: exI[of _ "[]"])

lemma reads_append: "reads e w \<Longrightarrow> reads f v \<Longrightarrow> reads (e @ f) (w @ v)"
  unfolding reads_def by (elim exE, rule_tac x="pre @ prea" in exI) simp

lemma string_units_unit:
  "hd s \<noteq> CHR 0x22 \<Longrightarrow> s \<noteq> [] \<Longrightarrow> next_unit s = Some (x, t) \<Longrightarrow> string_units t = Some (us, r) \<Longrightarrow>
   string_units s = Some (x # us, r)"
  by (subst string_units.simps) simp

lemma reads_raw:
  assumes "\<not> between 0 31 c" "c \<noteq> CHR 0x22" "c \<noteq> CHR 0x5C"
  shows "reads [c] [c]"
  unfolding reads_def using assms
  by (intro exI[of _ "[Raw c]"]) (auto intro!: string_units_unit simp: next_unit_def between_def)

lemma reads_simple:
  assumes "simple_escape c = Some d"
  shows "reads [CHR 0x5C, c] [d]"
proof -
  have "c \<noteq> CHR ''u''" using assms by (auto simp: simple_escape_def)
  then show ?thesis unfolding reads_def using assms
    by (intro exI[of _ "[Raw d]"]) (auto intro!: string_units_unit simp: next_unit_def)
qed

lemma hex_val_digit: "n < 16 \<Longrightarrow> hex_val (hex_digit n) = Some n"
  by (auto simp: hex_val_def hex_digit_def Let_def)

lemma hex4_hex4_text: "n < 65536 \<Longrightarrow> hex4_text n = [a, b, c, d] \<Longrightarrow> hex4 a b c d = Some n"
proof -
  assume n: "n < 65536" "hex4_text n = [a, b, c, d]"
  then have "hex4 a b c d = Some (((n div 4096 * 16 + n div 256 mod 16) * 16 + n div 16 mod 16) * 16 + n mod 16)"
    by (auto simp: hex4_def hex4_text_def hex_val_digit)
  moreover have "((n div 4096 * 16 + n div 256 mod 16) * 16 + n div 16 mod 16) * 16 + n mod 16 = n"
  proof -
    have "n div 4096 = n div 16 div 16 div 16" "n div 256 = n div 16 div 16"
      by (simp_all add: div_mult2_eq[symmetric])
    then show ?thesis by (simp only: div_mult_mod_eq)
  qed
  ultimately show ?thesis by simp
qed

lemma units_text_plain: "\<not> is_high n \<Longrightarrow> \<not> is_low n \<Longrightarrow> units_text (U16 n # us) = utf8 n @ units_text us"
  by (cases us rule: units_text.cases) (auto split: unit16.splits)

lemma reads_hex:
  assumes "n < 55296"
  shows "reads ([CHR 0x5C, CHR ''u''] @ hex4_text n) (utf8 n)"
proof -
  obtain a b c d where h: "hex4_text n = [a, b, c, d]" by (simp add: hex4_text_def)
  have "\<not> is_high n" "\<not> is_low n" using assms by (auto simp: is_high_def is_low_def)
  then show ?thesis unfolding reads_def using hex4_hex4_text[OF _ h] assms
    by (intro exI[of _ "[U16 n]"]) (auto intro!: string_units_unit simp: next_unit_def h units_text_plain)
qed

lemma reads_raws:
  "(\<And>c. c \<in> set r \<Longrightarrow> \<not> between 0 31 c \<and> c \<noteq> CHR 0x22 \<and> c \<noteq> CHR 0x5C) \<Longrightarrow> reads r r"
proof (induction r)
  case (Cons c r)
  then show ?case using reads_append[of "[c]" "[c]" r r] reads_raw[of c] by simp
qed (simp add: reads_Nil)

lemma reads_byte:
  assumes "between 0 127 c"
  shows "reads (escape_byte c) [c]"
proof -
  have n: "of_char c < (128::nat)" using assms by (simp add: between_def)
  then have u: "utf8 (of_char c) = [c]" by (simp add: utf8_def)
  consider (simple) d where "escape_byte c = [CHR 0x5C, d]" "simple_escape d = Some c"
    | (hex) "escape_byte c = [CHR 0x5C, CHR ''u''] @ hex4_text (of_char c)"
    | (raw) "escape_byte c = [c]" "\<not> between 0 31 c" "c \<noteq> CHR 0x22" "c \<noteq> CHR 0x5C"
  proof (cases "c \<in> set [CHR 0x22, CHR 0x5C, CHR 0x08, CHR 0x0C, CHR 0x0A, CHR 0x0D, CHR 0x09]")
    case True
    then have "\<exists>d. escape_byte c = [CHR 0x5C, d] \<and> simple_escape d = Some c"
      by (auto simp: escape_byte_def simple_escape_def)
    then show ?thesis using that(1) by blast
  next
    case False
    then show ?thesis using that(2,3)
      by (cases "between 0 31 c \<or> c = CHR ''<'' \<or> c = CHR ''>'' \<or> c = CHR ''&''")
        (simp_all add: escape_byte_def)
  qed
  then show ?thesis
  proof cases
    case simple
    then show ?thesis using reads_simple by simp
  next
    case hex
    then show ?thesis using reads_hex[of "of_char c"] n u by simp
  next
    case raw
    then show ?thesis using reads_raw by simp
  qed
qed

lemma reads_rune: "0 < rune_width s \<Longrightarrow> reads (escape_rune (take (rune_width s) s)) (take (rune_width s) s)"
proof -
  assume w: "0 < rune_width s"
  then show ?thesis
  proof (cases rule: rune_cases)
    case one
    then show ?thesis using reads_byte by (simp add: escape_rune_def)
  next
    case (wide r t)
    have "reads r r" using wide(4) by (intro reads_raws) (fastforce simp: between_def)
    then show ?thesis using wide reads_hex[of 8232] reads_hex[of 8233]
      by (auto simp: escape_rune_def)
  qed
qed

lemma reads_escape_text: "utf8_ok s \<Longrightarrow> reads (escape_text s) s"
proof (induction s rule: escape_text.induct)
  case (1 s)
  show ?case
  proof (cases "s = []")
    case False
    note w = utf8_ok_step[OF "1.prems" False]
    have "escape_text s = escape_rune (take (rune_width s) s) @ escape_text (drop (rune_width s) s)"
      using False w by (subst escape_text.simps) simp
    then show ?thesis
      using reads_append[OF reads_rune[OF w(1)] "1.IH"(2)[OF False _ w(2)]] w(1) by simp
  qed (simp add: escape_text.simps reads_Nil)
qed

lemma parse_string_quoted:
  assumes "utf8_ok s"
  shows "parse_string (escape_text s @ CHR 0x22 # t) = Some (s, t)"
proof -
  have q: "string_units (CHR 0x22 # t) = Some ([], t)" by (subst string_units.simps) simp
  obtain pre where pre:
    "\<And>t us r. string_units t = Some (us, r) \<Longrightarrow> string_units (escape_text s @ t) = Some (pre @ us, r)"
    "\<And>us. units_text (pre @ us) = s @ units_text us"
    using reads_escape_text[OF assms] unfolding reads_def by blast
  show ?thesis
    using pre(1)[OF q] pre(2)[of "[]"] assms by (simp add: parse_string_def utf8_ok_def)
qed

section \<open>Document round trip\<close>

primrec tree :: "gval \<Rightarrow> json" where
  "tree GNil = JNull"
| "tree (GBool b) = JBool b"
| "tree (GNum x) = JNum (FormatJSON x)"
| "tree (GStr s) = JStr s"
| "tree (GArr vs) = JArr (map tree vs)"
| "tree (GObj ms) = JObj (map (\<lambda>kv. map_prod id tree kv) ms)"

definition number_stop :: "string \<Rightarrow> bool" where
  "number_stop t = (t = [] \<or> \<not> is_digit (hd t) \<and> hd t \<noteq> CHR ''.'' \<and> hd t \<noteq> CHR ''e'' \<and> hd t \<noteq> CHR ''E'')"

lemma span_digits:
  "list_all is_digit ds \<Longrightarrow> t = [] \<or> \<not> is_digit (hd t) \<Longrightarrow> span is_digit (ds @ t) = (ds, t)"
  by (simp add: span_def takeWhile_digits)

lemma parse_number_text:
  assumes ok: "number_ok ip fp x" and t: "number_stop t"
  shows "parse_number (number_text neg ip fp x @ t) = Some (number_text neg ip fp x, t)"
proof -
  have ip: "list_all is_digit ip" "ip \<noteq> []" "hd ip = CHR ''0'' \<longrightarrow> ip = ''0''"
    and fp: "list_all is_digit fp" and x: "exponent_ok x"
    using ok by (auto simp: number_ok_def no_leading_zero_def)
  define fr where "fr = (if fp = [] then [] else ''.'' @ fp)"
  have stop: "u = [] \<or> \<not> is_digit (hd u)" if "u = exponent_text x @ t \<or> u = fr @ exponent_text x @ t" for u
    using that t by (cases "fp = []"; cases x)
      (auto simp: fr_def exponent_text_def number_stop_def is_digit_def)
  have int: "number_int (ip @ fr @ exponent_text x @ t) = Some (ip, fr @ exponent_text x @ t)"
  proof (cases "ip = ''0''")
    case False
    obtain c r where cr: "ip = c # r" using ip(2) by (cases ip) auto
    with False ip have "c \<noteq> CHR ''0''" "is_digit c" by auto
    then show ?thesis using span_digits[OF ip(1) stop] cr by (simp add: number_int_def)
  qed (simp add: number_int_def)
  have "c \<noteq> CHR ''.''" if "exponent_text x @ t = c # u" for c u
    using that t by (auto simp: exponent_text_def number_stop_def split: option.splits)
  then have frac: "number_frac (fr @ exponent_text x @ t) = Some (fr, exponent_text x @ t)"
    using span_digits[OF fp stop] by (auto simp: number_frac_def fr_def split: list.split)
  have ex: "number_exp (exponent_text x @ t) = Some (exponent_text x, t)"
  proof (cases x)
    case None
    then show ?thesis using t
      by (auto simp: number_exp_def exponent_text_def number_stop_def split: list.split)
  next
    case (Some p)
    then obtain sg ds where p: "x = Some (sg, ds)" "sg \<in> {''+'', ''-''}" "list_all is_digit ds" "ds \<noteq> []"
      using x by (cases p) (auto simp: exponent_ok_def)
    moreover have "span is_digit (ds @ t) = (ds, t)"
      by (rule span_digits[OF p(3)]) (use t in \<open>auto simp: number_stop_def\<close>)
    ultimately show ?thesis by (auto simp: number_exp_def exponent_text_def)
  qed
  obtain c r where cr: "ip = c # r" "is_digit c" using ip by (cases ip) auto
  have sg: "(case number_text neg ip fp x @ t of c # u \<Rightarrow> if c = CHR ''-'' then ([c], u)
       else ([], number_text neg ip fp x @ t) | [] \<Rightarrow> ([], number_text neg ip fp x @ t)) =
      (sign_text neg, ip @ fr @ exponent_text x @ t)"
    using digit_not_mark(4)[OF cr(2)] cr(1) by (simp add: number_text_def sign_text_def fr_def)
  show ?thesis
    unfolding parse_number_def sg by (simp add: int frac ex) (simp add: number_text_def fr_def)
qed

lemma number_text_hd:
  assumes "number_ok ip fp x"
  obtains c u where "number_text neg ip fp x = c # u" "is_digit c \<or> c = CHR ''-''"
proof -
  obtain c u where "ip = c # u" "is_digit c"
    using assms by (cases ip) (auto simp: number_ok_def no_leading_zero_def)
  then show ?thesis using that
    by (cases neg) (simp_all add: number_text_def sign_text_def)
qed

text \<open>The first byte of a written value.\<close>

definition value_start :: "char \<Rightarrow> bool" where
  "value_start c = (is_digit c \<or> c \<in> set ''-ntf[{'' \<or> c = CHR 0x22)"

lemma Marshal_start:
  assumes "wf_gval d v"
  obtains c u where "Marshal v = c # u" "value_start c"
proof (cases v)
  case (GNum x)
  then obtain neg m e where x: "x = F64 neg m e" "valid64 (m, e)" using assms by (cases x) auto
  obtain ip fp y where "FormatJSON x = number_text neg ip fp y" "number_ok ip fp y"
    using FormatJSON_number[OF x(2)] x(1) by metis
  moreover obtain c u where "number_text neg ip fp y = c # u" "is_digit c \<or> c = CHR ''-''"
    by (rule number_text_hd[OF calculation(2)])
  ultimately show ?thesis using that GNum by (auto simp: value_start_def)
next
  case (GBool b)
  then show ?thesis using that by (cases b) (auto simp: value_start_def)
qed (use that in \<open>auto simp: value_start_def quoted_def\<close>)

lemma value_start_plain:
  assumes "value_start c"
  shows "skip_space (c # u) = c # u" "c \<noteq> CHR '']''" "c \<noteq> CHR ''}''" "c \<noteq> CHR '',''"
  using assms by (auto simp: value_start_def skip_space_def json_space_def is_digit_def)

lemma skip_Marshal: "wf_gval d v \<Longrightarrow> skip_space (Marshal v @ t) = Marshal v @ t"
  using value_start_plain(1) by (metis Marshal_start append_Cons)

lemma skip_plain [simp]:
  "skip_space (CHR '','' # t) = CHR '','' # t" "skip_space (CHR '']'' # t) = CHR '']'' # t"
  "skip_space (CHR ''}'' # t) = CHR ''}'' # t" "skip_space (CHR '':'' # t) = CHR '':'' # t"
  "skip_space (CHR 0x22 # t) = CHR 0x22 # t"
  by (simp_all add: skip_space_def json_space_def)

lemma number_stop_mark [simp]: "c \<in> set '',]}'' \<Longrightarrow> number_stop (c # t)" "number_stop []"
  by (auto simp: number_stop_def is_digit_def)

lemma expect_hit [simp]: "expect c (c # t) = Some t"
  by (simp add: expect_def)

lemma parse_value_number:
  assumes "valid64 (fMan x, fExp x)" "number_stop t"
  shows "parse_value d (FormatJSON x @ t) = Some (JNum (FormatJSON x), t)"
proof -
  obtain neg m e where x: "x = F64 neg m e" by (cases x)
  with assms(1) have "valid64 (m, e)" by simp
  then obtain ip fp y where f: "FormatJSON x = number_text neg ip fp y" "number_ok ip fp y"
    by (rule FormatJSON_number[where neg = neg]) (use x in blast)
  obtain c u where cu: "number_text neg ip fp y = c # u" "is_digit c \<or> c = CHR ''-''"
    using number_text_hd[OF f(2)] .
  have "c \<noteq> CHR 0x22 \<and> c \<noteq> CHR ''['' \<and> c \<noteq> CHR ''{'' \<and> c \<noteq> CHR ''n'' \<and> c \<noteq> CHR ''t'' \<and> c \<noteq> CHR ''f''"
    using cu(2) by (auto simp: is_digit_def)
  then have "parse_value d (c # s) = map_option (map_prod JNum id) (parse_number (c # s))" for s
    by (simp only: parse_value.simps) simp
  from this[of "u @ t"] show ?thesis
    using parse_number_text[OF f(2) assms(2), of neg] by (simp only: f(1) cu(1) append_Cons) simp
qed

lemma tree_GObj: "tree (GObj ms) = JObj (map (\<lambda>(k, v). (k, tree v)) ms)"
  by (simp add: map_prod_def id_def)

declare tree.simps(6) [simp del] tree_GObj [simp]

lemma parse_literals:
  "parse_value d (''null'' @ t) = Some (JNull, t)"
  "parse_value d (''true'' @ t) = Some (JBool True, t)"
  "parse_value d (''false'' @ t) = Some (JBool False, t)"
  by (simp_all add: literal_def HasPrefix_def)

lemma parse_elems_one:
  assumes "parse_value d s = Some (v, CHR '']'' # t)"
  shows "parse_elems d s = Some ([v], t)"
  using parse_shorter(1)[OF assms] by (subst parse_elems.simps) (simp add: assms expect_def)

lemma parse_elems_more:
  assumes "parse_value d s = Some (v, CHR '','' # u)" "parse_elems d (skip_space u) = Some (vs, t)"
  shows "parse_elems d s = Some (v # vs, t)"
  using parse_shorter(1)[OF assms(1)] assms(2) by (subst parse_elems.simps) (simp add: assms(1))

lemma parse_members_one:
  assumes "parse_string s = Some (k, CHR '':'' # u)" "parse_value d (skip_space u) = Some (v, CHR ''}'' # t)"
  shows "parse_members d (CHR 0x22 # s) = Some ([(k, v)], t)"
  using parse_shorter(1)[OF assms(2)] parse_string_shorter[OF assms(1)] skip_space_le[of u]
  by (subst parse_members.simps) (simp add: assms expect_def)

lemma parse_members_more:
  assumes "parse_string s = Some (k, CHR '':'' # u)" "parse_value d (skip_space u) = Some (v, CHR '','' # w)"
    "parse_members d (skip_space w) = Some (ms, t)"
  shows "parse_members d (CHR 0x22 # s) = Some ((k, v) # ms, t)"
  using parse_shorter(1)[OF assms(2)] parse_string_shorter[OF assms(1)] skip_space_le[of u]
  by (subst parse_members.simps) (simp add: assms)

lemma parse_array:
  assumes "0 < d" "parse_elems (d - 1) (c # u) = Some (vs, t)" "value_start c"
  shows "parse_value d (CHR ''['' # c # u) = Some (JArr vs, t)"
  using assms value_start_plain(1)[OF assms(3), of u] value_start_plain(2)[OF assms(3)]
  by (simp add: expect_def)

lemma parse_object:
  assumes "0 < d" "parse_members (d - 1) (CHR 0x22 # u) = Some (ms, t)"
  shows "parse_value d (CHR ''{'' # CHR 0x22 # u) = Some (JObj ms, t)"
  using assms by (simp add: expect_def)

lemma Join_Cons: "Join (w # ws) sep = w @ (if ws = [] then [] else sep @ Join ws sep)"
  by (cases ws) simp_all

lemma Marshal_list_Nil [simp]: "Marshal_list vs = [] \<longleftrightarrow> vs = []"
  by (cases vs) simp_all

lemma Marshal_members_Nil [simp]: "Marshal_members ms = [] \<longleftrightarrow> ms = []"
  by (cases ms) auto

lemma parse_quoted: "utf8_ok s \<Longrightarrow> parse_value d (quoted s @ t) = Some (JStr s, t)"
  using parse_string_quoted[of s t] by (simp add: quoted_def)

lemma list_text_start:
  assumes "wf_list d vs" "vs \<noteq> []"
  shows "\<exists>c u. Join (Marshal_list vs) sep @ t = c # u \<and> value_start c"
proof -
  obtain v ws where vs: "vs = v # ws" using assms(2) by (cases vs) auto
  with assms(1) have "wf_gval d v" by simp
  then obtain c u where "Marshal v = c # u" "value_start c" by (rule Marshal_start)
  then show ?thesis by (simp add: vs Join_Cons)
qed

lemma members_text_start:
  obtains u where "Join (Marshal_members (m # ms)) sep @ t = CHR 0x22 # u"
  by (cases m) (simp add: Join_Cons quoted_def)

lemma parse_Marshal:
  "wf_gval d v \<Longrightarrow> number_stop t \<Longrightarrow> parse_value d (Marshal v @ t) = Some (tree v, t)"
  "wf_list d vs \<Longrightarrow> vs \<noteq> [] \<Longrightarrow>
   parse_elems d (Join (Marshal_list vs) '','' @ CHR '']'' # t) = Some (map tree vs, t)"
  "wf_members d ms \<Longrightarrow> ms \<noteq> [] \<Longrightarrow>
   parse_members d (Join (Marshal_members ms) '','' @ CHR ''}'' # t) = Some (map (\<lambda>(k, v). (k, tree v)) ms, t)"
proof (induction v and vs and ms arbitrary: d t and d t and d t
    rule: Marshal_Marshal_list_Marshal_members.induct)
  case (3 x)
  then show ?case using parse_value_number by simp
next
  case (4 s)
  then show ?case using parse_quoted by simp
next
  case (5 vs)
  show ?case
  proof (cases vs)
    case (Cons w ws)
    have "wf_list (d - 1) vs" "vs \<noteq> []" using "5.prems" Cons by auto
    then obtain c u where cu: "Join (Marshal_list vs) '','' @ CHR '']'' # t = c # u" "value_start c"
      using list_text_start by blast
    have "parse_elems (d - 1) (c # u) = Some (map tree vs, t)"
      using "5.IH"[of "d - 1" t] "5.prems" Cons by (simp flip: cu(1))
    then show ?thesis using parse_array[of d c u] cu "5.prems" by simp
  qed (use "5.prems" in \<open>simp add: expect_def\<close>)
next
  case (6 ms)
  show ?case
  proof (cases ms)
    case (Cons w ws)
    obtain u where u: "Join (Marshal_members ms) '','' @ CHR ''}'' # t = CHR 0x22 # u"
      using members_text_start Cons by metis
    have "parse_members (d - 1) (CHR 0x22 # u) = Some (map (\<lambda>(k, v). (k, tree v)) ms, t)"
      using "6.IH"[of "d - 1" t] "6.prems" Cons by (simp flip: u)
    then show ?thesis using parse_object[of d u] u "6.prems" by simp
  qed (use "6.prems" in \<open>simp add: expect_def\<close>)
next
  case (8 v vs)
  show ?case
  proof (cases vs)
    case Nil
    then show ?thesis using "8.IH"(1)[of d "CHR '']'' # t"] "8.prems" by (simp add: parse_elems_one)
  next
    case (Cons w ws)
    let ?u = "Join (Marshal_list vs) '','' @ CHR '']'' # t"
    have "wf_list d vs" "vs \<noteq> []" using "8.prems" Cons by auto
    then obtain c x where cx: "?u = c # x" "value_start c" using list_text_start by blast
    have sk: "skip_space ?u = ?u" using value_start_plain(1)[OF cx(2)] by (simp only: cx(1))
    have "parse_elems d (skip_space ?u) = Some (map tree vs, t)"
      unfolding sk using "8.IH"(2)[of d t] "8.prems" Cons by simp
    moreover have "parse_value d (Marshal v @ CHR '','' # ?u) = Some (tree v, CHR '','' # ?u)"
      using "8.IH"(1)[of d "CHR '','' # ?u"] "8.prems" by simp
    ultimately show ?thesis using parse_elems_more Cons by (simp add: Join_Cons)
  qed
next
  case (10 k v ms)
  have k: "utf8_ok k" and v: "wf_gval d v" using "10.prems" by auto
  have key: "parse_string (escape_text k @ CHR 0x22 # CHR '':'' # u) = Some (k, CHR '':'' # u)" for u
    by (rule parse_string_quoted[OF k])
  show ?case
  proof (cases ms)
    case Nil
    have "parse_value d (skip_space (Marshal v @ CHR ''}'' # t)) = Some (tree v, CHR ''}'' # t)"
      using "10.IH"(1)[of d "CHR ''}'' # t"] v by (simp add: skip_Marshal)
    from parse_members_one[OF key this] Nil show ?thesis by (simp add: quoted_def)
  next
    case (Cons w ws)
    let ?u = "Join (Marshal_members ms) '','' @ CHR ''}'' # t"
    obtain x where x: "?u = CHR 0x22 # x" using members_text_start Cons by metis
    have sk: "skip_space ?u = ?u" by (simp only: x skip_plain)
    have "parse_members d (skip_space ?u) = Some (map (\<lambda>(k, v). (k, tree v)) ms, t)"
      unfolding sk using "10.IH"(2)[of d t] "10.prems" Cons by simp
    moreover have "parse_value d (skip_space (Marshal v @ CHR '','' # ?u)) = Some (tree v, CHR '','' # ?u)"
      using "10.IH"(1)[of d "CHR '','' # ?u"] v by (simp add: skip_Marshal)
    ultimately show ?thesis using parse_members_more[OF key] Cons by (simp add: Join_Cons quoted_def)
  qed
qed (simp_all add: parse_literals[simplified])

lemma obj_put_last:
  "\<forall>j \<in> fst ` set ms. j < k \<Longrightarrow> obj_put k v ms = ms @ [(k, v)]"
  by (induction ms) auto

lemma fold_obj_put_sorted:
  assumes "sorted (map fst (acc @ ms))" "distinct (map fst (acc @ ms))"
  shows "fold (\<lambda>(k, v). obj_put k v) ms acc = acc @ ms"
  using assms
proof (induction ms arbitrary: acc)
  case (Cons m ms)
  obtain k v where m: "m = (k, v)" by fastforce
  have "j < k" if "j \<in> fst ` set acc" for j
    using Cons.prems that by (auto simp: m sorted_append less_le)
  then have "obj_put k v acc = acc @ [m]" by (simp add: m obj_put_last[of acc])
  then show ?case using Cons.IH[of "acc @ [m]"] Cons.prems by (simp add: m)
qed simp

lemma decode_tree:
  "wf_gval d v \<Longrightarrow> decode (tree v) = Some v"
  "wf_list d vs \<Longrightarrow> decode_list (map tree vs) = Some vs"
  "wf_members d ms \<Longrightarrow> decode_members (map (\<lambda>(k, v). (k, tree v)) ms) = Some ms"
proof (induction v and vs and ms arbitrary: d and d and d rule: Marshal_Marshal_list_Marshal_members.induct)
  case (3 x)
  then obtain neg m e where x: "x = F64 neg m e" "valid64 (m, e)" by (cases x) auto
  then show ?case using FormatJSON_number[OF x(2), of neg "ParseFloat (FormatJSON x) = Some x"] by simp
next
  case (6 ms)
  then show ?case using fold_obj_put_sorted[of "[]" ms] by auto
qed auto

text \<open>The text of a well-formed value denotes that value.\<close>

theorem Unmarshal_Marshal:
  assumes "wf_gval maxNestingDepth v"
  shows "Unmarshal (Marshal v) = Some v"
proof -
  have "parse_value maxNestingDepth (skip_space (Marshal v @ [])) = Some (tree v, [])"
    using parse_Marshal(1)[OF assms number_stop_mark(2)] by (simp only: skip_Marshal[OF assms])
  then show ?thesis
    using decode_tree(1)[OF assms]
    by (simp add: Unmarshal_def json_parse_def) (simp add: skip_space_def)
qed

section \<open>What Unmarshal returns\<close>

lemma half_even_bounds:
  assumes "0 < b"
  shows "real (half_even a b) \<le> real a / real b + 1/2" "real a / real b - 1/2 \<le> real (half_even a b)"
proof -
  have "real a = real (b * (a div b) + a mod b)" by simp
  then have "real a = real b * real (a div b) + real (a mod b)" by (simp only: of_nat_add of_nat_mult)
  then have r: "real a / real b = real (a div b) + real (a mod b) / real b"
    using assms by (simp add: field_simps)
  have "2 * real (a mod b) \<le> real b \<longleftrightarrow> 2 * (a mod b) \<le> b" "real b \<le> 2 * real (a mod b) \<longleftrightarrow> b \<le> 2 * (a mod b)"
    by (simp_all flip: of_nat_le_iff[where 'a = real])
  moreover have "2 * real (a mod b) \<le> real b * 3"
  proof -
    have "real (a mod b) < real b" using assms by simp
    then show ?thesis by linarith
  qed
  ultimately show "real (half_even a b) \<le> real a / real b + 1/2"
      "real a / real b - 1/2 \<le> real (half_even a b)"
    using assms by (auto simp: half_even_def Let_def r field_simps)
qed

lemma half_even_range:
  assumes "0 < b"
  shows "real k \<le> real a / real b \<Longrightarrow> k \<le> half_even a b" "real a / real b < real k \<Longrightarrow> half_even a b \<le> k"
  using half_even_bounds[OF assms, of a] by linarith+

lemma round64_valid:
  assumes "round64 a b = Some x" "0 < b"
  shows "valid64 x"
proof (cases "a = 0")
  case True
  then show ?thesis using assms by (auto simp: round64_def valid64_def)
next
  case False
  then have a: "0 < a" by simp
  define e where "e = max (- 1074) (floor_log2 a b - 52)"
  obtain x' y where s: "scaled a b e = (x', y)" by fastforce
  note r = ratio_scaled[OF s assms(2)]
  note fl = floor_log2_bounds[OF a assms(2)]
  have "real a / real b < 2 powi (e + 53)"
  proof -
    have "(2::real) powi (floor_log2 a b + 1) \<le> 2 powi (e + 53)"
      by (simp add: powi_le_iff e_def)
    with fl(2) show ?thesis by linarith
  qed
  then have up: "real x' / real y < real (2 ^ 53)"
    by (simp add: r(1) pos_divide_less_eq power_int_add mult.commute del: divide_divide_eq_left)
  have lo: "real (2 ^ 52) \<le> real x' / real y" if "e \<noteq> - 1074"
  proof -
    have "e + 52 = floor_log2 a b" using that by (simp add: e_def)
    with fl(1) have "2 powi (e + 52) \<le> real a / real b" by simp
    then show ?thesis
      by (simp add: r(1) pos_le_divide_eq power_int_add mult.commute del: divide_divide_eq_left)
  qed
  define q where "q = half_even x' y"
  have q: "q \<le> 2 ^ 53" "e \<noteq> - 1074 \<Longrightarrow> 2 ^ 52 \<le> q"
    using half_even_range(2)[OF r(2) up] half_even_range(1)[OF r(2) lo] by (simp_all add: q_def)
  have "x = (if q = 2 ^ 53 then (2 ^ 52, e + 1) else (q, e))" "\<not> snd x > 971" "- 1074 \<le> e"
    using assms(1) False s by (auto simp: round64_def Let_def q_def e_def[symmetric] split: if_splits)
      (auto simp: e_def)
  with q show ?thesis by (auto simp: valid64_def le_less split: if_splits)
qed

lemma ParseFloat_valid: "ParseFloat s = Some x \<Longrightarrow> valid64 (fMan x, fExp x)"
proof -
  assume "ParseFloat s = Some x"
  then obtain neg d k m e where "round_decimal d k = Some (m, e)" "x = F64 neg m e"
    by (auto simp: ParseFloat_def split: prod.splits)
  then show ?thesis
    by (auto simp: round_decimal_def split: if_splits intro: round64_valid)
qed

fun wf_json :: "nat \<Rightarrow> json \<Rightarrow> bool"
and wf_jsons :: "nat \<Rightarrow> json list \<Rightarrow> bool"
and wf_pairs :: "nat \<Rightarrow> (string \<times> json) list \<Rightarrow> bool" where
  "wf_json d (JStr s) = utf8_ok s"
| "wf_json d (JArr xs) = (0 < d \<and> wf_jsons (d - 1) xs)"
| "wf_json d (JObj ms) = (0 < d \<and> wf_pairs (d - 1) ms)"
| "wf_json d j = True"
| "wf_jsons d [] = True"
| "wf_jsons d (x # xs) = (wf_json d x \<and> wf_jsons d xs)"
| "wf_pairs d [] = True"
| "wf_pairs d ((k, x) # ms) = (utf8_ok k \<and> wf_json d x \<and> wf_pairs d ms)"

lemma parse_string_ok: "parse_string s = Some (k, t) \<Longrightarrow> utf8_ok k"
  by (auto simp: parse_string_def)

lemma parse_number_json: "map_option (map_prod JNum id) (parse_number s) = Some (v, t) \<Longrightarrow> wf_json d v"
  by auto

lemma literal_wf: "literal w v s = Some (j, t) \<Longrightarrow> wf_json d v \<Longrightarrow> wf_json d j"
  by (auto simp: literal_def split: if_splits)

lemma parse_wf:
  shows "parse_value d s = Some (v, t) \<Longrightarrow> wf_json d v"
    and "parse_elems d s = Some (vs, t) \<Longrightarrow> wf_jsons d vs"
    and "parse_members d s = Some (ms, t) \<Longrightarrow> wf_pairs d ms"
proof (induction d s and d s and d s arbitrary: v t and vs t and ms t
    rule: parse_value_parse_elems_parse_members.induct)
  case (2 d c s)
  consider (str) "c = CHR 0x22" | (arr) "c = CHR ''[''" | (obj) "c = CHR ''{''"
    | (other) "c \<noteq> CHR 0x22" "c \<noteq> CHR ''[''" "c \<noteq> CHR ''{''" by blast
  then show ?case
  proof cases
    case str
    then show ?thesis using "2.prems" parse_string_ok by auto
  next
    case arr
    then show ?thesis using "2.prems" "2.IH"(1) by (auto split: if_splits option.splits)
  next
    case obj
    then show ?thesis using "2.prems" "2.IH"(2) by (auto split: if_splits option.splits)
  next
    case other
    then show ?thesis using "2.prems" by (auto split: if_splits dest: literal_wf[where d = d])
  qed
next
  case (3 d s)
  from "3.prems" obtain v r where v: "parse_value d s = Some (v, r)" "length r < length s"
    by (subst (asm) parse_elems.simps) (auto split: option.splits if_splits)
  show ?case
  proof (cases "expect CHR '','' (skip_space r)")
    case None
    with "3.prems" v "3.IH"(1)[OF v(1)] show ?thesis
      by (subst (asm) parse_elems.simps) (auto split: option.splits)
  next
    case (Some u)
    with "3.prems" v obtain vs' where "parse_elems d (skip_space u) = Some (vs', t)" "vs = v # vs'"
      by (subst (asm) parse_elems.simps) (auto split: option.splits)
    with "3.IH"(2)[OF v(1) refl v(2) Some] "3.IH"(1)[OF v(1)] show ?thesis by auto
  qed
next
  case (4 d s)
  from "4.prems" obtain s' k r u v w where v: "expect CHR 0x22 s = Some s'" "parse_string s' = Some (k, r)"
      "expect CHR '':'' (skip_space r) = Some u" "parse_value d (skip_space u) = Some (v, w)"
      "length w < length s"
    by (subst (asm) parse_members.simps) (auto split: option.splits if_splits)
  note k = parse_string_ok[OF v(2)]
  note ih = "4.IH"(1)[OF v(1) v(2) refl v(3) v(4)]
  show ?case
  proof (cases "expect CHR '','' (skip_space w)")
    case None
    with "4.prems" v k ih show ?thesis
      by (subst (asm) parse_members.simps) (auto split: option.splits)
  next
    case (Some x)
    with "4.prems" v obtain ms' where "parse_members d (skip_space x) = Some (ms', t)" "ms = (k, v) # ms'"
      by (subst (asm) parse_members.simps) (auto split: option.splits)
    with "4.IH"(2)[OF v(1) v(2) refl v(3) v(4) refl v(5) Some] k ih show ?thesis by auto
  qed
qed auto

lemma map_of_obj_put [simp]: "map_of (obj_put k v ms) = (map_of ms)(k \<mapsto> v)"
  by (induction ms) (auto simp: fun_upd_twist)

lemma set_obj_put: "set (obj_put k v ms) \<subseteq> insert (k, v) (set ms)"
proof (induction ms)
  case (Cons m ms)
  then show ?case by (cases m; cases "k < fst m"; cases "k = fst m") auto
qed simp

lemma keys_obj_put: "fst ` set (obj_put k v ms) = insert k (fst ` set ms)"
proof (induction ms)
  case (Cons m ms)
  then show ?case by (cases m; cases "k < fst m"; cases "k = fst m") auto
qed simp

lemma obj_put_sorted:
  "sorted (map fst ms) \<Longrightarrow> distinct (map fst ms) \<Longrightarrow>
   sorted (map fst (obj_put k v ms)) \<and> distinct (map fst (obj_put k v ms))"
proof (induction ms)
  case (Cons m ms)
  obtain j w where m: "m = (j, w)" by fastforce
  have j: "\<forall>x \<in> fst ` set ms. j < x" using Cons.prems by (auto simp: m less_le)
  consider "k < j" | "k = j" | "j < k" by fastforce
  then show ?case
  proof cases
    case 1
    then have "\<forall>x \<in> fst ` set ms. k < x" using j by auto
    then show ?thesis using Cons.prems 1 by (auto simp: m)
  next
    case 3
    then show ?thesis using Cons j keys_obj_put[of k v ms] by (auto simp: m less_le)
  qed (use Cons.prems m in auto)
qed simp

lemma wf_members_iff: "wf_members d ms \<longleftrightarrow> (\<forall>(k, v) \<in> set ms. utf8_ok k \<and> wf_gval d v)"
  by (induction ms) auto

lemma wf_list_iff: "wf_list d vs \<longleftrightarrow> (\<forall>v \<in> set vs. wf_gval d v)"
  by (induction vs) auto

lemma obj_put_wf: "wf_members d ms \<Longrightarrow> utf8_ok k \<Longrightarrow> wf_gval d v \<Longrightarrow> wf_members d (obj_put k v ms)"
  using set_obj_put[of k v ms] unfolding wf_members_iff by fastforce

lemma fold_obj_put_wf:
  assumes "wf_members d kvs" "wf_gval (Suc d) (GObj acc)"
  shows "wf_gval (Suc d) (GObj (fold (\<lambda>(k, v). obj_put k v) kvs acc))"
  using assms
proof (induction kvs arbitrary: acc)
  case (Cons kv kvs)
  obtain k v where kv: "kv = (k, v)" by fastforce
  have "wf_gval (Suc d) (GObj (obj_put k v acc))"
    using Cons.prems obj_put_sorted[of acc k v] by (simp add: kv obj_put_wf)
  then show ?case using Cons.IH[of "obj_put k v acc"] Cons.prems by (simp add: kv)
qed simp

lemma decode_wf:
  "wf_json d j \<Longrightarrow> decode j = Some v \<Longrightarrow> wf_gval d v"
  "wf_jsons d js \<Longrightarrow> decode_list js = Some vs \<Longrightarrow> wf_list d vs"
  "wf_pairs d ps \<Longrightarrow> decode_members ps = Some ms \<Longrightarrow> wf_members d ms"
proof (induction j and js and ps arbitrary: d v and d vs and d ms
    rule: decode_decode_list_decode_members.induct)
  case (6 ps)
  then obtain kvs where "decode_members ps = Some kvs" "v = GObj (fold (\<lambda>(k, v). obj_put k v) kvs [])"
    by auto
  with "6.IH"[of "d - 1"] "6.prems" fold_obj_put_wf[of "d - 1" kvs "[]"] show ?case by simp
qed (auto dest: ParseFloat_valid split: option.splits)

text \<open>A decoded document is well formed.\<close>

lemma Unmarshal_wf: "Unmarshal s = Some v \<Longrightarrow> wf_gval maxNestingDepth v"
  by (auto simp: Unmarshal_def json_parse_def bind_eq_Some_conv split: option.splits if_splits
      dest!: parse_wf(1) decode_wf(1))

end
