(* ===== verification/Search_Filter.thy ===== *)
theory Search_Filter
  imports Broker_World Go_Json
begin

text \<open>
  Message filtering (\<^verbatim>\<open>internal/search/filter.go\<close>), the one place that decides what a
  search returns, whatever the broker.
\<close>

section \<open>Matching\<close>

definition matchesError :: "message \<Rightarrow> string \<Rightarrow> bool" where
  "matchesError m text =
     (let text = ToLower text in
      if Contains (ToLower (mFailureReason m)) text then True
      else Contains (ToLower (mPayload m)) text)"

fun lookupPath :: "gval \<Rightarrow> string list \<Rightarrow> gval option" where
  "lookupPath cur [] = Some cur"
| "lookupPath cur (part # parts) =
     (case cur of
        GObj ms \<Rightarrow> (case map_of ms part of None \<Rightarrow> None | Some v \<Rightarrow> lookupPath v parts)
      | _ \<Rightarrow> None)"

fun fields_loop :: "gval \<Rightarrow> (string \<times> string) list \<Rightarrow> bool" where
  "fields_loop doc [] = True"
| "fields_loop doc ((path, want) # fs) =
     (case lookupPath doc (Split (CHR ''.'') path) of
        None \<Rightarrow> False
      | Some got \<Rightarrow> if FormatV got \<noteq> want then False else fields_loop doc fs)"

definition matchesFields :: "string \<Rightarrow> (string \<times> string) list \<Rightarrow> bool" where
  "matchesFields payload fs =
     (case Unmarshal payload of None \<Rightarrow> False | Some doc \<Rightarrow> fields_loop doc fs)"

definition Match :: "message \<Rightarrow> search_filter \<Rightarrow> bool" where
  "Match m f =
     (if fErrorText f \<noteq> [] \<and> \<not> matchesError m (fErrorText f) then False
      else if \<not> IsZero (fSince f) \<and> Before (mTimestamp m) (fSince f) then False
      else if (case fMaxRetries f of None \<Rightarrow> False | Some n \<Rightarrow> mRetryCount m > n) then False
      else if fFields f \<noteq> [] \<and> \<not> matchesFields (mPayload m) (fFields f) then False
      else True)"

section \<open>The page\<close>

text \<open>The loop over the messages: the remaining offset and the result so far.\<close>

fun filter_loop :: "search_filter \<Rightarrow> int \<Rightarrow> message list \<Rightarrow> message list \<Rightarrow> message list" where
  "filter_loop f offset out [] = out"
| "filter_loop f offset out (m # ms) =
     (if \<not> Match m f then filter_loop f offset out ms
      else if offset > 0 then filter_loop f (offset - 1) out ms
      else if fLimit f > 0 \<and> int (length (out @ [m])) \<ge> fLimit f then out @ [m]
      else filter_loop f offset (out @ [m]) ms)"

definition Filter :: "message list \<Rightarrow> search_filter \<Rightarrow> message list" where
  "Filter msgs f = filter_loop f (fOffset f) [] msgs"

section \<open>Lemmas\<close>

lemma fields_loop_iff:
  "fields_loop doc fs \<longleftrightarrow>
     (\<forall>(path, want) \<in> set fs. \<exists>v. lookupPath doc (Split (CHR ''.'') path) = Some v \<and> FormatV v = want)"
  by (induction fs) (auto split: option.splits if_splits)

text \<open>The order in which Go walks the map of field constraints does not matter.\<close>

lemma Match_fields_order:
  "set fs = set (fFields f) \<Longrightarrow> Match m (f\<lparr>fFields := fs\<rparr>) = Match m f"
  by (auto simp: Match_def matchesFields_def fields_loop_iff split: option.splits)

lemma filter_loop_page:
  assumes "fLimit f \<le> 0 \<or> int (length out) < fLimit f"
  shows "filter_loop f k out ms =
    out @ (let page = drop (nat k) (filter (\<lambda>m. Match m f) ms)
           in if fLimit f > 0 then take (nat (fLimit f) - length out) page else page)"
  using assms
proof (induction ms arbitrary: k out)
  case (Cons m ms)
  show ?case
  proof (cases "Match m f")
    case True
    show ?thesis
    proof (cases "k > 0")
      case True
      then have "nat k = Suc (nat (k - 1))" by simp
      with True \<open>Match m f\<close> Cons.IH[OF Cons.prems] show ?thesis by (simp add: Let_def)
    next
      case False
      show ?thesis
      proof (cases "fLimit f > 0 \<and> int (length out) + 1 \<ge> fLimit f")
        case True
        then have "nat (fLimit f) - length out = 1" using Cons.prems by linarith
        with True False \<open>Match m f\<close> show ?thesis by (simp add: Let_def)
      next
        case False
        then have "fLimit f \<le> 0 \<or> int (length (out @ [m])) < fLimit f" by auto
        moreover have "fLimit f > 0 \<Longrightarrow> nat (fLimit f) - length out = Suc (nat (fLimit f) - length (out @ [m]))"
          using False Cons.prems by auto
        ultimately show ?thesis
          using Cons.IH[of "out @ [m]" k] False \<open>\<not> k > 0\<close> \<open>Match m f\<close> by (auto simp: Let_def)
      qed
    qed
  qed (use Cons in \<open>simp add: Let_def\<close>)
qed simp

section \<open>Properties\<close>

text \<open>
  C26: a search returns one page of the matching messages. Whatever the filter, the result is the
  subsequence of the messages that match, without the first \<open>offset\<close> of them (a negative offset
  skips none) and cut after \<open>limit\<close> of them when the limit is positive.
\<close>

theorem search_returns_page:
  "Filter msgs f =
     (let page = drop (nat (fOffset f)) (filter (\<lambda>m. Match m f) msgs)
      in if fLimit f > 0 then take (nat (fLimit f)) page else page)"
  using filter_loop_page[of f "[]" "fOffset f" msgs] by (cases "fLimit f > 0") (simp_all add: Filter_def)

text \<open>
  A field constraint compares with the \<open>%v\<close> rendering of the decoded value: a number whose first
  digit stands for \<open>10 ^ 6\<close> or more is rendered with an exponent, so no constraint written in plain
  digits matches it.
\<close>

lemma large_number_has_exponent:
  assumes "shortest (fMan x) (fExp x) = (ds, dp)" "6 < dp"
  shows "CHR ''e'' \<in> set (FormatV (GNum x))"
  using assms by (cases ds) (auto simp: FormatG_def fmtE_def Let_def)

lemma large_number_never_matches:
  assumes "shortest (fMan x) (fExp x) = (ds, dp)" "6 < dp" "CHR ''e'' \<notin> set want"
    "lookupPath doc (Split (CHR ''.'') path) = Some (GNum x)"
  shows "\<not> fields_loop doc ((path, want) # fs)"
  using large_number_has_exponent[OF assms(1,2)] assms(3,4) by auto

end
