(* ===== verification/Redaction.thy ===== *)
theory Redaction
  imports Search_Filter
begin

text \<open>
  Masking of sensitive payload fields (\<^verbatim>\<open>internal/message/redact.go\<close>). The code masks
  the decoded document in place; here each step returns the changed document.
\<close>

section \<open>The redactor\<close>

record redactor =
  rdFields :: "string list"
  rdMask :: string

definition mask :: "redactor \<Rightarrow> string" where
  "mask r = (if rdMask r = [] then ''[REDACTED]'' else rdMask r)"

fun redactPath :: "gval \<Rightarrow> string list \<Rightarrow> string \<Rightarrow> gval" where
  "redactPath doc [] mk = doc"
| "redactPath doc (key # parts) mk =
     (case doc of
        GObj ms \<Rightarrow>
          (case map_of ms key of
             None \<Rightarrow> doc
           | Some v \<Rightarrow>
               if parts = [] then GObj (obj_put key (GStr mk) ms)
               else GObj (obj_put key (redactPath v parts mk) ms))
      | _ \<Rightarrow> doc)"

definition field_path :: "string \<Rightarrow> string list" where
  "field_path path = Split (CHR ''.'') path"

definition redact_fields :: "redactor \<Rightarrow> gval \<Rightarrow> gval" where
  "redact_fields r doc = fold (\<lambda>path doc. redactPath doc (field_path path) (mask r)) (rdFields r) doc"

definition Apply :: "redactor \<Rightarrow> string \<Rightarrow> string" where
  "Apply r payload =
     (if rdFields r = [] then payload
      else case Unmarshal payload of
        None \<Rightarrow> payload
      | Some doc \<Rightarrow> Marshal (redact_fields r doc))"

section \<open>Lemmas\<close>

lemma field_path_nonempty [simp]: "field_path p \<noteq> []"
  by (simp add: field_path_def)

lemma redactPath_wf:
  "wf_gval d doc \<Longrightarrow> utf8_ok mk \<Longrightarrow> wf_gval d (redactPath doc parts mk)"
proof (induction doc parts mk arbitrary: d rule: redactPath.induct)
  case (2 doc key parts mk)
  show ?case
  proof (cases "\<exists>ms v. doc = GObj ms \<and> map_of ms key = Some v")
    case True
    then obtain ms v where ms: "doc = GObj ms" "map_of ms key = Some v" by blast
    have kv: "utf8_ok key" "wf_gval (d - 1) v"
      using "2.prems"(1) ms map_of_SomeD[OF ms(2)] by (auto simp: wf_members_iff)
    have "wf_gval (d - 1) (if parts = [] then GStr mk else redactPath v parts mk)"
      using "2.IH"[OF ms _ kv(2) "2.prems"(2)] "2.prems"(2) by simp
    then show ?thesis
      using "2.prems"(1) ms kv(1) obj_put_wf obj_put_sorted[of ms key] by (auto split: if_splits)
  qed (use "2.prems" in \<open>auto split: gval.splits option.splits\<close>)
qed simp

text \<open>One level of a document: the value of a key.\<close>

definition member :: "gval \<Rightarrow> string \<Rightarrow> gval option" where
  "member doc k = (case doc of GObj ms \<Rightarrow> map_of ms k | _ \<Rightarrow> None)"

lemma lookupPath_Cons: "lookupPath doc (k # p) = Option.bind (member doc k) (\<lambda>v. lookupPath v p)"
  by (simp add: member_def split: gval.split option.split)

lemma member_redact:
  "member (redactPath doc (k # q) mk) j =
     (if j = k then map_option (\<lambda>v. if q = [] then GStr mk else redactPath v q mk) (member doc k)
      else member doc j)"
  by (cases doc) (auto simp: member_def redactPath.simps split: option.splits)

lemma member_GStr [simp]: "member (GStr s) k = None"
  by (simp add: member_def)

declare redactPath.simps(2) [simp del] lookupPath.simps(2) [simp del]

text \<open>What masking one path does to the lookup of another.\<close>

lemma lookup_redact_other:
  "\<not> prefix q p \<Longrightarrow> \<not> prefix p q \<Longrightarrow> lookupPath (redactPath doc q mk) p = lookupPath doc p"
proof (induction q arbitrary: doc p)
  case (Cons k q)
  then obtain j p' where p: "p = j # p'" by (cases p) auto
  show ?case
  proof (cases "j = k")
    case True
    then have "q \<noteq> []" "\<not> prefix q p'" "\<not> prefix p' q" using Cons.prems p by auto
    then show ?thesis using Cons.IH True by (cases "member doc k") (simp_all add: p lookupPath_Cons member_redact)
  qed (simp add: p lookupPath_Cons member_redact)
qed simp

definition masked :: "string \<Rightarrow> gval option \<Rightarrow> bool" where
  "masked mk v = (v = None \<or> v = Some (GStr mk))"

lemma masked_None [simp]: "masked mk None"
  by (simp add: masked_def)

lemma masked_GStr [simp]: "masked mk (Some (GStr mk))"
  by (simp add: masked_def)

lemma masked_mask: "masked mk (lookupPath (GStr mk) p)"
  by (cases p) (simp_all add: masked_def lookupPath_Cons)

lemma redactPath_GStr [simp]: "redactPath (GStr s) q mk = GStr s"
  by (cases q) (simp_all add: redactPath.simps)

lemma masked_redact_self: "q \<noteq> [] \<Longrightarrow> masked mk (lookupPath (redactPath doc q mk) q)"
proof (induction q arbitrary: doc)
  case (Cons k q)
  then show ?case
    by (cases "member doc k") (auto simp: lookupPath_Cons member_redact masked_mask)
qed simp

lemma masked_redact_keep:
  "masked mk (lookupPath doc p) \<Longrightarrow> masked mk (lookupPath (redactPath doc q mk) p)"
proof (induction q arbitrary: doc p)
  case (Cons k q)
  show ?case
  proof (cases p)
    case Nil
    then have "doc = GStr mk" using Cons.prems by (simp add: masked_def)
    then show ?thesis by (simp add: masked_mask)
  next
    case p: (Cons j p')
    show ?thesis
    proof (cases "member doc j")
      case (Some v)
      then have "masked mk (lookupPath v p')" using Cons.prems by (simp add: p lookupPath_Cons)
      then show ?thesis using Cons.IH[of v p'] Some
        by (auto simp: p lookupPath_Cons member_redact masked_mask)
    qed (auto simp: p lookupPath_Cons member_redact)
  qed
qed simp

lemma redact_fields_wf: "wf_gval d doc \<Longrightarrow> utf8_ok (mask r) \<Longrightarrow> wf_gval d (redact_fields r doc)"
  unfolding redact_fields_def by (rule fold_invariant[where Q = "\<lambda>_. True"]) (auto intro: redactPath_wf)

lemma fold_masked:
  "masked mk (lookupPath doc p) \<or> p \<in> field_path ` set fs \<Longrightarrow>
   masked mk (lookupPath (fold (\<lambda>q doc. redactPath doc (field_path q) mk) fs doc) p)"
  by (induction fs arbitrary: doc) (auto simp: masked_redact_keep masked_redact_self)

lemma fold_other:
  "(\<And>q. q \<in> set fs \<Longrightarrow> \<not> prefix (field_path q) p \<and> \<not> prefix p (field_path q)) \<Longrightarrow>
   lookupPath (fold (\<lambda>q doc. redactPath doc (field_path q) mk) fs doc) p = lookupPath doc p"
  by (induction fs arbitrary: doc) (auto simp: lookup_redact_other)

lemma Unmarshal_Apply:
  assumes "utf8_ok (mask r)" "Unmarshal payload = Some doc"
  shows "Unmarshal (Apply r payload) = Some (redact_fields r doc)"
  using assms Unmarshal_Marshal[OF redact_fields_wf[OF Unmarshal_wf[OF assms(2)] assms(1)]]
  by (simp add: Apply_def redact_fields_def)

section \<open>Properties\<close>

text \<open>
  Redaction hides the configured fields and nothing else. What is printed for a JSON payload
  is again JSON; in it every configured path leads to the mask or to nothing, and every path that
  neither contains nor is contained in a configured one still leads to the value it had.
\<close>

theorem redaction_hides_fields:
  assumes "utf8_ok (mask r)" "Unmarshal payload = Some doc"
  shows "\<exists>doc'. Unmarshal (Apply r payload) = Some doc' \<and>
    (\<forall>path. path \<in> set (rdFields r) \<longrightarrow> masked (mask r) (lookupPath doc' (field_path path))) \<and>
    (\<forall>p. \<not> (\<exists>path \<in> set (rdFields r). prefix (field_path path) p \<or> prefix p (field_path path)) \<longrightarrow>
      lookupPath doc' p = lookupPath doc p)"
  unfolding Unmarshal_Apply[OF assms] redact_fields_def
  using fold_masked[of "mask r" doc _ "rdFields r"] fold_other[of "rdFields r" _ "mask r" doc] by blast

text \<open>A payload with a customer record: the address is masked, the id is kept.\<close>

definition demo_redactor :: redactor where
  "demo_redactor = \<lparr>rdFields = [''customer.email''], rdMask = []\<rparr>"

definition demo_payload :: string where
  "demo_payload = [CHR ''{'', CHR 0x22] @ ''customer'' @ [CHR 0x22, CHR '':'', CHR ''{'', CHR 0x22] @ ''email''
     @ [CHR 0x22, CHR '':'', CHR 0x22] @ ''a@b.c'' @ [CHR 0x22, CHR '','', CHR 0x22] @ ''id''
     @ [CHR 0x22, CHR '':''] @ ''true}}''"

lemma demo_payload_value:
  "Unmarshal demo_payload = Some (GObj [(''customer'', GObj [(''email'', GStr ''a@b.c''), (''id'', GBool True)])])"
  by (simp add: demo_payload_def Unmarshal_def json_evals)

theorem redaction_hides_fields_witness:
  "\<exists>doc'. Unmarshal (Apply demo_redactor demo_payload) = Some doc' \<and>
     masked ''[REDACTED]'' (lookupPath doc' [''customer'', ''email'']) \<and>
     lookupPath doc' [''customer'', ''id''] = Some (GBool True)"
proof -
  have m: "mask demo_redactor = ''[REDACTED]''" by (simp add: mask_def demo_redactor_def)
  have u: "utf8_ok (mask demo_redactor)"
    unfolding m by (simp add: utf8_ok_def valid_utf8.simps between_def)
  have f: "field_path ''customer.email'' = [''customer'', ''email'']" by (simp add: field_path_def)
  have p: "\<not> (\<exists>path \<in> set (rdFields demo_redactor).
      prefix (field_path path) [''customer'', ''id''] \<or> prefix [''customer'', ''id''] (field_path path))"
    "''customer.email'' \<in> set (rdFields demo_redactor)"
    by (simp_all add: demo_redactor_def f)
  from redaction_hides_fields[OF u demo_payload_value] p show ?thesis
    by (auto simp: f m lookupPath.simps dest!: spec[of _ "[''customer'', ''id'']"])
qed

end
