(* ===== verification/Patch.thy ===== *)
theory Patch
  imports Redaction
begin

text \<open>
  Payload patches and payload diffs (\<^verbatim>\<open>internal/patch/patch.go\<close> and
  \<^verbatim>\<open>diff.go\<close>). The code walks into the decoded document and assigns in place; no two
  parts of a decoded document share a map or a slice, so here every step returns the changed
  document. A Go run-time panic is a value of its own. The text of an error
  of the JSON package is left out of the error that wraps it.
\<close>

section \<open>Set operations\<close>

record set_op =
  soPath :: string
  soValue :: string

datatype 'a run = Panics | Returns 'a

definition parseValue :: "string \<Rightarrow> (goerr, gval) result" where
  "parseValue raw =
     (if json_Valid raw
      then (case Unmarshal raw of
              None \<Rightarrow> Err (Text (''patch: parse value '' @ Quote raw))
            | Some v \<Rightarrow> Ok v)
      else Ok (GStr raw))"

definition indexSegment :: "string \<Rightarrow> int option" where
  "indexSegment seg = (if seg = [] then None else if \<not> list_all is_digit seg then None else Atoi seg)"

text \<open>The \<open>%T\<close> verb on a decoded value.\<close>

fun type_text :: "gval \<Rightarrow> string" where
  "type_text GNil = ''<nil>''"
| "type_text (GBool b) = ''bool''"
| "type_text (GNum x) = ''float64''"
| "type_text (GStr s) = ''string''"
| "type_text (GArr vs) = ''[]interface {}''"
| "type_text (GObj ms) = ''map[string]interface {}''"

definition range_text :: "int \<Rightarrow> nat \<Rightarrow> string" where
  "range_text i n = '': index '' @ Itoa i @ '' out of range (len '' @ Itoa (int n) @ '')''"

text \<open>The assignment at the last segment; \<open>segs\<close> are all segments of the path.\<close>

definition assign_last :: "string list \<Rightarrow> gval \<Rightarrow> string \<Rightarrow> gval \<Rightarrow> (goerr, gval) result" where
  "assign_last segs cur key v =
     (case cur of
        GObj ms \<Rightarrow> Ok (GObj (obj_put key v ms))
      | GArr xs \<Rightarrow>
          (case indexSegment key of
             None \<Rightarrow> Err (Text (''patch: '' @ Quote (Join segs ''.'') @ '': cannot set key '' @ Quote key @ '' on an array''))
           | Some i \<Rightarrow>
               if i < 0 \<or> i \<ge> int (length xs)
               then Err (Text (''patch: '' @ Quote (Join segs ''.'') @ range_text i (length xs)))
               else Ok (GArr (xs[nat i := v])))
      | _ \<Rightarrow> Err (Text (''patch: '' @ Quote (Join segs ''.'') @ '': cannot set into '' @ type_text cur)))"

text \<open>
  The walk over the segments before the last one: \<open>walked\<close> are the segments behind the
  current node. A missing key of an object is created as an empty object; inside an array only
  objects can be entered.
\<close>

fun set_path :: "string list \<Rightarrow> gval \<Rightarrow> string list \<Rightarrow> gval \<Rightarrow> (goerr, gval) result" where
  "set_path walked cur [] v = Ok cur"
| "set_path walked cur [seg] v = assign_last (walked @ [seg]) cur seg v"
| "set_path walked cur (seg # s # rest) v =
     (let here = ''patch: '' @ Join (walked @ [seg]) ''.'' in
      case cur of
        GObj ms \<Rightarrow>
          let child = (case map_of ms seg of None \<Rightarrow> GObj [] | Some c \<Rightarrow> c) in
          if (case child of GObj _ \<Rightarrow> True | GArr _ \<Rightarrow> True | _ \<Rightarrow> False)
          then map_sum id (\<lambda>c. GObj (obj_put seg c ms)) (set_path (walked @ [seg]) child (s # rest) v)
          else Err (Text (here @ '': segment '' @ Quote seg @ '' is not an object or array''))
      | GArr xs \<Rightarrow>
          (case indexSegment seg of
             None \<Rightarrow> Err (Text (here @ '': segment '' @ Quote seg @ '' on an array requires an index''))
           | Some i \<Rightarrow>
               if i < 0 \<or> i \<ge> int (length xs)
               then Err (Text (here @ range_text i (length xs)))
               else if (case xs ! nat i of GObj _ \<Rightarrow> True | _ \<Rightarrow> False)
               then map_sum id (\<lambda>c. GArr (xs[nat i := c])) (set_path (walked @ [seg]) (xs ! nat i) (s # rest) v)
               else Err (Text (here @ '': index '' @ Itoa i @ '' is not an object'')))
      | _ \<Rightarrow> Err (Text (here @ '': cannot descend through '' @ type_text cur)))"

text \<open>
  One operation on the decoded root. \<^const>\<open>GNil\<close> is the nil map \<open>json.Unmarshal\<close> leaves for
  the payload \<open>null\<close>: every assignment to it panics.
\<close>

definition applySet :: "gval \<Rightarrow> string list \<Rightarrow> string \<Rightarrow> (goerr, gval) result run" where
  "applySet doc segs val =
     (case parseValue val of
        Inl e \<Rightarrow> Returns (Err e)
      | Inr v \<Rightarrow> if doc = GNil then Panics else Returns (set_path [] doc segs v))"

fun apply_ops :: "gval \<Rightarrow> set_op list \<Rightarrow> (goerr, gval) result run" where
  "apply_ops doc [] = Returns (Ok doc)"
| "apply_ops doc (op # ops) =
     (if soPath op = [] then Returns (Err (Text ''patch: empty path''))
      else case applySet doc (field_path (soPath op)) (soValue op) of
        Panics \<Rightarrow> Panics
      | Returns (Inl e) \<Rightarrow> Returns (Err e)
      | Returns (Inr doc) \<Rightarrow> apply_ops doc ops)"

definition not_an_object :: goerr where
  "not_an_object = Text ''patch: payload is not a JSON object''"

definition ApplySet :: "string \<Rightarrow> set_op list \<Rightarrow> (goerr, string) result run" where
  "ApplySet payload ops =
     (if ops = [] then Returns (Err (Text ''patch: no set operations''))
      else case Unmarshal payload of
        None \<Rightarrow> Returns (Err not_an_object)
      | Some doc \<Rightarrow>
          if (case doc of GObj _ \<Rightarrow> True | GNil \<Rightarrow> True | _ \<Rightarrow> False)
          then (case apply_ops doc ops of
                  Panics \<Rightarrow> Panics
                | Returns (Inl e) \<Rightarrow> Returns (Err e)
                | Returns (Inr doc) \<Rightarrow> Returns (Ok (Marshal doc)))
          else Returns (Err not_an_object))"

section \<open>Diffs\<close>

text \<open>\<open>reflect.DeepEqual\<close> on decoded values: as equality, but the two zeros are equal.\<close>

fun deepEqual :: "gval \<Rightarrow> gval \<Rightarrow> bool"
and deepEqual_list :: "gval list \<Rightarrow> gval list \<Rightarrow> bool"
and deepEqual_members :: "(string \<times> gval) list \<Rightarrow> (string \<times> gval) list \<Rightarrow> bool" where
  "deepEqual (GNum x) w = (case w of GNum y \<Rightarrow> x = y \<or> fMan x = 0 \<and> fMan y = 0 | _ \<Rightarrow> False)"
| "deepEqual (GArr vs) w = (case w of GArr ws \<Rightarrow> deepEqual_list vs ws | _ \<Rightarrow> False)"
| "deepEqual (GObj ms) w =
     (case w of GObj ns \<Rightarrow> length ms = length ns \<and> deepEqual_members ms ns | _ \<Rightarrow> False)"
| "deepEqual v w = (v = w)"
| "deepEqual_list [] ws = (ws = [])"
| "deepEqual_list (v # vs) ws = (case ws of [] \<Rightarrow> False | w # ws \<Rightarrow> deepEqual v w \<and> deepEqual_list vs ws)"
| "deepEqual_members [] ns = True"
| "deepEqual_members ((k, v) # ms) ns =
     ((case map_of ns k of None \<Rightarrow> False | Some w \<Rightarrow> deepEqual v w) \<and> deepEqual_members ms ns)"

definition sortedKeys :: "(string \<times> gval) list \<Rightarrow> (string \<times> gval) list \<Rightarrow> string list" where
  "sortedKeys a b = sort (remdups (map fst a @ map fst b))"

definition joinPath :: "string \<Rightarrow> string \<Rightarrow> string" where
  "joinPath base seg = (if base = [] then seg else base @ ''.'' @ seg)"

definition diff_line :: "string \<Rightarrow> string \<Rightarrow> gval \<Rightarrow> string" where
  "diff_line op path v = (if path = [] then op @ '' '' @ Marshal v else op @ '' '' @ path @ '': '' @ Marshal v)"

definition removeLine :: "string \<Rightarrow> gval \<Rightarrow> string" where
  "removeLine path v = diff_line ''-'' path v"

definition addLine :: "string \<Rightarrow> gval \<Rightarrow> string" where
  "addLine path v = diff_line ''+'' path v"

lemma map_of_size: "map_of ms k = Some v \<Longrightarrow> size v < size (GObj ms)"
  by (induction ms) (auto split: if_splits)

function diffValue :: "string \<Rightarrow> gval \<Rightarrow> gval \<Rightarrow> string list" where
  "diffValue path old new =
     (case (old, new) of
        (GObj om, GObj nm) \<Rightarrow>
          concat (map (\<lambda>k.
            case (map_of om k, map_of nm k) of
              (None, None) \<Rightarrow> []
            | (None, Some nv) \<Rightarrow> [addLine (joinPath path k) nv]
            | (Some ov, None) \<Rightarrow> [removeLine (joinPath path k) ov]
            | (Some ov, Some nv) \<Rightarrow> diffValue (joinPath path k) ov nv) (sortedKeys om nm))
      | _ \<Rightarrow> if deepEqual old new then [] else [removeLine path old, addLine path new])"
  by pat_completeness auto
termination by (relation "measure (\<lambda>(path, old, new). size old)") (auto dest!: map_of_size[OF sym])

declare diffValue.simps [simp del]

definition Diff :: "string \<Rightarrow> string \<Rightarrow> (goerr, string) result" where
  "Diff old new =
     (case Unmarshal old of
        None \<Rightarrow> Err (Text ''patch: diff old payload'')
      | Some d \<Rightarrow>
     (case Unmarshal new of
        None \<Rightarrow> Err (Text ''patch: diff new payload'')
      | Some n \<Rightarrow> Ok (Join (diffValue [] d n) [CHR 0x0A])))"

section \<open>Reading at a path\<close>

fun get_path :: "gval \<Rightarrow> string list \<Rightarrow> gval option" where
  "get_path cur [] = Some cur"
| "get_path cur (seg # rest) =
     (case cur of
        GObj ms \<Rightarrow> (case map_of ms seg of None \<Rightarrow> None | Some v \<Rightarrow> get_path v rest)
      | GArr xs \<Rightarrow>
          (case indexSegment seg of None \<Rightarrow> None
           | Some i \<Rightarrow> if 0 \<le> i \<and> i < int (length xs) then get_path (xs ! nat i) rest else None)
      | _ \<Rightarrow> None)"

text \<open>Two paths overlap when one leads through the other; two spellings of an index are one step.\<close>

definition same_step :: "string \<Rightarrow> string \<Rightarrow> bool" where
  "same_step a b = (a = b \<or> indexSegment a \<noteq> None \<and> indexSegment a = indexSegment b)"

fun overlaps :: "string list \<Rightarrow> string list \<Rightarrow> bool" where
  "overlaps (a # p) (b # q) = (same_step a b \<and> overlaps p q)"
| "overlaps p q = True"

lemma overlaps_Nil [simp]: "overlaps p []"
  by (cases p) simp_all

lemma assign_last_cases:
  assumes "assign_last segs cur key v = Ok c"
  obtains ms where "cur = GObj ms" "c = GObj (obj_put key v ms)"
    | xs i where "cur = GArr xs" "indexSegment key = Some i" "0 \<le> i" "i < int (length xs)"
        "c = GArr (xs[nat i := v])"
  using assms by (auto simp: assign_last_def split: gval.splits option.splits if_splits)

text \<open>A step of the walk: the node is an object whose child is entered or created, or an array.\<close>

lemma set_path_step:
  assumes "set_path walked cur (seg # s # rest) v = Ok c"
  obtains (object) ms child c' where "cur = GObj ms" "c = GObj (obj_put seg c' ms)"
      "child = (case map_of ms seg of None \<Rightarrow> GObj [] | Some c \<Rightarrow> c)"
      "(\<exists>ns. child = GObj ns) \<or> (\<exists>ys. child = GArr ys)"
      "set_path (walked @ [seg]) child (s # rest) v = Ok c'"
    | (array) xs i ns c' where "cur = GArr xs" "indexSegment seg = Some i" "0 \<le> i" "i < int (length xs)"
      "xs ! nat i = GObj ns" "c = GArr (xs[nat i := c'])"
      "set_path (walked @ [seg]) (xs ! nat i) (s # rest) v = Ok c'"
proof (cases cur)
  case (GObj ms)
  define child where "child = (case map_of ms seg of None \<Rightarrow> GObj [] | Some c \<Rightarrow> c)"
  have ch: "(\<exists>ns. child = GObj ns) \<or> (\<exists>ys. child = GArr ys)"
    using assms by (cases child) (simp_all add: GObj Let_def flip: child_def)
  then obtain c' where "set_path (walked @ [seg]) child (s # rest) v = Ok c'" "c = GObj (obj_put seg c' ms)"
    using assms by (cases "set_path (walked @ [seg]) child (s # rest) v")
      (auto simp add: GObj Let_def simp flip: child_def)
  then show ?thesis using object[OF GObj _ child_def ch] by blast
next
  case (GArr xs)
  obtain i where i: "indexSegment seg = Some i" "0 \<le> i" "i < int (length xs)"
    using assms by (auto simp: GArr Let_def split: option.splits if_splits)
  obtain ns where ns: "xs ! nat i = GObj ns"
    using assms i by (cases "xs ! nat i") (simp_all add: GArr Let_def)
  then obtain c' where "set_path (walked @ [seg]) (GObj ns) (s # rest) v = Ok c'" "c = GArr (xs[nat i := c'])"
    using assms i by (cases "set_path (walked @ [seg]) (GObj ns) (s # rest) v") (simp_all add: GArr Let_def)
  then show ?thesis using array[OF GArr i ns] ns by simp
qed (use assms in \<open>simp_all add: Let_def\<close>)

declare set_path.simps(3) [simp del]

text \<open>Reading one step below a changed node.\<close>

lemma get_path_obj_put:
  "get_path (GObj (obj_put k c ms)) (j # p) =
     (if j = k then get_path c p else get_path (GObj ms) (j # p))"
  by simp

lemma get_path_update:
  "indexSegment k = Some i \<Longrightarrow> 0 \<le> i \<Longrightarrow> i < int (length xs) \<Longrightarrow>
   get_path (GArr (xs[nat i := c])) (j # p) =
     (if same_step k j then get_path c p else get_path (GArr xs) (j # p))"
  by (auto simp: same_step_def nth_list_update nat_eq_iff split: option.split)

declare get_path.simps(2) [simp del]

lemma same_step_refl [simp]: "same_step a a"
  by (simp add: same_step_def)

lemma set_path_get:
  "set_path walked cur segs v = Ok c \<Longrightarrow> segs \<noteq> [] \<Longrightarrow> get_path c segs = Some v"
proof (induction segs arbitrary: walked cur c rule: induct_list012)
  case (2 seg)
  then show ?case by (auto elim!: assign_last_cases simp: get_path_obj_put get_path_update)
next
  case (3 seg s rest)
  from "3.prems"(1) show ?case
    by (cases rule: set_path_step) (auto simp: get_path_obj_put get_path_update dest: "3.IH"(2))
qed simp

lemma get_path_empty [simp]: "get_path (GObj []) (s # p) = None"
  by (simp add: get_path.simps)

lemma set_path_frame:
  "set_path walked cur segs v = Ok c \<Longrightarrow> \<not> overlaps segs p \<Longrightarrow> get_path c p = get_path cur p"
proof (induction segs arbitrary: walked cur c p rule: induct_list012)
  case (2 seg)
  then obtain j q where p: "p = j # q" "\<not> same_step seg j" by (cases p) auto
  then have "j \<noteq> seg" by auto
  with p "2.prems" show ?case by (auto elim!: assign_last_cases simp: get_path_obj_put get_path_update)
next
  case (3 seg s rest)
  then obtain j q where p: "p = j # q" by (cases p) auto
  from "3.prems"(1) show ?case
  proof (cases rule: set_path_step)
    case (object ms child c')
    show ?thesis
    proof (cases "j = seg")
      case True
      then have o: "\<not> overlaps (s # rest) q" using "3.prems"(2) by (simp add: p)
      then obtain t q' where q: "q = t # q'" by (cases q) auto
      have "get_path c' q = get_path child q" by (rule "3.IH"(2)[OF object(5) o])
      then show ?thesis using True q object(1-3)
        by (auto simp: p get_path_obj_put get_path.simps(2)[of _ seg] split: option.split)
    qed (simp add: p object(1,2) get_path_obj_put)
  next
    case (array xs i ns c')
    show ?thesis
    proof (cases "same_step seg j")
      case True
      then have "get_path c' q = get_path (xs ! nat i) q"
        using "3.IH"(2)[OF array(7)] "3.prems"(2) by (simp add: p)
      moreover have "indexSegment j = Some i" using True array(2) by (auto simp: same_step_def)
      ultimately show ?thesis using True array by (simp add: p get_path_update get_path.simps(2)[of _ j])
    qed (use array in \<open>simp add: p get_path_update\<close>)
  qed
qed (auto simp: overlaps.simps)

lemma wf_list_update: "wf_list d xs \<Longrightarrow> wf_gval d v \<Longrightarrow> wf_list d (xs[i := v])"
  using set_update_subset_insert[of xs i v] by (auto simp: wf_list_iff)

lemma set_path_wf:
  "set_path walked cur segs v = Ok c \<Longrightarrow> wf_gval d cur \<Longrightarrow> \<forall>s \<in> set segs. utf8_ok s \<Longrightarrow>
   length segs \<le> d \<Longrightarrow> wf_gval (d - length segs) v \<Longrightarrow> wf_gval d c"
proof (induction segs arbitrary: walked cur c d rule: induct_list012)
  case (2 seg)
  from "2.prems"(1) have "assign_last (walked @ [seg]) cur seg v = Ok c" by simp
  then show ?case
  proof (cases rule: assign_last_cases)
    case (1 ms)
    then show ?thesis using "2.prems" by (simp add: obj_put_wf obj_put_sorted)
  next
    case (2 xs i)
    then show ?thesis using "2.prems" by (simp add: wf_list_update)
  qed
next
  case (3 seg s rest)
  from "3.prems"(1) show ?case
  proof (cases rule: set_path_step)
    case (object ms child c')
    have "wf_gval (d - 1) child"
    proof (cases "map_of ms seg")
      case None
      then show ?thesis using "3.prems"(4) object(3) by simp
    next
      case (Some w)
      then have "(seg, w) \<in> set ms" "child = w" using object(3) by (auto dest: map_of_SomeD)
      then show ?thesis using "3.prems"(2) object(1) by (auto simp: wf_members_iff)
    qed
    then have "wf_gval (d - 1) c'" using "3.IH"(2)[OF object(5), of "d - 1"] "3.prems" by simp
    then show ?thesis using "3.prems" object(1,2) by (simp add: obj_put_wf obj_put_sorted)
  next
    case (array xs i ns c')
    have "wf_list (d - 1) xs" "nat i < length xs" using "3.prems"(2) array(1,3,4) by auto
    then have "wf_gval (d - 1) (xs ! nat i)" by (simp add: wf_list_iff del: wf_gval.simps)
    then have "wf_gval (d - 1) c'" using "3.IH"(2)[OF array(7), of "d - 1"] "3.prems" by simp
    then show ?thesis using "3.prems" array(1,6) by (auto simp: wf_list_update)
  qed
qed simp

section \<open>Whole patches\<close>

abbreviation op_path :: "set_op \<Rightarrow> string list" where
  "op_path op \<equiv> field_path (soPath op)"

text \<open>
  An operation whose result can be read back: its keys are UTF-8 and its value is not nested
  deeper than the reader allows at that path.
\<close>

definition op_fits :: "set_op \<Rightarrow> bool" where
  "op_fits op =
     ((\<forall>s \<in> set (op_path op). utf8_ok s) \<and> length (op_path op) \<le> maxNestingDepth \<and>
      (case parseValue (soValue op) of Inl e \<Rightarrow> True
       | Inr v \<Rightarrow> wf_gval (maxNestingDepth - length (op_path op)) v))"

lemma apply_ops_step:
  assumes "apply_ops doc (op # ops) = Returns (Ok doc')"
  obtains v d where "parseValue (soValue op) = Ok v" "set_path [] doc (op_path op) v = Ok d"
    "apply_ops d ops = Returns (Ok doc')"
  using assms
  by (cases "parseValue (soValue op)"; cases "doc = GNil"; cases "soPath op = []")
    (auto simp: applySet_def split: sum.splits)

lemma apply_ops_append:
  "apply_ops doc (xs @ ys) = Returns (Ok doc') \<Longrightarrow>
   \<exists>d. apply_ops doc xs = Returns (Ok d) \<and> apply_ops d ys = Returns (Ok doc')"
proof (induction xs arbitrary: doc)
  case (Cons op xs)
  from Cons.prems obtain v d where v: "parseValue (soValue op) = Ok v" "set_path [] doc (op_path op) v = Ok d"
      "apply_ops d (xs @ ys) = Returns (Ok doc')"
    using apply_ops_step by (metis append_Cons)
  moreover have "soPath op \<noteq> []" "doc \<noteq> GNil"
    using Cons.prems v(1) by (auto simp: applySet_def split: if_splits)
  ultimately show ?case using Cons.IH[OF v(3)] by (simp add: applySet_def)
qed simp

lemma apply_ops_frame:
  "apply_ops doc ops = Returns (Ok doc') \<Longrightarrow> (\<And>op. op \<in> set ops \<Longrightarrow> \<not> overlaps (op_path op) p) \<Longrightarrow>
   get_path doc' p = get_path doc p"
proof (induction ops arbitrary: doc)
  case (Cons op ops)
  from Cons.prems(1) show ?case
    by (rule apply_ops_step) (use Cons.IH Cons.prems(2) set_path_frame in fastforce)
qed simp

lemma apply_ops_wf:
  "apply_ops doc ops = Returns (Ok doc') \<Longrightarrow> wf_gval maxNestingDepth doc \<Longrightarrow> list_all op_fits ops \<Longrightarrow>
   wf_gval maxNestingDepth doc'"
proof (induction ops arbitrary: doc)
  case (Cons op ops)
  from Cons.prems(1) obtain v d where v: "parseValue (soValue op) = Ok v"
      "set_path [] doc (op_path op) v = Ok d" "apply_ops d ops = Returns (Ok doc')"
    by (rule apply_ops_step)
  have "wf_gval maxNestingDepth d"
    using set_path_wf[OF v(2) Cons.prems(2)] Cons.prems(3) v(1) by (auto simp: op_fits_def)
  then show ?case using Cons.IH[OF v(3)] Cons.prems(3) by simp
qed simp

lemma ApplySet_Ok:
  assumes "ApplySet payload ops = Returns (Ok out)"
  obtains doc doc' where "Unmarshal payload = Some doc" "apply_ops doc ops = Returns (Ok doc')"
    "out = Marshal doc'"
  using assms by (auto simp: ApplySet_def split: if_splits option.splits run.splits sum.splits)

section \<open>Properties\<close>

text \<open>
  C27: a patch sets what it says. A successful patch is again JSON; the path of every operation
  that no later operation touches leads to the value given on the command line, and every path
  that no operation touches leads to what it led to before.
\<close>

theorem patch_sets_paths:
  assumes "ApplySet payload (before @ op # after) = Returns (Ok out)"
    and "list_all op_fits (before @ op # after)"
    and "\<forall>later \<in> set after. \<not> overlaps (op_path later) (op_path op)"
  shows "\<exists>doc doc' v. Unmarshal payload = Some doc \<and> Unmarshal out = Some doc' \<and>
    parseValue (soValue op) = Ok v \<and> get_path doc' (op_path op) = Some v \<and>
    (\<forall>p. (\<forall>o' \<in> set (before @ op # after). \<not> overlaps (op_path o') p) \<longrightarrow>
      get_path doc' p = get_path doc p)"
proof -
  obtain doc doc' where d: "Unmarshal payload = Some doc"
      "apply_ops doc (before @ op # after) = Returns (Ok doc')" "out = Marshal doc'"
    using assms(1) by (rule ApplySet_Ok)
  obtain d1 where "apply_ops d1 (op # after) = Returns (Ok doc')"
    using apply_ops_append[OF d(2)] by blast
  then obtain v d2 where v: "parseValue (soValue op) = Ok v" "set_path [] d1 (op_path op) v = Ok d2"
      "apply_ops d2 after = Returns (Ok doc')"
    by (rule apply_ops_step)
  have "get_path doc' (op_path op) = Some v"
    using apply_ops_frame[OF v(3)] assms(3) set_path_get[OF v(2)] by simp
  moreover have "Unmarshal out = Some doc'"
    unfolding d(3) by (rule Unmarshal_Marshal[OF apply_ops_wf[OF d(2) Unmarshal_wf[OF d(1)] assms(2)]])
  moreover have "get_path doc' p = get_path doc p"
    if "\<forall>o' \<in> set (before @ op # after). \<not> overlaps (op_path o') p" for p
    using apply_ops_frame[OF d(2), of p] that by blast
  ultimately show ?thesis using d(1) v(1) by blast
qed

lemma set_path_object:
  assumes "set_path walked (GObj ms) segs v = Ok c" "segs \<noteq> []"
  shows "\<exists>ns. c = GObj ns"
proof (cases "tl segs")
  case Nil
  then have "segs = [hd segs]" using assms(2) by (cases segs) auto
  then show ?thesis using assms(1) by (metis set_path.simps(2) assign_last_cases gval.distinct(29))
next
  case (Cons s rest)
  then have "segs = hd segs # s # rest" using assms(2) by (cases segs) auto
  then have "set_path walked (GObj ms) (hd segs # s # rest) v = Ok c" using assms(1) by simp
  then show ?thesis by (rule set_path_step) auto
qed

lemma apply_ops_no_panic: "apply_ops (GObj ms) ops \<noteq> Panics"
proof (induction ops arbitrary: ms)
  case (Cons op ops)
  show ?case
  proof (cases "applySet (GObj ms) (op_path op) (soValue op)")
    case Panics
    then show ?thesis by (simp add: applySet_def split: sum.splits)
  next
    case (Returns r)
    have "\<exists>ns. d = GObj ns" if "r = Ok d" for d
      using Returns that set_path_object[of "[]" ms "op_path op" _ d]
      by (auto simp: applySet_def split: sum.splits)
    then show ?thesis using Cons.IH Returns by (auto split: sum.split)
  qed
qed simp

text \<open>
  C28: when a patch panics. The payload \<open>null\<close> leaves the decoder's map nil, and the first
  assignment with a readable value to a non-empty path panics; nothing else does.
\<close>

theorem patch_panics_iff:
  "ApplySet payload ops = Panics \<longleftrightarrow>
     (\<exists>op rest v. ops = op # rest \<and> Unmarshal payload = Some GNil \<and> soPath op \<noteq> [] \<and>
        parseValue (soValue op) = Ok v)"
proof (cases "Unmarshal payload")
  case None
  then show ?thesis by (simp add: ApplySet_def)
next
  case (Some doc)
  show ?thesis
  proof (cases doc)
    case GNil
    show ?thesis
    proof (cases ops)
      case (Cons op rest)
      then show ?thesis
        by (cases "soPath op = []"; cases "parseValue (soValue op)")
          (simp_all add: ApplySet_def applySet_def Some GNil)
    qed (simp add: ApplySet_def)
  next
    case (GObj ms)
    then show ?thesis using apply_ops_no_panic[of ms ops]
      by (simp add: ApplySet_def Some split: run.split sum.split)
  qed (simp_all add: ApplySet_def Some)
qed

text \<open>One patch of a small order: a new key inside an object that did not exist.\<close>

definition demo_op :: set_op where
  "demo_op = \<lparr>soPath = ''b.c'', soValue = ''true''\<rparr>"

definition demo_order :: string where
  "demo_order = [CHR ''{'', CHR 0x22] @ ''a'' @ [CHR 0x22, CHR '':''] @ ''null}''"

lemma demo_order_value: "Unmarshal demo_order = Some (GObj [(''a'', GNil)])"
  by (simp add: demo_order_def Unmarshal_def json_evals)

lemma demo_op_value: "parseValue (soValue demo_op) = Ok (GBool True)" "op_path demo_op = [''b'', ''c'']"
  by (simp_all add: demo_op_def parseValue_def Unmarshal_def json_Valid_def json_evals field_path_def)

theorem patch_sets_paths_witness:
  "\<exists>out doc'. ApplySet demo_order [demo_op] = Returns (Ok out) \<and> Unmarshal out = Some doc' \<and>
     get_path doc' [''b'', ''c''] = Some (GBool True) \<and> get_path doc' [''a''] = Some GNil"
proof -
  have p: "soPath demo_op \<noteq> []" by (simp add: demo_op_def)
  obtain out where out: "ApplySet demo_order ([] @ demo_op # []) = Returns (Ok out)"
    by (simp add: ApplySet_def demo_order_value p applySet_def demo_op_value set_path.simps assign_last_def)
  have fits: "list_all op_fits ([] @ demo_op # [])"
    by (simp add: op_fits_def demo_op_value utf8_ok_def valid_utf8.simps between_def maxNestingDepth_def)
  from patch_sets_paths[OF out fits] obtain doc' where
    d: "Unmarshal out = Some doc'" "get_path doc' [''b'', ''c''] = Some (GBool True)"
      "\<forall>p. \<not> overlaps [''b'', ''c''] p \<longrightarrow> get_path doc' p = get_path (GObj [(''a'', GNil)]) p"
    by (auto simp: demo_op_value demo_order_value)
  have apart: "\<not> overlaps [''b'', ''c''] [''a'']" by (simp add: same_step_def indexSegment_def is_digit_def)
  have "get_path (GObj [(''a'', GNil)]) [''a''] = Some GNil" by (simp add: get_path.simps)
  then have "get_path doc' [''a''] = Some GNil" using d(3)[rule_format, OF apart] by simp
  with out d show ?thesis by auto
qed

section \<open>Equal payloads have no diff\<close>

lemma deepEqual_list_iff: "deepEqual_list vs ws \<longleftrightarrow> list_all2 deepEqual vs ws"
  by (induction vs arbitrary: ws) (auto split: list.splits)

lemma deepEqual_members_iff:
  "deepEqual_members ms ns \<longleftrightarrow> (\<forall>(k, v) \<in> set ms. \<exists>w. map_of ns k = Some w \<and> deepEqual v w)"
  by (induction ms) (auto split: option.splits)

text \<open>Two maps of one size of which the first has its keys in the second have the same keys.\<close>

lemma same_keys:
  assumes "distinct (map fst ms)" "distinct (map fst ns)" "length ms = length ns"
    "fst ` set ms \<subseteq> fst ` set ns"
  shows "fst ` set ms = fst ` set ns"
proof (rule card_subset_eq)
  have "card (fst ` set ms) = length ms" "card (fst ` set ns) = length ns"
    using assms(1,2) distinct_card[of "map fst ms"] distinct_card[of "map fst ns"] by simp_all
  then show "card (fst ` set ms) = card (fst ` set ns)" using assms(3) by simp
qed (use assms(4) in auto)

lemma deepEqual_objects:
  assumes "distinct (map fst ms)" "distinct (map fst ns)"
  shows "deepEqual (GObj ms) (GObj ns) \<longleftrightarrow>
    (\<forall>k. rel_option deepEqual (map_of ms k) (map_of ns k))"
proof
  assume eq: "deepEqual (GObj ms) (GObj ns)"
  then have sub: "\<forall>(k, v) \<in> set ms. \<exists>w. map_of ns k = Some w \<and> deepEqual v w" and len: "length ms = length ns"
    by (auto simp: deepEqual_members_iff)
  have "fst ` set ms \<subseteq> fst ` set ns" using sub by (force dest: map_of_SomeD)
  from same_keys[OF assms len this] have keys: "map_of ms k = None \<longleftrightarrow> map_of ns k = None" for k
    by (simp add: map_of_eq_None_iff)
  show "\<forall>k. rel_option deepEqual (map_of ms k) (map_of ns k)"
  proof
    fix k
    show "rel_option deepEqual (map_of ms k) (map_of ns k)"
    proof (cases "map_of ms k")
      case (Some v)
      then have "(k, v) \<in> set ms" by (rule map_of_SomeD)
      with sub obtain w where "map_of ns k = Some w" "deepEqual v w" by blast
      with Some show ?thesis by simp
    qed (use keys[of k] in simp)
  qed
next
  assume rel: "\<forall>k. rel_option deepEqual (map_of ms k) (map_of ns k)"
  have "map_of ms k = None \<longleftrightarrow> map_of ns k = None" for k
    using rel[rule_format, of k] by (cases "map_of ms k"; cases "map_of ns k") auto
  then have "fst ` set ms = fst ` set ns" by (auto simp: map_of_eq_None_iff set_eq_iff)
  then have "length ms = length ns"
    using assms distinct_card[of "map fst ms"] distinct_card[of "map fst ns"] by simp
  moreover have "\<exists>w. map_of ns k = Some w \<and> deepEqual v w" if "(k, v) \<in> set ms" for k v
    using rel[rule_format, of k] assms(1) that by (auto simp: option_rel_Some1)
  ultimately show "deepEqual (GObj ms) (GObj ns)" by (auto simp: deepEqual_members_iff)
qed

lemma sortedKeys_set: "set (sortedKeys a b) = fst ` set a \<union> fst ` set b"
  by (simp add: sortedKeys_def)

lemma diffValue_empty_iff:
  "wf_gval d a \<Longrightarrow> wf_gval d b \<Longrightarrow> diffValue path a b = [] \<longleftrightarrow> deepEqual a b"
proof (induction path a b arbitrary: d rule: diffValue.induct)
  case (1 path a b)
  show ?case
  proof (cases "\<exists>ms ns. a = GObj ms \<and> b = GObj ns")
    case True
    then obtain ms ns where ab: "a = GObj ms" "b = GObj ns" by blast
    have wf: "wf_gval (d - 1) v" if "(k, v) \<in> set ms \<union> set ns" for k v
      using "1.prems" ab that by (auto simp: wf_members_iff)
    have step: "(case (map_of ms k, map_of ns k) of
          (None, None) \<Rightarrow> [] | (None, Some w) \<Rightarrow> [addLine (joinPath path k) w]
        | (Some v, None) \<Rightarrow> [removeLine (joinPath path k) v]
        | (Some v, Some w) \<Rightarrow> diffValue (joinPath path k) v w) = [] \<longleftrightarrow>
        rel_option deepEqual (map_of ms k) (map_of ns k)" if "k \<in> set (sortedKeys ms ns)" for k
    proof (cases "map_of ms k"; cases "map_of ns k")
      fix v w assume vw: "map_of ms k = Some v" "map_of ns k = Some w"
      then have "wf_gval (d - 1) v" "wf_gval (d - 1) w" using wf by (auto dest: map_of_SomeD)
      then show ?thesis using "1.IH"[OF refl ab that _ _ _] vw by simp
    qed auto
    have "diffValue path a b = [] \<longleftrightarrow>
        (\<forall>k \<in> set (sortedKeys ms ns). rel_option deepEqual (map_of ms k) (map_of ns k))"
      using step by (subst diffValue.simps) (simp add: ab)
    also have "\<dots> \<longleftrightarrow> (\<forall>k. rel_option deepEqual (map_of ms k) (map_of ns k))"
    proof -
      have "rel_option deepEqual (map_of ms k) (map_of ns k)" if "k \<notin> set (sortedKeys ms ns)" for k
      proof -
        have "map_of ms k = None" "map_of ns k = None"
          using that by (auto simp: sortedKeys_set map_of_eq_None_iff)
        then show ?thesis by simp
      qed
      then show ?thesis by blast
    qed
    finally show ?thesis using deepEqual_objects "1.prems" ab by simp
  next
    case False
    then show ?thesis
      by (subst diffValue.simps) (auto split: gval.splits)
  qed
qed

lemma diff_line_nonempty: "op \<noteq> [] \<Longrightarrow> diff_line op path v \<noteq> []" "op \<noteq> [] \<Longrightarrow> [] \<noteq> diff_line op path v"
  by (simp_all add: diff_line_def)

lemma diffValue_lines: "l \<in> set (diffValue path a b) \<Longrightarrow> l \<noteq> []"
proof (induction path a b arbitrary: l rule: diffValue.induct)
  case (1 path a b)
  show ?case
  proof (cases "\<exists>ms ns. a = GObj ms \<and> b = GObj ns")
    case True
    then obtain ms ns where ab: "a = GObj ms" "b = GObj ns" by blast
    with "1.prems" obtain k where k: "k \<in> set (sortedKeys ms ns)"
        "l \<in> set (case (map_of ms k, map_of ns k) of
          (None, None) \<Rightarrow> [] | (None, Some w) \<Rightarrow> [addLine (joinPath path k) w]
        | (Some v, None) \<Rightarrow> [removeLine (joinPath path k) v]
        | (Some v, Some w) \<Rightarrow> diffValue (joinPath path k) v w)"
      by (subst (asm) diffValue.simps) auto
    then show ?thesis using "1.IH"[OF refl ab k(1)]
      by (cases "map_of ms k"; cases "map_of ns k")
        (auto simp: addLine_def removeLine_def diff_line_nonempty)
  next
    case False
    then have "diffValue path a b = (if deepEqual a b then [] else [removeLine path a, addLine path b])"
      by (subst diffValue.simps) (auto split: gval.splits)
    then show ?thesis using "1.prems"
      by (auto simp: addLine_def removeLine_def diff_line_nonempty split: if_splits)
  qed
qed

lemma Join_empty_iff: "(\<And>w. w \<in> set ws \<Longrightarrow> w \<noteq> []) \<Longrightarrow> Join ws sep = [] \<longleftrightarrow> ws = []"
  by (cases ws; cases "tl ws") auto

text \<open>
  C29: the diff is empty exactly for equal payloads. \<open>Diff\<close> succeeds exactly when both payloads
  are JSON, and its text is empty exactly when the two documents are deeply equal.
\<close>

theorem diff_empty_iff_equal:
  "Diff old new = Ok [] \<longleftrightarrow>
     (\<exists>a b. Unmarshal old = Some a \<and> Unmarshal new = Some b \<and> deepEqual a b)"
proof -
  have "Join (diffValue [] a b) [CHR 0x0A] = [] \<longleftrightarrow> deepEqual a b"
    if "Unmarshal old = Some a" "Unmarshal new = Some b" for a b
    using Join_empty_iff[of "diffValue [] a b" "[CHR 0x0A]", OF diffValue_lines]
      diffValue_empty_iff[OF Unmarshal_wf Unmarshal_wf, OF that] by simp
  then show ?thesis by (auto simp: Diff_def split: option.splits)
qed

end
