(* ===== verification/Broker_Contract.thy ===== *)
theory Broker_Contract
  imports Safety_Gate
begin

text \<open>
  What the engine relies on in a broker adapter, as the conformance suite
  (\<^verbatim>\<open>internal/broker/conformance.go\<close>) exercises it: messages are read, published and removed
  through the ids the broker itself reports. A queue is abstracted to the list of its messages;
  inside the locale the safety gate is shown to move exactly one message.
\<close>

section \<open>Queues as lists of messages\<close>

type_synonym queues = "string \<Rightarrow> message list"

text \<open>RabbitMQ's dead-letter bookkeeping is not carried over by a replay.\<close>

definition isDeathHeader :: "string \<Rightarrow> bool" where
  "isDeathHeader k = (HasPrefix k ''x-death'' \<or> HasPrefix k ''x-first-death'')"

text \<open>What a broker must hand on of a message it is given; headers only when they are text.\<close>

definition same_content :: "(message \<Rightarrow> bool) \<Rightarrow> message \<Rightarrow> message \<Rightarrow> bool" where
  "same_content textual m m' =
     (mPayload m' = mPayload m \<and> mContentType m' = mContentType m \<and>
      (textual m \<longrightarrow> (\<forall>k. \<not> isDeathHeader k \<longrightarrow> hget (mHeaders m') k = hget (mHeaders m) k)))"

definition find_message :: "string \<Rightarrow> message list \<Rightarrow> message option" where
  "find_message i ms = find (\<lambda>m. mID m = i) ms"

fun remove_message :: "string \<Rightarrow> message list \<Rightarrow> message list" where
  "remove_message i [] = []"
| "remove_message i (m # ms) = (if mID m = i then ms else m # remove_message i ms)"

definition has_id :: "string \<Rightarrow> message list \<Rightarrow> bool" where
  "has_id i ms = (i \<in> mID ` set ms)"

definition put_message :: "string \<Rightarrow> message \<Rightarrow> queues \<Rightarrow> queues" where
  "put_message d m v = v(d := v d @ [m])"

definition drop_message :: "string \<Rightarrow> string \<Rightarrow> queues \<Rightarrow> queues" where
  "drop_message q i v = v(q := remove_message i (v q))"

lemma find_message_in: "find_message i ms = Some m \<Longrightarrow> m \<in> set ms \<and> mID m = i"
  by (auto simp: find_message_def find_Some_iff)

lemma find_message_append: "has_id i ms \<Longrightarrow> find_message i (ms @ ns) = find_message i ms"
  by (induction ms) (auto simp: find_message_def has_id_def)

lemma has_id_find: "has_id i ms \<Longrightarrow> \<exists>m. find_message i ms = Some m"
  by (induction ms) (auto simp: find_message_def has_id_def)

lemma remove_message_other:
  "x \<in> set ms \<Longrightarrow> find_message i ms \<noteq> Some x \<Longrightarrow> x \<in> set (remove_message i ms)"
  by (induction ms) (auto simp: find_message_def split: if_splits)

lemma put_message_mono: "x \<in> set (v q) \<Longrightarrow> x \<in> set (put_message d m v q)"
  by (auto simp: put_message_def)

lemma has_id_put: "has_id i (v q) \<Longrightarrow> has_id i (put_message d m v q)"
  by (auto simp: has_id_def put_message_def)

lemma find_put: "has_id i (v q) \<Longrightarrow> find_message i (put_message d m v q) = find_message i (v q)"
  by (cases "q = d") (simp_all add: put_message_def find_message_append)

text \<open>A copy of \<open>p\<close> at the destination; the same with the source message gone.\<close>

definition copied :: "(message \<Rightarrow> bool) \<Rightarrow> string \<Rightarrow> message \<Rightarrow> queues \<Rightarrow> queues \<Rightarrow> bool" where
  "copied textual d p v v' = (\<exists>m'. same_content textual p m' \<and> v' = put_message d m' v)"

definition moved ::
    "(message \<Rightarrow> bool) \<Rightarrow> string \<Rightarrow> string \<Rightarrow> string \<Rightarrow> message \<Rightarrow> queues \<Rightarrow> queues \<Rightarrow> bool" where
  "moved textual q i d p v v' =
     (\<exists>m'. same_content textual p m' \<and> v' = drop_message q i (put_message d m' v))"

section \<open>The contract\<close>

locale broker_contract =
  fixes b :: "'w broker"
    and view :: "'w \<Rightarrow> queues"
    and inv :: "'w \<Rightarrow> bool"
    and textual :: "message \<Rightarrow> bool"
    and routable :: "'w \<Rightarrow> string \<Rightarrow> bool"   \<comment> \<open>what is published to the queue arrives in it\<close>
    and faithful :: "'w \<Rightarrow> string \<Rightarrow> string \<Rightarrow> bool"   \<comment> \<open>the message can be read without loss\<close>
    and norm_msg :: "message \<Rightarrow> message"   \<comment> \<open>what of a message is the same on every read\<close>
  assumes inspect_law: "inv s \<Longrightarrow> bInspect b q i s = (r, s') \<Longrightarrow>
      inv s' \<and> view s' = view s \<and>
      (has_id i (view s q) \<longrightarrow> faithful s q i \<longrightarrow> (\<forall>m. r = Ok m \<longrightarrow> find_message i (view s q) = Some (norm_msg m)))"
    and stats_law: "inv s \<Longrightarrow> bStats b q s = (st, s') \<Longrightarrow>
      inv s' \<and> view s' = view s \<and> (is_Ok st \<longrightarrow> routable s' q)"
    and publish_law: "inv s \<Longrightarrow> routable s d \<Longrightarrow> bPublish b d m s = (e, s') \<Longrightarrow>
      inv s' \<and> (e \<noteq> None \<and> view s' = view s \<or> copied textual d m (view s) (view s'))"
    and ack_law: "inv s \<Longrightarrow> bAck b q i s = (e, s') \<Longrightarrow> has_id i (view s q) \<Longrightarrow>
      inv s' \<and> (e \<noteq> None \<and> view s' = view s \<or> view s' = drop_message q i (view s))"
begin

lemma inspect_world:
  assumes "do_inspect b q i w = (x, w')" "inv (wServer w)"
  shows "inv (wServer w') \<and> view (wServer w') = view (wServer w) \<and> fst (bInspect b q i (wServer w)) = x \<and>
    (has_id i (view (wServer w) q) \<longrightarrow> faithful (wServer w) q i \<longrightarrow>
      (\<forall>m. x = Ok m \<longrightarrow> find_message i (view (wServer w) q) = Some (norm_msg m)))"
  using inspect_law[OF assms(2)] do_inspect_frame[OF assms(1)] by auto

lemma stats_world:
  "do_stats b q w = (x, w') \<Longrightarrow> inv (wServer w) \<Longrightarrow>
   inv (wServer w') \<and> view (wServer w') = view (wServer w) \<and> (is_Ok x \<longrightarrow> routable (wServer w') q)"
  using stats_law do_stats_frame by blast

lemma publish_world:
  "do_publish b d m w = (e, w') \<Longrightarrow> inv (wServer w) \<Longrightarrow> routable (wServer w) d \<Longrightarrow>
   inv (wServer w') \<and> (e \<noteq> None \<and> view (wServer w') = view (wServer w) \<or>
     copied textual d m (view (wServer w)) (view (wServer w')))"
  using publish_law do_publish_frame by blast

lemma ack_world:
  "do_ack b q i w = (e, w') \<Longrightarrow> inv (wServer w) \<Longrightarrow> has_id i (view (wServer w) q) \<Longrightarrow>
   inv (wServer w') \<and> (e \<noteq> None \<and> view (wServer w') = view (wServer w) \<or>
     view (wServer w') = drop_message q i (view (wServer w)))"
  using ack_law do_ack_frame by blast

text \<open>The part of a replay behind the lookup of the message.\<close>

lemma execute_at_views:
  assumes "execute_at env b r m dest w = (res, w')" "inv (wServer w)"
    and "has_id (rqMessageID r) (view (wServer w) (rqQueue r))"
  shows "inv (wServer w') \<and>
    (if is_Ok res
     then moved textual (rqQueue r) (rqMessageID r) dest (published_message r m) (view (wServer w)) (view (wServer w'))
     else view (wServer w') = view (wServer w) \<or>
       copied textual dest (published_message r m) (view (wServer w)) (view (wServer w')) \<or>
       moved textual (rqQueue r) (rqMessageID r) dest (published_message r m) (view (wServer w)) (view (wServer w')))"
  using assms(1)
proof (cases rule: execute_at_cases)
  case (refused w1 e reason err)
  then show ?thesis using stats_world[OF refused(1) assms(2)] by simp
next
  case (publish_failed w1 w2 x e err)
  then show ?thesis
    using stats_world[OF publish_failed(1) assms(2)] publish_world[OF publish_failed(2)] by (auto split: if_splits)
next
  case (ack_failed w1 w2 w3 x e err)
  have s: "inv (wServer w1)" "view (wServer w1) = view (wServer w)" "routable (wServer w1) dest"
    using stats_world[OF ack_failed(1) assms(2)] by auto
  have p: "inv (wServer w2)" "copied textual dest (published_message r m) (view (wServer w)) (view (wServer w2))"
    using publish_world[OF ack_failed(2) s(1,3)] s(2) by auto
  have "has_id (rqMessageID r) (view (wServer w2) (rqQueue r))"
    using p(2) assms(3) by (auto simp: copied_def has_id_put)
  from ack_world[OF ack_failed(3) p(1) this] p show ?thesis
    using ack_failed by (auto simp: moved_def copied_def)
next
  case (success w1 w2 w3 x)
  have s: "inv (wServer w1)" "view (wServer w1) = view (wServer w)" "routable (wServer w1) dest"
    using stats_world[OF success(1) assms(2)] by auto
  have p: "inv (wServer w2)" "copied textual dest (published_message r m) (view (wServer w)) (view (wServer w2))"
    using publish_world[OF success(2) s(1,3)] s(2) by auto
  have "has_id (rqMessageID r) (view (wServer w2) (rqQueue r))"
    using p(2) assms(3) by (auto simp: copied_def has_id_put)
  from ack_world[OF success(3) p(1) this] p show ?thesis
    using success by (auto simp: moved_def copied_def)
qed

text \<open>A replay moves exactly the message it names, as it read it, or leaves it in the source queue.\<close>

lemma Execute_reads:
  assumes "Execute env b r w = (res, w')" "inv (wServer w)"
    and id: "has_id (rqMessageID r) (view (wServer w) (rqQueue r))"
  shows "inv (wServer w') \<and> (view (wServer w') = view (wServer w) \<and> \<not> is_Ok res \<or>
    (\<exists>m dest. fst (bInspect b (rqQueue r) (rqMessageID r) (wServer w)) = Ok m \<and>
      resolveDestination (rqDestination r) m = Ok dest \<and>
      (moved textual (rqQueue r) (rqMessageID r) dest (published_message r m) (view (wServer w)) (view (wServer w')) \<or>
       \<not> is_Ok res \<and> copied textual dest (published_message r m) (view (wServer w)) (view (wServer w')))))"
  using assms(1)
proof (cases rule: Execute_cases)
  case (at m1 dest w1)
  have i: "inv (wServer w1)" "view (wServer w1) = view (wServer w)"
      "fst (bInspect b (rqQueue r) (rqMessageID r) (wServer w)) = Ok m1"
    using inspect_world[OF at(2) assms(2)] by auto
  from execute_at_views[OF at(4) i(1)] id show ?thesis
    using at(3) i(3) unfolding i(2) by (auto split: if_splits)
qed (use assms(2) inspect_world[OF _ assms(2)] in auto)

lemma Execute_views:
  assumes "Execute env b r w = (res, w')" "inv (wServer w)"
    and "find_message (rqMessageID r) (view (wServer w) (rqQueue r)) = Some m0"
    and "faithful (wServer w) (rqQueue r) (rqMessageID r)"
  shows "view (wServer w') = view (wServer w) \<and> \<not> is_Ok res \<or>
    (\<exists>m dest. norm_msg m = m0 \<and> resolveDestination (rqDestination r) m = Ok dest \<and>
      (moved textual (rqQueue r) (rqMessageID r) dest (published_message r m) (view (wServer w)) (view (wServer w')) \<or>
       \<not> is_Ok res \<and> copied textual dest (published_message r m) (view (wServer w)) (view (wServer w'))))"
proof -
  have id: "has_id (rqMessageID r) (view (wServer w) (rqQueue r))"
    using find_message_in[OF assms(3)] by (force simp: has_id_def)
  have "norm_msg m = m0" if "fst (bInspect b (rqQueue r) (rqMessageID r) (wServer w)) = Ok m" for m
    using inspect_law[OF assms(2), of "rqQueue r" "rqMessageID r"] id assms(3,4) that
    by (cases "bInspect b (rqQueue r) (rqMessageID r) (wServer w)") auto
  then show ?thesis using Execute_reads[OF assms(1,2) id] by blast
qed

end

text \<open>A broker that answers: no call about a queue and a message it holds fails.\<close>

locale answering_broker = broker_contract +
  fixes up :: "'w \<Rightarrow> bool"
    and known :: "'w \<Rightarrow> string \<Rightarrow> bool"
  assumes inspect_up: "inv s \<Longrightarrow> up s \<Longrightarrow> q \<noteq> [] \<Longrightarrow> i \<noteq> [] \<Longrightarrow> has_id i (view s q) \<Longrightarrow>
      \<exists>m s'. bInspect b q i s = (Ok m, s') \<and> up s' \<and> known s' = known s"
    and stats_up: "inv s \<Longrightarrow> up s \<Longrightarrow> d \<noteq> [] \<Longrightarrow> known s d \<Longrightarrow>
      \<exists>st s'. bStats b d s = (Ok st, s') \<and> up s' \<and> known s' = known s"
    and publish_up: "inv s \<Longrightarrow> up s \<Longrightarrow> d \<noteq> [] \<Longrightarrow> known s d \<Longrightarrow>
      \<exists>s'. bPublish b d m s = (None, s') \<and> up s'"
    and ack_up: "inv s \<Longrightarrow> up s \<Longrightarrow> q \<noteq> [] \<Longrightarrow> i \<noteq> [] \<Longrightarrow> has_id i (view s q) \<Longrightarrow>
      \<exists>s'. bAck b q i s = (None, s')"
begin

lemma execute_at_answers:
  assumes w: "inv (wServer w)" "up (wServer w)" "has_id (rqMessageID r) (view (wServer w) (rqQueue r))"
    and q: "rqQueue r \<noteq> []" "rqMessageID r \<noteq> []" "dest \<noteq> []" "known (wServer w) dest"
  shows "\<exists>x w'. execute_at env b r m dest w = (Ok x, w') \<and> xrDestination x = dest"
proof -
  obtain st w1 where 1: "do_stats b dest w = (Ok st, w1)" "up (wServer w1)" "known (wServer w1) dest"
    using stats_up[OF w(1,2) q(3,4)] q(4) by (auto simp: do_stats_def)
  note s1 = stats_world[OF 1(1) w(1)]
  obtain w2 where 2: "do_publish b dest (published_message r m) w1 = (None, w2)" "up (wServer w2)"
    using publish_up[OF conjunct1[OF s1] 1(2) q(3) 1(3), of "published_message r m"] by (auto simp: do_publish_def)
  have s2: "inv (wServer w2)" "has_id (rqMessageID r) (view (wServer w2) (rqQueue r))"
    using publish_world[OF 2(1)] s1 w(3) by (auto simp: copied_def has_id_put)
  obtain w3 where "do_ack b (rqQueue r) (rqMessageID r) w2 = (None, w3)"
    using ack_up[OF s2(1) 2(2) q(1,2) s2(2)] by (auto simp: do_ack_def)
  then show ?thesis using 1(1) 2(1) by (simp add: execute_at_def)
qed

text \<open>A confirmed replay with an existing destination gets through.\<close>

lemma Execute_answers:
  assumes w: "inv (wServer w)" "up (wServer w)" "find_message (rqMessageID r) (view (wServer w) (rqQueue r)) = Some m0"
    and r: "rqConfirm r" "rqQueue r \<noteq> []" "rqMessageID r \<noteq> []"
    and d: "\<And>m. norm_msg m = m0 \<Longrightarrow> resolveDestination (rqDestination r) m = Ok dest" "known (wServer w) dest"
      "faithful (wServer w) (rqQueue r) (rqMessageID r)"
  shows "\<exists>x w' m. Execute env b r w = (Ok x, w') \<and> xrDestination x = dest \<and> norm_msg m = m0 \<and>
    moved textual (rqQueue r) (rqMessageID r) dest (published_message r m) (view (wServer w)) (view (wServer w'))"
proof -
  have id: "has_id (rqMessageID r) (view (wServer w) (rqQueue r))"
    using find_message_in[OF w(3)] by (force simp: has_id_def)
  obtain m1 w1 where 1: "do_inspect b (rqQueue r) (rqMessageID r) w = (Ok m1, w1)" "up (wServer w1)"
      "known (wServer w1) dest"
    using inspect_up[OF w(1,2) r(2,3) id] d(2) by (auto simp: do_inspect_def)
  have s1: "inv (wServer w1)" "view (wServer w1) = view (wServer w)" "norm_msg m1 = m0"
    using inspect_world[OF 1(1) w(1)] id d(3) w(3) by auto
  have "dest \<noteq> []" using resolveDestination_Ok[OF d(1)[OF s1(3)]] by simp
  then obtain x w' where x: "execute_at env b r m1 dest w1 = (Ok x, w')" "xrDestination x = dest"
    using execute_at_answers[of w1 r dest env m1] s1 1 r id by auto
  then have e: "Execute env b r w = (Ok x, w')" using r(1) 1(1) d(1)[OF s1(3)] by (simp add: Execute_def)
  obtain m dest' where "norm_msg m = m0" "resolveDestination (rqDestination r) m = Ok dest'"
      "moved textual (rqQueue r) (rqMessageID r) dest' (published_message r m) (view (wServer w)) (view (wServer w'))"
    using Execute_views[OF e w(1,3) d(3)] by auto
  then show ?thesis using e x(2) d(1) by fastforce
qed

end

text \<open>Nothing is lost: what the source queue does not hold any more is at the destination.\<close>

lemma remove_message_append:
  "has_id i ms \<Longrightarrow> remove_message i (ms @ ns) = remove_message i ms @ ns"
  by (induction ms) (auto simp: has_id_def)

lemma moved_keeps:
  assumes "moved textual q i d p v v'" "find_message i (v q) = Some m"
  shows "(\<exists>m'. same_content textual p m' \<and> m' \<in> set (v' d)) \<and>
    (\<forall>qu x. x \<in> set (v qu) \<longrightarrow> x \<in> set (v' qu) \<or> qu = q \<and> x = m)"
proof -
  obtain m' where m': "same_content textual p m'" "v' = drop_message q i (put_message d m' v)"
    using assms(1) by (auto simp: moved_def)
  have id: "has_id i (v q)" using find_message_in[OF assms(2)] by (force simp: has_id_def)
  then have "v' q = remove_message i (v q) @ (if q = d then [m'] else [])"
    by (cases "q = d") (simp_all add: m'(2) drop_message_def put_message_def remove_message_append)
  moreover have "v' qu = put_message d m' v qu" if "qu \<noteq> q" for qu
    using that by (simp add: m'(2) drop_message_def)
  moreover have "x \<in> set (v' qu) \<or> qu = q \<and> x = m" if "x \<in> set (v qu)" for qu x
  proof (cases "qu = q")
    case True
    then show ?thesis using calculation(1) that remove_message_other[of x "v q" i] assms(2) by auto
  next
    case False
    then show ?thesis using calculation(2)[OF False] that by (simp add: put_message_mono)
  qed
  ultimately show ?thesis
    using m'(1) by (cases "q = d") (auto simp: put_message_def intro!: exI[of _ m'])
qed

lemma copied_keeps:
  "copied textual d p v v' \<Longrightarrow> x \<in> set (v qu) \<Longrightarrow> x \<in> set (v' qu)"
  by (auto simp: copied_def put_message_mono)

end
