(* ===== verification/Civil_Date.thy ===== *)
theory Civil_Date
  imports Go_Time
begin

text \<open>
  The civil calendar: the number of a date, counted in days, inverts the conversion that formats it.
\<close>

section \<open>Calendar\<close>

definition leap :: "int \<Rightarrow> bool" where
  "leap y = (y mod 4 = 0 \<and> (y mod 100 \<noteq> 0 \<or> y mod 400 = 0))"

definition days_in :: "int \<Rightarrow> int \<Rightarrow> int" where
  "days_in m y = (if m = 2 then if leap y then 29 else 28 else if m \<in> {4, 6, 9, 11} then 30 else 31)"

definition day_number :: "int \<Rightarrow> int \<Rightarrow> int \<Rightarrow> int" where
  "day_number y m d =
     365 * (y - 1) + (y - 1) div 4 - (y - 1) div 100 + (y - 1) div 400
     + sum_list (map (\<lambda>k. days_in k y) [1..m - 1]) + d - 1"

section \<open>The date of a day number\<close>

lemma era_day:
  fixes doe :: int
  assumes "0 \<le> doe" "doe < 146097"
    and y: "y = (doe - doe div 1460 + doe div 36524 - doe div 146096) div 365"
  shows "0 \<le> y" "y < 400" "0 \<le> doe - (365 * y + y div 4 - y div 100)"
    "doe - (365 * y + y div 4 - y div 100) \<le> (if leap (y + 1) then 365 else 364)"
proof -
  define b where "b = doe div 36524"
  define r where "r = doe mod 36524"
  have r: "0 \<le> r" "r < 36524" "doe = 36524 * b + r" unfolding r_def b_def by simp_all
  have b: "0 \<le> b" "b \<le> 4" using assms(1,2) r by linarith+
  have *: "0 \<le> y \<and> y < 400 \<and> 0 \<le> doe - (365 * y + y div 4 - y div 100) \<and>
    doe - (365 * y + y div 4 - y div 100) \<le> (if leap (y + 1) then 365 else 364)"
  proof (cases "b = 4")
    case True
    then have "doe = 146096" using r(1,3) assms(2) by simp
    then show ?thesis by (simp add: y leap_def)
  next
    case False
    then have b3: "b \<le> 3" using b(2) by simp
    define k where "k = r div 1461"
    define s where "s = r mod 1461"
    have s: "0 \<le> s" "s < 1461" "r = 1461 * k + s" unfolding s_def k_def by simp_all
    have k: "0 \<le> k" "k \<le> 24" using r(1,2) s by linarith+
    define dl where "dl = (if 24 * b + k + s \<ge> 1460 then 1 else 0 :: int)"
    have a: "doe div 1460 = 25 * b + k + dl"
      by (rule int_div_pos_eq[where r = "24 * b + k + s - 1460 * dl"])
        (use b(1) b3 k s r(3) in \<open>auto simp: dl_def\<close>)
    have e: "doe div 146096 = 0" using assms(1) r b3 by (intro div_pos_pos_trivial) auto
    define j where "j = (s - dl) div 365"
    have dl: "dl = 0 \<and> 24 * b + k + s < 1460 \<or> dl = 1 \<and> 24 * b + k + s \<ge> 1460"
      by (auto simp: dl_def)
    have m: "s - dl = 365 * j + (s - dl) mod 365" "0 \<le> (s - dl) mod 365" "(s - dl) mod 365 < 365"
      unfolding j_def by simp_all
    have j3: "dl = 1 \<Longrightarrow> 3 \<le> j" using dl m s(1,2) b(1) b3 k by auto
    have j: "0 \<le> j" "j \<le> 3" "0 \<le> s - 365 * j" "s - 365 * j \<le> (if s = 1460 then 365 else 364)"
      using dl m s(1,2) b(1) b3 k j3 by (auto split: if_splits)
    have "doe - doe div 1460 + doe div 36524 - doe div 146096 = 365 * (100 * b + 4 * k) + (s - dl)"
      unfolding a e b_def[symmetric] using r(3) s(3) by (simp add: algebra_simps)
    then have y': "y = 100 * b + 4 * k + j" unfolding y j_def by simp
    have y4: "y div 4 = 25 * b + k" unfolding y'
      by (rule int_div_pos_eq[where r = j]) (use j in auto)
    have y100: "y div 100 = b" unfolding y'
      by (rule int_div_pos_eq[where r = "4 * k + j"]) (use j k in auto)
    have doy: "doe - (365 * y + y div 4 - y div 100) = s - 365 * j"
      using r(3) s(3) unfolding y4 y100 by (simp add: y')
    have "leap (y + 1)" if "s = 1460"
    proof -
      have "k < 24" using that r(2) s(3) k(2) by simp
      moreover have "j = 3" using that dl b k unfolding j_def by auto
      ultimately have "y + 1 = 4 * (25 * b + k + 1)" "y + 1 = 100 * b + (4 * k + 4)" "4 * k + 4 < 100"
        by (simp_all add: y')
      then have "(y + 1) mod 4 = 0" "(y + 1) mod 100 = 4 * k + 4"
        using k(1) by (simp_all add: int_mod_pos_eq[where q = b])
      then show ?thesis using k(1) by (simp add: leap_def)
    qed
    moreover have "0 \<le> y" "y < 400" using b b3 k j by (simp_all add: y')
    ultimately show ?thesis using j unfolding doy by (auto split: if_splits)
  qed
  then show "0 \<le> y" "y < 400" "0 \<le> doe - (365 * y + y div 4 - y div 100)"
    "doe - (365 * y + y div 4 - y div 100) \<le> (if leap (y + 1) then 365 else 364)" by auto
qed

text \<open>Counting the leap days up to a year.\<close>

lemma div_Suc_int:
  fixes y n :: int
  assumes "0 < n"
  shows "(y + 1) div n = y div n + (if (y + 1) mod n = 0 then 1 else 0)"
proof -
  define q r where "q = (y + 1) div n" and "r = (y + 1) mod n"
  have q: "y + 1 = n * q + r" "0 \<le> r" "r < n" using assms unfolding q_def r_def by simp_all
  show ?thesis
  proof (cases "r = 0")
    case True
    then have "y div n = q - 1"
      using q assms by (intro int_div_pos_eq[where r = "n - 1"]) (auto simp: algebra_simps)
    then show ?thesis using True unfolding q_def r_def by simp
  next
    case False
    then have "y div n = q"
      using q by (intro int_div_pos_eq[where r = "r - 1"]) auto
    then show ?thesis using False unfolding q_def r_def by simp
  qed
qed

definition leap_days :: "int \<Rightarrow> int" where
  "leap_days y = y div 4 - y div 100 + y div 400"

lemma leap_count: "leap_days (y + 1) = leap_days y + (if leap (y + 1) then 1 else 0)"
proof -
  have "(4 :: int) dvd 100" "(100 :: int) dvd 400" by simp_all
  then have "100 dvd y + 1 \<longrightarrow> 4 dvd y + 1" "400 dvd y + 1 \<longrightarrow> 100 dvd y + 1"
    by (blast dest: dvd_trans)+
  then show ?thesis
    unfolding leap_def leap_days_def div_Suc_int[of 4 y, simplified] div_Suc_int[of 100 y, simplified]
      div_Suc_int[of 400 y, simplified] dvd_eq_mod_eq_0
    by (cases "(y + 1) mod 4 = 0"; cases "(y + 1) mod 100 = 0"; cases "(y + 1) mod 400 = 0") simp_all
qed

lemma day_number_leap_days:
  "day_number y m d = 365 * (y - 1) + leap_days (y - 1) + sum_list (map (\<lambda>k. days_in k y) [1..m - 1]) + d - 1"
  by (simp add: day_number_def leap_days_def)

lemma month_cases:
  fixes mp :: int
  assumes "0 \<le> mp" "mp \<le> 11"
  obtains "mp = 0" | "mp = 1" | "mp = 2" | "mp = 3" | "mp = 4" | "mp = 5" | "mp = 6" | "mp = 7"
    | "mp = 8" | "mp = 9" | "mp = 10" | "mp = 11"
proof -
  have "mp \<in> {0..11}" using assms by simp
  also have "{0..11} = set [0..11 :: int]" by (simp only: set_upto)
  also have "[0..11 :: int] = [0, 1, 2, 3, 4, 5, 6, 7, 8, 9, 10, 11]" by (simp add: upto_rec1)
  finally show thesis using that by auto
qed

text \<open>The days of the months from March on, counted by \<open>(153 mp + 2) div 5\<close>.\<close>

lemma day_number_march:
  fixes Y doy mp :: int
  assumes doy: "0 \<le> doy" "doy \<le> (if leap (Y + 1) then 365 else 364)"
    and mp: "mp = (5 * doy + 2) div 153"
    and d: "d = doy - (153 * mp + 2) div 5 + 1"
    and m: "m = (if mp < 10 then mp + 3 else mp - 9)"
    and y: "y = Y + (if m \<le> 2 then 1 else 0)"
  shows "day_number y m d = 365 * Y + leap_days Y + doy - 306 \<and>
    1 \<le> m \<and> m \<le> 12 \<and> 1 \<le> d \<and> d \<le> days_in m y"
proof -
  define r where "r = (5 * doy + 2) mod 153"
  have r: "5 * doy + 2 = 153 * mp + r" "0 \<le> r" "r < 153" unfolding r_def mp by simp_all
  have "0 \<le> mp" "mp \<le> 11" using r doy by (auto split: if_splits)
  then show ?thesis
    by (cases rule: month_cases)
      (use r doy leap_count[of "Y - 1"] in
        \<open>simp_all add: m y d day_number_leap_days days_in_def upto_rec1 split: if_splits\<close>)
qed

lemma day_number_civil:
  assumes "civil n = (y, m, d)"
  shows "day_number y m d = n \<and> 1 \<le> m \<and> m \<le> 12 \<and> 1 \<le> d \<and> d \<le> days_in m y"
proof -
  define era where "era = (n + 306) div 146097"
  define doe where "doe = (n + 306) mod 146097"
  define yoe where "yoe = (doe - doe div 1460 + doe div 36524 - doe div 146096) div 365"
  define doy where "doy = doe - (365 * yoe + yoe div 4 - yoe div 100)"
  define mp where "mp = (5 * doy + 2) div 153"
  have n: "n + 306 = 146097 * era + doe" "0 \<le> doe" "doe < 146097" unfolding era_def doe_def by simp_all
  note e = era_day[OF n(2,3) yoe_def]
  define Y where "Y = yoe + 400 * era"
  define mo where "mo = (if mp < 10 then mp + 3 else mp - 9)"
  have "civil n = (yoe + era * 400 + (if mo \<le> 2 then 1 else 0), mo, doy - (153 * mp + 2) div 5 + 1)"
    unfolding civil_def Let_def mo_def mp_def doy_def yoe_def doe_def era_def by (rule refl)
  then have c: "m = (if mp < 10 then mp + 3 else mp - 9)" "d = doy - (153 * mp + 2) div 5 + 1"
    "y = Y + (if m \<le> 2 then 1 else 0)"
    unfolding assms mo_def[symmetric] by (simp_all add: Y_def)
  have q: "(yoe + c * u) div u = c + yoe div u" if "0 < u" for c u :: int
    using that by simp
  have "yoe div 400 = 0" using e(1,2) by (rule div_pos_pos_trivial)
  then have Y: "leap_days Y = 97 * era + yoe div 4 - yoe div 100"
    using q[of 400 era] q[of 100 "4 * era"] q[of 4 "100 * era"]
    by (simp add: leap_days_def Y_def mult.commute)
  have q: "(yoe + 1 + c * u) mod u = (yoe + 1) mod u" for c u :: int
    by simp
  have "leap (Y + 1) = leap (yoe + 1)"
    using q[of era 400] q[of "4 * era" 100] q[of "100 * era" 4]
    by (simp add: leap_def Y_def algebra_simps)
  then have "doy \<le> (if leap (Y + 1) then 365 else 364)" "0 \<le> doy" using e(3,4) by (simp_all add: doy_def)
  from day_number_march[OF this(2,1) mp_def c(2,1,3)] show ?thesis
    using n(1) unfolding Y by (simp add: doy_def Y_def)
qed

end
