(* ===== verification/Time_Parse.thy ===== *)
theory Time_Parse
  imports Go_Float Civil_Date "HOL-Library.Monad_Syntax"
begin

text \<open>
  Parsing an RFC 3339 time, as \<open>time.Parse\<close> does it, and the proof that a formatted time is read
  back.
\<close>

section \<open>The parser\<close>

text \<open>
  \<open>time.Parse\<close> with the layout RFC3339Nano: an hour may have one digit, a fraction may follow a
  comma, and only its first nine digits count.
\<close>

definition expect_lit :: "char \<Rightarrow> string \<Rightarrow> string option" where
  "expect_lit c s = (case s of [] \<Rightarrow> None | d # t \<Rightarrow> if d = c then Some t else None)"

definition number_n :: "nat \<Rightarrow> string \<Rightarrow> (int \<times> string) option" where
  "number_n n s =
     (if n \<le> length s \<and> list_all is_digit (take n s) then Some (digits_val 0 (take n s), drop n s) else None)"

definition hour_number :: "string \<Rightarrow> (int \<times> string) option" where
  "hour_number s = (case number_n 2 s of Some r \<Rightarrow> Some r | None \<Rightarrow> number_n 1 s)"

definition range_n :: "int \<Rightarrow> int \<Rightarrow> (int \<times> string) option \<Rightarrow> (int \<times> string) option" where
  "range_n lo hi r = (case r of None \<Rightarrow> None | Some (v, t) \<Rightarrow> if lo \<le> v \<and> v \<le> hi then Some (v, t) else None)"

definition fraction :: "string \<Rightarrow> int \<times> string" where
  "fraction s =
     (case s of c # t \<Rightarrow>
        let ds = takeWhile is_digit t in
        if (c = CHR ''.'' \<or> c = CHR '','') \<and> ds \<noteq> []
        then (digits_val 0 (take 9 ds) * 10 ^ (9 - length (take 9 ds)), drop (length ds) t)
        else (0, s)
      | [] \<Rightarrow> (0, s))"

definition zone :: "string \<Rightarrow> (int \<times> string) option" where
  "zone s =
     (case s of [] \<Rightarrow> None
      | c # t \<Rightarrow>
          if c = CHR ''Z'' then Some (0, t)
          else do {
            (h, t) \<leftarrow> range_n 0 24 (number_n 2 t);
            t \<leftarrow> expect_lit (CHR '':'') t;
            (m, t) \<leftarrow> range_n 0 60 (number_n 2 t);
            if c = CHR ''+'' then Some (h * 3600 + m * 60, t)
            else if c = CHR ''-'' then Some (- (h * 3600 + m * 60), t) else None})"

definition ParseRFC3339Nano :: "string \<Rightarrow> gotime option" where
  "ParseRFC3339Nano s = do {
     (y, s) \<leftarrow> number_n 4 s;
     s \<leftarrow> expect_lit (CHR ''-'') s;
     (mo, s) \<leftarrow> range_n 1 12 (number_n 2 s);
     s \<leftarrow> expect_lit (CHR ''-'') s;
     (d, s) \<leftarrow> number_n 2 s;
     s \<leftarrow> expect_lit (CHR ''T'') s;
     (h, s) \<leftarrow> range_n 0 23 (hour_number s);
     s \<leftarrow> expect_lit (CHR '':'') s;
     (mi, s) \<leftarrow> range_n 0 59 (number_n 2 s);
     s \<leftarrow> expect_lit (CHR '':'') s;
     (se, s) \<leftarrow> range_n 0 59 (number_n 2 s);
     let (ns, s) = fraction s;
     (off, s) \<leftarrow> zone s;
     if s \<noteq> [] \<or> d < 1 \<or> d > days_in mo y then None
     else Some ((((day_number y mo d * 24 + h) * 60 + mi) * 60 + se - off) * second + ns)}"

section \<open>A formatted time is read back\<close>

lemma pad2_facts:
  assumes "0 \<le> n" "n < 100"
  shows "length (pad2 n) = 2" "list_all is_digit (pad2 n)" "digits_val acc (pad2 n) = 100 * acc + n"
proof -
  have r: "0 \<le> n div 10" "n div 10 < 10" "10 * (n div 10) + n mod 10 = n"
    using assms by simp_all
  show "length (pad2 n) = 2" by (simp add: pad2_def)
  have d: "is_digit (digit_char (nat k)) \<and> digit_val (digit_char (nat k)) = k" if "0 \<le> k" "k < 10" for k
    using digit_char_digit[of "nat k"] that by simp
  show "list_all is_digit (pad2 n)" "digits_val acc (pad2 n) = 100 * acc + n"
    using d[of "n div 10"] d[of "n mod 10"] r by (simp_all add: pad2_def del: digit_char.simps)
qed

lemma number_prefix:
  assumes "length ds = n" "list_all is_digit ds"
  shows "number_n n (ds @ t) = Some (digits_val 0 ds, t)"
  using assms by (simp add: number_n_def)

lemma number_pad2: "0 \<le> n \<Longrightarrow> n < 100 \<Longrightarrow> number_n 2 (pad2 n @ t) = Some (n, t)"
  using pad2_facts[of n] by (simp add: number_prefix)

lemma number_pad4: "0 \<le> n \<Longrightarrow> n < 10000 \<Longrightarrow> number_n 4 (pad4 n @ t) = Some (n, t)"
  using pad2_facts[of "n div 100"] pad2_facts[of "n mod 100"]
    number_prefix[of "pad2 (n div 100) @ pad2 (n mod 100)" 4 t]
  by (simp add: pad4_def digits_val_append)

lemma nano_digits_facts:
  assumes "0 \<le> n" "n < 1000000000"
  shows "length (nano_digits n) = 9" "list_all is_digit (nano_digits n)" "digits_val 0 (nano_digits n) = n"
proof -
  have d: "digit_val (digit_char (nat (n mod 10))) = n mod 10" "is_digit (digit_char (nat (n mod 10)))"
    using digit_char_digit[of "nat (n mod 10)"] by (simp_all del: digit_char.simps)
  show "length (nano_digits n) = 9" by (simp add: nano_digits_def pad2_def)
  show "list_all is_digit (nano_digits n)"
    using assms d(2) by (simp add: nano_digits_def pad2_facts(2) del: digit_char.simps)
  have q: "n div 10 div 100 = n div 1000" "n div 1000 div 100 = n div 100000" "n div 100000 div 100 = n div 10000000"
    by (simp_all add: zdiv_zmult2_eq[symmetric])
  have r: "0 \<le> n div 10000000" "n div 10000000 < 100" using assms by simp_all
  have p: "digits_val acc (pad2 (k mod 100)) = 100 * acc + k mod 100" for acc k
    by (rule pad2_facts) simp_all
  have "digits_val 0 (nano_digits n) =
      10 * (100 * (100 * (100 * (n div 10000000) + n div 100000 mod 100) + n div 1000 mod 100) + n div 10 mod 100)
      + n mod 10"
    by (simp only: nano_digits_def digits_val_append p pad2_facts(3)[OF r] digits_val.simps d) simp
  also have "\<dots> = n"
    using mult_div_mod_eq[of 100 "n div 100000"] mult_div_mod_eq[of 100 "n div 1000"]
      mult_div_mod_eq[of 100 "n div 10"] mult_div_mod_eq[of 10 n] unfolding q by simp
  finally show "digits_val 0 (nano_digits n) = n" .
qed

definition nano_frac :: "int \<Rightarrow> string" where
  "nano_frac n = rev (dropWhile (\<lambda>c. c = CHR ''0'') (rev (nano_digits n)))"

lemma nano_frac_facts:
  assumes "0 \<le> n" "n < 1000000000"
  shows "length (nano_frac n) \<le> 9" "list_all is_digit (nano_frac n)"
    "digits_val 0 (nano_frac n) * 10 ^ (9 - length (nano_frac n)) = n"
proof -
  define z where "z = takeWhile (\<lambda>c. c = CHR ''0'') (rev (nano_digits n))"
  have "rev (nano_digits n) = z @ rev (nano_frac n)"
    by (simp add: z_def nano_frac_def)
  then have "rev (rev (nano_digits n)) = nano_frac n @ rev z" by simp
  moreover have "rev z = replicate (length z) (CHR ''0'')"
    using set_takeWhileD[of _ "\<lambda>c. c = CHR ''0''" "rev (nano_digits n)"]
    by (intro replicate_eqI) (auto simp: z_def)
  ultimately have s: "nano_digits n = nano_frac n @ replicate (length z) (CHR ''0'')" by simp
  note f = nano_digits_facts[OF assms, unfolded s]
  from f(1) have "length z = 9 - length (nano_frac n)" "length (nano_frac n) \<le> 9" by simp_all
  with f(2,3) show "length (nano_frac n) \<le> 9" "list_all is_digit (nano_frac n)"
    "digits_val 0 (nano_frac n) * 10 ^ (9 - length (nano_frac n)) = n"
    by (simp_all add: digits_val_append)
qed

lemma fraction_nano:
  assumes "0 \<le> n" "n < 1000000000" "nano_frac n \<noteq> []"
  shows "fraction (CHR ''.'' # nano_frac n @ ''Z'') = (n, ''Z'')"
proof -
  have "takeWhile is_digit (nano_frac n @ ''Z'') = nano_frac n"
    using nano_frac_facts(2)[OF assms(1,2)]
    by (simp add: takeWhile_append list_all_iff is_digit_def)
  then show ?thesis
    using nano_frac_facts[OF assms(1,2)] assms(3) by (simp add: fraction_def)
qed

definition year_of :: "gotime \<Rightarrow> int" where
  "year_of t = fst (civil (t div second div 86400))"

lemma year_nonneg: "0 \<le> days \<Longrightarrow> 0 \<le> fst (civil days)"
proof -
  assume "0 \<le> days"
  then have "0 \<le> (days + 306) div 146097" by (simp add: pos_imp_zdiv_nonneg_iff)
  moreover have "0 \<le> (days + 306) mod 146097" "(days + 306) mod 146097 < 146097" by simp_all
  note era_day(1)[OF this refl]
  moreover have "0 \<le> (if P then 1 else 0 :: int)" for P by simp
  moreover have "(0 :: int) \<le> 400" by simp
  ultimately show ?thesis
    unfolding civil_def Let_def fst_conv by (intro add_nonneg_nonneg mult_nonneg_nonneg)
qed

lemma parse_parts:
  assumes "0 \<le> y" "y < 10000" "1 \<le> m" "m \<le> 12" "1 \<le> d" "d < 100"
    and "0 \<le> h" "h < 24" "0 \<le> mi" "mi < 60" "0 \<le> se" "se < 60" "fraction f = (ns, ''Z'')"
  shows "ParseRFC3339Nano (pad4 y @ CHR ''-'' # pad2 m @ CHR ''-'' # pad2 d @ CHR ''T'' #
      pad2 h @ CHR '':'' # pad2 mi @ CHR '':'' # pad2 se @ f) =
    (if d > days_in m y then None
     else Some ((((day_number y m d * 24 + h) * 60 + mi) * 60 + se) * second + ns))"
  using assms by (simp add: ParseRFC3339Nano_def number_pad4 number_pad2 expect_lit_def range_n_def
      hour_number_def zone_def)

lemma format_base:
  assumes "civil (t div second div 86400) = (y, m, d)"
  defines "s \<equiv> t div second mod 86400"
  defines "date \<equiv> \<lambda>rest. pad4 y @ CHR ''-'' # pad2 m @ CHR ''-'' # pad2 d @ CHR ''T'' #
      pad2 (s div 3600) @ CHR '':'' # pad2 (s div 60 mod 60) @ CHR '':'' # pad2 (s mod 60) @ rest"
  shows "FormatNanoUTC t = date (if nano_frac (t mod second) = [] then ''Z''
    else CHR ''.'' # nano_frac (t mod second) @ ''Z'')"
  using assms(1) by (simp add: FormatNanoUTC_def FormatUTC_def Let_def nano_frac_def date_def s_def pad2_def)

theorem ParseRFC3339Nano_Format:
  assumes "0 \<le> t" "year_of t \<le> 9999"
  shows "ParseRFC3339Nano (FormatNanoUTC t) = Some t"
proof -
  define n where "n = t mod second"
  define secs where "secs = t div second"
  define s where "s = secs mod 86400"
  obtain y m d where c: "civil (secs div 86400) = (y, m, d)" by (cases "civil (secs div 86400)")
  have "0 \<le> secs" using assms(1) by (simp add: secs_def second_def pos_imp_zdiv_nonneg_iff)
  then have y: "0 \<le> y" "y < 10000"
    using year_nonneg[of "secs div 86400"] assms(2) c by (simp_all add: year_of_def secs_def pos_imp_zdiv_nonneg_iff)
  have ymd: "day_number y m d = secs div 86400" "1 \<le> m" "m \<le> 12" "1 \<le> d" "d \<le> days_in m y"
    using day_number_civil[OF c] by auto
  have d99: "d < 100" using ymd(5) by (simp add: days_in_def split: if_splits)
  have s: "0 \<le> s" "s < 86400" by (simp_all add: s_def)
  have hms: "0 \<le> s div 3600" "s div 3600 < 24" "0 \<le> s div 60 mod 60" "s div 60 mod 60 < 60" "0 \<le> s mod 60" "s mod 60 < 60"
    using s by simp_all
  have "s div 60 = 60 * (s div 3600) + s div 60 mod 60"
    using mult_div_mod_eq[of 60 "s div 60"] by (simp add: zdiv_zmult2_eq[symmetric])
  moreover have "((D * 24 + H) * 60 + M) * 60 + S = e"
    if "a = 60 * H + M" "60 * a + S = c" "86400 * D + c = e" for a c e D H M S :: int
    using that by simp
  ultimately have clock: "((secs div 86400 * 24 + s div 3600) * 60 + s div 60 mod 60) * 60 + s mod 60 = secs"
    using mult_div_mod_eq[of 60 s] mult_div_mod_eq[of 86400 secs] unfolding s_def[symmetric] by blast
  have n: "0 \<le> n" "n < 1000000000" by (simp_all add: n_def second_def)
  have fr: "fraction (if nano_frac n = [] then ''Z'' else CHR ''.'' # nano_frac n @ ''Z'') = (n, ''Z'')"
    using fraction_nano[OF n] nano_frac_facts(3)[OF n] by (cases "nano_frac n = []") (simp_all add: fraction_def)
  have t: "secs * second + n = t" by (simp add: secs_def n_def)
  have "0 \<le> s div 60 mod 60" by simp
  from parse_parts[OF y ymd(2-4) d99 hms fr] show ?thesis
    using ymd(5) unfolding format_base[OF c[unfolded secs_def]] secs_def[symmetric] s_def[symmetric] n_def[symmetric]
      ymd(1) clock t by simp
qed

end
