(* ===== verification/Redis_Adapter.thy ===== *)
theory Redis_Adapter
  imports Broker_Contract Search_Filter Time_Parse
begin

text \<open>
  The Redis Streams adapter (\<^verbatim>\<open>internal/broker/redisstream\<close>): entries of a stream as
  messages (\<^verbatim>\<open>mapper.go\<close>) and the broker operations as sequences of Redis commands
  (\<^verbatim>\<open>adapter.go\<close>). The client library and the server are outside the repository: a record
  of commands over a server state. Field values are strings, which is what the client returns for
  a stream entry.
\<close>

section \<open>Times\<close>

definition unix_epoch :: gotime where
  "unix_epoch = 62135596800 * second"

definition UnixMilli :: "int \<Rightarrow> gotime" where
  "UnixMilli ms = unix_epoch + ms * 1000000"

section \<open>Entries and messages\<close>

record redis_entry =
  reID :: string
  reValues :: "(string \<times> string) list"

definition fieldPayload :: string where "fieldPayload = ''payload''"
definition fieldContentType :: string where "fieldContentType = ''content_type''"
definition fieldDestination :: string where "fieldDestination = ''destination''"
definition fieldError :: string where "fieldError = ''error''"
definition fieldRetries :: string where "fieldRetries = ''retries''"
definition fieldHeaders :: string where "fieldHeaders = ''headers''"
definition fieldTimestamp :: string where "fieldTimestamp = ''timestamp''"
definition fieldMessageID :: string where "fieldMessageID = ''message_id''"

lemmas field_names = fieldPayload_def fieldContentType_def fieldDestination_def fieldError_def
  fieldRetries_def fieldHeaders_def fieldTimestamp_def fieldMessageID_def

definition entry_get :: "redis_entry \<Rightarrow> string \<Rightarrow> string" where
  "entry_get e k = (case map_of (reValues e) k of None \<Rightarrow> [] | Some v \<Rightarrow> v)"

text \<open>
  \<open>Unmarshal\<close> into a \<open>map[string]string\<close> with its error ignored: nothing from a malformed text;
  a member that is not a string leaves the empty string under its key.
\<close>

definition decode_headers :: "string \<Rightarrow> headers" where
  "decode_headers h =
     (case json_parse h of
        Some (JObj ms) \<Rightarrow> fold (\<lambda>(k, x). obj_put k (case x of JStr s \<Rightarrow> s | _ \<Rightarrow> [])) ms []
      | _ \<Rightarrow> [])"

definition event_id_keys :: "string list" where
  "event_id_keys = [''x-event-id'', ''event_id'', ''event-id'', ''ce-id'']"

definition idempotency_keys :: "string list" where
  "idempotency_keys = [''x-idempotency-key'', ''idempotency_key'', ''idempotency-key'']"

definition extractIDs :: "headers \<Rightarrow> string \<times> string" where
  "extractIDs hs = (first_header hs event_id_keys, first_header hs idempotency_keys)"

definition entryTime :: "string \<Rightarrow> string \<Rightarrow> gotime" where
  "entryTime ts i =
     (case (if ts \<noteq> [] then ParseRFC3339Nano ts else None) of
        Some t \<Rightarrow> t
      | None \<Rightarrow>
          (case IndexByte i (CHR ''-'') of
             Some (Suc n) \<Rightarrow> (case Atoi (take (Suc n) i) of Some ms \<Rightarrow> UnixMilli ms | None \<Rightarrow> 0)
           | _ \<Rightarrow> 0))"

definition toMessage :: "string \<Rightarrow> redis_entry \<Rightarrow> message" where
  "toMessage stream e =
     (let h = entry_get e fieldHeaders;
          hs = (if h \<noteq> [] then decode_headers h else []);
          (eventID, idemKey) = extractIDs hs
      in \<lparr>mID = reID e, mQueue = stream, mDestination = entry_get e fieldDestination,
          mPayload = entry_get e fieldPayload, mHeaders = hs,
          mContentType = entry_get e fieldContentType,
          mTimestamp = entryTime (entry_get e fieldTimestamp) (reID e),
          mRetryCount = Atoi_value (entry_get e fieldRetries),
          mFailureReason = entry_get e fieldError, mEventID = eventID, mIdempotencyKey = idemKey\<rparr>)"

text \<open>A Go map in key order; the first entry of an association list counts.\<close>

definition go_map :: "(string \<times> 'a) list \<Rightarrow> (string \<times> 'a) list" where
  "go_map hs = foldr (\<lambda>(k, v). obj_put k v) hs []"

definition header_json :: "headers \<Rightarrow> string" where
  "header_json hs = Marshal (GObj (map (\<lambda>(k, v). (k, GStr v)) (go_map hs)))"

definition entryFields :: "message \<Rightarrow> (string \<times> string) list" where
  "entryFields m =
     [(fieldPayload, mPayload m)]
     @ (if mContentType m \<noteq> [] then [(fieldContentType, mContentType m)] else [])
     @ (if mDestination m \<noteq> [] then [(fieldDestination, mDestination m)] else [])
     @ (if mFailureReason m \<noteq> [] then [(fieldError, mFailureReason m)] else [])
     @ (if mRetryCount m > 0 then [(fieldRetries, Itoa (mRetryCount m))] else [])
     @ (if mHeaders m \<noteq> [] then [(fieldHeaders, header_json (mHeaders m))] else [])
     @ (if \<not> IsZero (mTimestamp m) then [(fieldTimestamp, FormatNanoUTC (mTimestamp m))] else [])
     @ [(fieldMessageID, mID m)]"

section \<open>The client\<close>

text \<open>Each command gives its reply or an error, and the next server state.\<close>

record 's redis =
  rcExists :: "string \<Rightarrow> 's \<Rightarrow> (goerr, int) result \<times> 's"
  rcXLen :: "string \<Rightarrow> 's \<Rightarrow> (goerr, int) result \<times> 's"
  rcXInfoGroups :: "string \<Rightarrow> 's \<Rightarrow> (goerr, (string \<times> int) list) result \<times> 's"   \<comment> \<open>name, consumers\<close>
  rcXPending :: "string \<Rightarrow> string \<Rightarrow> 's \<Rightarrow> (goerr, int) result \<times> 's"
  rcXRangeN :: "string \<Rightarrow> int \<Rightarrow> 's \<Rightarrow> (goerr, redis_entry list) result \<times> 's"   \<comment> \<open>from - to +\<close>
  rcXRange :: "string \<Rightarrow> string \<Rightarrow> 's \<Rightarrow> (goerr, redis_entry list) result \<times> 's"   \<comment> \<open>of one id\<close>
  rcXAdd :: "string \<Rightarrow> (string \<times> string) list \<Rightarrow> 's \<Rightarrow> goerr option \<times> 's"
  rcXDel :: "string \<Rightarrow> string \<Rightarrow> 's \<Rightarrow> (goerr, int) result \<times> 's"
  rcScan :: "'s \<Rightarrow> (string list \<times> goerr option) \<times> 's"   \<comment> \<open>the keys seen, the iterator's error\<close>
  rcType :: "string \<Rightarrow> 's \<Rightarrow> (goerr, string) result \<times> 's"

text \<open>The adapter before \<open>Connect\<close> has no client.\<close>

abbreviation not_connected :: "(goerr, 'a) result" where
  "not_connected \<equiv> Err (Sentinel ErrNotConnected)"

definition redis_error :: "string \<Rightarrow> string \<Rightarrow> goerr \<Rightarrow> goerr" where
  "redis_error command q e = Wrap (''redisstream: '' @ command @ '' '' @ Quote q @ '': '') e []"

section \<open>Queues and statistics\<close>

definition group_pending :: "'s redis \<Rightarrow> string \<Rightarrow> string \<Rightarrow> 's \<Rightarrow> int \<times> 's" where
  "group_pending rc q g s =
     (case rcXPending rc q g s of (Inr n, s) \<Rightarrow> (n, s) | (Inl e, s) \<Rightarrow> (0, s))"

fun stats_groups :: "'s redis \<Rightarrow> string \<Rightarrow> (string \<times> int) list \<Rightarrow> queue_stats \<Rightarrow> 's \<Rightarrow> queue_stats \<times> 's" where
  "stats_groups rc q [] st s = (st, s)"
| "stats_groups rc q ((g, consumers) # gs) st s =
     (case group_pending rc q g s of (pending, s) \<Rightarrow>
        stats_groups rc q gs
          (st\<lparr>qConsumers := qConsumers st + consumers, qPending := qPending st + pending,
              qGroups := qGroups st @ [\<lparr>gName = g, gConsumers = consumers, gPending = pending\<rparr>]\<rparr>) s)"

definition Stats :: "'s redis option \<Rightarrow> string \<Rightarrow> 's \<Rightarrow> (goerr, queue_stats) result \<times> 's" where
  "Stats conn q s =
     (case conn of None \<Rightarrow> (not_connected, s)
      | Some rc \<Rightarrow>
     if q = [] then (Err (Text ''redisstream: empty stream name''), s)
     else case rcExists rc q s of
       (Inl e, s) \<Rightarrow> (Err (redis_error ''exists'' q e), s)
     | (Inr n, s) \<Rightarrow>
     if n = 0 then (Err (Wrap (''stream '' @ Quote q @ '' not found: '') (Sentinel ErrQueueNotFound) []), s)
     else case rcXLen rc q s of
       (Inl e, s) \<Rightarrow> (Err (redis_error ''xlen'' q e), s)
     | (Inr n, s) \<Rightarrow>
     (let st = \<lparr>qQueue = q, qMessages = n, qConsumers = 0, qPending = 0, qGroups = [],
                qOldestAge = 0, qNewestAge = 0, qRetryCount = 0\<rparr>
      in case rcXInfoGroups rc q s of
           (Inl e, s) \<Rightarrow> (Ok st, s)
         | (Inr gs, s) \<Rightarrow> (case stats_groups rc q gs st s of (st, s) \<Rightarrow> (Ok st, s))))"

record queue_summary =
  quName :: string
  quDurable :: bool
  quAutoDelete :: bool
  quMessages :: int
  quConsumers :: int
  quPending :: int
  quDLQ :: string

fun summary_groups :: "'s redis \<Rightarrow> string \<Rightarrow> (string \<times> int) list \<Rightarrow> queue_summary \<Rightarrow> 's \<Rightarrow> queue_summary \<times> 's" where
  "summary_groups rc q [] qs s = (qs, s)"
| "summary_groups rc q ((g, consumers) # gs) qs s =
     (case group_pending rc q g s of (pending, s) \<Rightarrow>
        summary_groups rc q gs
          (qs\<lparr>quConsumers := quConsumers qs + consumers, quPending := quPending qs + pending\<rparr>) s)"

definition summarize :: "'s redis \<Rightarrow> string \<Rightarrow> 's \<Rightarrow> queue_summary option \<times> 's" where
  "summarize rc q s =
     (case rcType rc q s of
        (Inl e, s) \<Rightarrow> (None, s)
      | (Inr kt, s) \<Rightarrow>
     if kt \<noteq> ''stream'' then (None, s)
     else
       let qs = \<lparr>quName = q, quDurable = False, quAutoDelete = False, quMessages = 0, quConsumers = 0,
                 quPending = 0, quDLQ = []\<rparr>;
           (len, s) = rcXLen rc q s;
           qs = (case len of Inr n \<Rightarrow> qs\<lparr>quMessages := n\<rparr> | Inl e \<Rightarrow> qs)
       in case rcXInfoGroups rc q s of
            (Inl e, s) \<Rightarrow> (Some qs, s)
          | (Inr gs, s) \<Rightarrow> (case summary_groups rc q gs qs s of (qs, s) \<Rightarrow> (Some qs, s)))"

fun summaries :: "'s redis \<Rightarrow> string list \<Rightarrow> 's \<Rightarrow> queue_summary list \<times> 's" where
  "summaries rc [] s = ([], s)"
| "summaries rc (q # qs) s =
     (case summarize rc q s of (x, s) \<Rightarrow>
        (case summaries rc qs s of (rest, s) \<Rightarrow>
           (case x of None \<Rightarrow> (rest, s) | Some y \<Rightarrow> (y # rest, s))))"

text \<open>The iterator asks for pages of keys as it goes; here the keys are read first.\<close>

definition ListQueues :: "'s redis option \<Rightarrow> 's \<Rightarrow> (goerr, queue_summary list) result \<times> 's" where
  "ListQueues conn s =
     (case conn of None \<Rightarrow> (not_connected, s)
      | Some rc \<Rightarrow>
     (case rcScan rc s of ((names, err), s) \<Rightarrow>
     (case summaries rc names s of (out, s) \<Rightarrow>
        (case err of Some e \<Rightarrow> (Err (Wrap ''redisstream: scan streams: '' e []), s)
         | None \<Rightarrow> (Ok out, s)))))"

section \<open>Messages\<close>

text \<open>Addition of a 64-bit \<open>int\<close>.\<close>

definition add64 :: "int \<Rightarrow> int \<Rightarrow> int" where
  "add64 a b = (a + b + 2 ^ 63) mod 2 ^ 64 - 2 ^ 63"

definition scan_cap :: "search_filter \<Rightarrow> int" where
  "scan_cap f = (let needed = add64 (fLimit f) (fOffset f) in if needed > 5000 then needed else 5000)"

definition Search :: "'s redis option \<Rightarrow> string \<Rightarrow> search_filter \<Rightarrow> 's \<Rightarrow> (goerr, message list) result \<times> 's" where
  "Search conn q f s =
     (case conn of None \<Rightarrow> (not_connected, s)
      | Some rc \<Rightarrow>
     if q = [] then (Err (Text ''redisstream: empty stream name''), s)
     else case rcXRangeN rc q (scan_cap f) s of
       (Inl e, s) \<Rightarrow> (Err (redis_error ''xrange'' q e), s)
     | (Inr es, s) \<Rightarrow> (Ok (Filter (map (toMessage q) es) f), s))"

definition Inspect :: "'s redis option \<Rightarrow> string \<Rightarrow> string \<Rightarrow> 's \<Rightarrow> (goerr, message) result \<times> 's" where
  "Inspect conn q i s =
     (case conn of None \<Rightarrow> (not_connected, s)
      | Some rc \<Rightarrow>
     if q = [] then (Err (Text ''redisstream: empty stream name''), s)
     else if i = [] then (Err (Text ''redisstream: empty message id''), s)
     else case rcXRange rc q i s of
       (Inl e, s) \<Rightarrow> (Err (redis_error ''xrange'' q e), s)
     | (Inr [], s) \<Rightarrow> (Err (Text (''message '' @ Quote i @ '' not found in stream '' @ Quote q)), s)
     | (Inr (e # es), s) \<Rightarrow> (Ok (toMessage q e), s))"

definition Publish :: "'s redis option \<Rightarrow> string \<Rightarrow> message \<Rightarrow> 's \<Rightarrow> goerr option \<times> 's" where
  "Publish conn dest m s =
     (case conn of None \<Rightarrow> (Some (Sentinel ErrNotConnected), s)
      | Some rc \<Rightarrow>
     if dest = [] then (Some (Text ''redisstream: empty destination''), s)
     else case rcXAdd rc dest (entryFields m) s of
       (Some e, s) \<Rightarrow> (Some (redis_error ''xadd'' dest e), s)
     | (None, s) \<Rightarrow> (None, s))"

definition Ack :: "'s redis option \<Rightarrow> string \<Rightarrow> string \<Rightarrow> 's \<Rightarrow> goerr option \<times> 's" where
  "Ack conn q i s =
     (case conn of None \<Rightarrow> (Some (Sentinel ErrNotConnected), s)
      | Some rc \<Rightarrow>
     if q = [] then (Some (Text ''redisstream: empty stream name''), s)
     else if i = [] then (Some (Text ''redisstream: empty message id''), s)
     else case rcXDel rc q i s of
       (Inl e, s) \<Rightarrow> (Some (redis_error ''xdel'' q e), s)
     | (Inr n, s) \<Rightarrow>
         (if n = 0 then Some (Text (''message '' @ Quote i @ '' not found in stream '' @ Quote q)) else None, s))"

definition redis_broker :: "'s redis option \<Rightarrow> 's broker" where
  "redis_broker conn = \<lparr>bInspect = Inspect conn, bSearch = Search conn, bPublish = Publish conn,
     bAck = Ack conn, bStats = Stats conn\<rparr>"

section \<open>An entry carries its message\<close>

lemma map_of_go_map: "map_of (go_map hs) = map_of hs"
  by (induction hs) (auto simp: go_map_def)

lemma go_map_sorted: "sorted (map fst (go_map hs)) \<and> distinct (map fst (go_map hs))"
  by (induction hs) (auto simp: go_map_def obj_put_sorted)

lemma set_go_map: "set (go_map hs) \<subseteq> set hs"
proof (induction hs)
  case (Cons kv hs)
  then show ?case using set_obj_put[of "fst kv" "snd kv" "go_map hs"]
    by (auto simp: go_map_def split: prod.splits)
qed (simp add: go_map_def)

text \<open>Headers whose keys and values are UTF-8 text survive the JSON field.\<close>

definition textual_headers :: "message \<Rightarrow> bool" where
  "textual_headers m = (\<forall>(k, v) \<in> set (mHeaders m). utf8_ok k \<and> utf8_ok v)"

lemma json_parse_Marshal: "wf_gval maxNestingDepth v \<Longrightarrow> json_parse (Marshal v) = Some (tree v)"
  using parse_Marshal(1)[of maxNestingDepth v "[]"] skip_Marshal[of maxNestingDepth v "[]"]
  by (simp add: json_parse_def) (simp add: skip_space_def)

lemma decode_header_json:
  assumes "\<forall>(k, v) \<in> set hs. utf8_ok k \<and> utf8_ok v"
  shows "decode_headers (header_json hs) = go_map hs"
proof -
  let ?ms = "map (\<lambda>(k, v). (k, GStr v)) (go_map hs)"
  have k: "map fst ?ms = map fst (go_map hs)" by (simp add: case_prod_beta)
  have "wf_members (maxNestingDepth - 1) ?ms"
    using assms set_go_map[of hs] by (fastforce simp: wf_members_iff)
  then have "wf_gval maxNestingDepth (GObj ?ms)"
    using go_map_sorted[of hs] by (simp only: wf_gval.simps k) (simp add: maxNestingDepth_def)
  then have "json_parse (header_json hs) = Some (tree (GObj ?ms))"
    unfolding header_json_def by (rule json_parse_Marshal)
  moreover have "tree (GObj ?ms) = JObj (map (\<lambda>(k, v). (k, JStr v)) (go_map hs))"
    by (simp add: case_prod_beta comp_def)
  ultimately have "decode_headers (header_json hs) =
      fold (\<lambda>(k, x). obj_put k (case x of JStr s \<Rightarrow> s | _ \<Rightarrow> [])) (map (\<lambda>(k, v). (k, JStr v)) (go_map hs)) []"
    by (simp only: decode_headers_def option.case json.case)
  also have "\<dots> = fold (\<lambda>(k, v). obj_put k v) (go_map hs) []"
    by (simp add: fold_map comp_def case_prod_unfold)
  also have "\<dots> = go_map hs"
    using fold_obj_put_sorted[of "[]" "go_map hs"] go_map_sorted[of hs] by simp
  finally show ?thesis .
qed

text \<open>What a reader finds in an entry added for a message.\<close>

lemma entry_get_fields:
  assumes "map_of (reValues e) = map_of (entryFields m)"
  shows "entry_get e fieldPayload = mPayload m" "entry_get e fieldContentType = mContentType m"
    "entry_get e fieldDestination = mDestination m" "entry_get e fieldError = mFailureReason m"
    "entry_get e fieldRetries = (if mRetryCount m > 0 then Itoa (mRetryCount m) else [])"
    "entry_get e fieldHeaders = (if mHeaders m \<noteq> [] then header_json (mHeaders m) else [])"
    "entry_get e fieldTimestamp = (if \<not> IsZero (mTimestamp m) then FormatNanoUTC (mTimestamp m) else [])"
  by (simp_all add: entry_get_def assms entryFields_def field_names)

lemma header_json_nonempty: "header_json hs \<noteq> []"
  by (simp add: header_json_def)

lemma added_headers:
  assumes "map_of (reValues e) = map_of (entryFields m)" "textual_headers m"
  shows "mHeaders (toMessage q e) = go_map (mHeaders m)"
  using entry_get_fields(6)[OF assms(1)] decode_header_json[of "mHeaders m"] assms(2)
  by (simp add: toMessage_def Let_def textual_headers_def header_json_nonempty case_prod_unfold go_map_def)

lemma Atoi_value_Itoa: "0 < n \<Longrightarrow> n \<le> maxInt \<Longrightarrow> Atoi_value (Itoa n) = n"
  using nat_text_digits[of "nat n"] nat_text_nonempty[of "nat n"] nat_text_value[of "nat n"]
  by (cases "nat_text (nat n)")
    (auto simp: Itoa_def Atoi_value_def parse_dec_def is_digit_def minInt_def maxInt_def)

lemma Atoi_value_Nil: "Atoi_value [] = 0"
  by (simp add: Atoi_value_def parse_dec_def)

lemma added_message:
  assumes "map_of (reValues e) = map_of (entryFields m)"
  shows "mID (toMessage q e) = reID e" "mQueue (toMessage q e) = q"
    "mPayload (toMessage q e) = mPayload m" "mContentType (toMessage q e) = mContentType m"
    "mDestination (toMessage q e) = mDestination m" "mFailureReason (toMessage q e) = mFailureReason m"
    "mRetryCount m \<le> maxInt \<Longrightarrow> mRetryCount (toMessage q e) = max 0 (mRetryCount m)"
  using entry_get_fields[OF assms] Atoi_value_Itoa[of "mRetryCount m"]
  by (auto simp: toMessage_def Let_def case_prod_unfold Atoi_value_Nil)

lemma added_same_content:
  assumes "map_of (reValues e) = map_of (entryFields m)"
  shows "same_content textual_headers m (toMessage q e)"
  using added_message[OF assms] added_headers[OF assms] hget_cong[OF map_of_go_map, of "mHeaders m"]
  by (simp add: same_content_def)

text \<open>An entry added for a message stands for the message under the id the stream gave it.\<close>

definition arrived :: "string \<Rightarrow> string \<Rightarrow> message \<Rightarrow> message" where
  "arrived q i m = m\<lparr>mID := i, mQueue := q, mHeaders := go_map (mHeaders m),
     mEventID := fst (extractIDs (mHeaders m)), mIdempotencyKey := snd (extractIDs (mHeaders m))\<rparr>"

lemma extractIDs_go_map: "extractIDs (go_map hs) = extractIDs hs"
  by (simp add: extractIDs_def first_header_cong[OF map_of_go_map])

lemma FormatNanoUTC_nonempty: "FormatNanoUTC t \<noteq> []"
  by (cases "civil (t div second div 86400)") (simp add: format_base pad4_def pad2_def)

section \<open>Round trip\<close>

text \<open>
  C30: a message that is published to a stream is read back as it was. Whatever id the stream gives
  the entry, the reader finds payload, content type, destination, failure reason, retry count,
  time and headers of the published message, the headers in key order; only the id and the queue are
  the entry's own. Headers must be UTF-8 text, the retry count an \<open>int\<close> that is not negative,
  and the time set and before the year 10000.
\<close>

theorem redis_entry_roundtrip:
  assumes "map_of (reValues e) = map_of (entryFields m)" "textual_headers m"
    and "0 \<le> mRetryCount m" "mRetryCount m \<le> maxInt"
    and "0 < mTimestamp m" "year_of (mTimestamp m) \<le> 9999"
  shows "toMessage q e = arrived q (reID e) m"
proof -
  have "mTimestamp (toMessage q e) = mTimestamp m"
    using entry_get_fields(7)[OF assms(1)] assms(5,6) ParseRFC3339Nano_Format[of "mTimestamp m"]
    by (simp add: toMessage_def Let_def case_prod_unfold entryTime_def IsZero_def FormatNanoUTC_nonempty)
  moreover have "mEventID (toMessage q e) = fst (extractIDs (mHeaders (toMessage q e)))"
    "mIdempotencyKey (toMessage q e) = snd (extractIDs (mHeaders (toMessage q e)))"
    by (simp_all add: toMessage_def Let_def case_prod_unfold)
  ultimately show ?thesis
    using added_message[OF assms(1)] added_headers[OF assms(1,2)] assms(3,4)
    by (simp add: arrived_def extractIDs_go_map)
qed

theorem redis_entry_roundtrip_witness:
  "let m = \<lparr>mID = ''1690000000000-0'', mQueue = ''orders-dlq'', mDestination = ''orders'', mPayload = ''{}'',
       mHeaders = [(''x-event-id'', ''e7''), (''trace'', ''t1'')], mContentType = ''application/json'',
       mTimestamp = 63825000000 * second + 5000000, mRetryCount = 3, mFailureReason = ''timeout'',
       mEventID = ''e7'', mIdempotencyKey = []\<rparr>;
       e = \<lparr>reID = ''1700000000000-0'', reValues = entryFields m\<rparr>
   in toMessage ''orders'' e = m\<lparr>mID := ''1700000000000-0'', mQueue := ''orders'',
        mHeaders := [(''trace'', ''t1''), (''x-event-id'', ''e7'')]\<rparr>"
proof -
  define m where "m = \<lparr>mID = ''1690000000000-0'', mQueue = ''orders-dlq'', mDestination = ''orders'', mPayload = ''{}'',
       mHeaders = [(''x-event-id'', ''e7''), (''trace'', ''t1'')], mContentType = ''application/json'',
       mTimestamp = 63825000000 * second + 5000000, mRetryCount = 3, mFailureReason = ''timeout'',
       mEventID = ''e7'', mIdempotencyKey = []\<rparr>"
  define e where "e = \<lparr>reID = ''1700000000000-0'', reValues = entryFields m\<rparr>"
  have "map_of (reValues e) = map_of (entryFields m)" by (simp add: e_def)
  moreover have "textual_headers m" unfolding m_def by code_simp
  moreover have "0 \<le> mRetryCount m" "mRetryCount m \<le> maxInt" "0 < mTimestamp m" "year_of (mTimestamp m) \<le> 9999"
    unfolding m_def by code_simp+
  ultimately have "toMessage ''orders'' e = arrived ''orders'' (reID e) m" by (rule redis_entry_roundtrip)
  moreover have "arrived ''orders'' (reID e) m = m\<lparr>mID := ''1700000000000-0'', mQueue := ''orders'',
      mHeaders := [(''trace'', ''t1''), (''x-event-id'', ''e7'')]\<rparr>"
    unfolding e_def m_def by code_simp
  ultimately show ?thesis by (simp add: m_def e_def Let_def)
qed

end
