(* ===== verification/Redis_Contract.thy ===== *)
theory Redis_Contract
  imports Redis_Adapter
begin

text \<open>
  The Redis adapter keeps the broker contract on a server that follows the documentation of the
  commands it sends; an in-memory server with injected faults is one.
\<close>

section \<open>Entries as messages\<close>

text \<open>The messages a server's streams stand for.\<close>

definition entry_view :: "('s \<Rightarrow> string \<Rightarrow> redis_entry list) \<Rightarrow> 's \<Rightarrow> queues" where
  "entry_view stream s q = map (toMessage q) (stream s q)"

lemma toMessage_id [simp]: "mID (toMessage q e) = reID e"
  by (simp add: toMessage_def Let_def case_prod_unfold)

lemma has_id_entries: "has_id i (map (toMessage q) es) \<longleftrightarrow> i \<in> reID ` set es"
  by (auto simp: has_id_def image_image)

lemma find_entries:
  "distinct (map reID es) \<Longrightarrow> e \<in> set es \<Longrightarrow> reID e = i \<Longrightarrow>
   find_message i (map (toMessage q) es) = Some (toMessage q e)"
  by (induction es) (auto simp: find_message_def)

lemma remove_entries:
  "distinct (map reID es) \<Longrightarrow>
   remove_message i (map (toMessage q) es) = map (toMessage q) (filter (\<lambda>e. reID e \<noteq> i) es)"
proof (induction es)
  case (Cons e es)
  have "filter (\<lambda>e. reID e \<noteq> reID e0) es = es" if "reID e0 \<notin> reID ` set es" for e0
    using that by (metis (mono_tags, lifting) filter_True imageI)
  from this[of e] show ?case using Cons by auto
qed simp

lemma entry_view_add:
  "stream s' = (stream s)(d := stream s d @ [e]) \<Longrightarrow>
   entry_view stream s' = put_message d (toMessage d e) (entry_view stream s)"
  by (auto simp: entry_view_def put_message_def fun_eq_iff)

lemma entry_view_del:
  "stream s' = (stream s)(q := filter (\<lambda>e. reID e \<noteq> i) (stream s q)) \<Longrightarrow>
   distinct (map reID (stream s q)) \<Longrightarrow>
   entry_view stream s' = drop_message q i (entry_view stream s)"
  by (auto simp: entry_view_def drop_message_def fun_eq_iff remove_entries)

lemma entry_view_cong: "stream s' = stream s \<Longrightarrow> entry_view stream s' = entry_view stream s"
  by (simp add: entry_view_def fun_eq_iff)

section \<open>The commands\<close>

locale redis_streams =
  fixes rc :: "'s redis"
    and stream :: "'s \<Rightarrow> string \<Rightarrow> redis_entry list"
    and inv :: "'s \<Rightarrow> bool"
  assumes ids: "inv s \<Longrightarrow> distinct (map reID (stream s q))"
    and exists_law: "inv s \<Longrightarrow> rcExists rc q s = (n, s') \<Longrightarrow> inv s' \<and> stream s' = stream s"
    and xlen_law: "inv s \<Longrightarrow> rcXLen rc q s = (n, s') \<Longrightarrow> inv s' \<and> stream s' = stream s"
    and groups_law: "inv s \<Longrightarrow> rcXInfoGroups rc q s = (gs, s') \<Longrightarrow> inv s' \<and> stream s' = stream s"
    and pending_law: "inv s \<Longrightarrow> rcXPending rc q g s = (n, s') \<Longrightarrow> inv s' \<and> stream s' = stream s"
    and xrange_law: "inv s \<Longrightarrow> rcXRange rc q i s = (r, s') \<Longrightarrow>
      inv s' \<and> stream s' = stream s \<and>
      (\<forall>e \<in> set (stream s q). reID e = i \<longrightarrow> (\<forall>es. r = Inr es \<longrightarrow> es = [e]))"
    and xrangen_law: "inv s \<Longrightarrow> rcXRangeN rc q k s = (r, s') \<Longrightarrow>
      inv s' \<and> stream s' = stream s \<and> (\<forall>es. r = Inr es \<longrightarrow> es = take (nat k) (stream s q))"
    and xadd_law: "inv s \<Longrightarrow> rcXAdd rc d fs s = (x, s') \<Longrightarrow>
      inv s' \<and> (x \<noteq> None \<and> stream s' = stream s \<or>
        (\<exists>e. map_of (reValues e) = map_of fs \<and> stream s' = (stream s)(d := stream s d @ [e])))"
    and xdel_law: "inv s \<Longrightarrow> rcXDel rc q i s = (n, s') \<Longrightarrow> i \<in> reID ` set (stream s q) \<Longrightarrow>
      inv s' \<and> (\<not> is_Ok n \<and> stream s' = stream s \<or>
        stream s' = (stream s)(q := filter (\<lambda>e. reID e \<noteq> i) (stream s q)))"
begin

lemma pending_keeps:
  "inv s \<Longrightarrow> group_pending rc q g s = (n, s') \<Longrightarrow> inv s' \<and> stream s' = stream s"
  using pending_law[of s q g] by (auto simp: group_pending_def split: prod.splits sum.splits)

lemma stats_groups_keep:
  "inv s \<Longrightarrow> stats_groups rc q gs st s = (st', s') \<Longrightarrow> inv s' \<and> stream s' = stream s"
proof (induction gs arbitrary: st s)
  case (Cons g gs)
  obtain name consumers where g: "g = (name, consumers)" by (cases g)
  obtain n s1 where p: "group_pending rc q name s = (n, s1)" by (cases "group_pending rc q name s")
  have k: "inv s1" "stream s1 = stream s" using pending_keeps[OF Cons.prems(1) p] by auto
  show ?case using Cons.IH[OF k(1)] Cons.prems(2) k(2) by (simp add: g p)
qed simp

lemma Stats_keeps:
  assumes "inv s" "Stats (Some rc) q s = (st, s')"
  shows "inv s' \<and> stream s' = stream s"
proof -
  obtain x s1 where 1: "rcExists rc q s = (x, s1)" by (cases "rcExists rc q s")
  obtain l s2 where 2: "rcXLen rc q s1 = (l, s2)" by (cases "rcXLen rc q s1")
  obtain gs s3 where 3: "rcXInfoGroups rc q s2 = (gs, s3)" by (cases "rcXInfoGroups rc q s2")
  note k1 = exists_law[OF assms(1) 1, THEN conjunct1] exists_law[OF assms(1) 1, THEN conjunct2]
  note k2 = xlen_law[OF k1(1) 2, THEN conjunct1] xlen_law[OF k1(1) 2, THEN conjunct2]
  note k3 = groups_law[OF k2(1) 3, THEN conjunct1] groups_law[OF k2(1) 3, THEN conjunct2]
  have g: "inv (snd (stats_groups rc q g st s3)) \<and> stream (snd (stats_groups rc q g st s3)) = stream s" for g st
    using stats_groups_keep[OF k3(1), of q g st] k3(2) k2(2) k1(2)
    by (cases "stats_groups rc q g st s3") simp
  have "inv (snd (Stats (Some rc) q s)) \<and> stream (snd (Stats (Some rc) q s)) = stream s"
    using g assms(1) k1 k2 k3
    by (cases x; cases l; cases gs) (simp_all add: Stats_def 1 2 3 Let_def case_prod_unfold)
  then show ?thesis by (simp add: assms(2))
qed

lemma Inspect_reads:
  assumes "inv s" "Inspect (Some rc) q i s = (r, s')"
  shows "inv s' \<and> stream s' = stream s \<and>
    (\<forall>e \<in> set (stream s q). reID e = i \<longrightarrow> (\<forall>m. r = Ok m \<longrightarrow> m = toMessage q e))"
proof -
  obtain x s1 where x: "rcXRange rc q i s = (x, s1)" by (cases "rcXRange rc q i s")
  show ?thesis using assms xrange_law[OF assms(1) x]
    by (auto simp: Inspect_def x split: if_splits sum.splits list.splits)
qed

text \<open>A search answers with the page of the messages of the view that the scan bound reaches.\<close>

lemma Search_view:
  assumes "inv s" "Search (Some rc) q f s = (r, s')"
  shows "inv s' \<and> stream s' = stream s \<and>
    (\<forall>ms. r = Ok ms \<longrightarrow> ms = Filter (take (nat (scan_cap f)) (entry_view stream s q)) f)"
proof -
  obtain x s1 where x: "rcXRangeN rc q (scan_cap f) s = (x, s1)" by (cases "rcXRangeN rc q (scan_cap f) s")
  show ?thesis using assms xrangen_law[OF assms(1) x]
    by (auto simp: Search_def x entry_view_def take_map split: if_splits sum.splits)
qed

lemma Publish_adds:
  assumes "inv s" "Publish (Some rc) d m s = (r, s')"
  shows "inv s' \<and> (r \<noteq> None \<and> stream s' = stream s \<or>
    (\<exists>e. map_of (reValues e) = map_of (entryFields m) \<and> stream s' = (stream s)(d := stream s d @ [e])))"
proof -
  obtain x s1 where x: "rcXAdd rc d (entryFields m) s = (x, s1)" by (cases "rcXAdd rc d (entryFields m) s")
  show ?thesis using assms xadd_law[OF assms(1) x]
    by (auto simp: Publish_def x split: if_splits option.splits)
qed

lemma Ack_removes:
  assumes "inv s" "Ack (Some rc) q i s = (r, s')" "i \<in> reID ` set (stream s q)"
  shows "inv s' \<and> (r \<noteq> None \<and> stream s' = stream s \<or>
    stream s' = (stream s)(q := filter (\<lambda>e. reID e \<noteq> i) (stream s q)))"
proof -
  obtain x s1 where x: "rcXDel rc q i s = (x, s1)" by (cases "rcXDel rc q i s")
  show ?thesis using assms xdel_law[OF assms(1) x]
    by (auto simp: Ack_def x split: if_splits sum.splits)
qed

end

section \<open>The broker contract\<close>

sublocale redis_streams \<subseteq> broker_contract "redis_broker (Some rc)" "entry_view stream" inv textual_headers
  "\<lambda>_ _. True" "\<lambda>_ _ _. True" "\<lambda>m. m"
proof
  fix s q i r s'
  assume a: "inv s" "bInspect (redis_broker (Some rc)) q i s = (r, s')"
  have "find_message i (entry_view stream s q) = Some m"
    if id: "has_id i (entry_view stream s q)" and r: "r = Ok m" for m
  proof -
    obtain e where e: "e \<in> set (stream s q)" "reID e = i"
      using id unfolding entry_view_def has_id_entries by blast
    then show ?thesis using Inspect_reads[OF a(1), of q i r s'] a(2) r find_entries[OF ids[OF a(1)] e]
      by (simp add: redis_broker_def entry_view_def)
  qed
  then show "inv s' \<and> entry_view stream s' = entry_view stream s \<and>
      (has_id i (entry_view stream s q) \<longrightarrow> True \<longrightarrow>
        (\<forall>m. r = Ok m \<longrightarrow> find_message i (entry_view stream s q) = Some m))"
    using Inspect_reads[OF a(1), of q i r s'] a(2) entry_view_cong[of stream s' s]
    by (simp add: redis_broker_def)
next
  fix s q st s'
  assume "inv s" "bStats (redis_broker (Some rc)) q s = (st, s')"
  then show "inv s' \<and> entry_view stream s' = entry_view stream s \<and> (is_Ok st \<longrightarrow> True)"
    using Stats_keeps[of s q st s'] entry_view_cong[of stream s' s] by (simp add: redis_broker_def)
next
  fix s d m e s'
  assume "inv s" "bPublish (redis_broker (Some rc)) d m s = (e, s')"
  then show "inv s' \<and> (e \<noteq> None \<and> entry_view stream s' = entry_view stream s \<or>
      copied textual_headers d m (entry_view stream s) (entry_view stream s'))"
    using Publish_adds[of s d m e s'] entry_view_cong[of stream s' s] entry_view_add[of stream s' s d]
      added_same_content unfolding copied_def by (simp add: redis_broker_def) blast
next
  fix s q i e s'
  assume a: "inv s" "bAck (redis_broker (Some rc)) q i s = (e, s')" "has_id i (entry_view stream s q)"
  then show "inv s' \<and> (e \<noteq> None \<and> entry_view stream s' = entry_view stream s \<or>
      entry_view stream s' = drop_message q i (entry_view stream s))"
    using Ack_removes[of s q i e s'] entry_view_cong[of stream s' s] entry_view_del[of stream s' s q i] ids[of s q]
    unfolding entry_view_def has_id_entries redis_broker_def by auto
qed

context redis_streams begin

lemma replay_views:
  assumes "Execute env (redis_broker (Some rc)) r w = (res, w')" "inv (wServer w)"
    and "find_message (rqMessageID r) (entry_view stream (wServer w) (rqQueue r)) = Some m"
  defines "v \<equiv> entry_view stream (wServer w)" and "v' \<equiv> entry_view stream (wServer w')"
  shows "if is_Ok res
     then \<exists>dest. resolveDestination (rqDestination r) m = Ok dest \<and>
       moved textual_headers (rqQueue r) (rqMessageID r) dest (published_message r m) v v'
     else v' = v \<or>
       (\<exists>dest. resolveDestination (rqDestination r) m = Ok dest \<and>
         (copied textual_headers dest (published_message r m) v v' \<or>
          moved textual_headers (rqQueue r) (rqMessageID r) dest (published_message r m) v v'))"
  using Execute_views[OF assms(1-3) TrueI] unfolding v_def v'_def by auto

end

section \<open>A server that answers\<close>

locale redis_answering = redis_streams +
  fixes up :: "'s \<Rightarrow> bool"
    and known :: "'s \<Rightarrow> string \<Rightarrow> bool"
  assumes exists_up: "inv s \<Longrightarrow> up s \<Longrightarrow> known s q \<Longrightarrow>
      \<exists>n s'. rcExists rc q s = (Inr n, s') \<and> n \<noteq> 0 \<and> up s' \<and> known s' = known s"
    and xlen_up: "inv s \<Longrightarrow> up s \<Longrightarrow> known s q \<Longrightarrow>
      \<exists>n s'. rcXLen rc q s = (Inr n, s') \<and> up s' \<and> known s' = known s"
    and groups_up: "inv s \<Longrightarrow> up s \<Longrightarrow> rcXInfoGroups rc q s = (gs, s') \<Longrightarrow> up s' \<and> known s' = known s"
    and pending_up: "inv s \<Longrightarrow> up s \<Longrightarrow> rcXPending rc q g s = (n, s') \<Longrightarrow> up s' \<and> known s' = known s"
    and xrange_up: "inv s \<Longrightarrow> up s \<Longrightarrow> i \<in> reID ` set (stream s q) \<Longrightarrow>
      \<exists>es s'. rcXRange rc q i s = (Inr es, s') \<and> up s' \<and> known s' = known s"
    and xadd_up: "inv s \<Longrightarrow> up s \<Longrightarrow> known s q \<Longrightarrow> \<exists>s'. rcXAdd rc q fs s = (None, s') \<and> up s'"
    and xdel_up: "inv s \<Longrightarrow> up s \<Longrightarrow> i \<in> reID ` set (stream s q) \<Longrightarrow>
      \<exists>n s'. rcXDel rc q i s = (Inr n, s') \<and> n \<noteq> 0"
begin

lemma stats_groups_up:
  "inv s \<Longrightarrow> up s \<Longrightarrow> stats_groups rc q gs st s = (st', s') \<Longrightarrow> up s' \<and> known s' = known s"
proof (induction gs arbitrary: st s)
  case (Cons g gs)
  obtain name consumers where g: "g = (name, consumers)" by (cases g)
  obtain n s1 where p: "group_pending rc q name s = (n, s1)" by (cases "group_pending rc q name s")
  have "inv s1" using pending_keeps[OF Cons.prems(1) p] by simp
  moreover have "up s1 \<and> known s1 = known s"
    using pending_up[OF Cons.prems(1,2), of q name] p by (auto simp: group_pending_def split: prod.splits sum.splits)
  ultimately show ?case using Cons.IH[of s1] Cons.prems(3) by (simp add: g p)
qed simp

lemma Stats_up:
  assumes "inv s" "up s" "q \<noteq> []" "known s q"
  shows "\<exists>st s'. Stats (Some rc) q s = (Ok st, s') \<and> up s' \<and> known s' = known s"
proof -
  obtain n s1 where 1: "rcExists rc q s = (Inr n, s1)" "n \<noteq> 0" "up s1" "known s1 = known s"
    using exists_up[OF assms(1,2,4)] by blast
  have i1: "inv s1" using exists_law[OF assms(1) 1(1)] by simp
  obtain l s2 where 2: "rcXLen rc q s1 = (Inr l, s2)" "up s2" "known s2 = known s"
    using xlen_up[OF i1 1(3), of q] 1(4) assms(4) by auto
  have i2: "inv s2" using xlen_law[OF i1 2(1)] by simp
  obtain gs s3 where 3: "rcXInfoGroups rc q s2 = (gs, s3)" by (cases "rcXInfoGroups rc q s2")
  have i3: "inv s3" "up s3" "known s3 = known s"
    using groups_law[OF i2 3] groups_up[OF i2 2(2) 3] 2(3) by auto
  show ?thesis
  proof (cases gs)
    case (Inl e)
    then show ?thesis using assms(3) i3 by (simp add: Stats_def 1 2 3 Let_def)
  next
    case (Inr xs)
    define st where "st = \<lparr>qQueue = q, qMessages = l, qConsumers = 0, qPending = 0, qGroups = [],
      qOldestAge = 0, qNewestAge = 0, qRetryCount = 0\<rparr>"
    obtain st' s4 where g: "stats_groups rc q xs st s3 = (st', s4)" by (cases "stats_groups rc q xs st s3")
    then show ?thesis using stats_groups_up[OF i3(1,2) g] assms(3) i3(3) Inr
      by (simp add: Stats_def 1 2 3 Let_def st_def)
  qed
qed

end

sublocale redis_answering \<subseteq>
  answering_broker "redis_broker (Some rc)" "entry_view stream" inv textual_headers
    "\<lambda>_ _. True" "\<lambda>_ _ _. True" "\<lambda>m. m" up known
proof
  fix s q i
  assume a: "inv s" "up s" "q \<noteq> []" "i \<noteq> []" "has_id i (entry_view stream s q)"
  have id: "i \<in> reID ` set (stream s q)" using a(5) by (simp add: entry_view_def has_id_entries)
  obtain es s' where x: "rcXRange rc q i s = (Inr es, s')" "up s'" "known s' = known s"
    using xrange_up[OF a(1,2) id] by blast
  obtain e where "e \<in> set (stream s q)" "reID e = i" using id by auto
  then have "es = [e]" using xrange_law[OF a(1) x(1)] by blast
  then show "\<exists>m s'. bInspect (redis_broker (Some rc)) q i s = (Ok m, s') \<and> up s' \<and> known s' = known s"
    using x a(3,4) by (simp add: redis_broker_def Inspect_def)
  obtain n s2 where "rcXDel rc q i s = (Inr n, s2)" "n \<noteq> 0" using xdel_up[OF a(1,2) id] by blast
  then show "\<exists>s'. bAck (redis_broker (Some rc)) q i s = (None, s')"
    using a(3,4) by (simp add: redis_broker_def Ack_def)
next
  fix s d
  assume a: "inv s" "up s" "d \<noteq> []" "known s d"
  show "\<exists>st s'. bStats (redis_broker (Some rc)) d s = (Ok st, s') \<and> up s' \<and> known s' = known s"
    using Stats_up[OF a] by (simp add: redis_broker_def)
  fix m
  show "\<exists>s'. bPublish (redis_broker (Some rc)) d m s = (None, s') \<and> up s'"
    using xadd_up[OF a(1,2,4), of "entryFields m"] a(3) by (auto simp: redis_broker_def Publish_def)
qed

context redis_answering begin

lemma replay_answers:
  assumes "inv (wServer w)" "up (wServer w)"
    and "find_message (rqMessageID r) (entry_view stream (wServer w) (rqQueue r)) = Some m"
    and "rqConfirm r" "rqQueue r \<noteq> []" "rqMessageID r \<noteq> []"
    and "resolveDestination (rqDestination r) m = Ok dest" "known (wServer w) dest"
  shows "\<exists>x w'. Execute env (redis_broker (Some rc)) r w = (Ok x, w') \<and> xrDestination x = dest \<and>
    moved textual_headers (rqQueue r) (rqMessageID r) dest (published_message r m)
      (entry_view stream (wServer w)) (entry_view stream (wServer w'))"
  using Execute_answers[OF assms(1-6) _ assms(8) TrueI, of env] assms(7) by auto

end

section \<open>A server in memory\<close>

text \<open>
  The instance: streams in a list of keys, entry ids from a counter, and a list of faults that
  makes the next commands fail without effect. Without consumer groups.
\<close>

record mem_redis =
  mrStreams :: "(string \<times> redis_entry list) list"
  mrNext :: nat
  mrFaults :: "bool list"

definition mr_stream :: "mem_redis \<Rightarrow> string \<Rightarrow> redis_entry list" where
  "mr_stream s q = (case map_of (mrStreams s) q of None \<Rightarrow> [] | Some es \<Rightarrow> es)"

definition mr_known :: "mem_redis \<Rightarrow> string \<Rightarrow> bool" where
  "mr_known s q = (map_of (mrStreams s) q \<noteq> None)"

definition mr_up :: "mem_redis \<Rightarrow> bool" where
  "mr_up s = (mrFaults s = [])"

definition mr_put :: "string \<Rightarrow> redis_entry list \<Rightarrow> mem_redis \<Rightarrow> mem_redis" where
  "mr_put q es s = s\<lparr>mrStreams := (q, es) # mrStreams s\<rparr>"

definition mr_id :: "nat \<Rightarrow> string" where
  "mr_id n = nat_text n @ ''-0''"

definition mr_inv :: "mem_redis \<Rightarrow> bool" where
  "mr_inv s = (\<forall>q. distinct (map reID (mr_stream s q)) \<and>
     (\<forall>e \<in> set (mr_stream s q). \<exists>n < mrNext s. reID e = mr_id n))"

definition mr_reply :: "(mem_redis \<Rightarrow> 'a \<times> mem_redis) \<Rightarrow> mem_redis \<Rightarrow> (goerr, 'a) result \<times> mem_redis" where
  "mr_reply f s =
     (let s' = s\<lparr>mrFaults := tl (mrFaults s)\<rparr> in
      if mrFaults s \<noteq> [] \<and> hd (mrFaults s) then (Err (Text ''LOADING''), s')
      else (case f s' of (x, s) \<Rightarrow> (Ok x, s)))"

definition mr_status :: "(goerr, 'a) result \<times> mem_redis \<Rightarrow> goerr option \<times> mem_redis" where
  "mr_status r = (case r of (Inl e, s) \<Rightarrow> (Some e, s) | (Inr _, s) \<Rightarrow> (None, s))"

definition mem_client :: "mem_redis redis" where
  "mem_client = \<lparr>
     rcExists = (\<lambda>q. mr_reply (\<lambda>s. (if mr_known s q then 1 else 0, s))),
     rcXLen = (\<lambda>q. mr_reply (\<lambda>s. (int (length (mr_stream s q)), s))),
     rcXInfoGroups = (\<lambda>q. mr_reply (\<lambda>s. ([], s))),
     rcXPending = (\<lambda>q g. mr_reply (\<lambda>s. (0, s))),
     rcXRangeN = (\<lambda>q n. mr_reply (\<lambda>s. (take (nat n) (mr_stream s q), s))),
     rcXRange = (\<lambda>q i. mr_reply (\<lambda>s. (filter (\<lambda>e. reID e = i) (mr_stream s q), s))),
     rcXAdd = (\<lambda>q fs s. mr_status (mr_reply (\<lambda>s. ((),
        mr_put q (mr_stream s q @ [\<lparr>reID = mr_id (mrNext s), reValues = fs\<rparr>]) s\<lparr>mrNext := mrNext s + 1\<rparr>)) s)),
     rcXDel = (\<lambda>q i. mr_reply (\<lambda>s. (int (length (filter (\<lambda>e. reID e = i) (mr_stream s q))),
        mr_put q (filter (\<lambda>e. reID e \<noteq> i) (mr_stream s q)) s))),
     rcScan = (\<lambda>s. ((map fst (mrStreams s), None), s)),
     rcType = (\<lambda>q. mr_reply (\<lambda>s. (''stream'', s)))\<rparr>"

lemma mr_reply_faults [simp]:
  "mr_stream (s\<lparr>mrFaults := fs\<rparr>) = mr_stream s" "mr_known (s\<lparr>mrFaults := fs\<rparr>) = mr_known s"
  "mr_inv (s\<lparr>mrFaults := fs\<rparr>) = mr_inv s"
  by (simp_all add: mr_stream_def mr_known_def mr_inv_def fun_eq_iff)

lemma mr_stream_put [simp]:
  "mr_stream (mr_put q es s) = (mr_stream s)(q := es)" "mr_stream (s\<lparr>mrNext := n\<rparr>) = mr_stream s"
  by (simp_all add: mr_stream_def mr_put_def fun_eq_iff)

lemma mr_put_next [simp]: "mrNext (mr_put q es s) = mrNext s"
  by (simp add: mr_put_def)

lemma mr_id_inject: "mr_id n = mr_id k \<longleftrightarrow> n = k"
proof
  assume "mr_id n = mr_id k"
  then have "digits_val 0 (nat_text n) = digits_val 0 (nat_text k)" by (simp add: mr_id_def)
  then show "n = k" by (simp add: nat_text_value)
qed simp

lemma mr_inv_add:
  assumes "mr_inv s"
  shows "mr_inv (mr_put q (mr_stream s q @ [\<lparr>reID = mr_id (mrNext s), reValues = fs\<rparr>]) s\<lparr>mrNext := mrNext s + 1\<rparr>)"
proof -
  have "mr_id (mrNext s) \<notin> reID ` set (mr_stream s q)"
    using assms by (fastforce simp: mr_inv_def mr_id_inject)
  then show ?thesis using assms by (auto simp: mr_inv_def) (meson less_SucI)+
qed

lemma mr_inv_del: "mr_inv s \<Longrightarrow> mr_inv (mr_put q (filter P (mr_stream s q)) s)"
  by (auto simp: mr_inv_def distinct_map_filter)

text \<open>A command either fails without effect or has its effect.\<close>

lemma mr_reply_cases:
  assumes "mr_reply f s = (r, s')"
  shows "(\<exists>e fs. r = Err e \<and> s' = s\<lparr>mrFaults := fs\<rparr> \<and> \<not> mr_up s) \<or>
    (\<exists>fs x. f (s\<lparr>mrFaults := fs\<rparr>) = (x, s') \<and> r = Ok x \<and> (mr_up s \<longrightarrow> fs = []))"
proof (cases "mrFaults s \<noteq> [] \<and> hd (mrFaults s)")
  case True
  then have "r = Err (Text ''LOADING'')" "s' = s\<lparr>mrFaults := tl (mrFaults s)\<rparr>" "\<not> mr_up s"
    using assms by (auto simp: mr_reply_def mr_up_def Let_def)
  then show ?thesis by blast
next
  case False
  obtain x s1 where x: "f (s\<lparr>mrFaults := tl (mrFaults s)\<rparr>) = (x, s1)"
    by (cases "f (s\<lparr>mrFaults := tl (mrFaults s)\<rparr>)")
  then have "r = Ok x" "s' = s1" using False assms by (auto simp: mr_reply_def Let_def)
  moreover have "mr_up s \<longrightarrow> tl (mrFaults s) = []" by (simp add: mr_up_def)
  ultimately show ?thesis using x by blast
qed

lemma mr_read:
  assumes "mr_reply (\<lambda>s. (g s, s)) s = (r, s')"
  shows "(mr_inv s \<longrightarrow> mr_inv s') \<and> mr_stream s' = mr_stream s \<and> mr_known s' = mr_known s \<and>
    (mr_up s \<longrightarrow> mr_up s' \<and> r = Ok (g s')) \<and> (\<forall>x. r = Ok x \<longrightarrow> x = g s')"
  using mr_reply_cases[OF assms] by (auto simp: mr_up_def)

lemma mr_add:
  assumes "rcXAdd mem_client q fs s = (r, s')" "mr_inv s"
  shows "mr_inv s' \<and> (mr_up s \<longrightarrow> mr_up s' \<and> r = None) \<and>
    (r \<noteq> None \<and> mr_stream s' = mr_stream s \<or>
     (\<exists>e. map_of (reValues e) = map_of fs \<and> mr_stream s' = (mr_stream s)(q := mr_stream s q @ [e])))"
proof -
  let ?e = "\<lambda>s. \<lparr>reID = mr_id (mrNext s), reValues = fs\<rparr>"
  let ?f = "\<lambda>s. ((), mr_put q (mr_stream s q @ [?e s]) s\<lparr>mrNext := mrNext s + 1\<rparr>)"
  obtain x s1 where x: "mr_reply ?f s = (x, s1)" by (cases "mr_reply ?f s")
  then have r: "s' = s1" "r = (case x of Inl e \<Rightarrow> Some e | Inr _ \<Rightarrow> None)"
    using assms(1) by (auto simp: mem_client_def mr_status_def split: sum.splits)
  from mr_reply_cases[OF x] show ?thesis
  proof (elim disjE exE conjE)
    fix e fs' assume "x = Err e" "s1 = s\<lparr>mrFaults := fs'\<rparr>" "\<not> mr_up s"
    then show ?thesis using assms(2) by (simp add: r)
  next
    fix fs' y assume y: "?f (s\<lparr>mrFaults := fs'\<rparr>) = (y, s1)" "x = Ok y" "mr_up s \<longrightarrow> fs' = []"
    then have "mr_stream s1 = (mr_stream s)(q := mr_stream s q @ [?e s])" by auto
    moreover have "map_of (reValues (?e s)) = map_of fs" by simp
    moreover have "mr_inv s1" using mr_inv_add[of "s\<lparr>mrFaults := fs'\<rparr>" q fs] assms(2) y(1) by auto
    moreover have "mr_up s \<longrightarrow> mr_up s1" using y(1,3) by (auto simp: mr_up_def mr_put_def)
    ultimately show ?thesis using y(2) unfolding r by fastforce
  qed
qed

lemma mr_del:
  assumes "rcXDel mem_client q i s = (r, s')" "mr_inv s" "i \<in> reID ` set (mr_stream s q)"
  shows "mr_inv s' \<and> (mr_up s \<longrightarrow> (\<exists>n. r = Ok n \<and> n \<noteq> 0)) \<and>
    (\<not> is_Ok r \<and> mr_stream s' = mr_stream s \<or>
     mr_stream s' = (mr_stream s)(q := filter (\<lambda>e. reID e \<noteq> i) (mr_stream s q)))"
proof -
  let ?f = "\<lambda>s. (int (length (filter (\<lambda>e. reID e = i) (mr_stream s q))),
        mr_put q (filter (\<lambda>e. reID e \<noteq> i) (mr_stream s q)) s)"
  have x: "mr_reply ?f s = (r, s')" using assms(1) by (simp add: mem_client_def)
  have n: "int (length (filter (\<lambda>e. reID e = i) (mr_stream s q))) \<noteq> 0"
    using assms(3) by (auto simp: filter_empty_conv)
  from mr_reply_cases[OF x] show ?thesis
  proof (elim disjE exE conjE)
    fix e fs' assume "r = Err e" "s' = s\<lparr>mrFaults := fs'\<rparr>" "\<not> mr_up s"
    then show ?thesis using assms(2) by simp
  next
    fix fs' y assume "?f (s\<lparr>mrFaults := fs'\<rparr>) = (y, s')" "r = Ok y"
    then show ?thesis
      using mr_inv_del[of "s\<lparr>mrFaults := fs'\<rparr>" q "\<lambda>e. reID e \<noteq> i"] assms(2) n by auto
  qed
qed

lemma mr_one: "mr_inv s \<Longrightarrow> e \<in> set (mr_stream s q) \<Longrightarrow> reID e = i \<Longrightarrow> filter (\<lambda>e. reID e = i) (mr_stream s q) = [e]"
proof -
  have "distinct (map reID es) \<Longrightarrow> e \<in> set es \<Longrightarrow> reID e = i \<Longrightarrow> filter (\<lambda>e. reID e = i) es = [e]" for es
  proof (induction es)
    case (Cons a es)
    have "filter (\<lambda>e. reID e = i) es = []" if "i \<notin> reID ` set es"
      using that by (auto simp: filter_empty_conv)
    then show ?case using Cons by auto
  qed simp
  then show "mr_inv s \<Longrightarrow> e \<in> set (mr_stream s q) \<Longrightarrow> reID e = i \<Longrightarrow> filter (\<lambda>e. reID e = i) (mr_stream s q) = [e]"
    by (simp add: mr_inv_def)
qed

interpretation mem: redis_answering mem_client mr_stream mr_inv mr_up mr_known
proof
  fix s q show "mr_inv s \<Longrightarrow> distinct (map reID (mr_stream s q))" by (simp add: mr_inv_def)
next
  fix s q i r s'
  assume "mr_inv s" "rcXRange mem_client q i s = (r, s')"
  then show "mr_inv s' \<and> mr_stream s' = mr_stream s \<and>
      (\<forall>e\<in>set (mr_stream s q). reID e = i \<longrightarrow> (\<forall>es. r = Ok es \<longrightarrow> es = [e]))"
    using mr_read[of "\<lambda>s. filter (\<lambda>e. reID e = i) (mr_stream s q)" s r s'] mr_one[of s _ q i]
    by (auto simp: mem_client_def)
next
  fix s q fs r s'
  assume "mr_inv s" "rcXAdd mem_client q fs s = (r, s')"
  then show "mr_inv s' \<and> (r \<noteq> None \<and> mr_stream s' = mr_stream s \<or>
     (\<exists>e. map_of (reValues e) = map_of fs \<and> mr_stream s' = (mr_stream s)(q := mr_stream s q @ [e])))"
    using mr_add by blast
next
  fix s q i r s'
  assume "mr_inv s" "rcXDel mem_client q i s = (r, s')" "i \<in> reID ` set (mr_stream s q)"
  then show "mr_inv s' \<and> (\<not> is_Ok r \<and> mr_stream s' = mr_stream s \<or>
     mr_stream s' = (mr_stream s)(q := filter (\<lambda>e. reID e \<noteq> i) (mr_stream s q)))"
    using mr_del by blast
next
  fix s q fs
  assume "mr_inv s" "mr_up s"
  then show "\<exists>s'. rcXAdd mem_client q fs s = (None, s') \<and> mr_up s'"
    using mr_add[of q fs s] by (cases "rcXAdd mem_client q fs s") auto
next
  fix s q i
  assume "mr_inv s" "mr_up s" "i \<in> reID ` set (mr_stream s q)"
  then show "\<exists>n s'. rcXDel mem_client q i s = (Inr n, s') \<and> n \<noteq> 0"
    using mr_del[of q i s] by (cases "rcXDel mem_client q i s") auto
qed (auto simp: mem_client_def mr_reply_def mr_up_def mr_known_def Let_def split: if_splits)

section \<open>Properties\<close>

text \<open>
  C8: a replay through the Redis adapter moves one message. On a server whose commands do what
  Redis documents, with the streams seen as the lists of messages the adapter reads from them:
  a replay that succeeds has appended one message with the published content to the destination and
  removed the source message, and nothing else has changed; a replay that fails has changed nothing,
  or appended the copy, or done both (a reply that was lost). So no failure loses a message.
\<close>

theorem redis_replay_moves_one:
  assumes "redis_streams rc stream invar" "invar (wServer w)"
    and "find_message (rqMessageID r) (entry_view stream (wServer w) (rqQueue r)) = Some m"
    and "Execute env (redis_broker (Some rc)) r w = (res, w')"
  shows "let v = entry_view stream (wServer w); v' = entry_view stream (wServer w');
      p = published_message r m; q = rqQueue r; i = rqMessageID r
    in (if is_Ok res
        then \<exists>dest. resolveDestination (rqDestination r) m = Ok dest \<and> moved textual_headers q i dest p v v'
        else v' = v \<or> (\<exists>dest. resolveDestination (rqDestination r) m = Ok dest \<and>
          (copied textual_headers dest p v v' \<or> moved textual_headers q i dest p v v')))
      \<and> (\<forall>qu x. x \<in> set (v qu) \<and> x \<notin> set (v' qu) \<longrightarrow>
          qu = q \<and> x = m \<and> (\<exists>dest m'. m' \<in> set (v' dest) \<and> same_content textual_headers p m'))"
proof -
  define v v' where "v = entry_view stream (wServer w)" and "v' = entry_view stream (wServer w')"
  note c = redis_streams.replay_views[OF assms(1,4,2,3), folded v_def v'_def]
  have "qu = rqQueue r \<and> x = m \<and> (\<exists>dest m'. m' \<in> set (v' dest) \<and> same_content textual_headers (published_message r m) m')"
    if x: "x \<in> set (v qu)" "x \<notin> set (v' qu)" for qu x
  proof -
    obtain dest where "moved textual_headers (rqQueue r) (rqMessageID r) dest (published_message r m) v v'"
      using c x copied_keeps[of textual_headers _ "published_message r m" v v' x qu] by (auto split: if_splits)
    from moved_keeps[OF this] assms(3) x show ?thesis unfolding v_def by blast
  qed
  then show ?thesis using c unfolding Let_def v_def v'_def by blast
qed

text \<open>A queue with two failed messages, the destination of the first one, and a plan of faults.\<close>

definition mr_entry :: "string \<Rightarrow> redis_entry" where
  "mr_entry dest = \<lparr>reID = mr_id 7, reValues = [(fieldPayload, ''{}''), (fieldDestination, dest)]\<rparr>"

definition mr_server :: "bool list \<Rightarrow> mem_redis" where
  "mr_server faults = \<lparr>mrStreams = [(''orders'', []), (''orders-dlq'', [mr_entry ''orders''])],
     mrNext = 8, mrFaults = faults\<rparr>"

definition mr_world :: "bool list \<Rightarrow> mem_redis world" where
  "mr_world faults = \<lparr>wServer = mr_server faults, wStore = Some empty_store, wTrace = [], wTick = 0\<rparr>"

definition mr_request :: request where
  "mr_request = \<lparr>rqQueue = ''orders-dlq'', rqMessageID = mr_id 7, rqDestination = [],
     rqBrokerName = ''redisstream'', rqProfile = ''dev'', rqReason = ''fixed'', rqConfirm = True,
     rqAction = ActionReplay, rqPayload = None, rqDiff = []\<rparr>"

lemma mr_server_inv: "mr_inv (mr_server faults)"
  by (auto simp: mr_inv_def mr_server_def mr_stream_def mr_entry_def intro!: exI[of _ 7])

lemma mr_world_facts:
  "mr_inv (wServer (mr_world faults))"
  "find_message (rqMessageID mr_request) (entry_view mr_stream (wServer (mr_world faults)) (rqQueue mr_request))
     = Some (toMessage ''orders-dlq'' (mr_entry ''orders''))"
  "resolveDestination (rqDestination mr_request) (toMessage ''orders-dlq'' (mr_entry ''orders'')) = Ok ''orders''"
  using mr_server_inv[of faults]
  by (simp_all add: mr_world_def mr_request_def entry_view_def mr_server_def mr_stream_def mr_entry_def
      find_message_def resolveDestination_def toMessage_def Let_def case_prod_unfold entry_get_def field_names)

lemma mr_world_view:
  "entry_view mr_stream (wServer (mr_world faults)) =
   (\<lambda>_. [])(''orders-dlq'' := [toMessage ''orders-dlq'' (mr_entry ''orders'')])"
  by (auto simp: entry_view_def mr_world_def mr_server_def mr_stream_def fun_eq_iff)

lemma mr_request_facts:
  "rqConfirm mr_request" "rqQueue mr_request = ''orders-dlq''" "rqMessageID mr_request = mr_id 7"
  "published_message mr_request m = m" "reID (mr_entry d) = mr_id 7"
  by (simp_all add: mr_request_def published_message_def mr_entry_def)

text \<open>The acknowledgement fails: the copy is at the destination and the source is kept.\<close>

theorem redis_replay_moves_one_witness:
  "let w = mr_world [False, False, False, False, False, True];
       r = Execute calm (redis_broker (Some mem_client)) mr_request w;
       v = entry_view mr_stream (wServer w); v' = entry_view mr_stream (wServer (snd r))
   in \<not> is_Ok (fst r) \<and> length (v' ''orders'') = 1 \<and> length (v' ''orders-dlq'') = 1 \<and>
     (\<exists>dest. copied textual_headers dest (toMessage ''orders-dlq'' (mr_entry ''orders'')) v v')"
proof -
  define w where "w = mr_world [False, False, False, False, False, True]"
  define r where "r = Execute calm (redis_broker (Some mem_client)) mr_request w"
  define v v' where "v = entry_view mr_stream (wServer w)" and "v' = entry_view mr_stream (wServer (snd r))"
  have e: "\<not> is_Ok (fst r)" "length (v' ''orders'') = 1" "length (v' ''orders-dlq'') = 1"
    "length (v ''orders'') = 0" "length (v ''orders-dlq'') = 1"
    unfolding v_def v'_def r_def w_def mr_world_def mr_server_def by code_simp+
  have "Execute calm (redis_broker (Some mem_client)) mr_request w = (fst r, snd r)" by (simp add: r_def)
  note c = redis_replay_moves_one[OF mem.redis_streams_axioms mr_world_facts(1,2) this[unfolded w_def],
      folded w_def v_def v'_def, unfolded Let_def, folded v_def v'_def]
  have "v ''orders-dlq'' = [toMessage ''orders-dlq'' (mr_entry ''orders'')]"
    unfolding v_def w_def mr_world_view by simp
  then have "\<not> moved textual_headers ''orders-dlq'' (mr_id 7) ''orders'' m v v'" for m
    using e(3) by (auto simp: moved_def drop_message_def put_message_def mr_request_facts)
  moreover have "v' \<noteq> v" using e(2,4) by auto
  ultimately have "copied textual_headers ''orders'' (toMessage ''orders-dlq'' (mr_entry ''orders'')) v v'"
    using c e(1) by (auto simp: mr_request_facts mr_world_facts(3))
  then show ?thesis using e(1-3) unfolding Let_def v_def v'_def r_def w_def by blast
qed

text \<open>
  C31: on a server that answers, a confirmed replay gets through. When no command fails, the message
  is in the queue it is asked for and its destination exists, \<open>Execute\<close> reports success for that
  destination and the message has moved.
\<close>

theorem redis_replay_gets_through:
  assumes "redis_answering rc stream invar up known" "invar (wServer w)" "up (wServer w)"
    and "find_message (rqMessageID r) (entry_view stream (wServer w) (rqQueue r)) = Some m"
    and "rqConfirm r" "rqQueue r \<noteq> []" "rqMessageID r \<noteq> []"
    and "resolveDestination (rqDestination r) m = Ok dest" "known (wServer w) dest"
  shows "\<exists>x w'. Execute env (redis_broker (Some rc)) r w = (Ok x, w') \<and> xrDestination x = dest \<and>
    moved textual_headers (rqQueue r) (rqMessageID r) dest (published_message r m)
      (entry_view stream (wServer w)) (entry_view stream (wServer w'))"
  using redis_answering.replay_answers[OF assms(1-4) assms(5-9)] by blast

theorem redis_replay_gets_through_witness:
  "\<exists>x w'. Execute calm (redis_broker (Some mem_client)) mr_request (mr_world []) = (Ok x, w') \<and>
    xrDestination x = ''orders'' \<and> entry_view mr_stream (wServer w') ''orders-dlq'' = [] \<and>
    length (entry_view mr_stream (wServer w') ''orders'') = 1"
proof -
  have "rqQueue mr_request \<noteq> []" "rqMessageID mr_request \<noteq> []"
    "mr_known (wServer (mr_world [])) ''orders''" "mr_up (wServer (mr_world []))"
    by (simp_all add: mr_request_facts mr_id_def mr_known_def mr_up_def mr_world_def mr_server_def)
  from redis_replay_gets_through[OF mem.redis_answering_axioms mr_world_facts(1) this(4) mr_world_facts(2)
      mr_request_facts(1) this(1,2) mr_world_facts(3) this(3), of calm]
  obtain x w' m' where "Execute calm (redis_broker (Some mem_client)) mr_request (mr_world []) = (Ok x, w')"
      "xrDestination x = ''orders''"
      "entry_view mr_stream (wServer w') =
        drop_message ''orders-dlq'' (mr_id 7) (put_message ''orders'' m' (entry_view mr_stream (wServer (mr_world []))))"
    unfolding moved_def mr_request_facts by blast
  then show ?thesis unfolding mr_world_view
    by (intro exI[of _ x] exI[of _ w']) (simp add: drop_message_def put_message_def mr_request_facts)
qed

end
