(* ===== verification/Go_Base64.thy ===== *)
theory Go_Base64
  imports Go_Strings
begin

text \<open>
  \<open>base64.StdEncoding\<close>: encoding three bytes as four characters, and \<open>DecodeString\<close>, which skips
  line breaks and reads padding only at the end. Decoding inverts encoding.
\<close>

definition byte :: "char \<Rightarrow> nat" where
  "byte c = of_char c"

definition chr_n :: "nat \<Rightarrow> char" where
  "chr_n n = char_of n"

definition enc_char :: "nat \<Rightarrow> char" where
  "enc_char n =
     (if n < 26 then chr_n (65 + n) else if n < 52 then chr_n (97 + (n - 26))
      else if n < 62 then chr_n (48 + (n - 52)) else if n = 62 then CHR ''+'' else CHR ''/'')"

definition dec_char :: "char \<Rightarrow> nat option" where
  "dec_char c =
     (let n = byte c in
      if 65 \<le> n \<and> n < 91 then Some (n - 65) else if 97 \<le> n \<and> n < 123 then Some (n - 97 + 26)
      else if 48 \<le> n \<and> n < 58 then Some (n - 48 + 52)
      else if c = CHR ''+'' then Some 62 else if c = CHR ''/'' then Some 63 else None)"

fun base64 :: "string \<Rightarrow> string" where
  "base64 [] = []"
| "base64 [a] = [enc_char (byte a div 4), enc_char (byte a mod 4 * 16), CHR ''='', CHR ''='']"
| "base64 [a, b] = [enc_char (byte a div 4), enc_char (byte a mod 4 * 16 + byte b div 16),
     enc_char (byte b mod 16 * 4), CHR ''='']"
| "base64 (a # b # c # s) = enc_char (byte a div 4) # enc_char (byte a mod 4 * 16 + byte b div 16) #
     enc_char (byte b mod 16 * 4 + byte c div 64) # enc_char (byte c mod 64) # base64 s"

definition dec_one :: "nat \<Rightarrow> nat \<Rightarrow> char" where
  "dec_one a b = chr_n (a * 4 + b div 16)"

definition dec_two :: "nat \<Rightarrow> nat \<Rightarrow> char" where
  "dec_two b c = chr_n (b mod 16 * 16 + c div 4)"

definition dec_three :: "nat \<Rightarrow> nat \<Rightarrow> char" where
  "dec_three c d = chr_n (c mod 4 * 64 + d)"

fun decode_quads :: "string \<Rightarrow> string option" where
  "decode_quads [] = Some []"
| "decode_quads (a # b # c # d # s) =
     (case (dec_char a, dec_char b) of
        (Some x, Some y) \<Rightarrow>
          if d = CHR ''=''
          then if s \<noteq> [] then None
               else if c = CHR ''='' then Some [dec_one x y]
               else (case dec_char c of None \<Rightarrow> None | Some z \<Rightarrow> Some [dec_one x y, dec_two y z])
          else (case (dec_char c, dec_char d) of
                  (Some z, Some u) \<Rightarrow> map_option (\<lambda>t. dec_one x y # dec_two y z # dec_three z u # t) (decode_quads s)
                | _ \<Rightarrow> None)
      | _ \<Rightarrow> None)"
| "decode_quads _ = None"

definition DecodeString :: "string \<Rightarrow> string option" where
  "DecodeString s = decode_quads (filter (\<lambda>c. c \<noteq> CHR 0x0A \<and> c \<noteq> CHR 0x0D) s)"

section \<open>Round trip\<close>

lemma byte_less [simp]: "byte c < 256"
  by (simp add: byte_def)

lemma chr_byte [simp]: "chr_n (byte c) = c" "n < 256 \<Longrightarrow> byte (chr_n n) = n"
  by (simp_all add: byte_def chr_n_def of_char_of)

lemma byte_enc_char:
  "n < 64 \<Longrightarrow> byte (enc_char n) =
     (if n < 26 then 65 + n else if n < 52 then 71 + n else if n < 62 then n - 4 else if n = 62 then 43 else 47)"
  by (simp add: enc_char_def) (simp add: byte_def)

lemma enc_char_facts:
  assumes "n < 64"
  shows "dec_char (enc_char n) = Some n" "enc_char n \<noteq> CHR ''=''" "enc_char n \<noteq> CHR 0x0A" "enc_char n \<noteq> CHR 0x0D"
proof -
  note e = byte_enc_char[OF assms]
  have "byte (CHR ''='') = 61" "byte (CHR 0x0A) = 10" "byte (CHR 0x0D) = 13" by (simp_all add: byte_def)
  then show "enc_char n \<noteq> CHR ''=''" "enc_char n \<noteq> CHR 0x0A" "enc_char n \<noteq> CHR 0x0D"
    using e by (auto split: if_splits)
  have "n < 62 \<or> n = 62 \<or> n = 63" using assms by linarith
  then show "dec_char (enc_char n) = Some n"
    unfolding dec_char_def Let_def e by (auto simp: enc_char_def)
qed

lemma split_bytes:
  "byte a div 4 < 64" "byte a mod 4 * 16 < 64" "byte a mod 4 * 16 + byte b div 16 < 64"
  "byte b mod 16 * 4 < 64" "byte b mod 16 * 4 + byte c div 64 < 64" "byte c mod 64 < 64"
  using byte_less[of a] byte_less[of b] byte_less[of c] by linarith+

lemma join_bytes:
  "dec_one (byte a div 4) (byte a mod 4 * 16) = a"
  "dec_one (byte a div 4) (byte a mod 4 * 16 + byte b div 16) = a"
  "dec_two (byte a mod 4 * 16 + byte b div 16) (byte b mod 16 * 4) = b"
  "dec_two (byte a mod 4 * 16 + byte b div 16) (byte b mod 16 * 4 + byte c div 64) = b"
  "dec_three (byte b mod 16 * 4 + byte c div 64) (byte c mod 64) = c"
proof -
  have d: "byte b div 16 < 16" "byte c div 64 < 4" using byte_less[of b] byte_less[of c] by linarith+
  have e: "byte a div 4 * 4 + byte a mod 4 = byte a" "byte b div 16 * 16 + byte b mod 16 = byte b"
    "byte c div 64 * 64 + byte c mod 64 = byte c" by simp_all
  have q: "(x * 16 + y) div 16 = x" "(x * 16 + y) mod 16 = y" if "y < 16" for x y :: nat using that by simp_all
  have r: "(x * 4 + y) div 4 = x" "(x * 4 + y) mod 4 = y" if "y < 4" for x y :: nat using that by simp_all
  show "dec_one (byte a div 4) (byte a mod 4 * 16) = a"
    "dec_one (byte a div 4) (byte a mod 4 * 16 + byte b div 16) = a"
    unfolding dec_one_def q(1)[OF d(1)] by (simp_all add: e)
  show "dec_two (byte a mod 4 * 16 + byte b div 16) (byte b mod 16 * 4) = b"
    "dec_two (byte a mod 4 * 16 + byte b div 16) (byte b mod 16 * 4 + byte c div 64) = b"
    unfolding dec_two_def q(2)[OF d(1)] r(1)[OF d(2)] by (simp_all add: e)
  show "dec_three (byte b mod 16 * 4 + byte c div 64) (byte c mod 64) = c"
    unfolding dec_three_def r(2)[OF d(2)] by (simp add: e)
qed

lemma decode_quads_base64: "decode_quads (base64 s) = Some s"
  by (induction s rule: base64.induct) (simp_all add: enc_char_facts split_bytes join_bytes)

lemma base64_no_breaks: "filter (\<lambda>c. c \<noteq> CHR 0x0A \<and> c \<noteq> CHR 0x0D) (base64 s) = base64 s"
  by (induction s rule: base64.induct) (simp_all add: enc_char_facts split_bytes)

lemma DecodeString_base64: "DecodeString (base64 s) = Some s"
  by (simp add: DecodeString_def base64_no_breaks decode_quads_base64)

end
