(* ===== verification/Rabbit_Mapper.thy ===== *)
theory Rabbit_Mapper
  imports Redis_Adapter Go_Base64 Sha256
begin

text \<open>
  The mapping of RabbitMQ messages (\<^verbatim>\<open>internal/broker/rabbitmq/mapper.go\<close> and
  \<^verbatim>\<open>management_mapper.go\<close>): a delivery read over AMQP and a message read through the
  management API become the same normalized message. A header value is one of the types both
  libraries decode to; float32 and decimal values are left out, and the local zone is UTC.
\<close>

section \<open>Header values\<close>

datatype header_val =
    HvNil
  | HvBool bool
  | HvInt int
  | HvFloat float64
  | HvText string
  | HvBytes string
  | HvTime gotime
  | HvArray "header_val list"
  | HvTable "(string \<times> header_val) list"

text \<open>The JSON text of a value: bytes in base64, times quoted, table keys in order.\<close>

fun header_text :: "header_val \<Rightarrow> string"
and header_texts :: "header_val list \<Rightarrow> string list"
and header_members :: "(string \<times> header_val) list \<Rightarrow> (string \<times> string) list" where
  "header_text HvNil = ''null''"
| "header_text (HvBool b) = (if b then ''true'' else ''false'')"
| "header_text (HvInt i) = Itoa i"
| "header_text (HvFloat x) = FormatJSON x"
| "header_text (HvText s) = quoted s"
| "header_text (HvBytes s) = quoted (base64 s)"
| "header_text (HvTime t) = quoted (FormatNanoUTC t)"
| "header_text (HvArray vs) = ''['' @ Join (header_texts vs) '','' @ '']''"
| "header_text (HvTable ms) =
     ''{'' @ Join (map (\<lambda>(k, s). quoted k @ '':'' @ s) (go_map (header_members ms))) '','' @ ''}''"
| "header_texts [] = []"
| "header_texts (v # vs) = header_text v # header_texts vs"
| "header_members [] = []"
| "header_members ((k, v) # ms) = (k, header_text v) # header_members ms"

definition headerString :: "header_val \<Rightarrow> string" where
  "headerString v =
     (case v of
        HvNil \<Rightarrow> []
      | HvText s \<Rightarrow> s
      | HvBytes s \<Rightarrow> s
      | HvTime t \<Rightarrow> FormatNanoUTC t
      | HvBool b \<Rightarrow> (if b then ''true'' else ''false'')
      | HvInt i \<Rightarrow> Itoa i
      | HvFloat x \<Rightarrow> FormatG x
      | _ \<Rightarrow> header_text v)"

definition normalizeHeaders :: "(string \<times> header_val) list \<Rightarrow> headers" where
  "normalizeHeaders t = map (\<lambda>(k, v). (k, headerString v)) t"

section \<open>The stable id\<close>

definition hash_headers :: "headers \<Rightarrow> string" where
  "hash_headers hs =
     concat (map (\<lambda>(k, v). if isDeathHeader k then [] else k @ ''='' @ v @ [CHR 0x00]) (go_map hs))"

definition messageIDFromParts :: "string \<Rightarrow> headers \<Rightarrow> string \<Rightarrow> string" where
  "messageIDFromParts msgID hs payload =
     (if msgID \<noteq> [] then msgID
      else if hget hs ''x-message-id'' \<noteq> [] then hget hs ''x-message-id''
      else ''sha256:'' @ sha256_hex (payload @ hash_headers hs))"

section \<open>Deliveries\<close>

record delivery =
  dMessageID :: string
  dContentType :: string
  dTimestamp :: gotime
  dHeaders :: "(string \<times> header_val) list"
  dBody :: string

definition messageID :: "delivery \<Rightarrow> headers \<Rightarrow> string" where
  "messageID d hs = messageIDFromParts (dMessageID d) hs (dBody d)"

definition text_at :: "string \<Rightarrow> (string \<times> header_val) list \<Rightarrow> string" where
  "text_at k t = (case map_of t k of Some (HvText s) \<Rightarrow> s | _ \<Rightarrow> [])"

definition deathInfo :: "(string \<times> header_val) list \<Rightarrow> string \<times> int \<times> string" where
  "deathInfo h =
     (case map_of h ''x-death'' of
        Some (HvArray (HvTable first # _)) \<Rightarrow>
          (text_at ''queue'' first,
           case map_of first ''count'' of Some (HvInt c) \<Rightarrow> c | _ \<Rightarrow> 0,
           text_at ''reason'' first)
      | _ \<Rightarrow> ([], 0, []))"

definition delivered :: "delivery \<Rightarrow> string \<Rightarrow> message" where
  "delivered d q =
     (let hs = normalizeHeaders (dHeaders d);
          (destination, retries, reason) = deathInfo (dHeaders d);
          destination = (if destination = [] then hget hs ''x-destination'' else destination);
          (eventID, idemKey) = extractIDs hs
      in \<lparr>mID = messageID d hs, mQueue = q, mDestination = destination, mPayload = dBody d,
          mHeaders = hs, mContentType = dContentType d, mTimestamp = dTimestamp d,
          mRetryCount = retries, mFailureReason = reason, mEventID = eventID, mIdempotencyKey = idemKey\<rparr>)"

section \<open>The management API\<close>

record mgmt_message =
  mgPayload :: string
  mgPayloadEncoding :: string
  mgExchange :: string
  mgRoutingKey :: string
  mgRedelivered :: bool
  mgMessageID :: string
  mgTimestamp :: "json option"   \<comment> \<open>the raw member, absent or not\<close>
  mgContentType :: string
  mgHeaders :: "(string \<times> gval) list"

fun of_gval :: "gval \<Rightarrow> header_val"
and of_gvals :: "gval list \<Rightarrow> header_val list"
and of_members :: "(string \<times> gval) list \<Rightarrow> (string \<times> header_val) list" where
  "of_gval GNil = HvNil"
| "of_gval (GBool b) = HvBool b"
| "of_gval (GNum x) = HvFloat x"
| "of_gval (GStr s) = HvText s"
| "of_gval (GArr vs) = HvArray (of_gvals vs)"
| "of_gval (GObj ms) = HvTable (of_members ms)"
| "of_gvals [] = []"
| "of_gvals (v # vs) = of_gval v # of_gvals vs"
| "of_members [] = []"
| "of_members ((k, v) # ms) = (k, of_gval v) # of_members ms"

definition decodeMgmtPayload :: "string \<Rightarrow> string \<Rightarrow> string" where
  "decodeMgmtPayload payload encoding =
     (if encoding = ''base64'' then (case DecodeString payload of Some b \<Rightarrow> b | None \<Rightarrow> payload) else payload)"

definition normalizeJSONHeaders :: "(string \<times> gval) list \<Rightarrow> headers" where
  "normalizeJSONHeaders h = map (\<lambda>(k, v). (k, headerString (of_gval v))) h"

text \<open>Conversion to a 64-bit integer: truncation, and the amd64 result when out of range.\<close>

definition int_of_float :: "float64 \<Rightarrow> int" where
  "int_of_float x =
     (case x of F64 neg m e \<Rightarrow>
        let a = (if e \<ge> 0 then int m * 2 ^ nat e else int m div 2 ^ nat (- e));
            i = (if neg then - a else a)
        in if minInt \<le> i \<and> i \<le> maxInt then i else minInt)"

definition gtext_at :: "string \<Rightarrow> (string \<times> gval) list \<Rightarrow> string" where
  "gtext_at k h = (case map_of h k of Some (GStr s) \<Rightarrow> s | _ \<Rightarrow> [])"

definition deathInfoJSON :: "(string \<times> gval) list \<Rightarrow> string \<times> int \<times> string" where
  "deathInfoJSON h =
     (case map_of h ''x-death'' of
        Some (GArr (GObj first # _)) \<Rightarrow>
          (gtext_at ''queue'' first,
           case map_of first ''count'' of Some (GNum c) \<Rightarrow> int_of_float c | Some (GStr c) \<Rightarrow> Atoi_value c | _ \<Rightarrow> 0,
           gtext_at ''reason'' first)
      | _ \<Rightarrow> ([], 0, []))"

definition mgmtTimestamp :: "json option \<Rightarrow> gotime" where
  "mgmtTimestamp raw =
     (case raw of
        Some (JNum s) \<Rightarrow>
          (case Atoi s of
             Some secs \<Rightarrow> unix_epoch + secs * second
           | None \<Rightarrow>
               (case ParseFloat s of Some f \<Rightarrow> unix_epoch + int_of_float f * second | None \<Rightarrow> 0))
      | _ \<Rightarrow> 0)"

definition toMessageFromMgmt :: "mgmt_message \<Rightarrow> string \<Rightarrow> message" where
  "toMessageFromMgmt m q =
     (let payload = decodeMgmtPayload (mgPayload m) (mgPayloadEncoding m);
          hs = normalizeJSONHeaders (mgHeaders m);
          (destination, retries, reason) = deathInfoJSON (mgHeaders m);
          destination = (if destination = [] then hget hs ''x-destination'' else destination);
          (eventID, idemKey) = extractIDs hs
      in \<lparr>mID = messageIDFromParts (mgMessageID m) hs payload, mQueue = q, mDestination = destination,
          mPayload = payload, mHeaders = hs, mContentType = mgContentType m,
          mTimestamp = mgmtTimestamp (mgTimestamp m), mRetryCount = retries,
          mFailureReason = reason, mEventID = eventID, mIdempotencyKey = idemKey\<rparr>)"

section \<open>What is published\<close>

definition publishHeaders :: "headers \<Rightarrow> (string \<times> header_val) list" where
  "publishHeaders hs = map (\<lambda>(k, v). (k, HvText v)) (filter (\<lambda>(k, v). \<not> isDeathHeader k) hs)"

definition publishing :: "message \<Rightarrow> delivery" where
  "publishing m = \<lparr>dMessageID = mID m, dContentType = mContentType m,
     dTimestamp = mTimestamp m, dHeaders = publishHeaders (mHeaders m), dBody = mPayload m\<rparr>"

section \<open>The id does not depend on dead-letter bookkeeping\<close>

lemma sorted_alist_eqI:
  fixes xs ys :: "(string \<times> 'a) list"
  assumes "sorted (map fst xs)" "distinct (map fst xs)" "sorted (map fst ys)" "distinct (map fst ys)"
    and "map_of xs = map_of ys"
  shows "xs = ys"
proof -
  have s: "set xs = set ys" using map_of_inject_set[OF assms(2,4)] assms(5) by simp
  show ?thesis
    using assms(1-4) s by (intro map_sorted_distinct_set_unique[of fst]) (simp_all add: distinct_map)
qed

definition app_headers :: "headers \<Rightarrow> headers" where
  "app_headers hs = filter (\<lambda>(k, v). \<not> isDeathHeader k) hs"

lemma map_of_app_headers: "map_of (app_headers hs) k = (if isDeathHeader k then None else map_of hs k)"
  by (induction hs) (auto simp: app_headers_def)

lemma hash_headers_app: "hash_headers hs =
    concat (map (\<lambda>(k, v). k @ ''='' @ v @ [CHR 0x00]) (app_headers (go_map hs)))"
proof -
  have "concat (map (\<lambda>(k, v). if isDeathHeader k then [] else k @ ''='' @ v @ [CHR 0x00]) ms) =
      concat (map (\<lambda>(k, v). k @ ''='' @ v @ [CHR 0x00]) (app_headers ms))" for ms
    by (induction ms) (auto simp: app_headers_def)
  then show ?thesis by (simp add: hash_headers_def)
qed

lemma app_headers_sorted: "sorted (map fst (app_headers (go_map hs))) \<and> distinct (map fst (app_headers (go_map hs)))"
  using go_map_sorted[of hs] by (simp add: app_headers_def case_prod_unfold sorted_filter distinct_map_filter)

lemma hash_headers_cong:
  assumes "\<And>k. \<not> isDeathHeader k \<Longrightarrow> map_of hs k = map_of hs' k"
  shows "hash_headers hs = hash_headers hs'"
proof -
  have "map_of (app_headers (go_map hs)) k = map_of (app_headers (go_map hs')) k" for k
    using assms[of k] by (simp add: map_of_app_headers map_of_go_map)
  then have "app_headers (go_map hs) = app_headers (go_map hs')"
    using app_headers_sorted[of hs] app_headers_sorted[of hs'] by (intro sorted_alist_eqI) auto
  then show ?thesis by (simp add: hash_headers_app)
qed

lemma id_header_no_death: "\<not> isDeathHeader ''x-message-id''" "\<not> isDeathHeader ''x-destination''"
  by (simp_all add: isDeathHeader_def HasPrefix_def)

lemma messageID_cong:
  assumes "\<And>k. \<not> isDeathHeader k \<Longrightarrow> map_of hs k = map_of hs' k"
  shows "messageIDFromParts i hs p = messageIDFromParts i hs' p"
  using assms[of "''x-message-id''"] id_header_no_death(1) hash_headers_cong[OF assms]
  by (simp add: messageIDFromParts_def hget_def)

lemma messageID_nonempty [simp]: "messageIDFromParts i hs p \<noteq> []"
  by (simp add: messageIDFromParts_def)

lemma map_of_normalizeHeaders: "map_of (normalizeHeaders t) k = map_option headerString (map_of t k)"
  by (simp add: normalizeHeaders_def map_of_map)

lemma map_of_publishHeaders:
  "map_of (publishHeaders hs) k = (if isDeathHeader k then None else map_option HvText (map_of hs k))"
  by (induction hs) (auto simp: publishHeaders_def)

section \<open>A published message read back\<close>

definition stored_as :: "delivery \<Rightarrow> delivery \<Rightarrow> bool" where
  "stored_as p d = (dMessageID d = dMessageID p \<and> dContentType d = dContentType p \<and>
     map_of (dHeaders d) = map_of (dHeaders p) \<and> dBody d = dBody p)"

lemma delivered_simps:
  "mID (delivered d q) = messageID d (normalizeHeaders (dHeaders d))" "mPayload (delivered d q) = dBody d"
  "mHeaders (delivered d q) = normalizeHeaders (dHeaders d)" "mContentType (delivered d q) = dContentType d"
  by (simp_all add: delivered_def Let_def case_prod_unfold)

lemma stored_content:
  assumes "stored_as (publishing m) d"
  shows "same_content (\<lambda>_. True) m (delivered d q)" "mID m \<noteq> [] \<Longrightarrow> mID (delivered d q) = mID m"
proof -
  have "map_of (normalizeHeaders (dHeaders d)) k = map_of (mHeaders m) k" if "\<not> isDeathHeader k" for k
    using assms that
    by (simp add: stored_as_def publishing_def map_of_normalizeHeaders map_of_publishHeaders option.map_comp
        comp_def headerString_def option.map_ident)
  then show "same_content (\<lambda>_. True) m (delivered d q)"
    using assms by (simp add: same_content_def delivered_simps stored_as_def publishing_def hget_def)
  show "mID m \<noteq> [] \<Longrightarrow> mID (delivered d q) = mID m"
    using assms by (simp add: delivered_simps messageID_def messageIDFromParts_def stored_as_def publishing_def)
qed

section \<open>Two ways to read a message\<close>

text \<open>
  How the management API shows a message: the payload as it is or in base64, whole seconds as a
  number, text, booleans and null as such, the first \<open>x-death\<close> entry with its count as a number.
  Other dead-letter headers may be shown in any way.
\<close>

definition plain_shown :: "header_val \<Rightarrow> gval \<Rightarrow> bool" where
  "plain_shown v g =
     (case (v, g) of
        (HvNil, GNil) \<Rightarrow> True
      | (HvBool b, GBool c) \<Rightarrow> b = c
      | (HvText s, GStr t) \<Rightarrow> s = t
      | _ \<Rightarrow> False)"

definition count_shown :: "header_val option \<Rightarrow> gval option \<Rightarrow> bool" where
  "count_shown v g =
     (case (v, g) of (Some (HvInt c), Some (GNum x)) \<Rightarrow> int_of_float x = c | _ \<Rightarrow> False)"

definition death_shown :: "header_val \<Rightarrow> gval \<Rightarrow> bool" where
  "death_shown v g =
     (case (v, g) of
        (HvArray (HvTable t # _), GArr (GObj u # _)) \<Rightarrow>
          text_at ''queue'' t = gtext_at ''queue'' u \<and> text_at ''reason'' t = gtext_at ''reason'' u \<and>
          count_shown (map_of t ''count'') (map_of u ''count'')
      | _ \<Rightarrow> False)"

definition header_shown :: "string \<times> header_val \<Rightarrow> string \<times> gval \<Rightarrow> bool" where
  "header_shown p r =
     (fst p = fst r \<and> (if fst p = ''x-death'' then death_shown (snd p) (snd r)
                       else isDeathHeader (fst p) \<or> plain_shown (snd p) (snd r)))"

definition shown :: "delivery \<Rightarrow> mgmt_message \<Rightarrow> bool" where
  "shown d m =
     (mgMessageID m = dMessageID d \<and> mgContentType m = dContentType d \<and>
      (mgPayloadEncoding m = ''string'' \<and> mgPayload m = dBody d \<or>
       mgPayloadEncoding m = ''base64'' \<and> mgPayload m = base64 (dBody d)) \<and>
      mgmtTimestamp (mgTimestamp m) = dTimestamp d \<and>
      list_all2 header_shown (dHeaders d) (mgHeaders m))"

lemma shown_payload: "shown d m \<Longrightarrow> decodeMgmtPayload (mgPayload m) (mgPayloadEncoding m) = dBody d"
  by (auto simp: shown_def decodeMgmtPayload_def DecodeString_base64)

lemma shown_lookup:
  "list_all2 header_shown h g \<Longrightarrow>
   (map_of h k = None \<and> map_of g k = None) \<or>
   (\<exists>v w. map_of h k = Some v \<and> map_of g k = Some w \<and> header_shown (k, v) (k, w))"
  by (induction h g rule: list_all2_induct) (auto simp: header_shown_def split: if_splits)

lemma plain_shown_text: "plain_shown v g \<Longrightarrow> headerString v = headerString (of_gval g)"
  by (cases v; cases g) (simp_all add: plain_shown_def headerString_def)

lemma shown_header:
  assumes "list_all2 header_shown h g" "\<not> isDeathHeader k"
  shows "map_of (normalizeHeaders h) k = map_of (normalizeJSONHeaders g) k"
proof -
  have "k \<noteq> ''x-death''" using assms(2) by (auto simp: isDeathHeader_def HasPrefix_def)
  then show ?thesis
    using shown_lookup[OF assms(1), of k] assms(2) plain_shown_text
    by (auto simp: map_of_normalizeHeaders normalizeJSONHeaders_def map_of_map header_shown_def)
qed

lemma death_shown_cases:
  assumes "death_shown v g"
  shows "\<exists>t ts u us. v = HvArray (HvTable t # ts) \<and> g = GArr (GObj u # us) \<and>
    text_at ''queue'' t = gtext_at ''queue'' u \<and> text_at ''reason'' t = gtext_at ''reason'' u \<and>
    count_shown (map_of t ''count'') (map_of u ''count'')"
proof -
  obtain vs where v: "v = HvArray vs" using assms by (cases v) (auto simp: death_shown_def)
  obtain t ts where t: "vs = HvTable t # ts"
    using assms unfolding v by (cases vs; cases "hd vs") (auto simp: death_shown_def)
  obtain gs where g: "g = GArr gs" using assms unfolding v t by (cases g) (auto simp: death_shown_def)
  obtain u us where "gs = GObj u # us"
    using assms unfolding v t g by (cases gs; cases "hd gs") (auto simp: death_shown_def)
  then show ?thesis using assms unfolding v t g by (simp add: death_shown_def)
qed

lemma count_shown_cases:
  "count_shown v g \<Longrightarrow> \<exists>c x. v = Some (HvInt c) \<and> g = Some (GNum x) \<and> int_of_float x = c"
  by (cases v; cases g; cases "the v"; cases "the g") (simp_all add: count_shown_def)

lemma shown_death:
  assumes "list_all2 header_shown h g"
  shows "deathInfo h = deathInfoJSON g"
proof (cases "map_of h ''x-death''")
  case None
  then show ?thesis using shown_lookup[OF assms, of "''x-death''"] by (simp add: deathInfo_def deathInfoJSON_def)
next
  case (Some v)
  then obtain w where w: "map_of g ''x-death'' = Some w" "death_shown v w"
    using shown_lookup[OF assms, of "''x-death''"] by (auto simp: header_shown_def)
  then obtain t ts u us where d: "v = HvArray (HvTable t # ts)" "w = GArr (GObj u # us)"
      "text_at ''queue'' t = gtext_at ''queue'' u" "text_at ''reason'' t = gtext_at ''reason'' u"
      "count_shown (map_of t ''count'') (map_of u ''count'')"
    using death_shown_cases by blast
  then show ?thesis
    using Some w(1) count_shown_cases[OF d(5)] by (auto simp: deathInfo_def deathInfoJSON_def)
qed

lemma first_header_eqI: "(\<And>k. k \<in> set ks \<Longrightarrow> hget hs k = hget hs' k) \<Longrightarrow> first_header hs ks = first_header hs' ks"
  by (induction ks) auto

lemma id_keys_no_death: "k \<in> set event_id_keys \<union> set idempotency_keys \<Longrightarrow> \<not> isDeathHeader k"
  by (auto simp: event_id_keys_def idempotency_keys_def isDeathHeader_def HasPrefix_def)

lemma shown_message:
  assumes "shown d m"
  shows "toMessageFromMgmt m q = (delivered d q)\<lparr>mHeaders := normalizeJSONHeaders (mgHeaders m)\<rparr>"
proof -
  have h: "list_all2 header_shown (dHeaders d) (mgHeaders m)" using assms by (simp add: shown_def)
  note eq = shown_header[OF h]
  have g: "hget (normalizeHeaders (dHeaders d)) k = hget (normalizeJSONHeaders (mgHeaders m)) k"
    if "\<not> isDeathHeader k" for k
    using eq[OF that] by (simp add: hget_def)
  have i: "messageID d (normalizeHeaders (dHeaders d)) =
      messageIDFromParts (mgMessageID m) (normalizeJSONHeaders (mgHeaders m)) (dBody d)"
    using messageID_cong[OF eq] assms by (simp add: messageID_def shown_def)
  have x: "extractIDs (normalizeHeaders (dHeaders d)) = extractIDs (normalizeJSONHeaders (mgHeaders m))"
    unfolding extractIDs_def prod.inject using g id_keys_no_death
    by (intro conjI first_header_eqI) auto
  show ?thesis
    using i x g[OF id_header_no_death(2)] shown_death[OF h] shown_payload[OF assms] assms g
    by (simp add: toMessageFromMgmt_def delivered_def Let_def case_prod_unfold shown_def)
qed


text \<open>A dead-lettered message with binary content, as both libraries decode it.\<close>

definition sample_delivery :: delivery where
  "sample_delivery = \<lparr>dMessageID = [], dContentType = ''application/octet-stream'',
     dTimestamp = unix_epoch + 1700000000 * second,
     dHeaders = [(''x-death'', HvArray [HvTable [(''queue'', HvText ''orders''), (''count'', HvInt 2),
                    (''reason'', HvText ''rejected'')]]),
                 (''x-event-id'', HvText ''e7'')],
     dBody = [CHR 0xFF, CHR 0x00]\<rparr>"

definition sample_shown :: mgmt_message where
  "sample_shown = \<lparr>mgPayload = ''/wA='', mgPayloadEncoding = ''base64'', mgExchange = [],
     mgRoutingKey = ''orders-dlq'', mgRedelivered = True, mgMessageID = [],
     mgTimestamp = Some (JNum ''1700000000''), mgContentType = ''application/octet-stream'',
     mgHeaders = [(''x-death'', GArr [GObj [(''queue'', GStr ''orders''), (''count'', GNum (F64 False 2 0)),
                    (''reason'', GStr ''rejected'')]]),
                  (''x-event-id'', GStr ''e7'')]\<rparr>"


text \<open>
  A whole-number header splits a message without an id into two: the management API's number is
  rendered with an exponent from \<open>10 ^ 6\<close> on, the AMQP integer in digits, and the hashed texts differ.
\<close>

lemma Itoa_no_exponent: "CHR ''e'' \<notin> set (Itoa i)"
  using nat_text_digits[of "nat i"] nat_text_digits[of "nat (- i)"]
  by (auto simp: Itoa_def list_all_iff is_digit_def)

lemma integer_header_two_texts:
  assumes "shortest (fMan x) (fExp x) = (ds, dp)" "6 < dp"
  shows "payload @ hash_headers (normalizeHeaders [(''n'', HvInt i)]) \<noteq>
    payload @ hash_headers (normalizeJSONHeaders [(''n'', GNum x)])"
proof -
  have "FormatG x \<noteq> Itoa i" using large_number_has_exponent[OF assms] Itoa_no_exponent[of i] by auto
  then show ?thesis
    by (auto simp: hash_headers_def normalizeHeaders_def normalizeJSONHeaders_def go_map_def headerString_def
        isDeathHeader_def HasPrefix_def)
qed

end
