(* ===== verification/Rabbit_Adapter.thy ===== *)
theory Rabbit_Adapter
  imports Rabbit_Mapper
begin

text \<open>
  The RabbitMQ adapter (\<^verbatim>\<open>internal/broker/rabbitmq\<close>): \<^verbatim>\<open>adapter.go\<close>,
  \<^verbatim>\<open>write.go\<close> and the requests of \<^verbatim>\<open>management.go\<close>. The AMQP and HTTP clients
  are a record of calls over a server state. A channel that an operation opens for itself is part of
  that state. The two context errors of a publish are one kind of confirmation each.
\<close>

section \<open>The clients\<close>

record amqp_error =
  aeCode :: "int option"   \<comment> \<open>the code, when the error is one of the protocol\<close>
  aeError :: goerr

record queue_state =
  qsName :: string
  qsMessages :: int
  qsConsumers :: int

datatype confirmation = Confirmed | Rejected | Cancelled goerr | TimedOut

record parsed_url =
  puScheme :: string
  puHostname :: string
  puUser :: "(string \<times> string option) option"
  puEscapedPath :: string

record connection_config =
  ccBroker :: string
  ccURL :: string
  ccQueue :: string
  ccManagementURL :: string

record management_client =
  mcBaseURL :: string
  mcUser :: string
  mcPass :: string
  mcVhost :: string

record mgmt_queue =
  mqName :: string
  mqDurable :: bool
  mqAutoDelete :: bool
  mqMessages :: int
  mqConsumers :: int
  mqUnacknowledged :: int

text \<open>A reply of the HTTP API: status, body text, and the body decoded as JSON.\<close>

type_synonym 'a http_reply = "(goerr, int \<times> string \<times> (goerr, 'a) result) result"

record 's rabbit =
  rbDeclarePassive :: "string \<Rightarrow> 's \<Rightarrow> (amqp_error, queue_state) result \<times> 's"
  rbChannel :: "'s \<Rightarrow> goerr option \<times> 's"
  rbConfirm :: "'s \<Rightarrow> goerr option \<times> 's"
  rbPublish :: "string \<Rightarrow> delivery \<Rightarrow> 's \<Rightarrow> goerr option \<times> 's"   \<comment> \<open>default exchange, by queue name\<close>
  rbConfirmation :: "'s \<Rightarrow> confirmation \<times> 's"
  rbQos :: "'s \<Rightarrow> goerr option \<times> 's"
  rbGet :: "string \<Rightarrow> 's \<Rightarrow> (goerr, (nat \<times> delivery) option) result \<times> 's"   \<comment> \<open>delivery tag, delivery\<close>
  rbAck :: "nat \<Rightarrow> 's \<Rightarrow> goerr option \<times> 's"
  rbNack :: "nat \<Rightarrow> 's \<Rightarrow> goerr option \<times> 's"   \<comment> \<open>with requeue\<close>
  rbClose :: "'s \<Rightarrow> 's"
  rbPost :: "management_client \<Rightarrow> string \<Rightarrow> int \<Rightarrow> 's \<Rightarrow> mgmt_message list http_reply \<times> 's"   \<comment> \<open>path, count\<close>
  rbGetQueues :: "management_client \<Rightarrow> string \<Rightarrow> 's \<Rightarrow> mgmt_queue list http_reply \<times> 's"
  rbParseURL :: "string \<Rightarrow> (goerr, parsed_url) result"
  rbStatusText :: "int \<Rightarrow> string"
  rbConfig :: connection_config

definition rabbit_error :: "string \<Rightarrow> string \<Rightarrow> goerr \<Rightarrow> goerr" where
  "rabbit_error what q e = Wrap (''rabbitmq: '' @ what @ '' '' @ Quote q @ '': '') e []"

section \<open>The management client\<close>

definition managementURL :: "'s rabbit \<Rightarrow> (goerr, string) result" where
  "managementURL rb =
     (let cfg = rbConfig rb in
      if ccManagementURL cfg \<noteq> [] then Ok (TrimSuffix (ccManagementURL cfg) ''/'')
      else case rbParseURL rb (ccURL cfg) of
        Inl e \<Rightarrow> Err (Wrap ''rabbitmq: parse connection URL: '' e [])
      | Inr u \<Rightarrow>
          if puHostname u = [] then Err (Text ''rabbitmq: connection URL has no host'')
          else Ok ((if puScheme u = ''amqps'' then ''https'' else ''http'') @ ''://'' @ puHostname u @ '':15672''))"

definition newManagementClient :: "'s rabbit \<Rightarrow> (goerr, management_client) result" where
  "newManagementClient rb =
     (case managementURL rb of
        Inl e \<Rightarrow> Err e
      | Inr base \<Rightarrow>
     (case rbParseURL rb (ccURL (rbConfig rb)) of
        Inl e \<Rightarrow> Err (Wrap ''rabbitmq: parse connection URL: '' e [])
      | Inr u \<Rightarrow>
          let (user, pass) = (case puUser u of None \<Rightarrow> (''guest'', ''guest'')
                | Some (n, p) \<Rightarrow> (n, case p of None \<Rightarrow> ''guest'' | Some x \<Rightarrow> x));
              p = TrimPrefix (puEscapedPath u) ''/''
          in Ok \<lparr>mcBaseURL = base, mcUser = user, mcPass = pass, mcVhost = (if p \<noteq> [] then p else ''%2F'')\<rparr>))"

datatype mgmt_error =
    MgStatus int string string   \<comment> \<open>status, path, body\<close>
  | MgOther goerr

definition mgmt_goerr :: "'s rabbit \<Rightarrow> mgmt_error \<Rightarrow> goerr" where
  "mgmt_goerr rb e =
     (case e of
        MgStatus st path body \<Rightarrow>
          Text (''management API '' @ path @ '' returned '' @ rbStatusText rb st @ (if body \<noteq> [] then '': '' @ body else []))
      | MgOther g \<Rightarrow> g)"

definition do_request :: "management_client \<Rightarrow> string \<Rightarrow> 'a http_reply \<Rightarrow> (mgmt_error, 'a) result" where
  "do_request c path reply =
     (case reply of
        Inl e \<Rightarrow> Err (MgOther (Wrap (''management API unreachable at '' @ mcBaseURL c
            @ '' (is the management plugin enabled?): '') e []))
      | Inr (status, body, decoded) \<Rightarrow>
          if status < 200 \<or> status \<ge> 300 then Err (MgStatus status path (TrimSpace (take 512 body)))
          else case decoded of
            Inl e \<Rightarrow> Err (MgOther (Wrap ''decode management API response: '' e []))
          | Inr x \<Rightarrow> Ok x)"

text \<open>\<open>url.PathEscape\<close>.\<close>

definition path_safe :: "char \<Rightarrow> bool" where
  "path_safe c = (between 97 122 c \<or> is_upper_byte c \<or> is_digit c \<or> c \<in> set ''-_.~$&+:=@'')"

definition hex_upper :: "nat \<Rightarrow> char" where
  "hex_upper n = (if n < 10 then char_of (48 + n) else char_of (55 + n))"

definition PathEscape :: "string \<Rightarrow> string" where
  "PathEscape s =
     concat (map (\<lambda>c. if path_safe c then [c]
                      else let n = (of_char c :: nat) in [CHR ''%'', hex_upper (n div 16), hex_upper (n mod 16)]) s)"

definition queue_path :: "management_client \<Rightarrow> string \<Rightarrow> string" where
  "queue_path c q = ''/api/queues/'' @ mcVhost c @ ''/'' @ PathEscape q @ ''/get''"

definition getMessages ::
    "'s rabbit \<Rightarrow> management_client \<Rightarrow> string \<Rightarrow> int \<Rightarrow> 's \<Rightarrow> (goerr, mgmt_message list) result \<times> 's" where
  "getMessages rb c q n s =
     (case rbPost rb c (queue_path c q) n s of (reply, s) \<Rightarrow>
        (case do_request c (queue_path c q) reply of
           Inl e \<Rightarrow>
             (Err (case e of
                MgStatus st p b \<Rightarrow>
                  if st = 404 then Text (''queue '' @ Quote q @ '' not found'')
                  else rabbit_error ''peek queue'' q (mgmt_goerr rb e)
              | MgOther g \<Rightarrow> rabbit_error ''peek queue'' q g), s)
         | Inr ms \<Rightarrow> (Ok ms, s)))"

text \<open>The page size is positive where it is called; the first test makes the loop end for any other.\<close>

function peek_loop ::
    "'s rabbit \<Rightarrow> management_client \<Rightarrow> string \<Rightarrow> int \<Rightarrow> int \<Rightarrow> mgmt_message list \<Rightarrow> 's \<Rightarrow>
     (goerr, mgmt_message list) result \<times> 's" where
  "peek_loop rb c q pageSize total_n out s =
     (if pageSize \<le> 0 \<or> \<not> int (length out) < total_n then (Ok out, s)
      else let want = min pageSize (total_n - int (length out)) in
        case getMessages rb c q want s of
          (Inl e, s) \<Rightarrow> (Err e, s)
        | (Inr page, s) \<Rightarrow>
            if int (length page) < want then (Ok (out @ page), s)
            else peek_loop rb c q pageSize total_n (out @ page) s)"
  by pat_completeness auto
termination
  by (relation "measure (\<lambda>(rb, c, q, pageSize, total_n, out, s). nat (total_n - int (length out)))") auto

declare peek_loop.simps [simp del]

definition peekMessages ::
    "'s rabbit \<Rightarrow> management_client \<Rightarrow> string \<Rightarrow> int \<Rightarrow> int \<Rightarrow> 's \<Rightarrow> (goerr, mgmt_message list) result \<times> 's" where
  "peekMessages rb c q pageSize total_n s =
     peek_loop rb c q (if pageSize \<le> 0 then 500 else pageSize) (if total_n \<le> 0 then 5000 else total_n) [] s"

section \<open>Reading\<close>

abbreviation rabbit_not_connected :: "(goerr, 'a) result" where
  "rabbit_not_connected \<equiv> Err (Sentinel ErrNotConnected)"

definition listQueues ::
    "'s rabbit \<Rightarrow> management_client \<Rightarrow> 's \<Rightarrow> (goerr, queue_summary list) result \<times> 's" where
  "listQueues rb c s =
     (let path = ''/api/queues/'' @ mcVhost c in
      case rbGetQueues rb c path s of (reply, s) \<Rightarrow>
        (case do_request c path reply of
           Inl e \<Rightarrow> (Err (Wrap ''rabbitmq: list queues: '' (mgmt_goerr rb e) []), s)
         | Inr qs \<Rightarrow>
             (Ok (map (\<lambda>q. \<lparr>quName = mqName q, quDurable = mqDurable q, quAutoDelete = mqAutoDelete q,
                            quMessages = mqMessages q, quConsumers = mqConsumers q,
                            quPending = mqUnacknowledged q, quDLQ = []\<rparr>) qs), s)))"

definition rabbit_listQueues :: "'s rabbit option \<Rightarrow> 's \<Rightarrow> (goerr, queue_summary list) result \<times> 's" where
  "rabbit_listQueues conn s =
     (case conn of None \<Rightarrow> (rabbit_not_connected, s)
      | Some rb \<Rightarrow>
     (case newManagementClient rb of
        Inl e \<Rightarrow> (Err e, s)
      | Inr c \<Rightarrow> listQueues rb c s))"

definition friendlyQueueError :: "string \<Rightarrow> amqp_error \<Rightarrow> goerr" where
  "friendlyQueueError q e =
     (if aeCode e = Some 404 then Wrap (''queue '' @ Quote q @ '' not found: '') (Sentinel ErrQueueNotFound) []
      else rabbit_error ''queue'' q (aeError e))"

definition rabbit_stats :: "'s rabbit option \<Rightarrow> string \<Rightarrow> 's \<Rightarrow> (goerr, queue_stats) result \<times> 's" where
  "rabbit_stats conn q s =
     (case conn of None \<Rightarrow> (rabbit_not_connected, s)
      | Some rb \<Rightarrow>
     if q = [] then (Err (Text ''rabbitmq: empty queue name''), s)
     else case rbDeclarePassive rb q s of
       (Inl e, s) \<Rightarrow> (Err (friendlyQueueError q e), s)
     | (Inr x, s) \<Rightarrow>
         (Ok \<lparr>qQueue = qsName x, qMessages = qsMessages x, qConsumers = qsConsumers x, qPending = 0,
              qGroups = [], qOldestAge = 0, qNewestAge = 0, qRetryCount = 0\<rparr>, s))"

definition rabbit_inspect :: "'s rabbit option \<Rightarrow> string \<Rightarrow> string \<Rightarrow> 's \<Rightarrow> (goerr, message) result \<times> 's" where
  "rabbit_inspect conn q i s =
     (case conn of None \<Rightarrow> (rabbit_not_connected, s)
      | Some rb \<Rightarrow>
     if q = [] then (Err (Text ''rabbitmq: empty queue name''), s)
     else if i = [] then (Err (Text ''rabbitmq: empty message id''), s)
     else case newManagementClient rb of
       Inl e \<Rightarrow> (Err e, s)
     | Inr c \<Rightarrow>
     (case peekMessages rb c q 1000 10000 s of
        (Inl e, s) \<Rightarrow> (Err e, s)
      | (Inr raws, s) \<Rightarrow>
          (case find_message i (map (\<lambda>raw. toMessageFromMgmt raw q) raws) of
             Some m \<Rightarrow> (Ok m, s)
           | None \<Rightarrow> (Err (Text (''message '' @ Quote i @ '' not found in queue '' @ Quote q
                 @ '' (scanned '' @ Itoa (int (length raws)) @ '' messages)'')), s))))"

definition rabbit_search ::
    "'s rabbit option \<Rightarrow> string \<Rightarrow> search_filter \<Rightarrow> 's \<Rightarrow> (goerr, message list) result \<times> 's" where
  "rabbit_search conn q f s =
     (case conn of None \<Rightarrow> (rabbit_not_connected, s)
      | Some rb \<Rightarrow>
     if q = [] then (Err (Text ''rabbitmq: empty queue name''), s)
     else case newManagementClient rb of
       Inl e \<Rightarrow> (Err e, s)
     | Inr c \<Rightarrow>
     (case peekMessages rb c q 500 (scan_cap f) s of
        (Inl e, s) \<Rightarrow> (Err e, s)
      | (Inr raws, s) \<Rightarrow> (Ok (Filter (map (\<lambda>raw. toMessageFromMgmt raw q) raws) f), s)))"

section \<open>Publish\<close>

definition rabbit_publish :: "'s rabbit option \<Rightarrow> string \<Rightarrow> message \<Rightarrow> 's \<Rightarrow> goerr option \<times> 's" where
  "rabbit_publish conn dest m s =
     (case conn of None \<Rightarrow> (Some (Sentinel ErrNotConnected), s)
      | Some rb \<Rightarrow>
     if dest = [] then (Some (Text ''rabbitmq: empty destination''), s)
     else case rbChannel rb s of
       (Some e, s) \<Rightarrow> (Some (Wrap ''rabbitmq: open publish channel: '' e []), s)
     | (None, s) \<Rightarrow>
     (case rbConfirm rb s of
        (Some e, s) \<Rightarrow> (Some (Wrap ''rabbitmq: enable publisher confirms: '' e []), rbClose rb s)
      | (None, s) \<Rightarrow>
     (case rbPublish rb dest (publishing m) s of
        (Some e, s) \<Rightarrow> (Some (rabbit_error ''publish to'' dest e), rbClose rb s)
      | (None, s) \<Rightarrow>
     (case rbConfirmation rb s of
        (Confirmed, s) \<Rightarrow> (None, rbClose rb s)
      | (Rejected, s) \<Rightarrow> (Some (Text (''rabbitmq: broker rejected publish to '' @ Quote dest)), rbClose rb s)
      | (Cancelled e, s) \<Rightarrow> (Some (rabbit_error ''publish to'' dest e), rbClose rb s)
      | (TimedOut, s) \<Rightarrow>
          (Some (Text (''rabbitmq: timed out waiting for publish confirm to '' @ Quote dest)), rbClose rb s)))))"

section \<open>Ack\<close>

datatype scan_end = Scan_failed goerr | Drained | Found nat

text \<open>
  The scan takes one message after the other; on a queue that is filled as fast as it is read it
  does not end, which is the value \<^const>\<open>None\<close>.
\<close>

partial_function (option) ack_scan ::
    "'s rabbit \<Rightarrow> string \<Rightarrow> string \<Rightarrow> nat list \<Rightarrow> 's \<Rightarrow> (scan_end \<times> nat list \<times> 's) option" where
  "ack_scan rb q i held s =
     (case rbGet rb q s of
        (Inl e, s) \<Rightarrow> Some (Scan_failed e, held, s)
      | (Inr None, s) \<Rightarrow> Some (Drained, held, s)
      | (Inr (Some (t, d)), s) \<Rightarrow>
          if messageID d (normalizeHeaders (dHeaders d)) = i then Some (Found t, held, s)
          else ack_scan rb q i (held @ [t]) s)"

fun nack_all :: "'s rabbit \<Rightarrow> nat list \<Rightarrow> 's \<Rightarrow> 's" where
  "nack_all rb [] s = s"
| "nack_all rb (t # ts) s = nack_all rb ts (snd (rbNack rb t s))"

definition requeueAll :: "'s rabbit \<Rightarrow> nat list \<Rightarrow> 's \<Rightarrow> 's" where
  "requeueAll rb held s = nack_all rb (rev held) s"

definition ack_found :: "'s rabbit \<Rightarrow> string \<Rightarrow> string \<Rightarrow> scan_end \<times> nat list \<times> 's \<Rightarrow> goerr option \<times> 's" where
  "ack_found rb q i r =
     (case r of
        (Scan_failed e, held, s) \<Rightarrow> (Some (rabbit_error ''ack scan queue'' q e), rbClose rb s)
      | (Drained, held, s) \<Rightarrow>
          (Some (Text (''message '' @ Quote i @ '' not found in queue '' @ Quote q)),
           rbClose rb (requeueAll rb held s))
      | (Found t, held, s) \<Rightarrow>
          (case rbAck rb t s of
             (Some e, s) \<Rightarrow> (Some (rabbit_error ''ack message'' i e), rbClose rb s)
           | (None, s) \<Rightarrow> (None, rbClose rb (requeueAll rb held s))))"

definition rabbit_ack :: "'s rabbit option \<Rightarrow> string \<Rightarrow> string \<Rightarrow> 's \<Rightarrow> (goerr option \<times> 's) option" where
  "rabbit_ack conn q i s =
     (case conn of None \<Rightarrow> Some (Some (Sentinel ErrNotConnected), s)
      | Some rb \<Rightarrow>
     if q = [] then Some (Some (Text ''rabbitmq: empty queue name''), s)
     else if i = [] then Some (Some (Text ''rabbitmq: empty message id''), s)
     else case rbChannel rb s of
       (Some e, s) \<Rightarrow> Some (Some (Wrap ''rabbitmq: open ack channel: '' e []), s)
     | (None, s) \<Rightarrow>
     (case rbQos rb s of
        (Some e, s) \<Rightarrow> Some (Some (Wrap ''rabbitmq: set prefetch: '' e []), rbClose rb s)
      | (None, s) \<Rightarrow> map_option (ack_found rb q i) (ack_scan rb q i [] s)))"

text \<open>
  The adapter as a broker; the last case stands for an Ack that never returns, which the contract of
  the server excludes (\<open>rabbit_ack_returns\<close>).
\<close>

definition rabbit_broker :: "'s rabbit option \<Rightarrow> 's broker" where
  "rabbit_broker conn = \<lparr>bInspect = rabbit_inspect conn, bSearch = rabbit_search conn,
     bPublish = rabbit_publish conn,
     bAck = (\<lambda>q i s. case rabbit_ack conn q i s of Some r \<Rightarrow> r | None \<Rightarrow> (Some (Text []), s)),
     bStats = rabbit_stats conn\<rparr>"

end
