(* ===== verification/Rabbit_Contract.thy ===== *)
theory Rabbit_Contract
  imports Rabbit_Adapter
begin

text \<open>
  The RabbitMQ adapter keeps the broker contract on a server that follows the documentation of AMQP
  and of the management API: the scan of an acknowledgement puts back what it took, in order, on
  every path. Also here: what a peek of more than one page returns, and what happens to a large
  payload.
\<close>

section \<open>Queues of deliveries as queues of messages\<close>

definition norm_headers :: "message \<Rightarrow> message" where
  "norm_headers m = m\<lparr>mHeaders := app_headers (go_map (mHeaders m))\<rparr>"

definition delivery_id :: "delivery \<Rightarrow> string" where
  "delivery_id d = messageID d (normalizeHeaders (dHeaders d))"

definition as_message :: "string \<Rightarrow> delivery \<Rightarrow> message" where
  "as_message q d = norm_headers (delivered d q)"

definition ready_view :: "('s \<Rightarrow> string \<Rightarrow> delivery list) \<Rightarrow> 's \<Rightarrow> queues" where
  "ready_view ready s q = map (as_message q) (ready s q)"

text \<open>The management API cuts a payload after 50000 bytes, as the adapter asks it to.\<close>

definition cut :: "delivery \<Rightarrow> delivery" where
  "cut d = d\<lparr>dBody := take 50000 (dBody d)\<rparr>"

definition small_count :: "header_val option \<Rightarrow> bool" where
  "small_count v = (case v of Some (HvInt c) \<Rightarrow> \<bar>c\<bar> \<le> 2 ^ 53 | _ \<Rightarrow> False)"

definition plain_header :: "string \<times> header_val \<Rightarrow> bool" where
  "plain_header p =
     (if fst p = ''x-death''
      then (case snd p of HvArray (HvTable t # _) \<Rightarrow> small_count (map_of t ''count'') | _ \<Rightarrow> False)
      else isDeathHeader (fst p) \<or> (case snd p of HvNil \<Rightarrow> True | HvBool _ \<Rightarrow> True | HvText _ \<Rightarrow> True | _ \<Rightarrow> False))"

definition plain :: "delivery \<Rightarrow> bool" where
  "plain d = list_all plain_header (dHeaders d)"

definition presented :: "delivery \<Rightarrow> mgmt_message \<Rightarrow> bool" where
  "presented d m = (plain d \<longrightarrow> shown (cut d) m)"

definition readable :: "('s \<Rightarrow> string \<Rightarrow> delivery list) \<Rightarrow> 's \<Rightarrow> string \<Rightarrow> string \<Rightarrow> bool" where
  "readable ready s q i = (\<forall>d \<in> set (ready s q). plain d \<and> length (dBody d) \<le> 50000)"

definition appended :: "('s \<Rightarrow> string \<Rightarrow> delivery list) \<Rightarrow> string \<Rightarrow> delivery \<Rightarrow> 's \<Rightarrow> 's \<Rightarrow> bool" where
  "appended ready q p s s' = (\<exists>d. stored_as p d \<and> ready s' = (ready s)(q := ready s q @ [d]))"

lemma norm_headers_simps [simp]:
  "mID (norm_headers m) = mID m" "mDestination (norm_headers m) = mDestination m"
  "mPayload (norm_headers m) = mPayload m"
  by (simp_all add: norm_headers_def)

lemma as_message_id [simp]: "mID (as_message q d) = delivery_id d"
  by (simp add: as_message_def delivery_id_def delivered_simps)

lemma app_headers_eqI:
  assumes "\<And>k. \<not> isDeathHeader k \<Longrightarrow> map_of hs k = map_of hs' k"
  shows "app_headers (go_map hs) = app_headers (go_map hs')"
proof -
  have "map_of (app_headers (go_map hs)) k = map_of (app_headers (go_map hs')) k" for k
    using assms[of k] by (simp add: map_of_app_headers map_of_go_map)
  then show ?thesis
    using app_headers_sorted[of hs] app_headers_sorted[of hs'] by (intro sorted_alist_eqI) auto
qed

lemma shown_as_message:
  assumes "shown d m"
  shows "norm_headers (toMessageFromMgmt m q) = as_message q d"
proof -
  have "list_all2 header_shown (dHeaders d) (mgHeaders m)" using assms by (simp add: shown_def)
  then have "app_headers (go_map (normalizeHeaders (dHeaders d))) = app_headers (go_map (normalizeJSONHeaders (mgHeaders m)))"
    by (intro app_headers_eqI) (rule shown_header)
  then show ?thesis using shown_message[OF assms, of q] by (simp add: as_message_def norm_headers_def delivered_simps)
qed

lemma presented_list:
  assumes "list_all2 presented ds ms" "\<forall>d \<in> set ds. plain d"
  shows "map (\<lambda>m. norm_headers (toMessageFromMgmt m q)) ms = map (\<lambda>d. as_message q (cut d)) ds"
  using assms by (induction ds ms rule: list_all2_induct) (auto simp: presented_def shown_as_message)

lemma cut_small: "length (dBody d) \<le> 50000 \<Longrightarrow> cut d = d"
  by (simp add: cut_def)

lemma norm_headers_content: "same_content f m x \<Longrightarrow> same_content f m (norm_headers x)"
  by (auto simp: same_content_def norm_headers_def hget_def map_of_app_headers map_of_go_map)

lemma ready_view_cong: "ready s' = ready s \<Longrightarrow> ready_view ready s' = ready_view ready s"
  by (simp add: ready_view_def fun_eq_iff)

lemma ready_view_add:
  assumes "appended ready q (publishing m) s s'"
  shows "copied (\<lambda>_. True) q m (ready_view ready s) (ready_view ready s')"
proof -
  obtain d where d: "stored_as (publishing m) d" "ready s' = (ready s)(q := ready s q @ [d])"
    using assms by (auto simp: appended_def)
  have "ready_view ready s' = put_message q (as_message q d) (ready_view ready s)"
    by (auto simp: ready_view_def put_message_def d(2) fun_eq_iff)
  moreover have "same_content (\<lambda>_. True) m (as_message q d)"
    unfolding as_message_def by (rule norm_headers_content) (rule stored_content(1)[OF d(1)])
  ultimately show ?thesis by (auto simp: copied_def)
qed

lemma remove_first:
  "\<forall>x \<in> set ds. delivery_id x \<noteq> i \<Longrightarrow> delivery_id d = i \<Longrightarrow>
   remove_message i (map (as_message q) (ds @ d # rest)) = map (as_message q) (ds @ rest)"
  by (induction ds) auto

text \<open>The pages of a peek that leaves the queue as it is: every page starts at the head again.\<close>

function pages :: "nat \<Rightarrow> nat \<Rightarrow> nat \<Rightarrow> 'a list \<Rightarrow> 'a list" where
  "pages p n k xs =
     (if p = 0 \<or> n \<le> k then []
      else let w = min p (n - k) in
        take w xs @ (if length xs < w then [] else pages p n (k + w) xs))"
  by pat_completeness auto
termination by (relation "measure (\<lambda>(p, n, k, xs). n - k)") auto

declare pages.simps [simp del]

lemma pages_full: "p \<noteq> 0 \<Longrightarrow> p \<le> length xs \<Longrightarrow> pages p (k + j * p) k xs = concat (replicate j (take p xs))"
proof (induction j arbitrary: k)
  case (Suc j)
  have "min p (k + Suc j * p - k) = p" by simp
  then show ?case
    using Suc.IH[of "k + p"] Suc.prems
    by (subst pages.simps) (simp add: Let_def add.assoc add.commute add.left_commute)
qed (simp add: pages.simps)

lemma pages_short: "length xs < p \<Longrightarrow> p \<le> n \<Longrightarrow> pages p n 0 xs = xs"
  by (subst pages.simps) (simp add: Let_def)

lemma find_take: "find_message i (take w xs) = Some m \<Longrightarrow> find_message i xs = Some m"
  by (induction xs arbitrary: w) (auto simp: find_message_def take_Cons' split: if_splits)

lemma find_append: "find_message i (xs @ ys) = (case find_message i xs of None \<Rightarrow> find_message i ys | Some m \<Rightarrow> Some m)"
  by (induction xs) (auto simp: find_message_def)

lemma find_nil [simp]: "find_message i [] = None"
  by (simp add: find_message_def)

lemma find_pages: "find_message i (pages p n k xs) = Some m \<Longrightarrow> find_message i xs = Some m"
proof (induction p n k xs rule: pages.induct)
  case (1 p n k xs)
  show ?case
  proof (cases "p = 0 \<or> n \<le> k")
    case True
    then show ?thesis using "1.prems" by (simp add: pages.simps find_message_def)
  next
    case False
    define w where "w = min p (n - k)"
    have "pages p n k xs = take w xs @ (if length xs < w then [] else pages p n (k + w) xs)"
      using False by (subst pages.simps) (simp add: Let_def w_def)
    then show ?thesis
      using "1.prems" "1.IH"[OF False w_def] find_take[of i w xs m]
      by (auto simp: find_append split: if_splits option.splits)
  qed
qed

lemma find_map_norm:
  "find_message i (map (\<lambda>x. norm_headers (f x)) xs) = map_option norm_headers (find_message i (map f xs))"
  by (induction xs) (auto simp: find_message_def)

section \<open>The server\<close>

locale rabbit_server =
  fixes rb :: "'s rabbit"
    and ready :: "'s \<Rightarrow> string \<Rightarrow> delivery list"
    and unacked :: "'s \<Rightarrow> (nat \<times> string \<times> delivery) list"   \<comment> \<open>on the channel of the operation\<close>
    and inv :: "'s \<Rightarrow> bool"      \<comment> \<open>between operations\<close>
    and chan :: "'s \<Rightarrow> bool"     \<comment> \<open>an operation has a channel\<close>
    and alive :: "'s \<Rightarrow> bool"    \<comment> \<open>and the channel works\<close>
    and routable :: "'s \<Rightarrow> string \<Rightarrow> bool"
  assumes declare_law: "inv s \<Longrightarrow> rbDeclarePassive rb q s = (a, s') \<Longrightarrow>
      inv s' \<and> ready s' = ready s \<and> (is_Ok a \<longrightarrow> routable s' q)"
    and post_law: "inv s \<Longrightarrow> rbPost rb c (queue_path c q) k s = (p, s') \<Longrightarrow>
      inv s' \<and> ready s' = ready s \<and>
      (\<forall>status body ms. p = Inr (status, body, Inr ms) \<longrightarrow> 200 \<le> status \<longrightarrow> status < 300 \<longrightarrow>
        list_all2 presented (take (nat k) (ready s q)) ms)"
    and channel_law: "inv s \<Longrightarrow> rbChannel rb s = (e, s') \<Longrightarrow>
      ready s' = ready s \<and> routable s' = routable s \<and>
      (if e = None then chan s' \<and> alive s' \<and> unacked s' = [] else inv s')"
    and confirm_law: "chan s \<Longrightarrow> rbConfirm rb s = (e, s') \<Longrightarrow>
      chan s' \<and> ready s' = ready s \<and> unacked s' = unacked s \<and> routable s' = routable s"
    and qos_law: "chan s \<Longrightarrow> rbQos rb s = (e, s') \<Longrightarrow>
      chan s' \<and> ready s' = ready s \<and> unacked s' = unacked s \<and> (e = None \<longrightarrow> alive s \<longrightarrow> alive s')"
    and publish_fails: "chan s \<Longrightarrow> rbPublish rb dest x s = (Some err, s') \<Longrightarrow>
      chan s' \<and> unacked s' = unacked s \<and> (ready s' = ready s \<or> appended ready dest x s s')"
    and publish_sends: "chan s \<Longrightarrow> routable s dest \<Longrightarrow> rbPublish rb dest x s = (None, s1) \<Longrightarrow>
      rbConfirmation rb s1 = (y, s') \<Longrightarrow>
      chan s' \<and> unacked s' = unacked s \<and> (y \<noteq> Confirmed \<and> ready s' = ready s \<or> appended ready dest x s s')"
    and get_law: "chan s \<Longrightarrow> alive s \<Longrightarrow> rbGet rb q s = (g, s') \<Longrightarrow>
      chan s' \<and>
      (case g of
         Inl _ \<Rightarrow> ready s' = ready s \<and> unacked s' = unacked s
       | Inr None \<Rightarrow> alive s' \<and> ready s' = ready s \<and> unacked s' = unacked s \<and> ready s q = []
       | Inr (Some (t, d)) \<Rightarrow> alive s' \<and> ready s q = d # ready s' q \<and> ready s' = (ready s)(q := ready s' q) \<and>
           unacked s' = unacked s @ [(t, q, d)] \<and> t \<notin> fst ` set (unacked s))"
    and tag_law: "chan s \<Longrightarrow> alive s \<Longrightarrow> t \<in> fst ` set (unacked s) \<Longrightarrow> rbAck rb t s = (e, s') \<Longrightarrow>
      chan s' \<and> ready s' = ready s \<and>
      (if e = None then alive s' \<and> unacked s' = filter (\<lambda>u. fst u \<noteq> t) (unacked s) else unacked s' = unacked s)"
    and nack_law: "chan s \<Longrightarrow> alive s \<Longrightarrow> (t, q, d) \<in> set (unacked s) \<Longrightarrow> rbNack rb t s = (e, s') \<Longrightarrow>
      chan s' \<and>
      (if e = None
       then alive s' \<and> unacked s' = filter (\<lambda>u. fst u \<noteq> t) (unacked s) \<and> ready s' = (ready s)(q := d # ready s q)
       else \<not> alive s' \<and> ready s' = ready s \<and> unacked s' = unacked s)"
    and dead_law: "chan s \<Longrightarrow> \<not> alive s \<Longrightarrow> rbNack rb t s = (e, s') \<Longrightarrow>
      chan s' \<and> \<not> alive s' \<and> ready s' = ready s \<and> unacked s' = unacked s"
    and close_law: "chan s \<Longrightarrow> inv (rbClose rb s) \<and>
      ready (rbClose rb s) = (\<lambda>q. map (snd \<circ> snd) (filter (\<lambda>u. fst (snd u) = q) (unacked s)) @ ready s q)"
begin

section \<open>The acknowledgement scan\<close>

lemma close_empty: "chan s \<Longrightarrow> unacked s = [] \<Longrightarrow> inv (rbClose rb s) \<and> ready (rbClose rb s) = ready s"
  using close_law by auto

text \<open>All that is held belongs to one queue: closing puts it in front again.\<close>

lemma close_held:
  assumes "chan s" "\<forall>u \<in> set (unacked s). fst (snd u) = q"
  shows "inv (rbClose rb s) \<and> ready (rbClose rb s) = (ready s)(q := map (snd \<circ> snd) (unacked s) @ ready s q)"
proof -
  have "filter (\<lambda>u. fst (snd u) = q) (unacked s) = unacked s" using assms(2) by (simp add: filter_id_conv)
  moreover have "filter (\<lambda>u. fst (snd u) = p) (unacked s) = []" if "p \<noteq> q" for p
    using assms(2) that by (auto simp: filter_empty_conv)
  ultimately show ?thesis using close_law[OF assms(1)] by (auto simp: fun_eq_iff)
qed

lemma dead_nacks:
  "chan s \<Longrightarrow> \<not> alive s \<Longrightarrow>
   chan (nack_all rb ts s) \<and> ready (nack_all rb ts s) = ready s \<and> unacked (nack_all rb ts s) = unacked s"
proof (induction ts arbitrary: s)
  case (Cons t ts)
  obtain e s1 where n: "rbNack rb t s = (e, s1)" by (cases "rbNack rb t s")
  show ?case using dead_law[OF Cons.prems n] Cons.IH[of s1] by (simp add: n)
qed simp

lemma requeue_restores:
  assumes "chan s" "alive s" "unacked s = us" "\<forall>u \<in> set us. fst (snd u) = q" "distinct (map fst us)"
  shows "inv (rbClose rb (requeueAll rb (map fst us) s)) \<and>
    ready (rbClose rb (requeueAll rb (map fst us) s)) = (ready s)(q := map (snd \<circ> snd) us @ ready s q)"
  using assms
proof (induction us arbitrary: s rule: rev_induct)
  case Nil
  then show ?case using close_empty[of s] by (simp add: requeueAll_def)
next
  case (snoc u us)
  obtain t d where u: "u = (t, q, d)" using snoc.prems(4) by (cases u) auto
  obtain e s1 where n: "rbNack rb t s = (e, s1)" by (cases "rbNack rb t s")
  have in_u: "(t, q, d) \<in> set (unacked s)" using snoc.prems(3) u by simp
  note l = nack_law[OF snoc.prems(1,2) in_u n]
  have r: "requeueAll rb (map fst (us @ [u])) s = requeueAll rb (map fst us) s1"
    by (simp add: requeueAll_def u n)
  show ?case
  proof (cases e)
    case None
    have "filter (\<lambda>v. fst v \<noteq> t) us = us" using snoc.prems(5) u by (auto simp: filter_id_conv)
    then have s1: "unacked s1 = us" "ready s1 = (ready s)(q := d # ready s q)" "chan s1" "alive s1"
      using l None snoc.prems(3) u by auto
    show ?thesis unfolding r using snoc.IH[OF s1(3,4,1)] snoc.prems(4,5) s1(2) u by (simp add: fun_eq_iff)
  next
    case (Some x)
    then have d: "chan s1" "\<not> alive s1" "ready s1 = ready s" "unacked s1 = us @ [u]" using l snoc.prems(3) by auto
    define S where "S = nack_all rb (rev (map fst us)) s1"
    have k: "chan S" "ready S = ready s" "unacked S = us @ [u]"
      using dead_nacks[OF d(1,2), of "rev (map fst us)"] d(3,4) by (auto simp: S_def)
    have "requeueAll rb (map fst us) s1 = S" by (simp add: S_def requeueAll_def)
    then show ?thesis
      using close_held[OF k(1), of q, unfolded k(2,3)] snoc.prems(4) unfolding r by metis
  qed
qed

text \<open>The scan ends, and what it holds followed by what is left is the queue it started from.\<close>

lemma ack_scan_splits:
  assumes "chan s" "alive s" "\<forall>u \<in> set (unacked s). fst (snd u) = q" "distinct (map fst (unacked s))"
  shows "\<exists>e us s'. ack_scan rb q i (map fst (unacked s)) s = Some (e, map fst us, s') \<and> chan s' \<and>
    ready s' = (ready s)(q := ready s' q) \<and> (\<forall>u \<in> set (unacked s'). fst (snd u) = q) \<and>
    distinct (map fst (unacked s')) \<and>
    map (snd \<circ> snd) (unacked s') @ ready s' q = map (snd \<circ> snd) (unacked s) @ ready s q \<and>
    (case e of
       Scan_failed err \<Rightarrow> True
     | Drained \<Rightarrow> alive s' \<and> unacked s' = us
     | Found t \<Rightarrow> alive s' \<and> (\<exists>d ds. unacked s' = us @ [(t, q, d)] \<and> delivery_id d = i \<and>
         map (snd \<circ> snd) us = map (snd \<circ> snd) (unacked s) @ ds \<and> (\<forall>x \<in> set ds. delivery_id x \<noteq> i)))"
  using assms
proof (induction "ready s q" arbitrary: s)
  case Nil
  obtain g s1 where g: "rbGet rb q s = (g, s1)" by (cases "rbGet rb q s")
  note l = get_law[OF Nil.prems(1,2) g]
  show ?case
  proof (cases g)
    case (Inl e)
    then have "ack_scan rb q i (map fst (unacked s)) s = Some (Scan_failed e, map fst (unacked s), s1)"
      by (subst ack_scan.simps) (simp add: g)
    then show ?thesis using l Inl Nil.prems(3,4)
      by (intro exI[of _ "Scan_failed e"] exI[of _ "unacked s"] exI[of _ s1]) simp
  next
    case (Inr o1)
    then have "o1 = None" using l Nil.hyps by (cases o1) auto
    then have "ack_scan rb q i (map fst (unacked s)) s = Some (Drained, map fst (unacked s), s1)"
      by (subst ack_scan.simps) (simp add: g Inr)
    then show ?thesis using l Inr \<open>o1 = None\<close> Nil.prems(3,4)
      by (intro exI[of _ Drained] exI[of _ "unacked s"] exI[of _ s1]) (simp add: fun_eq_iff)
  qed
next
  case (Cons d0 rest)
  obtain g s1 where g: "rbGet rb q s = (g, s1)" by (cases "rbGet rb q s")
  note l = get_law[OF Cons.prems(1,2) g]
  show ?case
  proof (cases g)
    case (Inl e)
    then have "ack_scan rb q i (map fst (unacked s)) s = Some (Scan_failed e, map fst (unacked s), s1)"
      by (subst ack_scan.simps) (simp add: g)
    then show ?thesis using l Inl Cons.prems(3,4)
      by (intro exI[of _ "Scan_failed e"] exI[of _ "unacked s"] exI[of _ s1]) simp
  next
    case (Inr o1)
    then obtain t d where o1: "o1 = Some (t, d)" using l Cons.hyps(2) by (cases o1) auto
    then have s1: "chan s1" "alive s1" "ready s q = d # ready s1 q" "ready s1 = (ready s)(q := ready s1 q)"
        "unacked s1 = unacked s @ [(t, q, d)]" "t \<notin> fst ` set (unacked s)"
      using l Inr by auto
    show ?thesis
    proof (cases "delivery_id d = i")
      case True
      then have "ack_scan rb q i (map fst (unacked s)) s = Some (Found t, map fst (unacked s), s1)"
        by (subst ack_scan.simps) (simp add: g Inr o1 delivery_id_def)
      then show ?thesis using s1 True Cons.prems(3,4)
        by (intro exI[of _ "Found t"] exI[of _ "unacked s"] exI[of _ s1]) auto
    next
      case False
      have step: "ack_scan rb q i (map fst (unacked s)) s = ack_scan rb q i (map fst (unacked s1)) s1"
        using False by (subst ack_scan.simps) (simp add: g Inr o1 delivery_id_def s1(5))
      have "rest = ready s1 q" using Cons.hyps(2) s1(3) by simp
      moreover have "\<forall>u \<in> set (unacked s1). fst (snd u) = q" "distinct (map fst (unacked s1))"
        using Cons.prems(3,4) s1(5,6) by auto
      ultimately obtain e us s' where ih: "ack_scan rb q i (map fst (unacked s1)) s1 = Some (e, map fst us, s')"
          "chan s'" "ready s' = (ready s1)(q := ready s' q)" "\<forall>u \<in> set (unacked s'). fst (snd u) = q"
          "distinct (map fst (unacked s'))"
          "map (snd \<circ> snd) (unacked s') @ ready s' q = map (snd \<circ> snd) (unacked s1) @ ready s1 q"
          "case e of Scan_failed err \<Rightarrow> True
           | Drained \<Rightarrow> alive s' \<and> unacked s' = us
           | Found t \<Rightarrow> alive s' \<and> (\<exists>d ds. unacked s' = us @ [(t, q, d)] \<and> delivery_id d = i \<and>
               map (snd \<circ> snd) us = map (snd \<circ> snd) (unacked s1) @ ds \<and> (\<forall>x \<in> set ds. delivery_id x \<noteq> i))"
        using Cons.hyps(1)[OF _ s1(1,2)] by blast
      have "ready s' = (ready s)(q := ready s' q)" using ih(3) s1(4) by (metis fun_upd_upd)
      moreover have "map (snd \<circ> snd) (unacked s1) @ ready s1 q = map (snd \<circ> snd) (unacked s) @ ready s q"
        using s1(3,5) by simp
      moreover have "\<exists>d' ds. unacked s' = us @ [(t', q, d')] \<and> delivery_id d' = i \<and>
            map (snd \<circ> snd) us = map (snd \<circ> snd) (unacked s) @ ds \<and> (\<forall>x \<in> set ds. delivery_id x \<noteq> i)"
        if e: "e = Found t'" for t'
      proof -
        obtain d' ds where "unacked s' = us @ [(t', q, d')]" "delivery_id d' = i"
            "map (snd \<circ> snd) us = map (snd \<circ> snd) (unacked s1) @ ds" "\<forall>x \<in> set ds. delivery_id x \<noteq> i"
          using ih(7) e by auto
        then show ?thesis using False s1(5) by (intro exI[of _ d'] exI[of _ "d # ds"]) simp
      qed
      ultimately show ?thesis using ih(1,2,4-7) unfolding step
        by (intro exI[of _ e] exI[of _ us] exI[of _ s']) (auto split: scan_end.splits)
    qed
  qed
qed

text \<open>
  An acknowledgement removes the first delivery with the id, or leaves the queue as it was; the
  order of the others is kept on every path.
\<close>

lemma ack_found_effect:
  assumes "chan s" "alive s" "unacked s = []" "ack_scan rb q i [] s = Some r" "ack_found rb q i r = (e, s')"
  shows "inv s' \<and> (e \<noteq> None \<and> ready s' = ready s \<or>
    (\<exists>ds d rest. ready s q = ds @ d # rest \<and> delivery_id d = i \<and> (\<forall>x \<in> set ds. delivery_id x \<noteq> i) \<and>
      ready s' = (ready s)(q := ds @ rest)))"
proof -
  obtain x us s1 where r: "r = (x, map fst us, s1)" "chan s1" "ready s1 = (ready s)(q := ready s1 q)"
      "\<forall>u \<in> set (unacked s1). fst (snd u) = q" "distinct (map fst (unacked s1))"
      "map (snd \<circ> snd) (unacked s1) @ ready s1 q = ready s q"
      "case x of Scan_failed err \<Rightarrow> True
       | Drained \<Rightarrow> alive s1 \<and> unacked s1 = us
       | Found t \<Rightarrow> alive s1 \<and> (\<exists>d ds. unacked s1 = us @ [(t, q, d)] \<and> delivery_id d = i \<and>
           map (snd \<circ> snd) us = map (snd \<circ> snd) (unacked s) @ ds \<and> (\<forall>x \<in> set ds. delivery_id x \<noteq> i))"
    using ack_scan_splits[of s q i] assms(1-4) by auto
  have restored: "(ready s1)(q := map (snd \<circ> snd) (unacked s1) @ ready s1 q) = ready s"
    using r(3,6) by (metis fun_upd_triv fun_upd_upd)
  note closed = close_held[OF r(2,4), unfolded restored]
  show ?thesis
  proof (cases x)
    case (Scan_failed err)
    then show ?thesis using assms(5) closed by (auto simp: ack_found_def r(1))
  next
    case Drained
    then have "alive s1" "unacked s1 = us" using r(7) by auto
    then show ?thesis
      using requeue_restores[of s1 us q] r(2,4,5) restored assms(5) Drained by (auto simp: ack_found_def r(1))
  next
    case (Found t)
    then obtain d where d: "alive s1" "unacked s1 = us @ [(t, q, d)]" "delivery_id d = i"
        "\<forall>x \<in> set (map (snd \<circ> snd) us). delivery_id x \<noteq> i"
      using r(7) assms(3) by auto
    obtain y s2 where a: "rbAck rb t s1 = (y, s2)" by (cases "rbAck rb t s1")
    have "t \<in> fst ` set (unacked s1)" using d(2) by simp
    note l = tag_law[OF r(2) d(1) this a]
    have q: "ready s q = map (snd \<circ> snd) us @ d # ready s1 q" using r(6) d(2) by simp
    show ?thesis
    proof (cases y)
      case None
      have "filter (\<lambda>u. fst u \<noteq> t) us = us" using r(5) d(2) by (auto simp: filter_id_conv)
      then have s2: "chan s2" "alive s2" "unacked s2 = us" "ready s2 = ready s1" using l None d(2) by auto
      have "\<forall>u \<in> set us. fst (snd u) = q" "distinct (map fst us)" using r(4,5) d(2) by auto
      note c = requeue_restores[OF s2(1-3) this]
      have "e = None" "s' = rbClose rb (requeueAll rb (map fst us) s2)"
        using assms(5) by (simp_all add: ack_found_def r(1) Found a None)
      moreover have "(ready s2)(q := map (snd \<circ> snd) us @ ready s2 q) =
          (ready s)(q := map (snd \<circ> snd) us @ ready s1 q)"
        unfolding s2(4) using r(3) by (metis fun_upd_upd)
      ultimately have "inv s'" "ready s' = (ready s)(q := map (snd \<circ> snd) us @ ready s1 q)" using c by simp_all
      then show ?thesis using q d(3,4) by blast
    next
      case (Some z)
      then have "unacked s2 = unacked s1" "chan s2" "ready s2 = ready s1" using l by auto
      then show ?thesis
        using close_held[of s2 q] r(4) restored assms(5) by (auto simp: ack_found_def r(1) Found a Some)
    qed
  qed
qed

lemma rabbit_ack_effect:
  assumes "inv s" "rabbit_ack (Some rb) q i s = Some (e, s')"
  shows "inv s' \<and> (e \<noteq> None \<and> ready s' = ready s \<or>
    (\<exists>ds d rest. ready s q = ds @ d # rest \<and> delivery_id d = i \<and> (\<forall>x \<in> set ds. delivery_id x \<noteq> i) \<and>
      ready s' = (ready s)(q := ds @ rest)))"
proof (cases "q = [] \<or> i = []")
  case True
  then have "s' = s \<and> e \<noteq> None" using assms(2) by (cases "q = []") (auto simp: rabbit_ack_def)
  then show ?thesis using assms(1) by simp
next
  case False
  obtain x s1 where 1: "rbChannel rb s = (x, s1)" by (cases "rbChannel rb s")
  obtain y s2 where 2: "rbQos rb s1 = (y, s2)" by (cases "rbQos rb s1")
  note c = channel_law[OF assms(1) 1]
  show ?thesis
  proof (cases x)
    case (Some err)
    then show ?thesis using assms(2) False c by (auto simp: rabbit_ack_def 1)
  next
    case None
    then have s1: "chan s1" "alive s1" "unacked s1 = []" "ready s1 = ready s" using c by auto
    note k = qos_law[OF s1(1) 2]
    show ?thesis
    proof (cases y)
      case (Some err)
      then show ?thesis using assms(2) False k s1 close_empty[of s2] by (auto simp: rabbit_ack_def 1 2 None)
    next
      case None
      then obtain r where r: "ack_scan rb q i [] s2 = Some r" "ack_found rb q i r = (e, s')"
        using assms(2) False \<open>x = None\<close> by (auto simp: rabbit_ack_def 1 2)
      have "chan s2" "alive s2" "unacked s2 = []" "ready s2 = ready s" using k s1 None by auto
      then show ?thesis using ack_found_effect[OF _ _ _ r] by simp
    qed
  qed
qed

lemma rabbit_ack_returns:
  assumes "inv s"
  shows "\<exists>e s'. rabbit_ack (Some rb) q i s = Some (e, s')"
proof -
  obtain x s1 where 1: "rbChannel rb s = (x, s1)" by (cases "rbChannel rb s")
  obtain y s2 where 2: "rbQos rb s1 = (y, s2)" by (cases "rbQos rb s1")
  show ?thesis
  proof (cases "x = None \<and> y = None")
    case True
    then have s1: "chan s1" "alive s1" "unacked s1 = []" using channel_law[OF assms 1] by auto
    then have "chan s2" "alive s2" "unacked s2 = []" using qos_law[OF s1(1) 2] True by auto
    then have "\<exists>r. ack_scan rb q i [] s2 = Some r" using ack_scan_splits[of s2 q i] by auto
    then show ?thesis using True by (auto simp: rabbit_ack_def 1 2)
  next
    case False
    then show ?thesis by (cases x; cases y) (auto simp: rabbit_ack_def 1 2)
  qed
qed

section \<open>Reading through the management API\<close>

lemma getMessages_reads:
  assumes "inv s" "getMessages rb c q k s = (r, s')"
  shows "inv s' \<and> ready s' = ready s \<and>
    (\<forall>ms. r = Ok ms \<longrightarrow> list_all2 presented (take (nat k) (ready s q)) ms)"
proof -
  obtain p s1 where p: "rbPost rb c (queue_path c q) k s = (p, s1)" by (cases "rbPost rb c (queue_path c q) k s")
  show ?thesis using assms(2) post_law[OF assms(1) p]
    by (auto simp: getMessages_def p do_request_def split: sum.splits if_splits prod.splits mgmt_error.splits)
qed

lemma peek_loop_pages:
  assumes "inv s" "0 < pageSize" "peek_loop rb c q pageSize k out s = (r, s')"
  shows "inv s' \<and> ready s' = ready s \<and>
    (\<forall>ms. r = Ok ms \<longrightarrow> (\<forall>d \<in> set (ready s q). plain d) \<longrightarrow> map (\<lambda>m. norm_headers (toMessageFromMgmt m q)) ms =
       map (\<lambda>m. norm_headers (toMessageFromMgmt m q)) out @
       pages (nat pageSize) (nat k) (length out) (map (\<lambda>d. as_message q (cut d)) (ready s q)))"
  using assms
proof (induction "nat (k - int (length out))" arbitrary: out s rule: less_induct)
  case less
  let ?f = "\<lambda>m. norm_headers (toMessageFromMgmt m q)"
  let ?V = "map (\<lambda>d. as_message q (cut d)) (ready s q)"
  show ?case
  proof (cases "int (length out) < k")
    case False
    then have "r = Ok out" "s' = s" using less.prems(3) by (auto simp: peek_loop.simps)
    moreover have "pages (nat pageSize) (nat k) (length out) ?V = []"
      using False by (subst pages.simps) (simp add: nat_le_iff)
    ultimately show ?thesis using less.prems(1) by simp
  next
    case True
    define want where "want = min pageSize (k - int (length out))"
    obtain g s1 where g: "getMessages rb c q want s = (g, s1)" by (cases "getMessages rb c q want s")
    note l = getMessages_reads[OF less.prems(1) g]
    have unf: "peek_loop rb c q pageSize k out s =
        (case (g, s1) of (Inl e, s) \<Rightarrow> (Err e, s)
          | (Inr page, s) \<Rightarrow> if int (length page) < want then (Ok (out @ page), s)
              else peek_loop rb c q pageSize k (out @ page) s)"
      using True less.prems(2) by (subst peek_loop.simps) (simp add: Let_def g flip: want_def)
    show ?thesis
    proof (cases g)
      case (Inl e)
      then show ?thesis using l unf less.prems(3) by auto
    next
      case (Inr page)
      then have page: "list_all2 presented (take (nat want) (ready s q)) page" "inv s1" "ready s1 = ready s"
        using l by auto
      have V: "map ?f page = take (nat want) ?V" if "\<forall>d \<in> set (ready s q). plain d"
        using presented_list[OF page(1), of q] that by (auto simp: take_map dest: in_set_takeD)
      have len: "length page = min (nat want) (length ?V)" using list_all2_lengthD[OF page(1)] by simp
      have w: "min (nat pageSize) (nat k - length out) = nat want" "0 < want"
        using True less.prems(2) by (auto simp: want_def)
      have p: "pages (nat pageSize) (nat k) (length out) ?V =
          take (nat want) ?V @ (if length ?V < nat want then [] else
            pages (nat pageSize) (nat k) (length out + nat want) ?V)"
        using True less.prems(2) by (subst pages.simps) (simp add: Let_def w nat_le_iff)
      show ?thesis
      proof (cases "int (length page) < want")
        case True
        then have "length ?V < nat want" using len by simp
        then show ?thesis using True unf Inr less.prems(3) page(2,3) V p by auto
      next
        case False
        then have full: "\<not> length ?V < nat want" "length page = nat want" using len by auto
        have "nat (k - int (length (out @ page))) < nat (k - int (length out))"
          using \<open>int (length out) < k\<close> w(2) full(2) by simp
        from less.hyps[OF this page(2) less.prems(2)] less.prems(3) show ?thesis
          using False unf Inr page(3) V p full by auto
      qed
    qed
  qed
qed

lemma peekMessages_pages:
  assumes "inv s" "0 < pageSize" "0 < k" "peekMessages rb c q pageSize k s = (r, s')"
  shows "inv s' \<and> ready s' = ready s \<and>
    (\<forall>ms. r = Ok ms \<longrightarrow> (\<forall>d \<in> set (ready s q). plain d) \<longrightarrow>
       map (\<lambda>m. norm_headers (toMessageFromMgmt m q)) ms =
       pages (nat pageSize) (nat k) 0 (map (\<lambda>d. as_message q (cut d)) (ready s q)))"
  using peek_loop_pages[OF assms(1,2), of c q k "[]" r s'] assms(2-4) by (simp add: peekMessages_def)

lemma rabbit_inspect_reads:
  assumes "inv s" "rabbit_inspect (Some rb) q i s = (r, s')"
  shows "inv s' \<and> ready s' = ready s \<and>
    (\<forall>m. r = Ok m \<longrightarrow> (\<forall>d \<in> set (ready s q). plain d) \<longrightarrow>
      find_message i (map (\<lambda>d. as_message q (cut d)) (ready s q)) = Some (norm_headers m))"
proof -
  have "inv s' \<and> ready s' = ready s \<and>
      (\<forall>m. r = Ok m \<longrightarrow> (\<forall>d \<in> set (ready s q). plain d) \<longrightarrow>
        find_message i (map (\<lambda>d. as_message q (cut d)) (ready s q)) = Some (norm_headers m))"
    if "newManagementClient rb = Inr c" "q \<noteq> []" "i \<noteq> []" for c
  proof -
    obtain x s1 where x: "peekMessages rb c q 1000 10000 s = (x, s1)" by (cases "peekMessages rb c q 1000 10000 s")
    have p: "inv s1" "ready s1 = ready s" "\<And>ms. x = Ok ms \<Longrightarrow> \<forall>d \<in> set (ready s q). plain d \<Longrightarrow>
        map (\<lambda>m. norm_headers (toMessageFromMgmt m q)) ms =
        pages (nat 1000) (nat 10000) 0 (map (\<lambda>d. as_message q (cut d)) (ready s q))"
      using peekMessages_pages[OF assms(1) zero_less_numeral zero_less_numeral x] by blast+
    have "find_message i (map (\<lambda>d. as_message q (cut d)) (ready s q)) = Some (norm_headers m)"
      if "x = Ok raws" "find_message i (map (\<lambda>raw. toMessageFromMgmt raw q) raws) = Some m"
        "\<forall>d \<in> set (ready s q). plain d" for raws m
    proof (rule find_pages)
      show "find_message i (pages (nat 1000) (nat 10000) 0 (map (\<lambda>d. as_message q (cut d)) (ready s q))) =
          Some (norm_headers m)"
        unfolding p(3)[OF that(1,3), symmetric] find_map_norm that(2) by (rule option.map(2))
    qed
    moreover have "s' = s1 \<and> (\<forall>m. r = Ok m \<longrightarrow> (\<exists>raws. x = Ok raws \<and>
        find_message i (map (\<lambda>raw. toMessageFromMgmt raw q) raws) = Some m))"
      using assms(2) that by (auto simp: rabbit_inspect_def x split: sum.splits option.splits)
    ultimately show ?thesis using p(1,2) by blast
  qed
  moreover have "s' = s \<and> \<not> is_Ok r" if "(\<forall>c. newManagementClient rb \<noteq> Inr c) \<or> q = [] \<or> i = []"
    using assms(2) that by (cases "newManagementClient rb") (auto simp: rabbit_inspect_def split: if_splits)
  ultimately show ?thesis using assms(1) by (metis is_Ok.simps(1))
qed

lemma rabbit_search_reads:
  assumes "inv s" "rabbit_search (Some rb) q f s = (r, s')"
  shows "inv s' \<and> ready s' = ready s"
proof -
  have "0 < scan_cap f" by (simp add: scan_cap_def Let_def)
  then have "inv s1 \<and> ready s1 = ready s" if "peekMessages rb c q 500 (scan_cap f) s = (x, s1)" for c x s1
    using peekMessages_pages[OF assms(1) _ _ that] by simp
  then show ?thesis using assms
    by (auto simp: rabbit_search_def split: sum.splits if_splits prod.splits)
qed

section \<open>Publishing\<close>

lemma rabbit_publish_effect:
  assumes "inv s" "routable s dest" "rabbit_publish (Some rb) dest m s = (e, s')"
  shows "inv s' \<and> (e \<noteq> None \<and> ready s' = ready s \<or> appended ready dest (publishing m) s s')"
proof (cases "dest = []")
  case True
  then show ?thesis using assms by (auto simp: rabbit_publish_def)
next
  case False
  obtain x s1 where 1: "rbChannel rb s = (x, s1)" by (cases "rbChannel rb s")
  obtain y s2 where 2: "rbConfirm rb s1 = (y, s2)" by (cases "rbConfirm rb s1")
  obtain z s3 where 3: "rbPublish rb dest (publishing m) s2 = (z, s3)" by (cases "rbPublish rb dest (publishing m) s2")
  obtain u s4 where 4: "rbConfirmation rb s3 = (u, s4)" by (cases "rbConfirmation rb s3")
  note c = channel_law[OF assms(1) 1]
  show ?thesis
  proof (cases x)
    case (Some err)
    then show ?thesis using assms(3) c False by (auto simp: rabbit_publish_def 1)
  next
    case None
    then have s1: "chan s1" "unacked s1 = []" "ready s1 = ready s" "routable s1 dest" using c assms(2) by auto
    note s2 = confirm_law[OF s1(1) 2]
    have cl: "inv (rbClose rb t) \<and> ready (rbClose rb t) = ready t" if "chan t" "unacked t = unacked s2" for t
      using close_empty[of t] that s1(2) s2 by simp
    show ?thesis
    proof (cases y)
      case (Some err)
      then show ?thesis using assms(3) cl[of s2] s2 s1(3) False by (auto simp: rabbit_publish_def 1 2 None)
    next
      case None
      note y = this
      have ap: "appended ready dest (publishing m) s t'" if "appended ready dest (publishing m) s2 t" "ready t' = ready t" for t t'
        using that s1(3) s2 by (auto simp: appended_def)
      show ?thesis
      proof (cases z)
        case (Some err)
        then have "rbPublish rb dest (publishing m) s2 = (Some err, s3)" using 3 by simp
        note l = publish_fails[OF conjunct1[OF s2] this]
        have "s' = rbClose rb s3" "e \<noteq> None"
          using assms(3) False \<open>x = None\<close> by (auto simp: rabbit_publish_def 1 2 3 y Some)
        then show ?thesis using cl[of s3] l ap[of s3 s'] s2 s1(3) by auto
      next
        case None
        then have "rbPublish rb dest (publishing m) s2 = (None, s3)" using 3 by simp
        from publish_sends[OF conjunct1[OF s2] _ this 4] s2 s1
        have l: "chan s4" "unacked s4 = unacked s2"
            "u \<noteq> Confirmed \<and> ready s4 = ready s2 \<or> appended ready dest (publishing m) s2 s4" by auto
        have "rabbit_publish (Some rb) dest m s =
            (case (u, s4) of (Confirmed, s) \<Rightarrow> (None, rbClose rb s)
             | (Rejected, s) \<Rightarrow> (Some (Text (''rabbitmq: broker rejected publish to '' @ Quote dest)), rbClose rb s)
             | (Cancelled e, s) \<Rightarrow> (Some (rabbit_error ''publish to'' dest e), rbClose rb s)
             | (TimedOut, s) \<Rightarrow>
                 (Some (Text (''rabbitmq: timed out waiting for publish confirm to '' @ Quote dest)), rbClose rb s))"
          using False by (simp add: rabbit_publish_def 1 2 3 4 y None \<open>x = None\<close>)
        then have "s' = rbClose rb s4" "u \<noteq> Confirmed \<longrightarrow> e \<noteq> None"
          using assms(3) by (cases u; simp)+
        moreover have "ready s2 = ready s" using s2 s1(3) by simp
        ultimately show ?thesis using cl[OF l(1,2)] l(3) ap[of s4 s'] by metis
      qed
    qed
  qed
qed

end

section \<open>The broker contract\<close>

sublocale rabbit_server \<subseteq> broker_contract "rabbit_broker (Some rb)" "ready_view ready" inv "\<lambda>_. True"
  routable "readable ready" norm_headers
proof
  fix s q i r s'
  assume a: "inv s" "bInspect (rabbit_broker (Some rb)) q i s = (r, s')"
  note l = rabbit_inspect_reads[OF a(1), of q i r s']
  have "find_message i (ready_view ready s q) = Some (norm_headers m)" if "readable ready s q i" "r = Ok m" for m
  proof -
    have "map (\<lambda>d. as_message q (cut d)) (ready s q) = ready_view ready s q"
      using that(1) by (auto simp: ready_view_def readable_def cut_small)
    then show ?thesis using l a(2) that by (auto simp: rabbit_broker_def readable_def)
  qed
  then show "inv s' \<and> ready_view ready s' = ready_view ready s \<and>
      (has_id i (ready_view ready s q) \<longrightarrow> readable ready s q i \<longrightarrow>
        (\<forall>m. r = Ok m \<longrightarrow> find_message i (ready_view ready s q) = Some (norm_headers m)))"
    using l a(2) ready_view_cong[of ready s' s] by (simp add: rabbit_broker_def)
next
  fix s q st s'
  assume a: "inv s" "bStats (rabbit_broker (Some rb)) q s = (st, s')"
  obtain x s1 where x: "rbDeclarePassive rb q s = (x, s1)" by (cases "rbDeclarePassive rb q s")
  show "inv s' \<and> ready_view ready s' = ready_view ready s \<and> (is_Ok st \<longrightarrow> routable s' q)"
    using declare_law[OF a(1) x] a ready_view_cong[of ready s' s]
    by (auto simp: rabbit_broker_def rabbit_stats_def x split: if_splits sum.splits)
next
  fix s d m e s'
  assume a: "inv s" "routable s d" "bPublish (rabbit_broker (Some rb)) d m s = (e, s')"
  then show "inv s' \<and> (e \<noteq> None \<and> ready_view ready s' = ready_view ready s \<or>
      copied (\<lambda>_. True) d m (ready_view ready s) (ready_view ready s'))"
    using rabbit_publish_effect[OF a(1,2), of m e s'] ready_view_cong[of ready s' s] ready_view_add[of ready d m s s']
    by (auto simp: rabbit_broker_def)
next
  fix s q i e s'
  assume a: "inv s" "bAck (rabbit_broker (Some rb)) q i s = (e, s')" "has_id i (ready_view ready s q)"
  have r: "rabbit_ack (Some rb) q i s = Some (e, s')"
    using rabbit_ack_returns[OF a(1), of q i] a(2) by (auto simp: rabbit_broker_def)
  have "ready_view ready s' = drop_message q i (ready_view ready s)"
    if "ready s q = ds @ d # rest" "delivery_id d = i" "\<forall>x \<in> set ds. delivery_id x \<noteq> i"
      "ready s' = (ready s)(q := ds @ rest)" for ds d rest
    using remove_first[OF that(3,2), of q rest] that(1,4)
    by (simp add: ready_view_def drop_message_def fun_eq_iff)
  then show "inv s' \<and> (e \<noteq> None \<and> ready_view ready s' = ready_view ready s \<or>
      ready_view ready s' = drop_message q i (ready_view ready s))"
    using rabbit_ack_effect[OF a(1) r] ready_view_cong[of ready s' s] by blast
qed

section \<open>Replay, inspection and search\<close>

lemma find_has_id: "find_message i ms = Some m \<Longrightarrow> has_id i ms"
  using find_message_in by (force simp: has_id_def)

lemma find_none: "\<forall>x \<in> set xs. mID x \<noteq> i \<Longrightarrow> find_message i xs = None"
  by (induction xs) (auto simp: find_message_def)

lemma find_replicate: "find_message i xs = None \<Longrightarrow> find_message i (concat (replicate j xs)) = None"
  by (induction j) (auto simp: find_append)

definition peek_view :: "('s \<Rightarrow> string \<Rightarrow> delivery list) \<Rightarrow> 's \<Rightarrow> string \<Rightarrow> message list" where
  "peek_view ready s q = map (\<lambda>d. as_message q (cut d)) (ready s q)"

context rabbit_server begin

lemma replay_views:
  assumes "Execute env (rabbit_broker (Some rb)) r w = (res, w')" "inv (wServer w)"
    and "find_message (rqMessageID r) (ready_view ready (wServer w) (rqQueue r)) = Some m0"
    and "readable ready (wServer w) (rqQueue r) (rqMessageID r)"
  defines "v \<equiv> ready_view ready (wServer w)" and "v' \<equiv> ready_view ready (wServer w')"
  shows "v' = v \<and> \<not> is_Ok res \<or>
    (\<exists>m dest. norm_headers m = m0 \<and> resolveDestination (rqDestination r) m = Ok dest \<and>
      (moved (\<lambda>_. True) (rqQueue r) (rqMessageID r) dest (published_message r m) v v' \<or>
       \<not> is_Ok res \<and> copied (\<lambda>_. True) dest (published_message r m) v v'))"
  using Execute_views[OF assms(1-4)] unfolding v_def v'_def .

text \<open>What an inspection reports is the cut message; so is what a replay publishes.\<close>

lemma replay_cut:
  assumes "Execute env (rabbit_broker (Some rb)) r w = (res, w')" "inv (wServer w)"
    and "list_all plain (ready (wServer w) (rqQueue r))"
    and "has_id (rqMessageID r) (ready_view ready (wServer w) (rqQueue r))"
  defines "v \<equiv> ready_view ready (wServer w)" and "v' \<equiv> ready_view ready (wServer w')"
  shows "v' = v \<and> \<not> is_Ok res \<or>
    (\<exists>m dest. find_message (rqMessageID r) (peek_view ready (wServer w) (rqQueue r)) = Some (norm_headers m) \<and>
      resolveDestination (rqDestination r) m = Ok dest \<and>
      (moved (\<lambda>_. True) (rqQueue r) (rqMessageID r) dest (published_message r m) v v' \<or>
       \<not> is_Ok res \<and> copied (\<lambda>_. True) dest (published_message r m) v v'))"
proof -
  have "find_message (rqMessageID r) (peek_view ready (wServer w) (rqQueue r)) = Some (norm_headers m)"
    if "fst (bInspect (rabbit_broker (Some rb)) (rqQueue r) (rqMessageID r) (wServer w)) = Ok m" for m
  proof -
    obtain x s1 where x: "rabbit_inspect (Some rb) (rqQueue r) (rqMessageID r) (wServer w) = (x, s1)"
      by (cases "rabbit_inspect (Some rb) (rqQueue r) (rqMessageID r) (wServer w)")
    then have "x = Ok m" using that by (simp add: rabbit_broker_def)
    then show ?thesis using rabbit_inspect_reads[OF assms(2) x] assms(3) by (simp add: peek_view_def list_all_iff)
  qed
  then show ?thesis using Execute_reads[OF assms(1,2,4)] unfolding v_def v'_def by blast
qed

lemma inspect_first_page:
  assumes "inv s" "list_all plain (ready s q)" "1000 \<le> length (ready s q)"
    and "\<forall>d \<in> set (take 1000 (ready s q)). delivery_id (cut d) \<noteq> i"
  shows "\<not> is_Ok (fst (rabbit_inspect (Some rb) q i s))"
proof
  assume ok: "is_Ok (fst (rabbit_inspect (Some rb) q i s))"
  then obtain m where m: "fst (rabbit_inspect (Some rb) q i s) = Ok m"
    by (cases "fst (rabbit_inspect (Some rb) q i s)") auto
  obtain c x s1 where c: "newManagementClient rb = Inr c" "peekMessages rb c q 1000 10000 s = (x, s1)"
      and raws: "\<exists>raws. x = Ok raws \<and> find_message i (map (\<lambda>raw. toMessageFromMgmt raw q) raws) = Some m"
    using m by (cases "newManagementClient rb"; cases "peekMessages rb (projr (newManagementClient rb)) q 1000 10000 s")
      (auto simp: rabbit_inspect_def split: sum.splits option.splits if_splits)
  obtain raws where raws: "x = Ok raws" "find_message i (map (\<lambda>raw. toMessageFromMgmt raw q) raws) = Some m"
    using raws by blast
  let ?V = "map (\<lambda>d. as_message q (cut d)) (ready s q)"
  have p: "map (\<lambda>m. norm_headers (toMessageFromMgmt m q)) raws = pages (nat 1000) (nat 10000) 0 ?V"
    using peekMessages_pages[OF assms(1) zero_less_numeral zero_less_numeral c(2)] raws(1) assms(2)
    by (auto simp: list_all_iff)
  have "pages 1000 (0 + 10 * 1000) 0 ?V = concat (replicate 10 (take 1000 ?V))"
    by (rule pages_full) (use assms(3) in simp_all)
  moreover have "find_message i (take 1000 ?V) = None"
    by (rule find_none) (use assms(4) in \<open>auto simp: take_map\<close>)
  ultimately have "find_message i (pages (nat 1000) (nat 10000) 0 ?V) = None" by (simp add: find_replicate)
  then have "find_message i (map (\<lambda>m. norm_headers (toMessageFromMgmt m q)) raws) = None" unfolding p .
  then show False unfolding find_map_norm raws(2) by simp
qed

lemma search_repeats:
  assumes "inv s" "list_all plain (ready s q)" "500 \<le> length (ready s q)" "scan_cap f = 500 * int j"
    and "fst (rabbit_search (Some rb) q f s) = Ok ms"
  shows "\<exists>xs. ms = Filter xs f \<and> map norm_headers xs = concat (replicate j (take 500 (peek_view ready s q)))"
proof -
  obtain c x s1 where c: "newManagementClient rb = Inr c" "peekMessages rb c q 500 (scan_cap f) s = (x, s1)"
      and raws: "\<exists>raws. x = Ok raws \<and> ms = Filter (map (\<lambda>raw. toMessageFromMgmt raw q) raws) f"
    using assms(5) by (cases "newManagementClient rb"; cases "peekMessages rb (projr (newManagementClient rb)) q 500 (scan_cap f) s")
      (auto simp: rabbit_search_def split: sum.splits if_splits)
  obtain raws where raws: "x = Ok raws" "ms = Filter (map (\<lambda>raw. toMessageFromMgmt raw q) raws) f"
    using raws by blast
  have "0 < scan_cap f" by (simp add: scan_cap_def Let_def)
  then have p: "map (\<lambda>m. norm_headers (toMessageFromMgmt m q)) raws =
      pages (nat 500) (nat (scan_cap f)) 0 (peek_view ready s q)"
    using peekMessages_pages[OF assms(1) zero_less_numeral _ c(2)] raws(1) assms(2)
    by (auto simp: list_all_iff peek_view_def)
  have n: "nat (scan_cap f) = 0 + j * 500" using assms(4) by simp
  have "pages 500 (0 + j * 500) 0 (peek_view ready s q) = concat (replicate j (take 500 (peek_view ready s q)))"
    by (rule pages_full) (use assms(3) in \<open>simp_all add: peek_view_def\<close>)
  then have "map norm_headers (map (\<lambda>raw. toMessageFromMgmt raw q) raws) =
      concat (replicate j (take 500 (peek_view ready s q)))"
    using p unfolding n by (simp add: comp_def)
  then show ?thesis using raws(2) by blast
qed

end

end
