(* ===== verification/Rabbit_Memory.thy ===== *)
theory Rabbit_Memory
  imports Rabbit_Contract
begin

text \<open>
  A RabbitMQ server in memory, as an instance of the contract of \<open>Rabbit_Contract\<close>: queues of
  deliveries, the deliveries a channel has not acknowledged yet, and a list of faults that makes the
  next calls fail. It shows a plain delivery through the management API as JSON.
\<close>

section \<open>Queue names in a path\<close>

lemma hex_upper_inject: "n < 16 \<Longrightarrow> k < 16 \<Longrightarrow> hex_upper n = hex_upper k \<Longrightarrow> n = k"
proof -
  have b: "of_char (hex_upper n) = (if n < 10 then 48 + n else 55 + n)" if "n < 16" for n :: nat
    using that by (simp add: hex_upper_def)
  assume "n < 16" "k < 16" "hex_upper n = hex_upper k"
  then have "(if n < 10 then 48 + n else 55 + n) = (if k < 10 then 48 + k else 55 + k)"
    using b[of n] b[of k] by simp
  then show "n = k" by (auto split: if_splits)
qed

lemma percent_unsafe: "\<not> path_safe (CHR ''%'')"
  by (simp add: path_safe_def between_def is_upper_byte_def is_digit_def)

lemma PathEscape_Cons:
  "PathEscape (c # s) =
     (if path_safe c then [c] else [CHR ''%'', hex_upper (byte c div 16), hex_upper (byte c mod 16)]) @ PathEscape s"
  by (simp add: PathEscape_def Let_def byte_def)

lemma hex_byte_inject:
  assumes "hex_upper (byte c div 16) = hex_upper (byte d div 16)" "hex_upper (byte c mod 16) = hex_upper (byte d mod 16)"
  shows "c = d"
proof -
  have l: "byte x div 16 < 16" "byte x mod 16 < 16" for x
    using byte_less[of x] by (simp_all add: less_mult_imp_div_less)
  have "byte c div 16 = byte d div 16" by (rule hex_upper_inject[OF l(1) l(1) assms(1)])
  moreover have "byte c mod 16 = byte d mod 16" by (rule hex_upper_inject[OF l(2) l(2) assms(2)])
  ultimately have "byte c = byte d" by (metis div_mult_mod_eq)
  then show "c = d" by (metis chr_byte(1))
qed

lemma PathEscape_inject: "PathEscape s = PathEscape t \<Longrightarrow> s = t"
proof (induction s arbitrary: t)
  case Nil
  then show ?case by (cases t) (auto simp: PathEscape_Cons PathEscape_def[of "[]"] split: if_splits)
next
  case (Cons c s)
  obtain d u where t: "t = d # u"
    using Cons.prems by (cases t) (auto simp: PathEscape_Cons PathEscape_def[of "[]"] split: if_splits)
  have "c = d \<and> PathEscape s = PathEscape u"
    using Cons.prems hex_byte_inject[of c d] percent_unsafe unfolding t PathEscape_Cons
    by (cases "path_safe c"; cases "path_safe d") auto
  then show ?case using Cons.IH by (simp add: t)
qed

lemma queue_path_inject: "queue_path c q = queue_path c p \<Longrightarrow> q = p"
  using PathEscape_inject by (simp add: queue_path_def)


section \<open>What the management API shows\<close>

text \<open>Times are kept in whole seconds, a time a 64-bit number does not hold is dropped.\<close>

definition whole_seconds :: "gotime \<Rightarrow> gotime" where
  "whole_seconds t =
     (let n = (t - unix_epoch) div second in
      if t \<noteq> 0 \<and> minInt \<le> n \<and> n \<le> maxInt then unix_epoch + n * second else 0)"

definition render_time :: "gotime \<Rightarrow> json option" where
  "render_time t = (if t = 0 then None else Some (JNum (Itoa ((t - unix_epoch) div second))))"

definition render_death :: "(string \<times> header_val) list \<Rightarrow> gval" where
  "render_death t =
     GArr [GObj [(''queue'', GStr (text_at ''queue'' t)), (''reason'', GStr (text_at ''reason'' t)),
       (''count'', case map_of t ''count'' of Some (HvInt c) \<Rightarrow> GNum (F64 (c < 0) (nat \<bar>c\<bar>) 0) | _ \<Rightarrow> GNil)]]"

definition render_header :: "string \<times> header_val \<Rightarrow> string \<times> gval" where
  "render_header p =
     (fst p, case snd p of
        HvArray (HvTable t # _) \<Rightarrow> render_death t
      | HvBool b \<Rightarrow> GBool b
      | HvText s \<Rightarrow> GStr s
      | _ \<Rightarrow> GNil)"

definition render :: "delivery \<Rightarrow> mgmt_message" where
  "render d =
     (let body = take 50000 (dBody d); ascii = list_all (\<lambda>c. byte c < 128) body in
      \<lparr>mgPayload = (if ascii then body else base64 body),
       mgPayloadEncoding = (if ascii then ''string'' else ''base64''), mgExchange = [], mgRoutingKey = [],
       mgRedelivered = True, mgMessageID = dMessageID d, mgTimestamp = render_time (dTimestamp d),
       mgContentType = dContentType d, mgHeaders = map render_header (dHeaders d)\<rparr>)"

lemma whole_seconds_shown: "whole_seconds t = t \<Longrightarrow> mgmtTimestamp (render_time t) = t"
proof (cases "t = 0")
  case False
  define n where "n = (t - unix_epoch) div second"
  assume "whole_seconds t = t"
  then have n: "minInt \<le> n" "n \<le> maxInt" "t = unix_epoch + n * second"
    using False by (auto simp: whole_seconds_def Let_def n_def split: if_splits)
  have "Atoi (Itoa n) = Some n" by (rule Atoi_Itoa[OF n(1,2)])
  then have "mgmtTimestamp (Some (JNum (Itoa n))) = t" using n(3) by (simp add: mgmtTimestamp_def)
  then show ?thesis using False by (simp add: render_time_def n_def)
qed (simp add: render_time_def mgmtTimestamp_def)

lemma whole_seconds_twice: "whole_seconds (whole_seconds t) = whole_seconds t"
proof -
  have "(unix_epoch + n * second - unix_epoch) div second = n" for n by (simp add: second_def)
  then show ?thesis by (simp add: whole_seconds_def Let_def)
qed

lemma render_death_shown:
  assumes "small_count (map_of t ''count'')"
  shows "death_shown (HvArray (HvTable t # ts)) (render_death t)"
proof -
  obtain c where c: "map_of t ''count'' = Some (HvInt c)" "\<bar>c\<bar> \<le> 2 ^ 53"
    using assms by (auto simp: small_count_def split: option.splits header_val.splits)
  have "int_of_float (F64 (c < 0) (nat \<bar>c\<bar>) 0) = c"
    using c(2) by (auto simp: int_of_float_def minInt_def maxInt_def Let_def)
  then show ?thesis using c(1) by (simp add: death_shown_def render_death_def text_at_def gtext_at_def count_shown_def)
qed

lemma render_header_shown: "plain_header p \<Longrightarrow> header_shown p (render_header p)"
  using render_death_shown
  by (auto simp: plain_header_def header_shown_def render_header_def plain_shown_def
      split: if_splits header_val.splits list.splits)

lemma render_presented: "whole_seconds (dTimestamp d) = dTimestamp d \<Longrightarrow> presented d (render d)"
  by (auto simp: presented_def shown_def render_def Let_def cut_def plain_def whole_seconds_shown
      list_all2_map2 list.rel_refl_strong render_header_shown list_all_iff)

section \<open>The server in memory\<close>

record mem_rabbit =
  mbReady :: "(string \<times> delivery list) list"
  mbUnacked :: "(nat \<times> string \<times> delivery) list"   \<comment> \<open>by delivery tag\<close>
  mbAlive :: bool
  mbTag :: nat
  mbFaults :: "bool list"

definition mb_ready :: "mem_rabbit \<Rightarrow> string \<Rightarrow> delivery list" where
  "mb_ready s q = (case map_of (mbReady s) q of None \<Rightarrow> [] | Some ds \<Rightarrow> ds)"

definition mb_known :: "mem_rabbit \<Rightarrow> string \<Rightarrow> bool" where
  "mb_known s q = (map_of (mbReady s) q \<noteq> None)"

definition mb_put :: "string \<Rightarrow> delivery list \<Rightarrow> mem_rabbit \<Rightarrow> mem_rabbit" where
  "mb_put q ds s = s\<lparr>mbReady := (q, ds) # mbReady s\<rparr>"

text \<open>Every time a queue holds is one the protocol can carry.\<close>

definition timed :: "delivery \<Rightarrow> bool" where
  "timed d = (whole_seconds (dTimestamp d) = dTimestamp d)"

definition mb_chan :: "mem_rabbit \<Rightarrow> bool" where
  "mb_chan s = ((\<forall>q. list_all timed (mb_ready s q)) \<and> list_all (\<lambda>u. timed (snd (snd u))) (mbUnacked s) \<and>
     distinct (map fst (mbUnacked s)) \<and> (\<forall>u \<in> set (mbUnacked s). fst u < mbTag s))"

definition mb_inv :: "mem_rabbit \<Rightarrow> bool" where
  "mb_inv s = (mb_chan s \<and> mbUnacked s = [])"

definition mb_close :: "mem_rabbit \<Rightarrow> mem_rabbit" where
  "mb_close s = (foldr (\<lambda>(t, q, d) s. mb_put q (d # mb_ready s q) s) (mbUnacked s) s)\<lparr>mbUnacked := [], mbAlive := False\<rparr>"

definition faulty :: "mem_rabbit \<Rightarrow> bool" where
  "faulty s = (mbFaults s \<noteq> [] \<and> hd (mbFaults s))"

definition next_fault :: "mem_rabbit \<Rightarrow> mem_rabbit" where
  "next_fault s = s\<lparr>mbFaults := tl (mbFaults s)\<rparr>"

definition mb_error :: goerr where "mb_error = Text ''connection reset by peer''"

text \<open>A request, and a request on a channel: one that fails closes the channel.\<close>

definition mb_request :: "(mem_rabbit \<Rightarrow> goerr option \<times> mem_rabbit) \<Rightarrow> mem_rabbit \<Rightarrow> goerr option \<times> mem_rabbit" where
  "mb_request f s = (if faulty s then (Some mb_error, next_fault s) else f (next_fault s))"

definition on_channel :: "(mem_rabbit \<Rightarrow> goerr option \<times> mem_rabbit) \<Rightarrow> mem_rabbit \<Rightarrow> goerr option \<times> mem_rabbit" where
  "on_channel f s =
     (if mbAlive s \<and> \<not> faulty s then f (next_fault s) else (Some mb_error, (next_fault s)\<lparr>mbAlive := False\<rparr>))"

definition mb_get :: "string \<Rightarrow> mem_rabbit \<Rightarrow> (goerr, (nat \<times> delivery) option) result \<times> mem_rabbit" where
  "mb_get q s =
     (if \<not> mbAlive s \<or> faulty s then (Err mb_error, (next_fault s)\<lparr>mbAlive := False\<rparr>)
      else case mb_ready s q of
        [] \<Rightarrow> (Ok None, next_fault s)
      | d # ds \<Rightarrow>
          (Ok (Some (mbTag s, d)),
           (mb_put q ds (next_fault s))\<lparr>mbUnacked := mbUnacked s @ [(mbTag s, q, d)], mbTag := Suc (mbTag s)\<rparr>))"

definition mb_drop :: "nat \<Rightarrow> mem_rabbit \<Rightarrow> mem_rabbit" where
  "mb_drop t s = s\<lparr>mbUnacked := filter (\<lambda>u. fst u \<noteq> t) (mbUnacked s)\<rparr>"

definition mb_nack :: "nat \<Rightarrow> mem_rabbit \<Rightarrow> goerr option \<times> mem_rabbit" where
  "mb_nack t s =
     (case map_of (mbUnacked s) t of
        None \<Rightarrow> (Some mb_error, s\<lparr>mbAlive := False\<rparr>)
      | Some (q, d) \<Rightarrow> (None, mb_drop t (mb_put q (d # mb_ready s q) s)))"

definition mb_append :: "string \<Rightarrow> delivery \<Rightarrow> mem_rabbit \<Rightarrow> mem_rabbit" where
  "mb_append q d s = (if mb_known s q then mb_put q (mb_ready s q @ [d]) s else s)"

text \<open>The path of a request names the queue.\<close>

definition queue_at :: "management_client \<Rightarrow> string \<Rightarrow> mem_rabbit \<Rightarrow> delivery list option" where
  "queue_at c path s = map_option snd (find (\<lambda>p. queue_path c (fst p) = path) (mbReady s))"

definition mem_rabbit_client :: "mem_rabbit rabbit" where
  "mem_rabbit_client = \<lparr>
     rbDeclarePassive = (\<lambda>q s. (
        if faulty s then Err \<lparr>aeCode = None, aeError = mb_error\<rparr>
        else if mb_known s q then Ok \<lparr>qsName = q, qsMessages = int (length (mb_ready s q)), qsConsumers = 0\<rparr>
        else Err \<lparr>aeCode = Some 404, aeError = Text ''NOT_FOUND''\<rparr>, next_fault s)),
     rbChannel = mb_request (\<lambda>s. (None, s\<lparr>mbAlive := True\<rparr>)),
     rbConfirm = on_channel (\<lambda>s. (None, s)),
     rbPublish = (\<lambda>q d. on_channel (\<lambda>s. (None, mb_append q (d\<lparr>dTimestamp := whole_seconds (dTimestamp d)\<rparr>) s))),
     rbConfirmation = (\<lambda>s. (if faulty s then TimedOut else Confirmed, next_fault s)),
     rbQos = on_channel (\<lambda>s. (None, s)),
     rbGet = mb_get,
     rbAck = (\<lambda>t. on_channel (\<lambda>s. (None, mb_drop t s))),
     rbNack = (\<lambda>t. on_channel (mb_nack t)),
     rbClose = mb_close,
     rbPost = (\<lambda>c path k s. (if faulty s then Err mb_error else case queue_at c path s of
        None \<Rightarrow> Ok (404, ''Object Not Found'', Err mb_error)
      | Some ds \<Rightarrow> Ok (200, [], Ok (map render (take (nat k) ds))), next_fault s)),
     rbGetQueues = (\<lambda>c path s. (Ok (200, [], Ok (map (\<lambda>(q, ds). \<lparr>mqName = q, mqDurable = True,
        mqAutoDelete = False, mqMessages = int (length ds), mqConsumers = 0, mqUnacknowledged = 0\<rparr>) (mbReady s))), s)),
     rbParseURL = (\<lambda>u. Ok \<lparr>puScheme = ''amqp'', puHostname = ''mq'', puUser = None, puEscapedPath = ''/''\<rparr>),
     rbStatusText = (\<lambda>n. Itoa n),
     rbConfig = \<lparr>ccBroker = ''rabbitmq'', ccURL = ''amqp://mq/'', ccQueue = [], ccManagementURL = []\<rparr>\<rparr>"

lemma mb_faults [simp]:
  "mb_ready (next_fault s) = mb_ready s" "mb_known (next_fault s) = mb_known s" "mbUnacked (next_fault s) = mbUnacked s"
  "mbAlive (next_fault s) = mbAlive s" "mbTag (next_fault s) = mbTag s" "mb_chan (next_fault s) = mb_chan s"
  "mb_inv (next_fault s) = mb_inv s"
  by (simp_all add: next_fault_def mb_ready_def mb_known_def mb_chan_def mb_inv_def fun_eq_iff)

lemma mb_alive [simp]:
  "mb_ready (s\<lparr>mbAlive := b\<rparr>) = mb_ready s" "mb_known (s\<lparr>mbAlive := b\<rparr>) = mb_known s"
  "mb_chan (s\<lparr>mbAlive := b\<rparr>) = mb_chan s"
  by (simp_all add: mb_ready_def mb_known_def mb_chan_def fun_eq_iff)

lemma mb_unacked [simp]: "mb_ready (s\<lparr>mbUnacked := us\<rparr>) = mb_ready s" "mb_ready (s\<lparr>mbTag := n\<rparr>) = mb_ready s"
  by (simp_all add: mb_ready_def fun_eq_iff)

lemma mb_put_ready [simp]:
  "mb_ready (mb_put q ds s) = (mb_ready s)(q := ds)" "mbUnacked (mb_put q ds s) = mbUnacked s"
  "mbTag (mb_put q ds s) = mbTag s" "mbAlive (mb_put q ds s) = mbAlive s"
  by (simp_all add: mb_put_def mb_ready_def fun_eq_iff)

lemma mb_drop_simps [simp]:
  "mb_ready (mb_drop t s) = mb_ready s" "mbUnacked (mb_drop t s) = filter (\<lambda>u. fst u \<noteq> t) (mbUnacked s)"
  "mbAlive (mb_drop t s) = mbAlive s" "mbTag (mb_drop t s) = mbTag s"
  by (simp_all add: mb_drop_def)

lemma mb_chan_put: "mb_chan s \<Longrightarrow> list_all timed ds \<Longrightarrow> mb_chan (mb_put q ds s)"
  by (simp add: mb_chan_def)

lemma mb_chan_drop: "mb_chan s \<Longrightarrow> mb_chan (mb_drop t s)"
  by (auto simp: mb_chan_def list_all_iff distinct_map_filter)

lemma queue_at_path: "queue_at c (queue_path c q) s = map_of (mbReady s) q"
proof -
  have "map_option snd (find (\<lambda>p. queue_path c (fst p) = queue_path c q) xs) = map_of xs q" for xs :: "(string \<times> 'a) list"
    by (induction xs) (auto dest: queue_path_inject)
  then show ?thesis by (simp add: queue_at_def)
qed

lemma put_back:
  "mb_ready (foldr (\<lambda>(t, q, d) s. mb_put q (d # mb_ready s q) s) us s) =
     (\<lambda>q. map (snd \<circ> snd) (filter (\<lambda>u. fst (snd u) = q) us) @ mb_ready s q)"
  by (induction us) (auto simp: fun_eq_iff)

lemma mb_close_ready:
  "mb_ready (mb_close s) = (\<lambda>q. map (snd \<circ> snd) (filter (\<lambda>u. fst (snd u) = q) (mbUnacked s)) @ mb_ready s q)"
  by (simp add: mb_close_def put_back)

lemma mb_close_inv: "mb_chan s \<Longrightarrow> mb_inv (mb_close s)"
  using mb_close_ready[of s] by (auto simp: mb_inv_def mb_chan_def list_all_iff mb_close_def)

lemma on_channel_cases:
  assumes "on_channel f s = (e, s')"
  obtains (fails) "e = Some mb_error" "s' = (next_fault s)\<lparr>mbAlive := False\<rparr>"
  | (runs) "mbAlive s" "f (next_fault s) = (e, s')"
  using assms by (auto simp: on_channel_def split: if_splits)

lemma mb_append_effect:
  assumes "mb_chan s" "mb_known s q"
    and s'_def: "s' = mb_append q (p\<lparr>dTimestamp := whole_seconds (dTimestamp p)\<rparr>) s"
  shows "mb_chan s' \<and> mbUnacked s' = mbUnacked s \<and> appended mb_ready q p s s'"
proof -
  define d where "d = p\<lparr>dTimestamp := whole_seconds (dTimestamp p)\<rparr>"
  have d: "stored_as p d" "timed d" by (simp_all add: d_def stored_as_def timed_def whole_seconds_twice)
  have s': "s' = mb_put q (mb_ready s q @ [d]) s" using assms(2) by (simp add: s'_def mb_append_def d_def)
  have "list_all timed (mb_ready s q)" using assms(1) by (simp add: mb_chan_def)
  then have "mb_chan s'" using assms(1) d(2) unfolding s' by (intro mb_chan_put) auto
  moreover have "appended mb_ready q p s s'" using d(1) by (auto simp: appended_def s')
  ultimately show ?thesis by (simp add: s')
qed

lemma mb_append_unknown: "\<not> mb_known s q \<Longrightarrow> mb_append q d s = s"
  by (simp add: mb_append_def)

lemma mb_get_law:
  assumes "mb_chan s" "mbAlive s" "mb_get q s = (g, s')"
  shows "mb_chan s' \<and>
      (case g of
         Inl _ \<Rightarrow> mb_ready s' = mb_ready s \<and> mbUnacked s' = mbUnacked s
       | Inr None \<Rightarrow> mbAlive s' \<and> mb_ready s' = mb_ready s \<and> mbUnacked s' = mbUnacked s \<and> mb_ready s q = []
       | Inr (Some (t, d)) \<Rightarrow> mbAlive s' \<and> mb_ready s q = d # mb_ready s' q \<and> mb_ready s' = (mb_ready s)(q := mb_ready s' q) \<and>
           mbUnacked s' = mbUnacked s @ [(t, q, d)] \<and> t \<notin> fst ` set (mbUnacked s))"
proof (cases "faulty s \<or> mb_ready s q = []")
  case True
  then show ?thesis using assms by (auto simp: mb_get_def split: list.splits if_splits)
next
  case False
  then obtain d ds where d: "mb_ready s q = d # ds" by (cases "mb_ready s q") auto
  define u where "u = (mb_put q ds (next_fault s))\<lparr>mbUnacked := mbUnacked s @ [(mbTag s, q, d)], mbTag := Suc (mbTag s)\<rparr>"
  have e: "g = Ok (Some (mbTag s, d))" "s' = u" using assms(2,3) False d by (auto simp: mb_get_def u_def)
  have t: "mbTag s \<notin> fst ` set (mbUnacked s)" using assms(1) by (auto simp: mb_chan_def)
  have "mb_ready u = (mb_ready s)(q := ds)" by (simp add: u_def)
  moreover have "mbAlive u" "mbUnacked u = mbUnacked s @ [(mbTag s, q, d)]" "mbTag u = Suc (mbTag s)"
    using assms(2) by (simp_all add: u_def)
  moreover have "timed d" "list_all timed ds" "\<And>p. list_all timed (mb_ready s p)"
    using assms(1) d by (auto simp: mb_chan_def dest: spec[of _ q])
  ultimately show ?thesis using assms(1) d t unfolding e by (auto simp: mb_chan_def less_Suc_eq)
qed

lemma mb_nack_law:
  assumes "mb_chan s" "(t, q, d) \<in> set (mbUnacked s)" "mb_nack t s = (e, s')"
  shows "mb_chan s' \<and> e = None \<and> mbAlive s' = mbAlive s \<and>
    mbUnacked s' = filter (\<lambda>u. fst u \<noteq> t) (mbUnacked s) \<and> mb_ready s' = (mb_ready s)(q := d # mb_ready s q)"
proof -
  have "map_of (mbUnacked s) t = Some (q, d)" using assms(1,2) by (simp add: mb_chan_def)
  then have e: "e = None" "s' = mb_drop t (mb_put q (d # mb_ready s q) s)" using assms(3) by (auto simp: mb_nack_def)
  have "timed d" "list_all timed (mb_ready s q)" using assms(1,2) by (auto simp: mb_chan_def list_all_iff)
  then have "mb_chan s'" unfolding e by (intro mb_chan_drop mb_chan_put assms(1)) simp
  then show ?thesis by (simp add: e)
qed

lemma mb_nack_other: "\<not> mbAlive s \<Longrightarrow> on_channel f s = (e, s') \<Longrightarrow> e = Some mb_error \<and> s' = (next_fault s)\<lparr>mbAlive := False\<rparr>"
  by (simp add: on_channel_def)

interpretation memr: rabbit_server mem_rabbit_client mb_ready mbUnacked mb_inv mb_chan mbAlive mb_known
proof
  fix s q a s'
  show "mb_inv s \<Longrightarrow> rbDeclarePassive mem_rabbit_client q s = (a, s') \<Longrightarrow>
      mb_inv s' \<and> mb_ready s' = mb_ready s \<and> (is_Ok a \<longrightarrow> mb_known s' q)"
    by (auto simp: mem_rabbit_client_def split: if_splits)
next
  fix s c q k p s'
  assume a: "mb_inv s" "rbPost mem_rabbit_client c (queue_path c q) k s = (p, s')"
  have "list_all2 presented (take (nat k) (mb_ready s q)) (map render (take (nat k) (mb_ready s q)))"
    using a(1) by (auto simp: list_all2_map2 mb_inv_def mb_chan_def list_all_iff timed_def render_presented
        intro!: list.rel_refl_strong dest: in_set_takeD)
  then show "mb_inv s' \<and> mb_ready s' = mb_ready s \<and>
      (\<forall>status body ms. p = Inr (status, body, Inr ms) \<longrightarrow> 200 \<le> status \<longrightarrow> status < 300 \<longrightarrow>
        list_all2 presented (take (nat k) (mb_ready s q)) ms)"
    using a by (auto simp: mem_rabbit_client_def queue_at_path mb_ready_def[of s q] split: if_splits option.splits)
next
  fix s e s'
  show "mb_inv s \<Longrightarrow> rbChannel mem_rabbit_client s = (e, s') \<Longrightarrow>
      mb_ready s' = mb_ready s \<and> mb_known s' = mb_known s \<and>
      (if e = None then mb_chan s' \<and> mbAlive s' \<and> mbUnacked s' = [] else mb_inv s')"
    by (auto simp: mem_rabbit_client_def mb_request_def mb_inv_def split: if_splits)
  show "mb_chan s \<Longrightarrow> rbConfirm mem_rabbit_client s = (e, s') \<Longrightarrow>
      mb_chan s' \<and> mb_ready s' = mb_ready s \<and> mbUnacked s' = mbUnacked s \<and> mb_known s' = mb_known s"
    by (auto simp: mem_rabbit_client_def on_channel_def split: if_splits)
  show "mb_chan s \<Longrightarrow> rbQos mem_rabbit_client s = (e, s') \<Longrightarrow>
      mb_chan s' \<and> mb_ready s' = mb_ready s \<and> mbUnacked s' = mbUnacked s \<and> (e = None \<longrightarrow> mbAlive s \<longrightarrow> mbAlive s')"
    by (auto simp: mem_rabbit_client_def on_channel_def split: if_splits)
next
  fix s dest x err s'
  show "mb_chan s \<Longrightarrow> rbPublish mem_rabbit_client dest x s = (Some err, s') \<Longrightarrow>
      mb_chan s' \<and> mbUnacked s' = mbUnacked s \<and> (mb_ready s' = mb_ready s \<or> appended mb_ready dest x s s')"
    by (auto simp: mem_rabbit_client_def on_channel_def split: if_splits)
next
  fix s dest x s1 y s'
  assume a: "mb_chan s" "mb_known s dest" "rbPublish mem_rabbit_client dest x s = (None, s1)"
    "rbConfirmation mem_rabbit_client s1 = (y, s')"
  have s1: "s1 = mb_append dest (x\<lparr>dTimestamp := whole_seconds (dTimestamp x)\<rparr>) (next_fault s)" "s' = next_fault s1"
    using a(3,4) by (auto simp: mem_rabbit_client_def on_channel_def split: if_splits)
  have "mb_chan s1 \<and> mbUnacked s1 = mbUnacked (next_fault s) \<and> appended mb_ready dest x (next_fault s) s1"
    unfolding s1(1) by (rule mb_append_effect[where p = x]) (use a(1,2) in simp_all)
  then show "mb_chan s' \<and> mbUnacked s' = mbUnacked s \<and>
      (y \<noteq> Confirmed \<and> mb_ready s' = mb_ready s \<or> appended mb_ready dest x s s')"
    by (simp add: s1(2) appended_def)
next
  fix s q g s'
  assume "mb_chan s" "mbAlive s" "rbGet mem_rabbit_client q s = (g, s')"
  then show "mb_chan s' \<and>
      (case g of
         Inl _ \<Rightarrow> mb_ready s' = mb_ready s \<and> mbUnacked s' = mbUnacked s
       | Inr None \<Rightarrow> mbAlive s' \<and> mb_ready s' = mb_ready s \<and> mbUnacked s' = mbUnacked s \<and> mb_ready s q = []
       | Inr (Some (t, d)) \<Rightarrow> mbAlive s' \<and> mb_ready s q = d # mb_ready s' q \<and> mb_ready s' = (mb_ready s)(q := mb_ready s' q) \<and>
           mbUnacked s' = mbUnacked s @ [(t, q, d)] \<and> t \<notin> fst ` set (mbUnacked s))"
    using mb_get_law[of s q g s'] by (simp add: mem_rabbit_client_def)
next
  fix s t e s'
  show "mb_chan s \<Longrightarrow> mbAlive s \<Longrightarrow> t \<in> fst ` set (mbUnacked s) \<Longrightarrow> rbAck mem_rabbit_client t s = (e, s') \<Longrightarrow>
      mb_chan s' \<and> mb_ready s' = mb_ready s \<and>
      (if e = None then mbAlive s' \<and> mbUnacked s' = filter (\<lambda>u. fst u \<noteq> t) (mbUnacked s) else mbUnacked s' = mbUnacked s)"
    by (auto simp: mem_rabbit_client_def on_channel_def mb_chan_drop split: if_splits)
  show "mb_chan s \<Longrightarrow> \<not> mbAlive s \<Longrightarrow> rbNack mem_rabbit_client t s = (e, s') \<Longrightarrow>
      mb_chan s' \<and> \<not> mbAlive s' \<and> mb_ready s' = mb_ready s \<and> mbUnacked s' = mbUnacked s"
    by (auto simp: mem_rabbit_client_def dest: mb_nack_other)
  show "mb_chan s \<Longrightarrow> mb_inv (rbClose mem_rabbit_client s) \<and> mb_ready (rbClose mem_rabbit_client s) =
      (\<lambda>q. map (snd \<circ> snd) (filter (\<lambda>u. fst (snd u) = q) (mbUnacked s)) @ mb_ready s q)"
    by (simp add: mem_rabbit_client_def mb_close_inv mb_close_ready)
next
  fix s t q d e s'
  assume a: "mb_chan s" "mbAlive s" "(t, q, d) \<in> set (mbUnacked s)" "rbNack mem_rabbit_client t s = (e, s')"
  have "on_channel (mb_nack t) s = (e, s')" using a(4) by (simp add: mem_rabbit_client_def)
  then show "mb_chan s' \<and>
      (if e = None
       then mbAlive s' \<and> mbUnacked s' = filter (\<lambda>u. fst u \<noteq> t) (mbUnacked s) \<and> mb_ready s' = (mb_ready s)(q := d # mb_ready s q)
       else \<not> mbAlive s' \<and> mb_ready s' = mb_ready s \<and> mbUnacked s' = mbUnacked s)"
  proof (cases rule: on_channel_cases)
    case runs
    then show ?thesis using mb_nack_law[of "next_fault s" t q d e s'] a(1-3) by simp
  qed (use a(1) in simp)
qed

end
