(* ===== verification/Rabbit_Properties.thy ===== *)
theory Rabbit_Properties
  imports Rabbit_Memory
begin

text \<open>
  What a replay, an acknowledgement, a search and an inspection through the RabbitMQ adapter do to
  the queues, and two limits of the adapter: the head of a long queue is read again and again, and a
  payload of more than 50000 bytes is replayed without its end.
\<close>

section \<open>Replay\<close>


text \<open>A dead-letter queue with two messages of its own id, and the destination of both.\<close>

definition mb_delivery :: "string \<Rightarrow> string \<Rightarrow> delivery" where
  "mb_delivery i body = \<lparr>dMessageID = i, dContentType = ''text/plain'', dTimestamp = 0,
     dHeaders = [(''x-destination'', HvText ''orders'')], dBody = body\<rparr>"

definition mb_server :: "delivery list \<Rightarrow> bool list \<Rightarrow> mem_rabbit" where
  "mb_server ds faults = \<lparr>mbReady = [(''orders'', []), (''orders-dlq'', ds)], mbUnacked = [],
     mbAlive = False, mbTag = 1, mbFaults = faults\<rparr>"

definition mb_world :: "delivery list \<Rightarrow> bool list \<Rightarrow> mem_rabbit world" where
  "mb_world ds faults = \<lparr>wServer = mb_server ds faults, wStore = Some empty_store, wTrace = [], wTick = 0\<rparr>"

definition rabbit_request :: "string \<Rightarrow> request" where
  "rabbit_request i = \<lparr>rqQueue = ''orders-dlq'', rqMessageID = i, rqDestination = [],
     rqBrokerName = ''rabbitmq'', rqProfile = ''dev'', rqReason = ''fixed'', rqConfirm = True,
     rqAction = ActionReplay, rqPayload = None, rqDiff = []\<rparr>"

lemma mb_delivery_simps [simp]:
  "dMessageID (mb_delivery i b) = i" "dBody (mb_delivery i b) = b" "timed (mb_delivery i b)"
  "plain (mb_delivery i b)" "i \<noteq> [] \<Longrightarrow> delivery_id (mb_delivery i b) = i" "cut (mb_delivery i b) = mb_delivery i (take 50000 b)"
  by (simp_all add: mb_delivery_def timed_def whole_seconds_def plain_def plain_header_def delivery_id_def
      messageID_def messageIDFromParts_def cut_def)

lemma mb_server_ready [simp]: "mb_ready (mb_server ds fs) = (\<lambda>_. [])(''orders-dlq'' := ds)"
  by (auto simp: mb_ready_def mb_server_def fun_eq_iff)

lemma mb_server_simps [simp]:
  "ready_view mb_ready (mb_server ds fs) = (\<lambda>_. [])(''orders-dlq'' := map (as_message ''orders-dlq'') ds)"
  "mb_known (mb_server ds fs) q = (q = ''orders'' \<or> q = ''orders-dlq'')" "mbFaults (mb_server ds fs) = fs"
  by (auto simp: ready_view_def mb_server_def mb_known_def mb_ready_def fun_eq_iff)

lemma mb_server_inv: "list_all timed ds \<Longrightarrow> mb_inv (mb_server ds fs)"
  by (simp add: mb_inv_def mb_chan_def) (simp add: mb_server_def)

text \<open>Without faults the requests succeed.\<close>

lemma next_fault_none [simp]: "mbFaults s = [] \<Longrightarrow> next_fault s = s" "mbFaults s = [] \<Longrightarrow> \<not> faulty s"
  by (simp_all add: next_fault_def faulty_def)

lemma on_channel_none [simp]: "mbFaults s = [] \<Longrightarrow> mbAlive s \<Longrightarrow> on_channel f s = f s"
  by (simp add: on_channel_def)

lemma mem_management: "newManagementClient mem_rabbit_client =
    Ok \<lparr>mcBaseURL = ''http://mq:15672'', mcUser = ''guest'', mcPass = ''guest'', mcVhost = ''%2F''\<rparr>"
  by (simp add: newManagementClient_def managementURL_def mem_rabbit_client_def TrimPrefix_def HasPrefix_def)

lemma mem_getMessages:
  assumes "mbFaults s = []" "mb_known s q"
  shows "getMessages mem_rabbit_client c q k s = (Ok (map render (take (nat k) (mb_ready s q))), s)"
  using assms by (auto simp: getMessages_def mem_rabbit_client_def queue_at_path do_request_def mb_ready_def mb_known_def)

lemma mem_inspect:
  assumes "mbFaults s = []" "mb_known s q" "q \<noteq> []" "i \<noteq> []" "length (mb_ready s q) < 1000"
    and "find_message i (map (\<lambda>d. toMessageFromMgmt (render d) q) (mb_ready s q)) = Some m"
  shows "rabbit_inspect (Some mem_rabbit_client) q i s = (Ok m, s)"
proof -
  have "peekMessages mem_rabbit_client c q 1000 10000 s = (Ok (map render (mb_ready s q)), s)" for c
    using assms(1,2,5) by (simp add: peekMessages_def peek_loop.simps mem_getMessages)
  then show ?thesis using assms(3,4,6) by (simp add: rabbit_inspect_def mem_management comp_def)
qed

lemma mem_stats: "mbFaults s = [] \<Longrightarrow> mb_known s q \<Longrightarrow> q \<noteq> [] \<Longrightarrow> \<exists>st. rabbit_stats (Some mem_rabbit_client) q s = (Ok st, s)"
  by (simp add: rabbit_stats_def mem_rabbit_client_def)

lemma mem_publish:
  assumes "mbFaults s = []" "mb_inv s" "q \<noteq> []"
  shows "\<exists>s'. rabbit_publish (Some mem_rabbit_client) q m s = (None, s') \<and> mbFaults s' = []"
proof -
  have "mbFaults (mb_close (mb_append q d s)) = []" "mbUnacked (mb_append q d s) = []" if "mbFaults s = []" "mbUnacked s = []" for s d
    using that by (simp_all add: mb_append_def mb_close_def mb_put_def)
  moreover have "mbFaults (mb_append q d s) = mbFaults s" for d s by (simp add: mb_append_def mb_put_def)
  ultimately show ?thesis
    using assms by (simp add: rabbit_publish_def mem_rabbit_client_def mb_request_def mb_inv_def)
qed

lemma mem_scan:
  "mbFaults s = [] \<Longrightarrow> mbAlive s \<Longrightarrow> \<exists>d \<in> set (mb_ready s q). delivery_id d = i \<Longrightarrow>
   \<exists>t held' s'. ack_scan mem_rabbit_client q i held s = Some (Found t, held', s') \<and> mbAlive s' \<and> mbFaults s' = []"
proof (induction "mb_ready s q" arbitrary: s held)
  case (Cons d ds)
  define s1 where "s1 = (mb_put q ds s)\<lparr>mbUnacked := mbUnacked s @ [(mbTag s, q, d)], mbTag := Suc (mbTag s)\<rparr>"
  have s1: "mbFaults s1 = []" "mbAlive s1" "mb_ready s1 q = ds"
    using Cons.prems by (simp_all add: s1_def mb_put_def mb_ready_def)
  have g: "rbGet mem_rabbit_client q s = (Ok (Some (mbTag s, d)), s1)"
    using Cons.prems Cons.hyps(2)[symmetric] by (simp add: mem_rabbit_client_def mb_get_def s1_def)
  show ?case
  proof (cases "delivery_id d = i")
    case True
    then show ?thesis using s1 by (subst ack_scan.simps) (simp add: g delivery_id_def)
  next
    case False
    then have "\<exists>d \<in> set (mb_ready s1 q). delivery_id d = i" using Cons.prems(3) Cons.hyps(2)[symmetric] s1(3) by auto
    from Cons.hyps(1)[OF s1(3)[symmetric] s1(1,2) this, of "held @ [mbTag s]"] show ?thesis
      using False by (subst ack_scan.simps) (simp add: g delivery_id_def)
  qed
qed simp

lemma mem_ack:
  assumes "mbFaults s = []" "q \<noteq> []" "i \<noteq> []" "\<exists>d \<in> set (mb_ready s q). delivery_id d = i"
  shows "\<exists>s'. rabbit_ack (Some mem_rabbit_client) q i s = Some (None, s')"
proof -
  let ?s = "s\<lparr>mbAlive := True\<rparr>"
  obtain t held s' where s': "ack_scan mem_rabbit_client q i [] ?s = Some (Found t, held, s')" "mbAlive s'" "mbFaults s' = []"
    using mem_scan[of ?s q i "[]"] assms by auto
  have "rbChannel mem_rabbit_client s = (None, ?s)" "rbQos mem_rabbit_client ?s = (None, ?s)"
    "\<exists>s2. rbAck mem_rabbit_client t s' = (None, s2)"
    using assms(1) s'(2,3) by (simp_all add: mem_rabbit_client_def mb_request_def)
  then show ?thesis using assms(2,3) s'(1) by (auto simp: rabbit_ack_def ack_found_def)
qed

lemma mem_execute:
  assumes "mbFaults (wServer w) = []" "mb_inv (wServer w)" "mb_known (wServer w) (rqQueue r)" "rqQueue r \<noteq> []"
    and "length (mb_ready (wServer w) (rqQueue r)) < 1000" "rqConfirm r" "rqMessageID r \<noteq> []"
    and "find_message (rqMessageID r)
      (map (\<lambda>d. toMessageFromMgmt (render d) (rqQueue r)) (mb_ready (wServer w) (rqQueue r))) = Some m"
    and "resolveDestination (rqDestination r) m = Ok dest" "mb_known (wServer w) dest"
    and "\<exists>d \<in> set (mb_ready (wServer w) (rqQueue r)). delivery_id d = rqMessageID r"
  shows "\<exists>x w'. Execute env (rabbit_broker (Some mem_rabbit_client)) r w = (Ok x, w')"
proof -
  let ?b = "rabbit_broker (Some mem_rabbit_client)"
  obtain w1 where 1: "do_inspect ?b (rqQueue r) (rqMessageID r) w = (Ok m, w1)" "wServer w1 = wServer w"
    using mem_inspect[OF assms(1,3,4,7,5,8)] by (auto simp: do_inspect_def rabbit_broker_def)
  have "dest \<noteq> []" using resolveDestination_Ok[OF assms(9)] by simp
  then obtain st w2 where 2: "do_stats ?b dest w1 = (Ok st, w2)" "wServer w2 = wServer w"
    using mem_stats[OF assms(1,10)] 1(2) by (auto simp: do_stats_def rabbit_broker_def)
  obtain s3 where s3: "rabbit_publish (Some mem_rabbit_client) dest (published_message r m) (wServer w) = (None, s3)"
      "mbFaults s3 = []"
    using mem_publish[OF assms(1,2) \<open>dest \<noteq> []\<close>] by blast
  then obtain w3 where 3: "do_publish ?b dest (published_message r m) w2 = (None, w3)" "wServer w3 = s3"
    using 2(2) by (auto simp: do_publish_def rabbit_broker_def)
  have "appended mb_ready dest (publishing (published_message r m)) (wServer w) s3"
    using memr.rabbit_publish_effect[OF assms(2,10) s3(1)] by simp
  then have "\<exists>d \<in> set (mb_ready s3 (rqQueue r)). delivery_id d = rqMessageID r"
    using assms(11) by (auto simp: appended_def)
  from mem_ack[OF s3(2) assms(4,7) this] obtain w4 where
    4: "do_ack ?b (rqQueue r) (rqMessageID r) w3 = (None, w4)"
    using 3(2) by (auto simp: do_ack_def rabbit_broker_def)
  show ?thesis using 1(1) 2(1) 3(1) 4 assms(6,9) by (auto simp: Execute_def execute_at_def)
qed

lemma mb_message:
  assumes "i \<noteq> []"
  shows "mID (toMessageFromMgmt (render (mb_delivery i b)) q) = i"
    "mDestination (toMessageFromMgmt (render (mb_delivery i b)) q) = ''orders''"
    "mPayload (toMessageFromMgmt (render (mb_delivery i b)) q) = take 50000 b"
proof -
  define m where "m = toMessageFromMgmt (render (mb_delivery i b)) q"
  have "shown (mb_delivery i (take 50000 b)) (render (mb_delivery i b))"
    using render_presented[of "mb_delivery i b"] by (simp add: presented_def timed_def[symmetric])
  from shown_message[OF this, of q]
  have m: "m = (delivered (mb_delivery i (take 50000 b)) q)\<lparr>mHeaders := normalizeJSONHeaders (mgHeaders (render (mb_delivery i b)))\<rparr>"
    by (simp add: m_def)
  have "mID m = i" "mPayload m = take 50000 b"
    unfolding m by (simp_all add: delivered_simps delivery_id_def[symmetric] assms(1))
  moreover have "mDestination m = ''orders''"
    unfolding m by (simp add: delivered_def Let_def case_prod_unfold mb_delivery_def deathInfo_def normalizeHeaders_def hget_def headerString_def)
  ultimately show "mID (toMessageFromMgmt (render (mb_delivery i b)) q) = i"
    "mDestination (toMessageFromMgmt (render (mb_delivery i b)) q) = ''orders''"
    "mPayload (toMessageFromMgmt (render (mb_delivery i b)) q) = take 50000 b" by (simp_all add: m_def)
qed

lemma rabbit_request_simps [simp]:
  "rqQueue (rabbit_request i) = ''orders-dlq''" "rqMessageID (rabbit_request i) = i" "rqDestination (rabbit_request i) = []"
  "rqConfirm (rabbit_request i)" "published_message (rabbit_request i) m = m" "rqPayload (rabbit_request i) = None"
  by (simp_all add: rabbit_request_def published_message_def)

lemma mb_world_simps [simp]: "wServer (mb_world ds fs) = mb_server ds fs"
  by (simp add: mb_world_def)

lemma mb_world_replay:
  assumes "list_all timed ds" "length ds < 1000" "i \<noteq> []" "mb_delivery i b \<in> set ds"
    and "find_message i (map (\<lambda>d. toMessageFromMgmt (render d) ''orders-dlq'') ds) =
      Some (toMessageFromMgmt (render (mb_delivery i b)) ''orders-dlq'')"
  shows "\<exists>x w'. Execute env (rabbit_broker (Some mem_rabbit_client)) (rabbit_request i) (mb_world ds []) = (Ok x, w')"
proof (rule mem_execute)
  show "mb_inv (wServer (mb_world ds []))" using mb_server_inv[OF assms(1)] by simp
  show "resolveDestination (rqDestination (rabbit_request i)) (toMessageFromMgmt (render (mb_delivery i b)) ''orders-dlq'') = Ok ''orders''"
    by (simp add: resolveDestination_def mb_message[OF assms(3)])
  show "\<exists>d \<in> set (mb_ready (wServer (mb_world ds [])) (rqQueue (rabbit_request i))). delivery_id d = rqMessageID (rabbit_request i)"
    using assms(3,4) by (intro bexI[of _ "mb_delivery i b"]) simp_all
qed (use assms in simp_all)


section \<open>Acknowledgement\<close>

text \<open>
  C32: an acknowledgement ends and keeps the order. The adapter takes message after message off the
  queue until it meets the id; on a server that follows AMQP the call returns whatever request fails,
  and afterwards the queue is as before and the call has failed, or it lacks exactly its first
  delivery with the id. All others are where they were, in the same order, and so is every other queue.
\<close>

theorem rabbit_ack_keeps_order:
  assumes "rabbit_server rb ready unacked invar chan alive routable" "invar s"
  shows "\<exists>e s'. rabbit_ack (Some rb) q i s = Some (e, s') \<and> invar s' \<and>
    (e \<noteq> None \<and> ready s' = ready s \<or>
     (\<exists>ds d rest. ready s q = ds @ d # rest \<and> delivery_id d = i \<and> (\<forall>x \<in> set ds. delivery_id x \<noteq> i) \<and>
       ready s' = (ready s)(q := ds @ rest)))"
proof -
  obtain e s' where r: "rabbit_ack (Some rb) q i s = Some (e, s')"
    using rabbit_server.rabbit_ack_returns[OF assms, of q i] by (elim exE)
  show ?thesis by (intro exI conjI) (rule r, rule rabbit_server.rabbit_ack_effect[OF assms r, THEN conjunct1],
      rule rabbit_server.rabbit_ack_effect[OF assms r, THEN conjunct2])
qed

text \<open>A queue of three; the channel breaks while the first message is put back.\<close>

theorem rabbit_ack_keeps_order_witness:
  "\<exists>e s'. rabbit_ack (Some mem_rabbit_client) ''orders-dlq'' ''b''
      (mb_server [mb_delivery ''a'' ''1'', mb_delivery ''b'' ''2'', mb_delivery ''c'' ''3''] [False, False, False, False, False, True])
      = Some (e, s') \<and>
    (mb_ready s' ''orders-dlq'' = [mb_delivery ''a'' ''1'', mb_delivery ''b'' ''2'', mb_delivery ''c'' ''3''] \<or>
     mb_ready s' ''orders-dlq'' = [mb_delivery ''a'' ''1'', mb_delivery ''c'' ''3''])"
proof -
  define ds where "ds = [mb_delivery ''a'' ''1'', mb_delivery ''b'' ''2'', mb_delivery ''c'' ''3'']"
  define s where "s = mb_server ds [False, False, False, False, False, True]"
  have "mb_inv s" unfolding s_def by (rule mb_server_inv) (simp add: ds_def)
  note t = rabbit_ack_keeps_order[OF memr.rabbit_server_axioms this, of "''orders-dlq''" "''b''"]
  obtain e s' where r: "rabbit_ack (Some mem_rabbit_client) ''orders-dlq'' ''b'' s = Some (e, s')"
    and c: "e \<noteq> None \<and> mb_ready s' = mb_ready s \<or> (\<exists>us d rest. mb_ready s ''orders-dlq'' = us @ d # rest \<and>
       delivery_id d = ''b'' \<and> (\<forall>x \<in> set us. delivery_id x \<noteq> ''b'') \<and>
       mb_ready s' = (mb_ready s)(''orders-dlq'' := us @ rest))"
    by (rule exE[OF t], elim exE conjE) (rule that)
  have "us = [mb_delivery ''a'' ''1''] \<and> rest = [mb_delivery ''c'' ''3'']"
    if "ds = us @ d # rest" "delivery_id d = ''b''" "\<forall>x \<in> set us. delivery_id x \<noteq> ''b''" for us d rest
    using that by (cases us; cases "tl us") (auto simp: ds_def)
  then have "mb_ready s' ''orders-dlq'' = ds \<or> mb_ready s' ''orders-dlq'' = [mb_delivery ''a'' ''1'', mb_delivery ''c'' ''3'']"
    using c unfolding s_def mb_server_ready by fastforce
  then show ?thesis using r unfolding s_def ds_def by blast
qed

section \<open>Reading a long queue\<close>

text \<open>
  An inspection sees only the first thousand messages. The adapter asks for up to ten pages of a
  thousand, but the management API puts what it shows back and starts every page at the head. So in a
  queue of a thousand messages or more no message behind them is found, whatever requests are answered.
\<close>

theorem rabbit_inspect_first_page_only:
  assumes "rabbit_server rb ready unacked invar chan alive routable" "invar s"
    and "list_all plain (ready s q)" "1000 \<le> length (ready s q)"
    and "\<forall>d \<in> set (take 1000 (ready s q)). delivery_id (cut d) \<noteq> i"
  shows "\<not> is_Ok (fst (rabbit_inspect (Some rb) q i s))"
  using rabbit_server.inspect_first_page[OF assms] .

text \<open>The message of interest is behind a thousand others.\<close>

theorem rabbit_inspect_first_page_only_witness:
  "let ds = replicate 1000 (mb_delivery ''a'' ''x'') @ [mb_delivery ''b'' ''y''] in
   mb_delivery ''b'' ''y'' \<in> set (mb_ready (mb_server ds []) ''orders-dlq'') \<and>
   \<not> is_Ok (fst (rabbit_inspect (Some mem_rabbit_client) ''orders-dlq'' ''b'' (mb_server ds [])))"
proof -
  define ds where "ds = replicate 1000 (mb_delivery ''a'' ''x'') @ [mb_delivery ''b'' ''y'']"
  have "list_all timed ds" "list_all plain ds" by (simp_all add: ds_def list_all_iff)
  moreover have "\<forall>d \<in> set (take 1000 ds). delivery_id (cut d) \<noteq> ''b''" by (simp add: ds_def)
  moreover have "1000 \<le> length ds" by (simp add: ds_def)
  ultimately have "\<not> is_Ok (fst (rabbit_inspect (Some mem_rabbit_client) ''orders-dlq'' ''b'' (mb_server ds [])))"
    using rabbit_inspect_first_page_only[OF memr.rabbit_server_axioms mb_server_inv, of ds "[]" "''orders-dlq''" "''b''"]
    by simp
  moreover have "mb_delivery ''b'' ''y'' \<in> set (mb_ready (mb_server ds []) ''orders-dlq'')" by (simp add: ds_def)
  ultimately show ?thesis unfolding Let_def ds_def by blast
qed

text \<open>
  A search of a long queue is a search of its head, repeated. With \<open>j\<close> pages of five hundred (ten
  when the filter asks for at most 5000 messages), the messages searched are the first five hundred
  of the queue \<open>j\<close> times over: a message of the head is found \<open>j\<close> times and every other never.
\<close>

theorem rabbit_search_repeats:
  assumes "rabbit_server rb ready unacked invar chan alive routable" "invar s"
    and "list_all plain (ready s q)" "500 \<le> length (ready s q)" "scan_cap f = 500 * int j"
    and "fst (rabbit_search (Some rb) q f s) = Ok ms"
  shows "\<exists>xs. ms = Filter xs f \<and> map norm_headers xs = concat (replicate j (take 500 (peek_view ready s q)))"
  using rabbit_server.search_repeats[OF assms] .

lemma filter_all: "filter_loop (limit_filter 0) 0 out ms = out @ ms"
proof (induction ms arbitrary: out)
  case (Cons m ms)
  have "Match m (limit_filter 0)" by (simp add: Match_def limit_filter_def matchesFields_def IsZero_def)
  then show ?case using Cons by (simp add: limit_filter_def)
qed simp

lemma mem_peek_full:
  assumes "mbFaults s = []" "mb_known s q" "500 \<le> length (mb_ready s q)"
  shows "peek_loop mem_rabbit_client c q 500 (int (length out + j * 500)) out s =
    (Ok (out @ concat (replicate j (map render (take 500 (mb_ready s q))))), s)"
proof (induction j arbitrary: out)
  case (Suc j)
  have "min 500 (int (length out + Suc j * 500) - int (length out)) = 500" by simp
  then show ?case
    using Suc.IH[of "out @ map render (take 500 (mb_ready s q))"] assms
    by (subst peek_loop.simps) (simp add: Let_def mem_getMessages add.assoc add.commute add.left_commute)
qed (simp add: peek_loop.simps)

text \<open>A queue of five hundred messages, searched without a filter: five thousand results.\<close>

theorem rabbit_search_repeats_witness:
  "\<exists>ms. fst (rabbit_search (Some mem_rabbit_client) ''orders-dlq'' (limit_filter 0)
       (mb_server (replicate 500 (mb_delivery ''a'' ''x'')) [])) = Ok ms \<and> length ms = 5000 \<and>
     set (map mID ms) = {''a''}"
proof -
  define ds where "ds = replicate 500 (mb_delivery ''a'' ''x'')"
  have n: "length ds = 500" "mb_known (mb_server ds []) ''orders-dlq''" "mbFaults (mb_server ds []) = []"
    by (simp_all add: ds_def)
  have cap: "scan_cap (limit_filter 0) = 5000" by (simp add: scan_cap_def limit_filter_def Let_def add64_def)
  define raws where "raws = concat (replicate 10 (map render ds))"
  have "peekMessages mem_rabbit_client c ''orders-dlq'' 500 5000 (mb_server ds []) = (Ok raws, mb_server ds [])" for c
    using mem_peek_full[of "mb_server ds []" "''orders-dlq''" c "[]" 10] n by (simp add: peekMessages_def raws_def)
  then obtain ms where ms: "fst (rabbit_search (Some mem_rabbit_client) ''orders-dlq'' (limit_filter 0) (mb_server ds [])) = Ok ms"
    by (auto simp: rabbit_search_def mem_management cap)
  have "list_all timed ds" "list_all plain ds" by (simp_all add: ds_def list_all_iff)
  then obtain xs where xs: "ms = Filter xs (limit_filter 0)"
      "map norm_headers xs = concat (replicate 10 (take 500 (peek_view mb_ready (mb_server ds []) ''orders-dlq'')))"
    using rabbit_search_repeats[OF memr.rabbit_server_axioms mb_server_inv _ _ _ ms, of 10] n(1) cap by auto
  have m: "ms = xs" using xs(1) filter_all[of "[]" xs] by (simp add: Filter_def limit_filter_def)
  define h where "h = replicate 500 (as_message ''orders-dlq'' (mb_delivery ''a'' ''x''))"
  have x: "map norm_headers xs = concat (replicate 10 h)" using xs(2) by (simp add: h_def ds_def peek_view_def)
  have "mID ` set xs = mID ` set (map norm_headers xs)" by (simp add: image_image)
  also have "\<dots> = {''a''}" unfolding x by (auto simp: h_def)
  finally have i: "mID ` set xs = {''a''}" .
  have "length xs = length (map norm_headers xs)" by simp
  also have "\<dots> = 5000" unfolding x by (simp add: length_concat sum_list_replicate h_def)
  finally show ?thesis using ms i by (intro exI[of _ ms]) (simp add: m ds_def)
qed

section \<open>Large payloads\<close>



end
