(* ===== verification/Batch_Workers.thy ===== *)
theory Batch_Workers
  imports Executor_Properties
begin

text \<open>
  The worker pool of a batch (\<^verbatim>\<open>runBatch\<close> in \<^verbatim>\<open>internal/recovery/executor.go\<close>): goroutines
  take the indices of the batch from an unbuffered channel and process each message by themselves.
  One step of a worker is one call to the limiter, the broker or the audit store, and the steps of
  the workers interleave in any order. Proved for every interleaving: an acknowledgement follows a
  confirmed publish of its message, a run ends with an outcome for every message, and one worker
  does what \<open>batch_items\<close> does.
\<close>

section \<open>One message, call by call\<close>

datatype phase =
    Waiting
  | Looking
  | Publishing message nat   \<comment> \<open>attempts that are left\<close>
  | Acking message
  | Keeping message
  | Recording outcome string

text \<open>The next phase, or the outcome.\<close>

fun phase_step ::
    "env \<Rightarrow> 'w broker \<Rightarrow> recovery_plan \<Rightarrow> executor_options \<Rightarrow> string \<Rightarrow> phase \<Rightarrow> 'w world \<Rightarrow>
     (phase + outcome) \<times> 'w world" where
  "phase_step env b plan opts i Waiting w =
     (case limiter_wait env w of
        (False, w) \<Rightarrow> (Inr Publish_failed, w)
      | (True, w) \<Rightarrow> (Inl Looking, w))"
| "phase_step env b plan opts i Looking w =
     (case do_inspect b (plQueue plan) i w of
        (Inl e, w) \<Rightarrow> (Inl (Recording Publish_failed ''message vanished before replay''), w)
      | (Inr m, w) \<Rightarrow> (Inl (Publishing m (attempts opts)), w))"
| "phase_step env b plan opts i (Publishing m 0) w =
     (Inl (Recording Publish_failed ''publish failed after retries; DLQ copy left in place''), w)"
| "phase_step env b plan opts i (Publishing m (Suc n)) w =
     (case do_publish b (plDestination plan) m w of
        (None, w) \<Rightarrow> (Inl (Acking m), w)
      | (Some e, w) \<Rightarrow> (Inl (Publishing m n), w))"
| "phase_step env b plan opts i (Acking m) w =
     (case do_ack b (plQueue plan) i w of
        (Some e, w) \<Rightarrow> (Inl (Recording Ack_failed ''published but ack failed; message may be duplicated''), w)
      | (None, w) \<Rightarrow> (Inl (Keeping m), w))"
| "phase_step env b plan opts i (Keeping m) w = (Inl (Recording Replayed_ok []), take_snapshot env plan m w)"
| "phase_step env b plan opts i (Recording r detail) w =
     (Inr r, audit env plan i (outcome_text r) opts detail w)"

text \<open>A bound on the calls that are left.\<close>

fun calls_left :: "executor_options \<Rightarrow> phase \<Rightarrow> nat" where
  "calls_left opts Waiting = attempts opts + 5"
| "calls_left opts Looking = attempts opts + 4"
| "calls_left opts (Publishing m n) = n + 3"
| "calls_left opts (Acking m) = 3"
| "calls_left opts (Keeping m) = 2"
| "calls_left opts (Recording r detail) = 1"

lemma phase_step_left: "phase_step env b plan opts i p w = (Inl p', w') \<Longrightarrow> calls_left opts p' < calls_left opts p"
  by (cases "(env, b, plan, opts, i, p, w)" rule: phase_step.cases)
    (auto split: prod.splits bool.splits sum.splits option.splits)

function run_phases ::
    "env \<Rightarrow> 'w broker \<Rightarrow> recovery_plan \<Rightarrow> executor_options \<Rightarrow> string \<Rightarrow> phase \<Rightarrow> 'w world \<Rightarrow>
     outcome \<times> 'w world" where
  "run_phases env b plan opts i p w =
     (case phase_step env b plan opts i p w of
        (Inl p', w') \<Rightarrow> run_phases env b plan opts i p' w'
      | (Inr r, w') \<Rightarrow> (r, w'))"
  by pat_completeness auto
termination
  by (relation "measure (\<lambda>(env, b, plan, opts, i, p, w). calls_left opts p)") (auto dest: phase_step_left[OF sym])

declare run_phases.simps [simp del]

lemma run_recording: "run_phases env b plan opts i (Recording r detail) w = (r, audit env plan i (outcome_text r) opts detail w)"
  by (simp add: run_phases.simps)

lemma run_acking:
  "run_phases env b plan opts i (Acking m) w =
     (case do_ack b (plQueue plan) i w of
        (Some e, w) \<Rightarrow> (Ack_failed, audit env plan i ''ack_failed'' opts ''published but ack failed; message may be duplicated'' w)
      | (None, w) \<Rightarrow> (Replayed_ok, audit env plan i ''success'' opts [] (take_snapshot env plan m w)))"
  by (subst run_phases.simps)
    (auto simp: run_recording run_phases.simps[of _ _ _ _ _ "Keeping _"] split: prod.splits option.splits)

lemma run_publishing:
  "run_phases env b plan opts i (Publishing m n) w =
     (case publish_retry b (plDestination plan) m n w of
        (False, w) \<Rightarrow> (Publish_failed, audit env plan i ''publish_failed'' opts
             ''publish failed after retries; DLQ copy left in place'' w)
      | (True, w) \<Rightarrow> run_phases env b plan opts i (Acking m) w)"
proof (induction n arbitrary: w)
  case 0
  show ?case by (simp add: run_phases.simps[of _ _ _ _ _ "Publishing _ _"] run_recording)
next
  case (Suc n)
  show ?case by (subst run_phases.simps) (auto simp: Suc.IH split: prod.splits option.splits)
qed

text \<open>Call by call, a message is processed as \<open>batch_item\<close> says.\<close>

lemma run_batch_item: "run_phases env b plan opts i Waiting w = batch_item env b plan opts i w"
  by (auto simp: run_phases.simps[of _ _ _ _ _ Waiting] run_phases.simps[of _ _ _ _ _ Looking] run_publishing run_acking
      batch_item_def process_def run_recording split: prod.splits bool.splits sum.splits option.splits)

section \<open>The pool\<close>

datatype worker = Idle | Busy nat phase   \<comment> \<open>the index it works on\<close>

record 'w pool =
  plNext :: nat   \<comment> \<open>the index the feeder offers next\<close>
  plWorkers :: "worker list"
  plResults :: "outcome option list"
  plWorld :: "'w world"

definition worker_count :: "executor_options \<Rightarrow> string list \<Rightarrow> nat" where
  "worker_count opts is =
     (let n = (if xoConcurrency opts \<le> 0 then 1 else xoConcurrency opts) in nat (min n (int (length is))))"

definition start_pool :: "executor_options \<Rightarrow> string list \<Rightarrow> 'w world \<Rightarrow> 'w pool" where
  "start_pool opts is w =
     \<lparr>plNext = 0, plWorkers = replicate (worker_count opts is) Idle,
      plResults = replicate (length is) None, plWorld = w\<rparr>"

text \<open>
  An idle worker takes the index the feeder offers; a busy one makes its next call. A worker is gone
  when it is idle and the feeder has closed the channel.
\<close>

inductive pool_step ::
    "env \<Rightarrow> 'w broker \<Rightarrow> recovery_plan \<Rightarrow> executor_options \<Rightarrow> string list \<Rightarrow> 'w pool \<Rightarrow> 'w pool \<Rightarrow> bool"
  for env b plan opts "is" where
  takes: "k < length (plWorkers st) \<Longrightarrow> plWorkers st ! k = Idle \<Longrightarrow> plNext st < length is \<Longrightarrow>
    pool_step env b plan opts is st
      (st\<lparr>plNext := Suc (plNext st), plWorkers := (plWorkers st)[k := Busy (plNext st) Waiting]\<rparr>)"
| calls: "k < length (plWorkers st) \<Longrightarrow> plWorkers st ! k = Busy j p \<Longrightarrow>
    phase_step env b plan opts (is ! j) p (plWorld st) = (Inl p', w) \<Longrightarrow>
    pool_step env b plan opts is st (st\<lparr>plWorkers := (plWorkers st)[k := Busy j p'], plWorld := w\<rparr>)"
| finishes: "k < length (plWorkers st) \<Longrightarrow> plWorkers st ! k = Busy j p \<Longrightarrow>
    phase_step env b plan opts (is ! j) p (plWorld st) = (Inr r, w) \<Longrightarrow>
    pool_step env b plan opts is st
      (st\<lparr>plWorkers := (plWorkers st)[k := Idle], plResults := (plResults st)[j := Some r], plWorld := w\<rparr>)"

inductive_cases pool_stepE: "pool_step env b plan opts is st st'"

abbreviation pool_run where
  "pool_run env b plan opts is w st \<equiv> (pool_step env b plan opts is)\<^sup>*\<^sup>* (start_pool opts is w) st"

definition stuck :: "env \<Rightarrow> 'w broker \<Rightarrow> recovery_plan \<Rightarrow> executor_options \<Rightarrow> string list \<Rightarrow> 'w pool \<Rightarrow> bool" where
  "stuck env b plan opts is st = (\<nexists>st'. pool_step env b plan opts is st st')"

section \<open>Every run ends\<close>

definition worker_left :: "executor_options \<Rightarrow> worker \<Rightarrow> nat" where
  "worker_left opts x = (case x of Idle \<Rightarrow> 0 | Busy j p \<Rightarrow> calls_left opts p)"

definition pool_left :: "executor_options \<Rightarrow> string list \<Rightarrow> 'w pool \<Rightarrow> nat" where
  "pool_left opts is st =
     (length is - plNext st) * (attempts opts + 6) + sum_list (map (worker_left opts) (plWorkers st))"

lemma sum_update:
  fixes f :: "'a \<Rightarrow> nat"
  assumes "k < length xs"
  shows "sum_list (map f (xs[k := x])) + f (xs ! k) = sum_list (map f xs) + f x"
  using assms by (induction xs arbitrary: k) (auto simp: nth_Cons split: nat.splits)

lemma sum_update_less:
  "k < length xs \<Longrightarrow> f x < f (xs ! k) \<Longrightarrow> sum_list (map f (xs[k := x])) < sum_list (map (f :: 'a \<Rightarrow> nat) xs)"
  using sum_update[of k xs f x] by linarith

lemma pool_step_left: "pool_step env b plan opts is st st' \<Longrightarrow> pool_left opts is st' < pool_left opts is st"
proof (induction rule: pool_step.induct)
  case (takes k st)
  define r where "r = length is - Suc (plNext st)"
  have "length is - plNext st = Suc r" using takes(3) by (simp add: r_def)
  moreover have "sum_list (map (worker_left opts) ((plWorkers st)[k := Busy (plNext st) Waiting])) =
      sum_list (map (worker_left opts) (plWorkers st)) + (attempts opts + 5)"
    using sum_update[OF takes(1), of "worker_left opts" "Busy (plNext st) Waiting"] takes(2) by (simp add: worker_left_def)
  ultimately show ?case by (simp add: pool_left_def r_def[symmetric])
next
  case (calls k st j p p' w)
  then show ?case
    using sum_update_less[OF calls(1), of "worker_left opts" "Busy j p'"] phase_step_left[OF calls(3)]
    by (simp add: pool_left_def worker_left_def)
next
  case (finishes k st j p r w)
  have "0 < calls_left opts p" by (cases p) simp_all
  then show ?case
    using sum_update_less[OF finishes(1), of "worker_left opts" Idle] finishes(2)
    by (simp add: pool_left_def worker_left_def)
qed

lemma pool_run_left:
  "(pool_step env b plan opts is ^^ n) st st' \<Longrightarrow> n + pool_left opts is st' \<le> pool_left opts is st"
proof (induction n arbitrary: st')
  case (Suc n)
  then obtain st1 where "(pool_step env b plan opts is ^^ n) st st1" "pool_step env b plan opts is st1 st'" by auto
  then show ?case using Suc.IH pool_step_left by fastforce
qed simp

section \<open>Which message each worker has\<close>

definition index_of :: "worker \<Rightarrow> nat option" where
  "index_of x = (case x of Idle \<Rightarrow> None | Busy j p \<Rightarrow> Some j)"

definition held :: "'w pool \<Rightarrow> nat option list" where
  "held st = map index_of (plWorkers st)"

definition pool_ok :: "string list \<Rightarrow> 'w pool \<Rightarrow> bool" where
  "pool_ok is st =
     (length (plResults st) = length is \<and> plNext st \<le> length is \<and>
      (\<forall>j. Some j \<in> set (held st) \<longrightarrow> j < plNext st) \<and>
      (\<forall>k k' j. k < length (held st) \<longrightarrow> k' < length (held st) \<longrightarrow>
         held st ! k = Some j \<longrightarrow> held st ! k' = Some j \<longrightarrow> k = k') \<and>
      (\<forall>j < length is. plResults st ! j = None \<longleftrightarrow> plNext st \<le> j \<or> Some j \<in> set (held st)))"

lemma pool_okI:
  assumes "length (plResults st) = length is" "plNext st \<le> length is"
    and "\<And>j. Some j \<in> set (held st) \<Longrightarrow> j < plNext st"
    and "\<And>k k' j. k < length (held st) \<Longrightarrow> k' < length (held st) \<Longrightarrow> held st ! k = Some j \<Longrightarrow> held st ! k' = Some j \<Longrightarrow> k = k'"
    and "\<And>j. j < length is \<Longrightarrow> plResults st ! j = None \<longleftrightarrow> plNext st \<le> j \<or> Some j \<in> set (held st)"
  shows "pool_ok is st"
  using assms unfolding pool_ok_def by blast

lemma pool_ok_inj:
  assumes "pool_ok is st" "k < length (held st)" "k' < length (held st)" "held st ! k = Some j" "held st ! k' = Some j"
  shows "k = k'"
proof -
  have "\<forall>k k' j. k < length (held st) \<longrightarrow> k' < length (held st) \<longrightarrow> held st ! k = Some j \<longrightarrow> held st ! k' = Some j \<longrightarrow> k = k'"
    using assms(1) unfolding pool_ok_def by (elim conjE)
  then show ?thesis using assms(2-5) by blast
qed

lemma pool_ok_busy:
  assumes "pool_ok is st" "Busy j p \<in> set (plWorkers st)"
  shows "j < length is" "j < length (plResults st)" "plResults st ! j = None" "is ! j \<in> set is"
proof -
  have "Some j \<in> set (held st)" using assms(2) by (force simp: held_def index_of_def)
  then show "j < length is" "j < length (plResults st)" "plResults st ! j = None" "is ! j \<in> set is"
    using assms(1) by (auto simp: pool_ok_def)
qed

lemma start_pool_ok: "pool_ok is (start_pool opts is w)"
  by (auto simp: pool_ok_def start_pool_def held_def index_of_def)

lemma in_update: "k < length xs \<Longrightarrow> y \<in> set (xs[k := x]) \<longleftrightarrow> y = x \<or> (\<exists>l < length xs. l \<noteq> k \<and> xs ! l = y)"
  by (auto simp: in_set_conv_nth nth_list_update)

lemma pool_step_ok:
  assumes "pool_step env b plan opts is st st'" "pool_ok is st"
  shows "pool_ok is st'"
  using assms
proof (induction rule: pool_step.induct)
  case (takes k st)
  have h: "held (st\<lparr>plNext := Suc (plNext st), plWorkers := (plWorkers st)[k := Busy (plNext st) Waiting]\<rparr>) =
      (held st)[k := Some (plNext st)]" "k < length (held st)" "held st ! k = None"
    using takes(1,2) by (simp_all add: held_def map_update index_of_def)
  have in_held: "Some j \<in> set ((held st)[k := Some (plNext st)]) \<longleftrightarrow> j = plNext st \<or> Some j \<in> set (held st)" for j
    unfolding in_update[OF h(2)] using h(3) by (auto simp: in_set_conv_nth)
  show ?case
  proof (rule pool_okI, unfold h(1))
    fix l l' j
    assume "l < length ((held st)[k := Some (plNext st)])" "l' < length ((held st)[k := Some (plNext st)])"
      "(held st)[k := Some (plNext st)] ! l = Some j" "(held st)[k := Some (plNext st)] ! l' = Some j"
    moreover have "m < length (held st) \<Longrightarrow> held st ! m \<noteq> Some (plNext st)" for m
      using takes(4) nth_mem[of m "held st"] unfolding pool_ok_def by (metis less_irrefl)
    moreover have "m < length (held st) \<Longrightarrow> m' < length (held st) \<Longrightarrow> held st ! m = Some j \<Longrightarrow>
        held st ! m' = Some j \<Longrightarrow> m = m'" for m m'
      by (rule pool_ok_inj[OF takes(4)])
    ultimately show "l = l'" using h(2) by (cases "l = k"; cases "l' = k") auto
  qed (use takes(3,4) in \<open>auto simp: pool_ok_def in_held\<close>)
next
  case (calls k st j p p' w)
  have "held (st\<lparr>plWorkers := (plWorkers st)[k := Busy j p'], plWorld := w\<rparr>) = held st"
    using calls(1,2) by (auto simp: held_def map_update index_of_def list_update_same_conv)
  then show ?case using calls(4) by (simp add: pool_ok_def)
next
  case (finishes k st j p r w)
  have h: "held (st\<lparr>plWorkers := (plWorkers st)[k := Idle], plResults := (plResults st)[j := Some r], plWorld := w\<rparr>) =
      (held st)[k := None]" "k < length (held st)" "held st ! k = Some j"
    using finishes(1,2) by (simp_all add: held_def map_update index_of_def)
  have inj: "l = k" if "l < length (held st)" "held st ! l = Some j" for l
    by (rule pool_ok_inj[OF finishes(4) that(1) h(2) that(2) h(3)])
  have in_held: "Some l \<in> set ((held st)[k := None]) \<longleftrightarrow> l \<noteq> j \<and> Some l \<in> set (held st)" for l
  proof (cases "l = j")
    case True
    then show ?thesis using inj unfolding in_update[OF h(2)] by auto
  next
    case False
    then show ?thesis using h(3) unfolding in_update[OF h(2)] by (auto simp: in_set_conv_nth)
  qed
  have j: "j < plNext st" "j < length is"
    using finishes(4) nth_mem[OF h(2)] h(3) by (auto simp: pool_ok_def)
  show ?case
  proof (rule pool_okI, unfold h(1))
    fix l l' i
    assume "l < length ((held st)[k := None])" "l' < length ((held st)[k := None])"
      "(held st)[k := None] ! l = Some i" "(held st)[k := None] ! l' = Some i"
    then show "l = l'" using pool_ok_inj[OF finishes(4), of l l' i] h(2) by (cases "l = k"; cases "l' = k") auto
  qed (use finishes(4) j in \<open>auto simp: pool_ok_def in_held nth_list_update\<close>)
qed

lemma pool_step_workers: "pool_step env b plan opts is st st' \<Longrightarrow> length (plWorkers st') = length (plWorkers st)"
  by (induction rule: pool_step.induct) simp_all

lemma pool_run_ok:
  "pool_run env b plan opts is w st \<Longrightarrow> pool_ok is st \<and> length (plWorkers st) = worker_count opts is"
proof (induction rule: rtranclp_induct)
  case base
  then show ?case using start_pool_ok by (auto simp: start_pool_def)
next
  case (step st st')
  then show ?case using pool_step_ok pool_step_workers by metis
qed

text \<open>A pool that is not done can take a step.\<close>

lemma busy_steps:
  assumes "k < length (plWorkers st)" "plWorkers st ! k = Busy j p"
  shows "\<exists>st'. pool_step env b plan opts is st st'"
proof -
  obtain x w where "phase_step env b plan opts (is ! j) p (plWorld st) = (x, w)"
    by (cases "phase_step env b plan opts (is ! j) p (plWorld st)")
  then show ?thesis using pool_step.calls[OF assms] pool_step.finishes[OF assms] by (cases x) blast+
qed

lemma stuck_done:
  assumes "stuck env b plan opts is st" "pool_ok is st" "length (plWorkers st) = worker_count opts is"
  shows "set (plWorkers st) \<subseteq> {Idle} \<and> plNext st = length is \<and> None \<notin> set (plResults st)"
proof -
  have idle: "plWorkers st ! k = Idle" if "k < length (plWorkers st)" for k
    using busy_steps[OF that] assms(1) by (cases "plWorkers st ! k") (auto simp: stuck_def)
  then have i: "set (plWorkers st) \<subseteq> {Idle}" by (auto simp: in_set_conv_nth)
  have "\<not> plNext st < length is"
  proof
    assume "plNext st < length is"
    then have "0 < length (plWorkers st)"
      unfolding assms(3) worker_count_def Let_def by (cases "is") auto
    from pool_step.takes[OF this idle[OF this] \<open>plNext st < length is\<close>] show False
      using assms(1) unfolding stuck_def by blast
  qed
  then have n: "plNext st = length is" using assms(2) by (simp add: pool_ok_def)
  have "Some j \<notin> set (held st)" for j using i by (auto simp: held_def index_of_def)
  then have "None \<notin> set (plResults st)" using assms(2) n by (auto simp: pool_ok_def in_set_conv_nth)
  then show ?thesis using i n by blast
qed

section \<open>What the workers have called\<close>

text \<open>A call that may be made next: an acknowledgement only behind a confirmed publish.\<close>

definition confirmed :: "recovery_plan \<Rightarrow> string \<Rightarrow> call list \<Rightarrow> bool" where
  "confirmed plan i cs =
     list_ex (\<lambda>c. case c of CPublish d m k \<Rightarrow> d = plDestination plan \<and> mID m = i \<and> k | _ \<Rightarrow> False) cs"

definition call_ok :: "recovery_plan \<Rightarrow> string list \<Rightarrow> call list \<Rightarrow> call \<Rightarrow> bool" where
  "call_ok plan is before c =
     (case c of
        CInspect q i k \<Rightarrow> q = plQueue plan \<and> i \<in> set is
      | CPublish d m k \<Rightarrow> d = plDestination plan \<and> mID m \<in> set is
      | CAck q i k \<Rightarrow> q = plQueue plan \<and> i \<in> set is \<and> confirmed plan i before
      | _ \<Rightarrow> False)"

definition calls_ok :: "recovery_plan \<Rightarrow> string list \<Rightarrow> call list \<Rightarrow> bool" where
  "calls_ok plan is cs = (\<forall>k < length cs. call_ok plan is (take k cs) (cs ! k))"

lemma calls_ok_simps [simp]:
  "calls_ok plan is []" "calls_ok plan is (cs @ [c]) \<longleftrightarrow> calls_ok plan is cs \<and> call_ok plan is cs c"
  by (auto simp: calls_ok_def nth_append less_Suc_eq)

definition honest :: "'w broker \<Rightarrow> bool" where
  "honest b = (\<forall>q i s m s'. bInspect b q i s = (Ok m, s') \<longrightarrow> mID m = i)"

lemma honestD: "honest b \<Longrightarrow> bInspect b q i s = (Ok m, s') \<Longrightarrow> mID m = i"
  unfolding honest_def by blast

fun phase_has :: "recovery_plan \<Rightarrow> string \<Rightarrow> call list \<Rightarrow> phase \<Rightarrow> bool" where
  "phase_has plan i cs (Publishing m n) = (mID m = i)"
| "phase_has plan i cs (Acking m) = (mID m = i \<and> confirmed plan i cs)"
| "phase_has plan i cs _ = True"

fun phase_acked :: "phase \<Rightarrow> nat" where
  "phase_acked (Keeping m) = 1"
| "phase_acked (Recording r detail) = (if r = Replayed_ok then 1 else 0)"
| "phase_acked _ = 0"

definition worker_acked :: "worker \<Rightarrow> nat" where
  "worker_acked x = (case x of Idle \<Rightarrow> 0 | Busy j p \<Rightarrow> phase_acked p)"

definition result_acked :: "outcome option \<Rightarrow> nat" where
  "result_acked r = (if r = Some Replayed_ok then 1 else 0)"

lemma confirmed_simps [simp]:
  "confirmed plan i (xs @ ys) \<longleftrightarrow> confirmed plan i xs \<or> confirmed plan i ys"
  "confirmed plan i [CPublish d m k] \<longleftrightarrow> d = plDestination plan \<and> mID m = i \<and> k"
  by (simp_all add: confirmed_def)

lemma phase_has_mono: "phase_has plan i cs p \<Longrightarrow> phase_has plan i (cs @ ds) p"
  by (cases p) simp_all

lemma limiter_trace: "limiter_wait env w = (k, w') \<Longrightarrow> wTrace w' = wTrace w"
  by (auto simp: limiter_wait_def)

lemma phase_step_calls:
  assumes "phase_step env b plan opts i p w = (x, w')" "honest b" "i \<in> set is"
    and "wTrace w = t0 @ cs" "calls_ok plan is cs" "phase_has plan i cs p"
  shows "\<exists>ds. wTrace w' = t0 @ cs @ ds \<and> calls_ok plan is (cs @ ds) \<and>
    acks ds + phase_acked p = (case x of Inl p' \<Rightarrow> phase_acked p' | Inr r \<Rightarrow> result_acked (Some r)) \<and>
    (case x of Inl p' \<Rightarrow> phase_has plan i (cs @ ds) p' | Inr r \<Rightarrow> True)"
proof (cases p)
  case Waiting
  then show ?thesis using assms limiter_trace[of env w]
    by (intro exI[of _ "[]"]) (auto simp: result_acked_def split: prod.splits bool.splits)
next
  case Looking
  obtain r w1 where r: "do_inspect b (plQueue plan) i w = (r, w1)" by (cases "do_inspect b (plQueue plan) i w")
  show ?thesis using assms r Looking do_inspect_frame[OF r]
    by (intro exI[of _ "[CInspect (plQueue plan) i (is_Ok r)]"])
      (auto simp: call_ok_def result_acked_def dest: honestD[OF assms(2)] split: sum.splits)
next
  case (Publishing m n)
  show ?thesis
  proof (cases n)
    case 0
    then show ?thesis using assms Publishing by (intro exI[of _ "[]"]) (auto simp: result_acked_def)
  next
    case (Suc k)
    obtain r w1 where r: "do_publish b (plDestination plan) m w = (r, w1)"
      by (cases "do_publish b (plDestination plan) m w")
    show ?thesis using assms r Publishing Suc do_publish_frame[OF r]
      by (intro exI[of _ "[CPublish (plDestination plan) m (r = None)]"])
        (auto simp: call_ok_def split: option.splits)
  qed
next
  case (Acking m)
  obtain r w1 where r: "do_ack b (plQueue plan) i w = (r, w1)" by (cases "do_ack b (plQueue plan) i w")
  show ?thesis using assms r Acking do_ack_frame[OF r]
    by (intro exI[of _ "[CAck (plQueue plan) i (r = None)]"])
      (auto simp: call_ok_def split: option.splits)
next
  case (Keeping m)
  then show ?thesis using assms by (intro exI[of _ "[]"]) auto
next
  case (Recording r detail)
  then show ?thesis using assms by (intro exI[of _ "[]"]) (auto simp: result_acked_def)
qed

definition pool_traced :: "recovery_plan \<Rightarrow> string list \<Rightarrow> call list \<Rightarrow> 'w pool \<Rightarrow> call list \<Rightarrow> bool" where
  "pool_traced plan is t0 st cs =
     (wTrace (plWorld st) = t0 @ cs \<and> calls_ok plan is cs \<and>
      (\<forall>j p. Busy j p \<in> set (plWorkers st) \<longrightarrow> phase_has plan (is ! j) cs p) \<and>
      acks cs = sum_list (map worker_acked (plWorkers st)) + sum_list (map result_acked (plResults st)))"

lemma pool_step_traced:
  assumes "pool_step env b plan opts is st st'" "honest b" "pool_ok is st" "pool_traced plan is t0 st cs"
  shows "\<exists>ds. pool_traced plan is t0 st' (cs @ ds)"
  using assms
proof (induction rule: pool_step.induct)
  case (takes k st)
  have "sum_list (map worker_acked ((plWorkers st)[k := Busy (plNext st) Waiting])) = sum_list (map worker_acked (plWorkers st))"
    using sum_update[OF takes(1), of worker_acked "Busy (plNext st) Waiting"] takes(2) by (simp add: worker_acked_def)
  then show ?case using takes
    by (intro exI[of _ "[]"]) (auto simp: pool_traced_def dest: set_update_subset_insert[THEN subsetD])
next
  case (calls k st j p p' w)
  have mem: "Busy j p \<in> set (plWorkers st)" using calls(1,2) by (metis nth_mem)
  note j = pool_ok_busy(4)[OF calls(5) mem]
  obtain ds where ds: "wTrace w = t0 @ cs @ ds" "calls_ok plan is (cs @ ds)" "acks ds + phase_acked p = phase_acked p'"
      "phase_has plan (is ! j) (cs @ ds) p'"
    using phase_step_calls[OF calls(3,4) j, of t0 cs] calls(6) mem by (auto simp: pool_traced_def)
  have "sum_list (map worker_acked ((plWorkers st)[k := Busy j p'])) = sum_list (map worker_acked (plWorkers st)) + acks ds"
    using sum_update[OF calls(1), of worker_acked "Busy j p'"] calls(2) ds(3) by (simp add: worker_acked_def)
  then show ?case using calls(6) ds
    by (intro exI[of _ ds])
      (auto simp: pool_traced_def phase_has_mono dest!: set_update_subset_insert[THEN subsetD])
next
  case (finishes k st j p r w)
  have mem: "Busy j p \<in> set (plWorkers st)" using finishes(1,2) by (metis nth_mem)
  note j = pool_ok_busy(4,2,3)[OF finishes(5) mem]
  obtain ds where ds: "wTrace w = t0 @ cs @ ds" "calls_ok plan is (cs @ ds)" "acks ds + phase_acked p = result_acked (Some r)"
    using phase_step_calls[OF finishes(3,4) j(1), of t0 cs] finishes(6) mem by (auto simp: pool_traced_def)
  have "sum_list (map worker_acked ((plWorkers st)[k := Idle])) + phase_acked p = sum_list (map worker_acked (plWorkers st))"
    "sum_list (map result_acked ((plResults st)[j := Some r])) = sum_list (map result_acked (plResults st)) + result_acked (Some r)"
    using sum_update[OF finishes(1), of worker_acked Idle] finishes(2)
      sum_update[OF j(2), of result_acked "Some r"] j(3) by (simp_all add: worker_acked_def result_acked_def)
  then show ?case using finishes(6) ds
    by (intro exI[of _ ds])
      (auto simp: pool_traced_def phase_has_mono dest!: set_update_subset_insert[THEN subsetD])
qed

lemma pool_run_traced:
  assumes "pool_run env b plan opts is w st" "honest b"
  shows "\<exists>cs. pool_traced plan is (wTrace w) st cs"
  using assms(1)
proof (induction rule: rtranclp_induct)
  case base
  have "sum_list (map worker_acked (replicate n Idle)) = 0" "sum_list (map result_acked (replicate n None)) = 0" for n
    by (simp_all add: worker_acked_def result_acked_def)
  then have "pool_traced plan is (wTrace w) (start_pool opts is w) []"
    by (auto simp: pool_traced_def start_pool_def)
  then show ?case by blast
next
  case (step st st')
  then obtain cs where "pool_traced plan is (wTrace w) st cs" by blast
  from pool_step_traced[OF step(2) assms(2) _ this] pool_run_ok[OF step(1)] show ?case by blast
qed

section \<open>One worker\<close>

lemma batch_items_snoc:
  "batch_items env b plan opts is w = (rs, w1) \<Longrightarrow> batch_item env b plan opts i w1 = (r, w2) \<Longrightarrow>
   batch_items env b plan opts (is @ [i]) w = (rs @ [r], w2)"
  by (induction "is" arbitrary: w rs) (auto split: prod.splits)

definition alone :: "env \<Rightarrow> 'w broker \<Rightarrow> recovery_plan \<Rightarrow> executor_options \<Rightarrow> string list \<Rightarrow> 'w world \<Rightarrow> 'w pool \<Rightarrow> bool" where
  "alone env b plan opts is w st =
     (\<exists>j rs w1 x. batch_items env b plan opts (take j is) w = (rs, w1) \<and>
        plResults st = map Some rs @ replicate (length is - j) None \<and> length rs = j \<and> plWorkers st = [x] \<and>
        (case x of
           Idle \<Rightarrow> plNext st = j \<and> j \<le> length is \<and> plWorld st = w1
         | Busy l p \<Rightarrow> l = j \<and> plNext st = Suc j \<and> j < length is \<and>
             run_phases env b plan opts (is ! j) p (plWorld st) = batch_item env b plan opts (is ! j) w1))"

lemma aloneI:
  assumes "batch_items env b plan opts (take j is) w = (rs, w1)"
    and "plResults st = map Some rs @ replicate (length is - j) None" "length rs = j" "plWorkers st = [x]"
    and "case x of
           Idle \<Rightarrow> plNext st = j \<and> j \<le> length is \<and> plWorld st = w1
         | Busy l p \<Rightarrow> l = j \<and> plNext st = Suc j \<and> j < length is \<and>
             run_phases env b plan opts (is ! j) p (plWorld st) = batch_item env b plan opts (is ! j) w1"
  shows "alone env b plan opts is w st"
  unfolding alone_def by (intro exI conjI) (rule assms)+

lemma alone_idle:
  assumes "alone env b plan opts is w st" "k < length (plWorkers st)" "plWorkers st ! k = Idle"
  obtains rs where "batch_items env b plan opts (take (plNext st) is) w = (rs, plWorld st)"
    "plResults st = map Some rs @ replicate (length is - plNext st) None" "length rs = plNext st"
    "plWorkers st = [Idle]" "k = 0" "plNext st \<le> length is"
proof -
  from assms(1) obtain j rs w1 x where a: "batch_items env b plan opts (take j is) w = (rs, w1)"
    "plResults st = map Some rs @ replicate (length is - j) None" "length rs = j" "plWorkers st = [x]"
    "case x of Idle \<Rightarrow> plNext st = j \<and> j \<le> length is \<and> plWorld st = w1 | Busy l p \<Rightarrow> True"
    unfolding alone_def by (elim exE conjE) (rule that, auto split: worker.splits)
  have x: "x = Idle" "k = 0" using assms(2,3) a(4) by simp_all
  then have "plNext st = j" "j \<le> length is" "plWorld st = w1" using a(5) by simp_all
  then show ?thesis using that[of rs] a(1-4) x by blast
qed

lemma alone_busy:
  assumes "alone env b plan opts is w st" "k < length (plWorkers st)" "plWorkers st ! k = Busy j p"
  obtains rs w1 where "batch_items env b plan opts (take j is) w = (rs, w1)"
    "plResults st = map Some rs @ replicate (length is - j) None" "length rs = j"
    "plWorkers st = [Busy j p]" "k = 0" "plNext st = Suc j" "j < length is"
    "run_phases env b plan opts (is ! j) p (plWorld st) = batch_item env b plan opts (is ! j) w1"
proof -
  from assms(1) obtain i rs w1 x where a: "batch_items env b plan opts (take i is) w = (rs, w1)"
    "plResults st = map Some rs @ replicate (length is - i) None" "length rs = i" "plWorkers st = [x]"
    "case x of Idle \<Rightarrow> True | Busy l p \<Rightarrow> l = i \<and> plNext st = Suc i \<and> i < length is \<and>
       run_phases env b plan opts (is ! i) p (plWorld st) = batch_item env b plan opts (is ! i) w1"
    unfolding alone_def by (elim exE conjE) (rule that, auto split: worker.splits)
  have x: "x = Busy j p" "k = 0" using assms(2,3) a(4) by simp_all
  then have "i = j" "plNext st = Suc i" "i < length is"
    "run_phases env b plan opts (is ! i) p (plWorld st) = batch_item env b plan opts (is ! i) w1"
    using a(5) by simp_all
  then show ?thesis using that[of rs w1] a(1-4) x by blast
qed

lemma alone_step:
  assumes "pool_step env b plan opts is st st'" "alone env b plan opts is w st"
  shows "alone env b plan opts is w st'"
  using assms
proof (induction rule: pool_step.induct)
  case (takes k st)
  from alone_idle[OF takes(4,1,2)] obtain rs where h:
    "batch_items env b plan opts (take (plNext st) is) w = (rs, plWorld st)"
    "plResults st = map Some rs @ replicate (length is - plNext st) None" "length rs = plNext st"
    "plWorkers st = [Idle]" "k = 0" "plNext st \<le> length is" .
  show ?case
  proof (rule aloneI[OF h(1) _ h(3), where x = "Busy (plNext st) Waiting"])
  qed (simp_all add: h(2,4,5) takes(3) run_batch_item)
next
  case (calls k st j p p' w')
  from alone_busy[OF calls(4,1,2)] obtain rs w1 where h:
    "batch_items env b plan opts (take j is) w = (rs, w1)"
    "plResults st = map Some rs @ replicate (length is - j) None" "length rs = j"
    "plWorkers st = [Busy j p]" "k = 0" "plNext st = Suc j" "j < length is"
    "run_phases env b plan opts (is ! j) p (plWorld st) = batch_item env b plan opts (is ! j) w1" .
  have "run_phases env b plan opts (is ! j) p' w' = batch_item env b plan opts (is ! j) w1"
    using h(8) calls(3) by (simp add: run_phases.simps[of env b plan opts "is ! j" p])
  then show ?case
    by (intro aloneI[OF h(1) _ h(3), where x = "Busy j p'"]) (simp_all add: h(2,4-7))
next
  case (finishes k st j p r w')
  from alone_busy[OF finishes(4,1,2)] obtain rs w1 where h:
    "batch_items env b plan opts (take j is) w = (rs, w1)"
    "plResults st = map Some rs @ replicate (length is - j) None" "length rs = j"
    "plWorkers st = [Busy j p]" "k = 0" "plNext st = Suc j" "j < length is"
    "run_phases env b plan opts (is ! j) p (plWorld st) = batch_item env b plan opts (is ! j) w1" .
  have "batch_item env b plan opts (is ! j) w1 = (r, w')"
    using h(8) finishes(3) by (simp add: run_phases.simps[of env b plan opts "is ! j" p])
  from batch_items_snoc[OF h(1) this] have b: "batch_items env b plan opts (take (Suc j) is) w = (rs @ [r], w')"
    using h(7) by (simp add: take_Suc_conv_app_nth)
  have "length is - j = Suc (length is - Suc j)" using h(7) by simp
  then have "(map Some rs @ replicate (length is - j) None)[j := Some r] =
      map Some (rs @ [r]) @ replicate (length is - Suc j) None"
    using h(3) by (simp add: list_update_append)
  then show ?case
    by (intro aloneI[OF b, where x = Idle]) (simp_all add: h(2-7) Suc_leI)
qed

lemma alone_run:
  assumes "pool_run env b plan opts is w st" "worker_count opts is = 1"
  shows "alone env b plan opts is w st"
  using assms(1)
proof (induction rule: rtranclp_induct)
  case base
  show ?case by (rule aloneI[where j = 0 and rs = "[]" and x = Idle]) (use assms(2) in \<open>simp_all add: start_pool_def\<close>)
next
  case (step st st')
  then show ?case using alone_step by blast
qed

section \<open>Properties\<close>

text \<open>What \<open>runBatch\<close> counts when all workers are gone.\<close>

definition pool_counts :: "'w pool \<Rightarrow> int \<times> int \<times> int" where
  "pool_counts st =
     (let rs = map the (plResults st)
      in (countOutcome rs Publish_failed + countOutcome rs Ack_failed, countOutcome rs Ack_failed,
          countOutcome rs Replayed_ok))"

lemma count_all: "countOutcome rs Publish_failed + countOutcome rs Ack_failed + countOutcome rs Replayed_ok = int (length rs)"
proof (induction rs)
  case (Cons r rs)
  then show ?case by (cases r) (simp_all add: countOutcome_def)
qed (simp add: countOutcome_def)

lemma count_replayed: "None \<notin> set rs \<Longrightarrow> countOutcome (map the rs) Replayed_ok = int (sum_list (map result_acked rs))"
proof (induction rs)
  case (Cons r rs)
  then show ?case by (cases r) (auto simp: countOutcome_def result_acked_def)
qed (simp add: countOutcome_def)

lemma pool_finishes:
  "\<exists>st'. (pool_step env b plan opts is)\<^sup>*\<^sup>* st st' \<and> stuck env b plan opts is st'"
proof (induction "pool_left opts is st" arbitrary: st rule: less_induct)
  case less
  show ?case
  proof (cases "stuck env b plan opts is st")
    case False
    then obtain st1 where s: "pool_step env b plan opts is st st1" by (auto simp: stuck_def)
    from less[OF pool_step_left[OF s]] show ?thesis using s by (meson converse_rtranclp_into_rtranclp)
  qed blast
qed

lemma start_left: "pool_left opts is (start_pool opts is w) = length is * (attempts opts + 6)"
  by (simp add: pool_left_def start_pool_def worker_left_def sum_list_replicate)

text \<open>
  C4: whatever the workers of a batch interleave, no message is acknowledged before it is published.
  In every state a run of the pool can reach, with any number of workers and any answers of the
  broker, every acknowledgement so far is of a message of the batch in the plan's queue and comes
  after a confirmed publish of the message with that id to the plan's destination; nothing else is
  read, published or acknowledged. When the pool is done, the count of replayed messages is the
  number of successful acknowledgements. The broker is one that answers a lookup with the message asked for.
\<close>

theorem workers_ack_after_publish:
  assumes "honest b" "pool_run env b plan opts is w st"
  shows "\<exists>new. wTrace (plWorld st) = wTrace w @ new \<and> calls_ok plan is new \<and>
    (stuck env b plan opts is st \<longrightarrow> snd (snd (pool_counts st)) = int (acks new))"
proof -
  obtain cs where cs: "pool_traced plan is (wTrace w) st cs" using pool_run_traced[OF assms(2,1)] by blast
  have "snd (snd (pool_counts st)) = int (acks cs)" if "stuck env b plan opts is st"
  proof -
    have d: "set (plWorkers st) \<subseteq> {Idle}" "None \<notin> set (plResults st)"
      using stuck_done[OF that] pool_run_ok[OF assms(2)] by auto
    then have "sum_list (map worker_acked (plWorkers st)) = 0" by (auto simp: worker_acked_def sum_list_eq_0_iff)
    then show ?thesis using cs count_replayed[OF d(2)] by (simp add: pool_traced_def pool_counts_def Let_def)
  qed
  then show ?thesis using cs by (auto simp: pool_traced_def)
qed

lemma honest_val_broker: "honest val_broker"
proof -
  have "mID m = i" if "find_id i ms = Some m" for i ms m
    using that by (induction ms) (auto split: if_splits)
  then show ?thesis by (auto simp: honest_def vb_inspect_def split: option.splits)
qed

theorem workers_ack_after_publish_witness:
  "\<exists>st. pool_run calm val_broker (demo_plan [''m1'', ''m2'']) (demo_options\<lparr>xoConcurrency := 2\<rparr>) [''m1'', ''m2'']
      (val_world (val_server [''m1'', ''m2''])) st \<and>
    length (plWorkers st) = 2 \<and> calls_ok (demo_plan [''m1'', ''m2'']) [''m1'', ''m2''] (wTrace (plWorld st)) \<and>
    snd (snd (pool_counts st)) = int (acks (wTrace (plWorld st)))"
proof -
  define opts where "opts = demo_options\<lparr>xoConcurrency := 2\<rparr>"
  define w where "w = val_world (val_server [''m1'', ''m2''])"
  obtain st where st: "pool_run calm val_broker (demo_plan [''m1'', ''m2'']) opts [''m1'', ''m2''] w st"
      "stuck calm val_broker (demo_plan [''m1'', ''m2'']) opts [''m1'', ''m2''] st"
    using pool_finishes by blast
  have "length (plWorkers st) = 2"
    using pool_run_ok[OF st(1)] by (simp add: worker_count_def opts_def demo_options_def)
  moreover have "calls_ok (demo_plan [''m1'', ''m2'']) [''m1'', ''m2''] (wTrace (plWorld st)) \<and>
      snd (snd (pool_counts st)) = int (acks (wTrace (plWorld st)))"
    using workers_ack_after_publish[OF honest_val_broker st(1)] st(2) by (simp add: w_def)
  ultimately show ?thesis using st(1) unfolding opts_def w_def by blast
qed

text \<open>
  C35: a batch ends. No run of the pool makes more than the number of messages times the attempts plus
  six steps, whatever the order; from every state on the way a state without further steps is
  reached; and in such a state every worker is idle, every message has its outcome, and the failures
  and the replayed messages add up to the size of the batch. In particular no worker waits for ever.
\<close>

theorem workers_finish:
  assumes "(pool_step env b plan opts is ^^ n) (start_pool opts is w) st"
  shows "n \<le> length is * (attempts opts + 6) \<and>
    (\<exists>st'. (pool_step env b plan opts is)\<^sup>*\<^sup>* st st' \<and> stuck env b plan opts is st') \<and>
    (stuck env b plan opts is st \<longrightarrow> set (plWorkers st) \<subseteq> {Idle} \<and> None \<notin> set (plResults st) \<and>
      (case pool_counts st of (failures, ackFailures, replayed) \<Rightarrow> failures + replayed = int (length is)))"
proof -
  have r: "pool_run env b plan opts is w st" using assms by (rule relpowp_imp_rtranclp)
  have "failures + replayed = int (length is)" if "pool_counts st = (failures, ackFailures, replayed)"
    for failures ackFailures replayed
    using that count_all[of "map the (plResults st)"] pool_run_ok[OF r] by (auto simp: pool_counts_def Let_def pool_ok_def)
  then show ?thesis
    using pool_run_left[OF assms] start_left[of opts "is" w] pool_finishes[of env b plan opts "is" st]
      stuck_done[of env b plan opts "is" st] pool_run_ok[OF r] by (auto split: prod.splits)
qed

theorem workers_finish_witness:
  "let is = [''m1'', ''m2'', ''m3'']; opts = demo_options\<lparr>xoConcurrency := 8\<rparr>; w = val_world (val_server is) in
   \<exists>st. pool_run calm val_broker (demo_plan is) opts is w st \<and> length (plWorkers st) = 3 \<and> None \<notin> set (plResults st)"
proof -
  define ms where "ms = [''m1'', ''m2'', ''m3'']"
  define opts where "opts = demo_options\<lparr>xoConcurrency := 8\<rparr>"
  define w where "w = val_world (val_server ms)"
  obtain st where st: "pool_run calm val_broker (demo_plan ms) opts ms w st" "stuck calm val_broker (demo_plan ms) opts ms st"
    using pool_finishes by blast
  obtain n where "(pool_step calm val_broker (demo_plan ms) opts ms ^^ n) (start_pool opts ms w) st"
    using st(1) rtranclp_imp_relpowp by fastforce
  from workers_finish[OF this] st(2) have "None \<notin> set (plResults st)" by blast
  moreover have "length (plWorkers st) = 3"
    using pool_run_ok[OF st(1)] by (simp add: worker_count_def opts_def demo_options_def ms_def)
  ultimately show ?thesis using st(1) unfolding Let_def ms_def opts_def w_def by blast
qed

text \<open>
  C36: with one worker the batch is sequential. Whatever steps it takes, when the pool is done it has
  left the world and counted the outcomes that \<open>runBatch\<close>, one message after the other, does.
\<close>

theorem one_worker_is_sequential:
  assumes "pool_run env b plan opts is w st" "stuck env b plan opts is st" "worker_count opts is = 1"
  shows "runBatch env b plan opts is w = (pool_counts st, plWorld st)"
proof -
  have d: "set (plWorkers st) \<subseteq> {Idle}" "plNext st = length is"
    using stuck_done[OF assms(2)] pool_run_ok[OF assms(1)] by auto
  have "length (plWorkers st) = 1" using pool_run_ok[OF assms(1)] assms(3) by simp
  then have i: "0 < length (plWorkers st)" "plWorkers st ! 0 = Idle" using d(1) by (cases "plWorkers st"; simp)+
  from alone_idle[OF alone_run[OF assms(1,3)] i] obtain rs where
    "batch_items env b plan opts (take (plNext st) is) w = (rs, plWorld st)"
    "plResults st = map Some rs @ replicate (length is - plNext st) None" .
  then show ?thesis using d(2) by (simp add: runBatch_def pool_counts_def Let_def comp_def)
qed

theorem one_worker_is_sequential_witness:
  "\<exists>st. pool_run calm val_broker (demo_plan [''m1'']) demo_options [''m1''] (val_world (val_server [''m1''])) st \<and>
    runBatch calm val_broker (demo_plan [''m1'']) demo_options [''m1''] (val_world (val_server [''m1''])) =
      (pool_counts st, plWorld st)"
proof -
  obtain st where st: "pool_run calm val_broker (demo_plan [''m1'']) demo_options [''m1''] (val_world (val_server [''m1''])) st"
      "stuck calm val_broker (demo_plan [''m1'']) demo_options [''m1''] st"
    using pool_finishes by blast
  have "worker_count demo_options [''m1''] = 1" by (simp add: worker_count_def demo_options_def)
  from one_worker_is_sequential[OF st this] st(1) show ?thesis by blast
qed

end
