(* ===== verification/Config.thy ===== *)
theory Config
  imports Jev Policy
begin

text \<open>
  The configuration of \<^verbatim>\<open>internal/config\<close> (\<^verbatim>\<open>config.go\<close>, \<^verbatim>\<open>profile.go\<close>): the
  document, its profiles, reading and writing it, and the values a profile resolves to. The
  YAML library is not part of the repository: \<open>yaml_codec\<close> is a parameter. The operating
  system is a record of what a run finds there; files are texts by path. Thresholds are
  rational numbers: a NaN, which a flag or a file may hold, is not a value of the model.
\<close>

section \<open>The operating system\<close>

type_synonym files = "string \<Rightarrow> string option"

text \<open>
  \<open>osWriteFails\<close> gives the error of writing a text to a path and what is left in the file.
\<close>

record os =
  osEnv :: "string \<Rightarrow> string option"
  osCwd :: string
  osReadErr :: "string \<Rightarrow> goerr option"
  osMkdirErr :: "string \<Rightarrow> goerr option"
  osWriteFails :: "string \<Rightarrow> string \<Rightarrow> (goerr \<times> string option) option"
  osStoreErr :: "string \<Rightarrow> goerr option"
  osTerminal :: bool
  osStdin :: string

definition Getenv :: "os \<Rightarrow> string \<Rightarrow> string" where
  "Getenv os k = (case osEnv os k of None \<Rightarrow> [] | Some v \<Rightarrow> v)"

definition UserHomeDir :: "os \<Rightarrow> (goerr, string) result" where
  "UserHomeDir os = (if Getenv os ''HOME'' = [] then Err (Text ''$HOME is not defined'') else Ok (Getenv os ''HOME''))"

datatype file_read = Absent | Unreadable goerr | Content string

definition ReadFile :: "os \<Rightarrow> files \<Rightarrow> string \<Rightarrow> file_read" where
  "ReadFile os fs path =
     (case osReadErr os path of Some e \<Rightarrow> Unreadable e
      | None \<Rightarrow> (case fs path of None \<Rightarrow> Absent | Some t \<Rightarrow> Content t))"

definition no_such_file :: "string \<Rightarrow> goerr" where
  "no_such_file path = Text (''open '' @ path @ '': no such file or directory'')"

definition WriteFile :: "os \<Rightarrow> string \<Rightarrow> string \<Rightarrow> files \<Rightarrow> goerr option \<times> files" where
  "WriteFile os path t fs =
     (case osWriteFails os path t of
        None \<Rightarrow> (None, fs(path := Some t))
      | Some (e, left) \<Rightarrow> (Some e, fs(path := left)))"

section \<open>Paths\<close>

text \<open>\<open>filepath.Clean\<close>, \<open>Join\<close>, \<open>Dir\<close> and \<open>Abs\<close> on Unix.\<close>

definition rooted :: "string \<Rightarrow> bool" where
  "rooted p = HasPrefix p ''/''"

fun clean_parts :: "bool \<Rightarrow> string list \<Rightarrow> string list \<Rightarrow> string list" where
  "clean_parts r [] acc = rev acc"
| "clean_parts r (p # ps) acc =
     (if p = [] \<or> p = ''.'' then clean_parts r ps acc
      else if p = ''..'' then
        (case acc of
           a # acc' \<Rightarrow> if a = ''..'' then clean_parts r ps (p # acc) else clean_parts r ps acc'
         | [] \<Rightarrow> clean_parts r ps (if r then [] else [p]))
      else clean_parts r ps (p # acc))"

definition Clean :: "string \<Rightarrow> string" where
  "Clean p =
     (let body = Join (clean_parts (rooted p) (Split (CHR ''/'') p) []) ''/''
      in if rooted p then ''/'' @ body else if body = [] then ''.'' else body)"

definition JoinPath :: "string list \<Rightarrow> string" where
  "JoinPath ps = (let qs = dropWhile (\<lambda>p. p = []) ps in if qs = [] then [] else Clean (Join qs ''/''))"

definition Abs :: "os \<Rightarrow> string \<Rightarrow> string" where
  "Abs os p = (if rooted p then Clean p else JoinPath [osCwd os, p])"

section \<open>The document\<close>

record jev_settings =
  jsEnabled :: bool
  jsAll :: bool
  jsThreshold :: rat
  jsModel :: string
  jsEndpoint :: string
  jsMaxCalls :: int
  jsAPIKeyEnv :: string

record profile =
  pfBroker :: string
  pfURL :: string
  pfURLEnv :: string
  pfDefaultQueue :: string
  pfManagementURL :: string
  pfRequireConfirm :: bool
  pfRequireCoConfirm :: bool
  pfPolicyFile :: string
  pfSensitiveFields :: "string list"
  pfJev :: "jev_settings option"

record audit_config =
  auPath :: string
  auRetentionDays :: int

text \<open>The profiles are a Go map to pointers; a profile the file gives as null is a nil pointer.\<close>

record config =
  cfDefaultProfile :: string
  cfProfiles :: "(string \<times> profile option) list"
  cfAudit :: audit_config

definition DefaultAuditPath :: string where "DefaultAuditPath = ''~/.dlq/audit.db''"
definition DefaultAuditRetentionDays :: int where "DefaultAuditRetentionDays = 90"

definition Defaults :: config where
  "Defaults = \<lparr>cfDefaultProfile = [], cfProfiles = [],
     cfAudit = \<lparr>auPath = DefaultAuditPath, auRetentionDays = DefaultAuditRetentionDays\<rparr>\<rparr>"

definition DefaultPath :: "os \<Rightarrow> (goerr, string) result" where
  "DefaultPath os =
     (case UserHomeDir os of
        Inl e \<Rightarrow> Err (Wrap ''resolve home directory: '' e [])
      | Inr home \<Rightarrow> Ok (JoinPath [home, ''.dlq'', ''config.yaml'']))"

definition ExpandPath :: "os \<Rightarrow> string \<Rightarrow> (goerr, string) result" where
  "ExpandPath os path =
     (if path = ''~'' \<or> HasPrefix path ''~/'' then
        (case UserHomeDir os of
           Inl e \<Rightarrow> Err (Wrap ''resolve home directory: '' e [])
         | Inr home \<Rightarrow> if path = ''~'' then Ok home else Ok (JoinPath [home, drop 2 path]))
      else Ok path)"

section \<open>Reading and writing\<close>

record yaml_codec =
  ycDecode :: "string \<Rightarrow> config \<Rightarrow> (goerr, config) result"
  ycEncode :: "config \<Rightarrow> (goerr, string) result"
  ycRules :: "string \<Rightarrow> (goerr, raw_rule list) result"

definition Load :: "os \<Rightarrow> yaml_codec \<Rightarrow> files \<Rightarrow> string \<Rightarrow> (goerr, config) result" where
  "Load os y fs path =
     (case ReadFile os fs path of
        Absent \<Rightarrow> Ok Defaults
      | Unreadable e \<Rightarrow> Err (Wrap (''read config '' @ path @ '': '') e [])
      | Content t \<Rightarrow>
          (case ycDecode y t Defaults of
             Inl e \<Rightarrow> Err (Wrap (''parse config '' @ path @ '': '') e [])
           | Inr c \<Rightarrow> Ok c))"

definition Save :: "os \<Rightarrow> yaml_codec \<Rightarrow> string \<Rightarrow> config \<Rightarrow> files \<Rightarrow> goerr option \<times> files" where
  "Save os y path c fs =
     (case ycEncode y c of
        Inl e \<Rightarrow> (Some (Wrap ''encode config: '' e []), fs)
      | Inr t \<Rightarrow>
     (case osMkdirErr os path of
        Some e \<Rightarrow> (Some (Wrap ''create config directory: '' e []), fs)
      | None \<Rightarrow>
     (case WriteFile os path t fs of
        (Some e, fs) \<Rightarrow> (Some (Wrap (''write config '' @ path @ '': '') e []), fs)
      | (None, fs) \<Rightarrow> (None, fs))))"

text \<open>\<open>policy.Load\<close>.\<close>

definition policy_Load :: "os \<Rightarrow> yaml_codec \<Rightarrow> files \<Rightarrow> string \<Rightarrow> (goerr, policy) result" where
  "policy_Load os y fs path =
     (case ReadFile os fs path of
        Absent \<Rightarrow> Err (Wrap (''read policy '' @ path @ '': '') (no_such_file path) [])
      | Unreadable e \<Rightarrow> Err (Wrap (''read policy '' @ path @ '': '') e [])
      | Content t \<Rightarrow> Parse (ycRules y) t)"

section \<open>Profiles\<close>

definition find_profile :: "config \<Rightarrow> string \<Rightarrow> (goerr, profile option) result" where
  "find_profile c name0 =
     (let name = (if name0 = [] then cfDefaultProfile c else name0)
      in if name = [] then Err (Text ''no profile specified and no default_profile set'')
         else case map_of (cfProfiles c) name of
                None \<Rightarrow> Err (Text (''profile '' @ Quote name @ '' not found''))
              | Some p \<Rightarrow> Ok p)"

text \<open>A nil profile is dereferenced.\<close>

definition ResolveURL :: "os \<Rightarrow> profile option \<Rightarrow> (goerr, string) result" where
  "ResolveURL os po =
     (case po of None \<Rightarrow> Err (GoPanic ''nil pointer dereference'')
      | Some p \<Rightarrow>
          if pfURLEnv p \<noteq> [] then
            (case osEnv os (pfURLEnv p) of
               Some v \<Rightarrow> if v = [] then Err (Text (''environment variable '' @ pfURLEnv p @ '' referenced by the profile is not set''))
                         else Ok v
             | None \<Rightarrow> Err (Text (''environment variable '' @ pfURLEnv p @ '' referenced by the profile is not set'')))
          else if pfURL p \<noteq> [] then Ok (pfURL p)
          else Err (Text ''profile has neither url nor url_env set''))"

section \<open>Jev settings\<close>

definition DefaultEndpoint :: string where "DefaultEndpoint = ''https://api.typesafe.ai/v1/systemone''"
definition DefaultModel :: string where "DefaultModel = ''jev-latest''"
definition APIKeyEnv :: string where "APIKeyEnv = ''TYPESAFE_API_KEY''"
definition DefaultMaxCalls :: int where "DefaultMaxCalls = 50"

definition no_settings :: jev_settings where
  "no_settings = \<lparr>jsEnabled = False, jsAll = False, jsThreshold = 0, jsModel = [], jsEndpoint = [],
     jsMaxCalls = 0, jsAPIKeyEnv = []\<rparr>"

definition default_settings :: jev_settings where
  "default_settings = \<lparr>jsEnabled = False, jsAll = False, jsThreshold = DefaultThreshold, jsModel = DefaultModel,
     jsEndpoint = DefaultEndpoint, jsMaxCalls = DefaultMaxCalls, jsAPIKeyEnv = APIKeyEnv\<rparr>"

definition Effective :: "jev_settings option \<Rightarrow> jev_settings" where
  "Effective so =
     (case so of None \<Rightarrow> default_settings
      | Some s \<Rightarrow>
          \<lparr>jsEnabled = jsEnabled s, jsAll = jsAll s,
           jsThreshold = (if jsThreshold s > 0 then jsThreshold s else DefaultThreshold),
           jsModel = (if jsModel s \<noteq> [] then jsModel s else DefaultModel),
           jsEndpoint = (if jsEndpoint s \<noteq> [] then jsEndpoint s else DefaultEndpoint),
           jsMaxCalls = (if jsMaxCalls s > 0 then jsMaxCalls s else DefaultMaxCalls),
           jsAPIKeyEnv = (if jsAPIKeyEnv s \<noteq> [] then jsAPIKeyEnv s else APIKeyEnv)\<rparr>)"

section \<open>Lemmas\<close>

text \<open>The codec keeps a document: what the library documents of \<open>Marshal\<close> and \<open>Unmarshal\<close>.\<close>

definition yaml_keeps :: "yaml_codec \<Rightarrow> config \<Rightarrow> bool" where
  "yaml_keeps y c = (case ycEncode y c of Inl _ \<Rightarrow> True | Inr t \<Rightarrow> ycDecode y t Defaults = Ok c)"

lemma Save_ok:
  assumes "Save os y path c fs = (None, fs')"
  obtains t where "ycEncode y c = Ok t" "osWriteFails os path t = None" "fs' = fs(path := Some t)"
  using assms by (auto simp: Save_def WriteFile_def split: sum.splits option.splits prod.splits)

lemma Save_other: "Save os y path c fs = (e, fs') \<Longrightarrow> p \<noteq> path \<Longrightarrow> fs' p = fs p"
  by (auto simp: Save_def WriteFile_def split: sum.splits option.splits prod.splits)

lemma Load_Save:
  assumes "Save os y path c fs = (None, fs')" "yaml_keeps y c" "osReadErr os path = None"
  shows "Load os y fs' path = Ok c"
  using assms by (auto simp: Load_def ReadFile_def yaml_keeps_def elim!: Save_ok)

lemma rooted_Clean: "rooted p \<Longrightarrow> rooted (Clean p)"
  by (simp add: Clean_def Let_def rooted_def HasPrefix_def)

lemma rooted_Abs:
  assumes "rooted (osCwd os)"
  shows "rooted (Abs os p)"
proof -
  obtain c where c: "osCwd os = CHR ''/'' # c" using assms by (cases "osCwd os") (auto simp: rooted_def HasPrefix_def)
  have "rooted (Join [osCwd os, p] ''/'')" by (simp add: c rooted_def HasPrefix_def)
  then show ?thesis by (auto simp: Abs_def JoinPath_def c intro: rooted_Clean)
qed

lemma ExpandPath_rooted: "rooted p \<Longrightarrow> ExpandPath os p = Ok p"
  by (cases p) (auto simp: ExpandPath_def rooted_def HasPrefix_def)

lemma Effective_idem: "Effective (Some (Effective so)) = Effective so"
  by (cases so) (simp_all add: Effective_def default_settings_def DefaultThreshold_def DefaultModel_def
      DefaultEndpoint_def DefaultMaxCalls_def APIKeyEnv_def)

end
