(* ===== verification/Session.thy ===== *)
theory Session
  imports Config Planner Rollback Patch Redaction Search_Filter
begin

text \<open>
  What every command of \<^verbatim>\<open>internal/command\<close> shares: the registry of adapters
  (\<^verbatim>\<open>internal/broker/registry.go\<close>), the host a run works on (files, audit databases by
  path, the world of the engine, the two output streams), opening the broker of the active
  profile and the audit store, and the prompt. Files of other packages the run reads go
  through \<open>Config\<close>; cobra, which parses flags, is not modelled: a flag is an option when the
  code asks whether it was passed.
\<close>

section \<open>Adapters\<close>

record connection =
  coBroker :: string
  coURL :: string
  coQueue :: string
  coManagementURL :: string

record queue_info =
  qiName :: string
  qiDurable :: bool
  qiAutoDelete :: bool
  qiMessages :: int
  qiConsumers :: int
  qiPending :: int

text \<open>The whole Broker interface: what \<open>'w broker\<close> leaves out is used by the commands only.\<close>

record 'w connector =
  cnBroker :: "'w broker"
  cnConnect :: "connection \<Rightarrow> 'w \<Rightarrow> goerr option \<times> 'w"
  cnListQueues :: "'w \<Rightarrow> (goerr, queue_info list) result \<times> 'w"
  cnClose :: "'w \<Rightarrow> 'w"

type_synonym 'w registry = "(string \<times> 'w connector) list"

definition Register :: "string \<Rightarrow> 'w connector \<Rightarrow> 'w registry \<Rightarrow> 'w registry" where
  "Register name f reg = AList.update name f reg"

definition Registered :: "'w registry \<Rightarrow> string list" where
  "Registered reg = sort (map fst reg)"

definition New :: "'w registry \<Rightarrow> string \<Rightarrow> (goerr, 'w connector) result" where
  "New reg name =
     (case map_of reg name of
        None \<Rightarrow> Err (Text (''unknown broker '' @ Quote name @ '' (registered: ['' @ Join (Registered reg) '' '' @ ''])''))
      | Some f \<Rightarrow> Ok f)"

section \<open>The host\<close>

text \<open>
  One write to an output stream: a line, the rows of a table (\<open>tabwriter\<close> aligns them), or a
  value handed to the JSON encoder.
\<close>

datatype out =
    Line string
  | Table "string list list"
  | JMessage message
  | JMessages "message list"
  | JEntries "entry list"
  | JStats queue_stats
  | JQueues "queue_info list"
  | JValidation validation_result
  | JExecution execution_result
  | JRollback "rollback_result option"
  | JAnalysis string int gotime "failure_group list" "(int \<times> int \<times> int) option"
  | JObject "(string \<times> json) list"
  | JObjects "(string \<times> json) list list"
  | JStatus string jev_settings bool

record 'w host =
  hFiles :: "files"
  hStores :: "string \<Rightarrow> store option"
  hWorld :: "'w world"
  hOut :: "out list"
  hErr :: "string list"

text \<open>What a run finds: the system, the YAML library, clock and database, the adapters.\<close>

record 'w runtime =
  suOs :: os
  suYaml :: yaml_codec
  suEnv :: env
  suRegistry :: "'w registry"

record global_options =
  goConfigPath :: string
  goProfile :: string
  goOutput :: string

definition say :: "out \<Rightarrow> 'w host \<Rightarrow> 'w host" where
  "say x h = h\<lparr>hOut := hOut h @ [x]\<rparr>"

definition warn :: "string \<Rightarrow> 'w host \<Rightarrow> 'w host" where
  "warn t h = h\<lparr>hErr := hErr h @ [t]\<rparr>"

text \<open>An operation of the engine or of the broker, on the world of the host.\<close>

definition on_world :: "('w world \<Rightarrow> 'r \<times> 'w world) \<Rightarrow> 'w host \<Rightarrow> 'r \<times> 'w host" where
  "on_world f h = (let (r, w) = f (hWorld h) in (r, h\<lparr>hWorld := w\<rparr>))"

definition load_config :: "'w runtime \<Rightarrow> global_options \<Rightarrow> 'w host \<Rightarrow> (goerr, config) result" where
  "load_config su go h = Load (suOs su) (suYaml su) (hFiles h) (goConfigPath go)"

definition save_config :: "'w runtime \<Rightarrow> global_options \<Rightarrow> config \<Rightarrow> 'w host \<Rightarrow> goerr option \<times> 'w host" where
  "save_config su go c h =
     (let (e, fs) = Save (suOs su) (suYaml su) (goConfigPath go) c (hFiles h) in (e, h\<lparr>hFiles := fs\<rparr>))"

section \<open>Opening the broker\<close>

text \<open>The last step of \<open>openBroker\<close>, with the profile resolved.\<close>

definition connect_profile ::
    "'w connector \<Rightarrow> profile \<Rightarrow> string \<Rightarrow> 'w host \<Rightarrow> (goerr, 'w connector \<times> profile) result \<times> 'w host" where
  "connect_profile cn p url h =
     (let (e, s) = cnConnect cn \<lparr>coBroker = pfBroker p, coURL = url, coQueue = pfDefaultQueue p,
                      coManagementURL = pfManagementURL p\<rparr> (wServer (hWorld h));
          h = h\<lparr>hWorld := (hWorld h)\<lparr>wServer := s\<rparr>\<rparr>
      in case e of Some e \<Rightarrow> (Err e, h) | None \<Rightarrow> (Ok (cn, p), h))"

definition resolve_profile ::
    "'w runtime \<Rightarrow> global_options \<Rightarrow> 'w host \<Rightarrow> (goerr, 'w connector \<times> profile \<times> string) result" where
  "resolve_profile su go h =
     (case load_config su go h of
        Inl e \<Rightarrow> Err e
      | Inr cfg \<Rightarrow>
     (case find_profile cfg (goProfile go) of
        Inl e \<Rightarrow> Err e
      | Inr po \<Rightarrow>
     (case ResolveURL (suOs su) po of
        Inl e \<Rightarrow> Err e
      | Inr url \<Rightarrow>
     (case New (suRegistry su) (pfBroker (the po)) of
        Inl e \<Rightarrow> Err e
      | Inr cn \<Rightarrow> Ok (cn, the po, url)))))"

definition openBroker ::
    "'w runtime \<Rightarrow> global_options \<Rightarrow> 'w host \<Rightarrow> (goerr, 'w connector \<times> profile) result \<times> 'w host" where
  "openBroker su go h =
     (case resolve_profile su go h of
        Inl e \<Rightarrow> (Err e, h)
      | Inr (cn, p, url) \<Rightarrow> connect_profile cn p url h)"

definition close_broker :: "'w connector \<Rightarrow> 'w host \<Rightarrow> 'w host" where
  "close_broker cn h = h\<lparr>hWorld := (hWorld h)\<lparr>wServer := cnClose cn (wServer (hWorld h))\<rparr>\<rparr>"

text \<open>A command body between \<open>openBroker\<close> and the deferred \<open>Close\<close>; None when it never returns.\<close>

definition with_broker ::
    "'w runtime \<Rightarrow> global_options \<Rightarrow>
     ('w connector \<Rightarrow> profile \<Rightarrow> 'w host \<Rightarrow> (goerr option \<times> 'w host) option) \<Rightarrow>
     'w host \<Rightarrow> (goerr option \<times> 'w host) option" where
  "with_broker su go body h =
     (case openBroker su go h of
        (Inl e, h) \<Rightarrow> Some (Some e, h)
      | (Inr (cn, p), h) \<Rightarrow> map_option (map_prod id (close_broker cn)) (body cn p h))"

definition resolveQueue :: "string list \<Rightarrow> string \<Rightarrow> (goerr, string) result" where
  "resolveQueue args defaultQueue =
     (if length args = 1 then Ok (hd args)
      else if defaultQueue \<noteq> [] then Ok defaultQueue
      else Err (Text ''no queue given and the profile has no default_queue set''))"

section \<open>The audit store\<close>

text \<open>\<open>audit.Open\<close>: the file is created with its tables when it is not there.\<close>

definition store_Open :: "'w runtime \<Rightarrow> string \<Rightarrow> 'w host \<Rightarrow> (goerr, string) result \<times> 'w host" where
  "store_Open su path h =
     (if path = [] then (Err (Text ''audit: empty store path''), h)
      else case osStoreErr (suOs su) path of
        Some e \<Rightarrow> (Err e, h)
      | None \<Rightarrow>
          (Ok path, h\<lparr>hWorld := (hWorld h)\<lparr>wStore :=
             Some (case hStores h path of None \<Rightarrow> empty_store | Some s \<Rightarrow> s)\<rparr>\<rparr>))"

definition openAuditStore :: "'w runtime \<Rightarrow> global_options \<Rightarrow> 'w host \<Rightarrow> (goerr, string) result \<times> 'w host" where
  "openAuditStore su go h =
     (case load_config su go h of
        Inl e \<Rightarrow> (Err e, h)
      | Inr cfg \<Rightarrow>
     (case ExpandPath (suOs su) (auPath (cfAudit cfg)) of
        Inl e \<Rightarrow> (Err e, h)
      | Inr path \<Rightarrow> store_Open su path h))"

definition close_store :: "string \<Rightarrow> 'w host \<Rightarrow> 'w host" where
  "close_store path h =
     h\<lparr>hStores := (hStores h)(path := wStore (hWorld h)), hWorld := (hWorld h)\<lparr>wStore := None\<rparr>\<rparr>"

definition with_store ::
    "'w runtime \<Rightarrow> global_options \<Rightarrow> ('w host \<Rightarrow> (goerr option \<times> 'w host) option) \<Rightarrow>
     'w host \<Rightarrow> (goerr option \<times> 'w host) option" where
  "with_store su go body h =
     (case openAuditStore su go h of
        (Inl e, h) \<Rightarrow> Some (Some e, h)
      | (Inr path, h) \<Rightarrow> map_option (map_prod id (close_store path)) (body h))"

definition effectiveProfileName :: "'w runtime \<Rightarrow> global_options \<Rightarrow> 'w host \<Rightarrow> string" where
  "effectiveProfileName su go h =
     (if goProfile go \<noteq> [] then goProfile go
      else case load_config su go h of Inl _ \<Rightarrow> [] | Inr cfg \<Rightarrow> cfDefaultProfile cfg)"

text \<open>\<open>store.Append\<close> where the code looks at the error.\<close>

definition append_entry :: "env \<Rightarrow> entry \<Rightarrow> 'w world \<Rightarrow> goerr option \<times> 'w world" where
  "append_entry env e w =
     (case wStore w of None \<Rightarrow> (Some (GoPanic ''nil pointer dereference''), w)
      | Some s \<Rightarrow>
          (let (r, s') = Append (db_ok env (wTick w)) (clock env (wTick w)) e s
           in (r, w\<lparr>wStore := Some s', wTick := Suc (wTick w)\<rparr>)))"

section \<open>Policies and prompts\<close>

definition policyPath :: "'w runtime \<Rightarrow> string \<Rightarrow> (goerr, string) result" where
  "policyPath su p =
     (case ExpandPath (suOs su) p of Inl e \<Rightarrow> Err e | Inr x \<Rightarrow> Ok (Abs (suOs su) x))"

definition load_policy :: "'w runtime \<Rightarrow> 'w host \<Rightarrow> string \<Rightarrow> (goerr, policy) result" where
  "load_policy su h path = policy_Load (suOs su) (suYaml su) (hFiles h) path"

definition loadPolicyForProfile ::
    "'w runtime \<Rightarrow> 'w host \<Rightarrow> string \<Rightarrow> profile option \<Rightarrow> (goerr, policy option) result" where
  "loadPolicyForProfile su h name po =
     (if po = None \<or> pfPolicyFile (the po) = [] then Ok None
      else case ExpandPath (suOs su) (pfPolicyFile (the po)) of
        Inl e \<Rightarrow> Err e
      | Inr path \<Rightarrow>
     (case load_policy su h path of
        Inl e \<Rightarrow> Err (Wrap (''profile '' @ Quote name @ '' policy: '') e [])
      | Inr pol \<Rightarrow> Ok (Some pol)))"

text \<open>\<open>ReadString\<close> up to a newline; without one the text read so far is dropped with EOF.\<close>

definition promptConfirm :: "'w runtime \<Rightarrow> string \<Rightarrow> 'w host \<Rightarrow> (goerr, bool) result \<times> 'w host" where
  "promptConfirm su prompt h =
     (let h = say (Line prompt) h; input = osStdin (suOs su)
      in case IndexByte input (CHR 0x0A) of
           None \<Rightarrow> (Err (Text ''EOF''), h)
         | Some i \<Rightarrow> (Ok (EqualFold (TrimSpace (take (Suc i) input)) ''y''), h))"

text \<open>
  The gate of a confirmed single-message command: None when it may go on, otherwise the
  outcome of the command.
\<close>

definition confirm_gate ::
    "'w runtime \<Rightarrow> bool \<Rightarrow> string \<Rightarrow> string \<Rightarrow> 'w host \<Rightarrow> goerr option option \<times> 'w host" where
  "confirm_gate su yes prompt cancelled h =
     (if \<not> yes \<and> osTerminal (suOs su) then
        (case promptConfirm su prompt h of
           (Inl e, h) \<Rightarrow> (Some (Some e), h)
         | (Inr ok, h) \<Rightarrow> if ok then (None, h) else (Some None, say (Line cancelled) h))
      else (None, h))"

text \<open>\<open>joinComma\<close>, \<open>truncate\<close> on the runes of a text, \<open>oneLine\<close>.\<close>

fun join_comma_go :: "string \<Rightarrow> string list \<Rightarrow> string" where
  "join_comma_go out [] = out"
| "join_comma_go out (x # xs) = join_comma_go (out @ '', '' @ x) xs"

definition joinComma :: "string list \<Rightarrow> string" where
  "joinComma xs = (case xs of [] \<Rightarrow> [] | x # ys \<Rightarrow> join_comma_go x ys)"

lemma joinComma_Join: "joinComma xs = Join xs '', ''"
proof -
  have "join_comma_go out ys = (if ys = [] then out else out @ '', '' @ Join ys '', '')" for out ys
    by (induction ys arbitrary: out) (auto simp: Join_Cons)
  then show ?thesis by (cases xs) (auto simp: joinComma_def Join_Cons)
qed

definition ellipsis :: string where
  "ellipsis = utf8 8230"

fun rune_list :: "nat \<Rightarrow> string \<Rightarrow> string list" where
  "rune_list 0 s = []"
| "rune_list (Suc n) s =
     (if s = [] then []
      else if rune_width s = 0 then replacement # rune_list n (tl s)
      else take (rune_width s) s # rune_list n (drop (rune_width s) s))"

definition truncate_runes :: "string \<Rightarrow> nat \<Rightarrow> string" where
  "truncate_runes s n =
     (let runes = rune_list (length s) s
      in if length runes \<le> n then s else concat (take n runes) @ ellipsis)"

definition oneLine :: "string \<Rightarrow> string" where
  "oneLine s = TrimSpace (map (\<lambda>c. if c = CHR 0x0A \<or> c = CHR 0x09 then CHR 0x20 else c) s)"

section \<open>Lemmas\<close>

text \<open>The broker calls added since \<open>w\<close>; reads only, or with every ack behind its publish.\<close>

definition calls_since :: "(call list \<Rightarrow> bool) \<Rightarrow> 'w world \<Rightarrow> 'w world \<Rightarrow> bool" where
  "calls_since P w w' = (\<exists>new. wTrace w' = wTrace w @ new \<and> P new)"

definition only_reads :: "call list \<Rightarrow> bool" where
  "only_reads cs = (\<not> list_ex mutating cs)"

definition quiet_since :: "'w world \<Rightarrow> 'w world \<Rightarrow> bool" where
  "quiet_since w w' = (\<exists>new. wTrace w' = wTrace w @ new \<and> \<not> list_ex mutating new)"

lemma quiet_calls: "quiet_since = calls_since only_reads"
  by (intro ext) (simp add: quiet_since_def calls_since_def only_reads_def)

lemma quiet_since_refl [simp]: "wTrace w' = wTrace w \<Longrightarrow> quiet_since w w'"
  by (simp add: quiet_since_def)

lemma quiet_since_trans: "quiet_since u v \<Longrightarrow> quiet_since v w \<Longrightarrow> quiet_since u w"
  by (auto simp: quiet_since_def)

lemma say_simps [simp]:
  "hWorld (say x h) = hWorld h" "hFiles (say x h) = hFiles h" "hStores (say x h) = hStores h"
  "hWorld (warn t h) = hWorld h" "hFiles (warn t h) = hFiles h" "hStores (warn t h) = hStores h"
  "hOut (warn t h) = hOut h" "hOut (say x h) = hOut h @ [x]"
  by (simp_all add: say_def warn_def)

lemma close_simps [simp]:
  "wTrace (hWorld (close_broker cn h)) = wTrace (hWorld h)" "hFiles (close_broker cn h) = hFiles h"
  "hOut (close_broker cn h) = hOut h" "hStores (close_broker cn h) = hStores h"
  "wTrace (hWorld (close_store p h)) = wTrace (hWorld h)" "hFiles (close_store p h) = hFiles h"
  "hOut (close_store p h) = hOut h"
  by (simp_all add: close_broker_def close_store_def)

lemma connect_profile_frame:
  "connect_profile cn p url h = (r, h') \<Longrightarrow>
     wTrace (hWorld h') = wTrace (hWorld h) \<and> hFiles h' = hFiles h \<and> hOut h' = hOut h \<and>
     hStores h' = hStores h \<and> hErr h' = hErr h \<and> wStore (hWorld h') = wStore (hWorld h) \<and>
     (r = Ok (cn, p) \<or> (\<exists>e. r = Err e))"
  by (auto simp: connect_profile_def Let_def split: prod.splits option.splits)

lemma openBroker_frame:
  "openBroker su go h = (r, h') \<Longrightarrow>
     wTrace (hWorld h') = wTrace (hWorld h) \<and> hFiles h' = hFiles h \<and> hOut h' = hOut h \<and> hStores h' = hStores h"
  by (auto simp: openBroker_def split: sum.splits prod.splits dest: connect_profile_frame)

lemma openAuditStore_frame:
  "openAuditStore su go h = (r, h') \<Longrightarrow>
     wTrace (hWorld h') = wTrace (hWorld h) \<and> hFiles h' = hFiles h \<and> hOut h' = hOut h \<and> hStores h' = hStores h"
  by (auto simp: openAuditStore_def store_Open_def split: sum.splits option.splits if_splits)

lemma confirm_gate_frame:
  "confirm_gate su yes p c h = (r, h') \<Longrightarrow> hWorld h' = hWorld h \<and> hFiles h' = hFiles h \<and> hStores h' = hStores h"
  by (auto simp: confirm_gate_def promptConfirm_def Let_def split: if_splits sum.splits prod.splits option.splits)

lemma on_world_frame:
  "on_world f h = (r, h') \<Longrightarrow> f (hWorld h) = (r, hWorld h') \<and> hFiles h' = hFiles h \<and> hOut h' = hOut h \<and> hStores h' = hStores h"
  by (auto simp: on_world_def split: prod.splits)

text \<open>A command that opens the broker or the store makes the calls of its body.\<close>

lemma with_broker_calls:
  assumes "with_broker su go body h = Some (e, h')" and "P []"
    and "\<And>cn p h1 e1 h2. body cn p h1 = Some (e1, h2) \<Longrightarrow> calls_since P (hWorld h1) (hWorld h2)"
  shows "calls_since P (hWorld h) (hWorld h')"
proof (cases "openBroker su go h")
  case (Pair r h1)
  note f = openBroker_frame[OF Pair]
  then show ?thesis
  proof (cases r)
    case (Inr cp)
    then obtain cn p where r: "r = Inr (cn, p)" by (cases cp) auto
    then obtain h2 where "body cn p h1 = Some (e, h2)" "h' = close_broker cn h2"
      using assms(1) Pair by (auto simp: with_broker_def)
    then show ?thesis using assms(3)[of cn p h1 e h2] f by (simp add: calls_since_def)
  qed (use assms Pair f in \<open>auto simp: with_broker_def calls_since_def\<close>)
qed

lemma with_store_calls:
  assumes "with_store su go body h = Some (e, h')" and "P []"
    and "\<And>h1 e1 h2. body h1 = Some (e1, h2) \<Longrightarrow> calls_since P (hWorld h1) (hWorld h2)"
  shows "calls_since P (hWorld h) (hWorld h')"
proof (cases "openAuditStore su go h")
  case (Pair r h1)
  note f = openAuditStore_frame[OF Pair]
  then show ?thesis
  proof (cases r)
    case (Inr path)
    then obtain h2 where "body h1 = Some (e, h2)" "h' = close_store path h2"
      using assms(1) Pair by (auto simp: with_store_def)
    then show ?thesis using assms(3)[of h1 e h2] f by (simp add: calls_since_def)
  qed (use assms Pair f in \<open>auto simp: with_store_def calls_since_def\<close>)
qed

lemma with_broker_quiet:
  assumes "with_broker su go body h = Some (e, h')"
    and "\<And>cn p h1 e1 h2. body cn p h1 = Some (e1, h2) \<Longrightarrow> quiet_since (hWorld h1) (hWorld h2)"
  shows "quiet_since (hWorld h) (hWorld h')"
  using with_broker_calls[OF assms(1), of only_reads] assms(2) unfolding quiet_calls by (simp add: only_reads_def)

lemma with_store_quiet:
  assumes "with_store su go body h = Some (e, h')"
    and "\<And>h1 e1 h2. body h1 = Some (e1, h2) \<Longrightarrow> quiet_since (hWorld h1) (hWorld h2)"
  shows "quiet_since (hWorld h) (hWorld h')"
  using with_store_calls[OF assms(1), of only_reads] assms(2) unfolding quiet_calls by (simp add: only_reads_def)

end
