(* ===== verification/Plan_File.thy ===== *)
theory Plan_File
  imports Plan_Model Time_Parse Go_Json
begin

text \<open>
  The plan file: \<open>writePlanFile\<close> and \<open>loadPlanFile\<close> of \<^verbatim>\<open>internal/command/plan.go\<close> with
  what \<^verbatim>\<open>encoding/json\<close> does for them. Writing goes through a JSON tree with the members in
  the order of the struct fields and through the indented text of that tree; reading parses the
  text and assigns the members of the object to the fields in turn. A plan reaches
  \<^verbatim>\<open>dlq recover\<close> only as this text.
\<close>

section \<open>Indented text\<close>

text \<open>\<open>MarshalIndent\<close> with no prefix and two spaces; the first argument is the depth.\<close>

definition newline :: "nat \<Rightarrow> string" where
  "newline d = CHR 0x0A # replicate (2 * d) (CHR 0x20)"

fun indented :: "nat \<Rightarrow> json \<Rightarrow> string"
and indented_list :: "nat \<Rightarrow> json list \<Rightarrow> string list"
and indented_members :: "nat \<Rightarrow> (string \<times> json) list \<Rightarrow> string list" where
  "indented d JNull = ''null''"
| "indented d (JBool b) = (if b then ''true'' else ''false'')"
| "indented d (JNum t) = t"
| "indented d (JStr s) = quoted s"
| "indented d (JArr xs) =
     (if xs = [] then ''[]''
      else ''['' @ newline (Suc d) @ Join (indented_list (Suc d) xs) ('','' @ newline (Suc d)) @ newline d @ '']'')"
| "indented d (JObj ms) =
     (if ms = [] then ''{}''
      else ''{'' @ newline (Suc d) @ Join (indented_members (Suc d) ms) ('','' @ newline (Suc d)) @ newline d @ ''}'')"
| "indented_list d [] = []"
| "indented_list d (x # xs) = indented d x # indented_list d xs"
| "indented_members d [] = []"
| "indented_members d ((k, x) # ms) = (quoted k @ '': '' @ indented d x) # indented_members d ms"

section \<open>Writing a plan\<close>

text \<open>\<open>omitempty\<close>: the member is left out.\<close>

definition optional :: "bool \<Rightarrow> string \<times> json \<Rightarrow> (string \<times> json) list" where
  "optional keep m = (if keep then [m] else [])"

definition json_int :: "int \<Rightarrow> json" where
  "json_int n = JNum (Itoa n)"

definition json_strings :: "string list \<Rightarrow> json" where
  "json_strings xs = JArr (map JStr xs)"

definition limits_json :: "plan_limits \<Rightarrow> json" where
  "limits_json l = JObj [(''batch_size'', json_int (lBatchSize l)), (''rate_limit'', JStr (lRateLimit l)),
     (''concurrency'', json_int (lConcurrency l))]"

definition excluded_json :: "excluded_message \<Rightarrow> json" where
  "excluded_json x = JObj [(''message_id'', JStr (exMessageID x)),
     (''classification'', JStr (classification_text (exClassification x))), (''reason'', JStr (exReason x))]"

definition plan_json :: "recovery_plan \<Rightarrow> json" where
  "plan_json p = JObj
     ([(''id'', JStr (plID p)), (''created_at'', JStr (FormatNanoUTC (plCreatedAt p))), (''queue'', JStr (plQueue p))]
      @ optional (plGroupID p \<noteq> []) (''group_id'', JStr (plGroupID p))
      @ optional (plGroupLabel p \<noteq> []) (''group_label'', JStr (plGroupLabel p))
      @ [(''message_ids'', json_strings (plMessageIDs p))]
      @ optional (plExcluded p \<noteq> []) (''excluded'', JArr (map excluded_json (plExcluded p)))
      @ [(''destination'', JStr (plDestination p)), (''action'', JStr (plAction p)), (''limits'', limits_json (plLimits p)),
         (''safety_checks'', json_strings (plSafetyChecks p))])"

definition plan_text :: "recovery_plan \<Rightarrow> string" where
  "plan_text p = indented 0 (plan_json p) @ [CHR 0x0A]"

section \<open>Reading a plan\<close>

text \<open>
  A member goes to the field with its name, else to one whose name differs by letter case
  only, else nowhere; null leaves a field as it is.
\<close>

type_synonym 'r field_reader = "string \<times> (json \<Rightarrow> 'r \<Rightarrow> 'r option)"

definition field_of :: "'r field_reader list \<Rightarrow> string \<Rightarrow> (json \<Rightarrow> 'r \<Rightarrow> 'r option) option" where
  "field_of fs k =
     (case map_of fs k of Some f \<Rightarrow> Some f
      | None \<Rightarrow> map_option snd (find (\<lambda>f. EqualFold (fst f) k) fs))"

fun read_fields :: "'r field_reader list \<Rightarrow> (string \<times> json) list \<Rightarrow> 'r \<Rightarrow> 'r option" where
  "read_fields fs [] r = Some r"
| "read_fields fs ((k, v) # ms) r =
     (case field_of fs k of
        None \<Rightarrow> read_fields fs ms r
      | Some f \<Rightarrow> Option.bind (f v r) (read_fields fs ms))"

definition read_object :: "'r field_reader list \<Rightarrow> json \<Rightarrow> 'r \<Rightarrow> 'r option" where
  "read_object fs v r = (case v of JObj ms \<Rightarrow> read_fields fs ms r | JNull \<Rightarrow> Some r | _ \<Rightarrow> None)"

definition read_string :: "(string \<Rightarrow> 'r \<Rightarrow> 'r) \<Rightarrow> json \<Rightarrow> 'r \<Rightarrow> 'r option" where
  "read_string put v r = (case v of JStr s \<Rightarrow> Some (put s r) | JNull \<Rightarrow> Some r | _ \<Rightarrow> None)"

definition read_int :: "(int \<Rightarrow> 'r \<Rightarrow> 'r) \<Rightarrow> json \<Rightarrow> 'r \<Rightarrow> 'r option" where
  "read_int put v r =
     (case v of JNum t \<Rightarrow> map_option (\<lambda>n. put n r) (Atoi t) | JNull \<Rightarrow> Some r | _ \<Rightarrow> None)"

definition read_time :: "(gotime \<Rightarrow> 'r \<Rightarrow> 'r) \<Rightarrow> json \<Rightarrow> 'r \<Rightarrow> 'r option" where
  "read_time put v r =
     (case v of JStr s \<Rightarrow> map_option (\<lambda>t. put t r) (ParseRFC3339Nano s) | JNull \<Rightarrow> Some r | _ \<Rightarrow> None)"

fun read_all :: "(json \<Rightarrow> 'a \<Rightarrow> 'a option) \<Rightarrow> 'a \<Rightarrow> json list \<Rightarrow> 'a list option" where
  "read_all f z [] = Some []"
| "read_all f z (x # xs) =
     (case f x z of None \<Rightarrow> None | Some a \<Rightarrow> map_option ((#) a) (read_all f z xs))"

definition read_list :: "(json \<Rightarrow> 'a \<Rightarrow> 'a option) \<Rightarrow> 'a \<Rightarrow> ('a list \<Rightarrow> 'r \<Rightarrow> 'r) \<Rightarrow> json \<Rightarrow> 'r \<Rightarrow> 'r option" where
  "read_list f z put v r =
     (case v of JArr xs \<Rightarrow> map_option (\<lambda>as. put as r) (read_all f z xs) | JNull \<Rightarrow> Some (put [] r) | _ \<Rightarrow> None)"

text \<open>A classification the program does not know is kept by Go as text; nothing reads it, here it is INVESTIGATE.\<close>

definition classification_of :: "string \<Rightarrow> classification" where
  "classification_of s =
     (case find (\<lambda>c. classification_text c = s) [Replayable, RequiresFix, DoNotReplay] of
        Some c \<Rightarrow> c | None \<Rightarrow> Investigate)"

definition limits_fields :: "plan_limits field_reader list" where
  "limits_fields =
     [(''batch_size'', read_int (\<lambda>n l. l\<lparr>lBatchSize := n\<rparr>)), (''rate_limit'', read_string (\<lambda>s l. l\<lparr>lRateLimit := s\<rparr>)),
      (''concurrency'', read_int (\<lambda>n l. l\<lparr>lConcurrency := n\<rparr>))]"

definition excluded_fields :: "excluded_message field_reader list" where
  "excluded_fields =
     [(''message_id'', read_string (\<lambda>s x. x\<lparr>exMessageID := s\<rparr>)),
      (''classification'', read_string (\<lambda>s x. x\<lparr>exClassification := classification_of s\<rparr>)),
      (''reason'', read_string (\<lambda>s x. x\<lparr>exReason := s\<rparr>))]"

definition zero_excluded :: excluded_message where
  "zero_excluded = \<lparr>exMessageID = [], exClassification = Investigate, exReason = []\<rparr>"

definition plan_fields :: "recovery_plan field_reader list" where
  "plan_fields =
     [(''id'', read_string (\<lambda>s p. p\<lparr>plID := s\<rparr>)),
      (''created_at'', read_time (\<lambda>t p. p\<lparr>plCreatedAt := t\<rparr>)),
      (''queue'', read_string (\<lambda>s p. p\<lparr>plQueue := s\<rparr>)),
      (''group_id'', read_string (\<lambda>s p. p\<lparr>plGroupID := s\<rparr>)),
      (''group_label'', read_string (\<lambda>s p. p\<lparr>plGroupLabel := s\<rparr>)),
      (''message_ids'', read_list (read_string (\<lambda>s _. s)) [] (\<lambda>xs p. p\<lparr>plMessageIDs := xs\<rparr>)),
      (''excluded'', read_list (read_object excluded_fields) zero_excluded (\<lambda>xs p. p\<lparr>plExcluded := xs\<rparr>)),
      (''destination'', read_string (\<lambda>s p. p\<lparr>plDestination := s\<rparr>)),
      (''action'', read_string (\<lambda>s p. p\<lparr>plAction := s\<rparr>)),
      (''limits'', \<lambda>v p. map_option (\<lambda>l. p\<lparr>plLimits := l\<rparr>) (read_object limits_fields v (plLimits p))),
      (''safety_checks'', read_list (read_string (\<lambda>s _. s)) [] (\<lambda>xs p. p\<lparr>plSafetyChecks := xs\<rparr>))]"

definition zero_plan :: recovery_plan where
  "zero_plan = \<lparr>plID = [], plCreatedAt = 0, plQueue = [], plGroupID = [], plGroupLabel = [], plMessageIDs = [],
     plExcluded = [], plDestination = [], plAction = [],
     plLimits = \<lparr>lBatchSize = 0, lRateLimit = [], lConcurrency = 0\<rparr>, plSafetyChecks = []\<rparr>"

definition read_plan :: "string \<Rightarrow> recovery_plan option" where
  "read_plan t = Option.bind (json_parse t) (\<lambda>j. read_object plan_fields j zero_plan)"

section \<open>The indented text is read back\<close>

fun json_ok :: "nat \<Rightarrow> json \<Rightarrow> bool"
and json_oks :: "nat \<Rightarrow> json list \<Rightarrow> bool"
and json_pairs_ok :: "nat \<Rightarrow> (string \<times> json) list \<Rightarrow> bool" where
  "json_ok d (JStr s) = utf8_ok s"
| "json_ok d (JNum t) = (\<exists>n. t = Itoa n)"
| "json_ok d (JArr xs) = (0 < d \<and> json_oks (d - 1) xs)"
| "json_ok d (JObj ms) = (0 < d \<and> json_pairs_ok (d - 1) ms)"
| "json_ok d j = True"
| "json_oks d [] = True"
| "json_oks d (x # xs) = (json_ok d x \<and> json_oks d xs)"
| "json_pairs_ok d [] = True"
| "json_pairs_ok d ((k, x) # ms) = (utf8_ok k \<and> json_ok d x \<and> json_pairs_ok d ms)"

lemma Itoa_number:
  obtains neg ip where "Itoa n = number_text neg ip [] None" "number_ok ip [] None"
proof -
  have ok: "number_ok (nat_text k) [] None" for k
    using nat_text_digits[of k] nat_text_nonempty[of k] nat_text_hd[of k]
    by (cases "k = 0") (auto simp: number_ok_def no_leading_zero_def exponent_ok_def nat_text.simps[of 0])
  have tx: "number_text neg (nat_text k) [] None = sign_text neg @ nat_text k" for neg k
    by (simp add: number_text_def exponent_text_def)
  have "Itoa n = number_text (n < 0) (nat_text (nat \<bar>n\<bar>)) [] None"
    by (simp add: tx sign_text_def Itoa_def)
  then show ?thesis using ok by (rule that)
qed

lemma skip_newline [simp]: "skip_space (newline d @ s) = skip_space s"
proof -
  have "skip_space (replicate n (CHR 0x20) @ s) = skip_space s" for n
    by (induction n) (simp_all add: skip_space_def json_space_def)
  then show ?thesis by (simp add: newline_def skip_space_def json_space_def)
qed

lemma indented_start:
  assumes "json_ok d j"
  shows "\<exists>c u. indented k j @ t = c # u \<and> value_start c"
proof (cases j)
  case (JNum x)
  then obtain n where "x = Itoa n" using assms by auto
  moreover obtain neg ip where ip: "Itoa n = number_text neg ip [] None" "number_ok ip [] None"
    by (rule Itoa_number)
  moreover obtain c u where "number_text neg ip [] None = c # u" "is_digit c \<or> c = CHR ''-''"
    by (rule number_text_hd[OF ip(2)])
  ultimately show ?thesis using JNum by (auto simp: value_start_def)
qed (auto simp: value_start_def quoted_def)

lemma skip_indented: "json_ok d j \<Longrightarrow> skip_space (indented k j @ t) = indented k j @ t"
  using indented_start[of d j k t] value_start_plain(1) by metis

lemma parse_value_Itoa:
  assumes "number_stop t"
  shows "parse_value d (Itoa n @ t) = Some (JNum (Itoa n), t)"
proof -
  obtain neg ip where x: "Itoa n = number_text neg ip [] None" "number_ok ip [] None"
    by (rule Itoa_number)
  obtain c u where cu: "number_text neg ip [] None = c # u" "is_digit c \<or> c = CHR ''-''"
    by (rule number_text_hd[OF x(2)])
  then have "c \<noteq> CHR 0x22" "c \<noteq> CHR ''[''" "c \<noteq> CHR ''{''" "c \<noteq> CHR ''n''" "c \<noteq> CHR ''t''" "c \<noteq> CHR ''f''"
    by (auto simp: is_digit_def)
  then have "parse_value d (c # u @ t) = map_option (map_prod JNum id) (parse_number (c # u @ t))"
    by simp
  then show ?thesis using parse_number_text[OF x(2) assms, of neg] by (simp add: x(1) cu(1))
qed

lemma parse_elems_last:
  assumes "parse_value d s = Some (v, r)" "skip_space r = CHR '']'' # t"
  shows "parse_elems d s = Some ([v], t)"
  using parse_shorter(1)[OF assms(1)] assms(2) by (subst parse_elems.simps) (simp add: assms(1) expect_def)

lemma parse_members_last:
  assumes "parse_string s = Some (k, CHR '':'' # u)" "parse_value d (skip_space u) = Some (v, r)"
    "skip_space r = CHR ''}'' # t"
  shows "parse_members d (CHR 0x22 # s) = Some ([(k, v)], t)"
  using parse_shorter(1)[OF assms(2)] parse_string_shorter[OF assms(1)] skip_space_le[of u] assms(3)
  by (subst parse_members.simps) (simp add: assms(1,2) expect_def)

lemma number_stop_newline [simp]: "number_stop (newline d @ t)"
  by (simp add: number_stop_def newline_def is_digit_def)

lemma skip_start: "value_start c \<Longrightarrow> skip_space (c # u) = c # u"
  by (rule value_start_plain)

lemma indented_nil [simp]:
  "indented_list k xs = [] \<longleftrightarrow> xs = []" "indented_members k ms = [] \<longleftrightarrow> ms = []"
  by (cases xs; simp) (cases ms; auto)

lemma indented_list_start:
  assumes "json_oks d xs" "xs \<noteq> []"
  shows "\<exists>c u. Join (indented_list k xs) sep @ t = c # u \<and> value_start c"
proof -
  obtain x ys where xs: "xs = x # ys" using assms(2) by (cases xs) auto
  then show ?thesis using assms(1) indented_start[of d x k] by (simp add: Join_Cons)
qed

lemma indented_members_start:
  obtains u where "Join (indented_members k (m # ms)) sep @ t = CHR 0x22 # u"
  by (cases m) (simp add: Join_Cons quoted_def)

lemma parse_indented:
  "json_ok d j \<Longrightarrow> number_stop t \<Longrightarrow> parse_value d (indented k j @ t) = Some (j, t)"
  "json_oks d xs \<Longrightarrow> xs \<noteq> [] \<Longrightarrow>
   parse_elems d (Join (indented_list k xs) ('','' @ newline k) @ newline m @ CHR '']'' # t) = Some (xs, t)"
  "json_pairs_ok d ms \<Longrightarrow> ms \<noteq> [] \<Longrightarrow>
   parse_members d (Join (indented_members k ms) ('','' @ newline k) @ newline m @ CHR ''}'' # t) = Some (ms, t)"
proof (induction k j and k xs and k ms arbitrary: d t and d m t and d m t
    rule: indented_indented_list_indented_members.induct)
  case (3 k n)
  then show ?case using parse_value_Itoa by auto
next
  case (4 k s)
  then show ?case using parse_quoted by simp
next
  case (5 k xs)
  show ?case
  proof (cases "xs = []")
    case False
    have ok: "0 < d" "json_oks (d - 1) xs" using "5.prems" by auto
    obtain c u where cu: "Join (indented_list (Suc k) xs) ('','' @ newline (Suc k)) @ newline k @ CHR '']'' # t = c # u"
        "value_start c"
      using indented_list_start[OF ok(2) False] by blast
    have "parse_elems (d - 1) (c # u) = Some (xs, t)"
      using "5.IH"[OF False ok(2) False, of k t] by (simp flip: cu(1))
    moreover have "skip_space (newline (Suc k) @ c # u) = c # u" by (simp add: skip_start cu(2))
    ultimately show ?thesis using False ok(1) cu value_start_plain(2)[OF cu(2)]
      by (simp add: expect_def)
  qed (use "5.prems" in \<open>simp add: expect_def\<close>)
next
  case (6 k ms)
  show ?case
  proof (cases "ms = []")
    case False
    have ok: "0 < d" "json_pairs_ok (d - 1) ms" using "6.prems" by auto
    obtain u where u: "Join (indented_members (Suc k) ms) ('','' @ newline (Suc k)) @ newline k @ CHR ''}'' # t = CHR 0x22 # u"
      using indented_members_start False by (metis neq_Nil_conv)
    have "parse_members (d - 1) (CHR 0x22 # u) = Some (ms, t)"
      using "6.IH"[OF False ok(2) False, of k t] by (simp flip: u)
    then show ?thesis using False ok(1) u by (simp add: expect_def)
  qed (use "6.prems" in \<open>simp add: expect_def\<close>)
next
  case (8 k x xs)
  have ok: "json_ok d x" "json_oks d xs" using "8.prems" by auto
  show ?case
  proof (cases "xs = []")
    case True
    have "parse_value d (indented k x @ newline m @ CHR '']'' # t) = Some (x, newline m @ CHR '']'' # t)"
      using "8.IH"(1)[OF ok(1)] by simp
    from parse_elems_last[OF this] True show ?thesis by simp
  next
    case False
    let ?u = "Join (indented_list k xs) ('','' @ newline k) @ newline m @ CHR '']'' # t"
    obtain c y where cy: "?u = c # y" "value_start c" using indented_list_start[OF ok(2) False] by blast
    have "parse_value d (indented k x @ CHR '','' # newline k @ ?u) = Some (x, CHR '','' # newline k @ ?u)"
      using "8.IH"(1)[OF ok(1)] by simp
    moreover have sk: "skip_space (newline k @ ?u) = ?u"
      unfolding skip_newline cy(1) by (rule skip_start[OF cy(2)])
    moreover have "parse_elems d (skip_space (newline k @ ?u)) = Some (xs, t)"
      unfolding sk by (rule "8.IH"(2)[OF ok(2) False])
    ultimately show ?thesis using parse_elems_more False by (simp add: Join_Cons)
  qed
next
  case (10 k key x ms)
  have ok: "utf8_ok key" "json_ok d x" "json_pairs_ok d ms" using "10.prems" by auto
  have key: "parse_string (escape_text key @ CHR 0x22 # CHR '':'' # u) = Some (key, CHR '':'' # u)" for u
    by (rule parse_string_quoted[OF ok(1)])
  have sp: "skip_space (CHR 0x20 # indented k x @ u) = indented k x @ u" for u
    using skip_indented[OF ok(2), of k u] by (simp add: skip_space_def json_space_def)
  show ?case
  proof (cases "ms = []")
    case True
    have "parse_value d (skip_space (CHR 0x20 # indented k x @ newline m @ CHR ''}'' # t)) =
        Some (x, newline m @ CHR ''}'' # t)"
      unfolding sp using "10.IH"(1)[OF ok(2)] by simp
    from parse_members_last[OF key this] True show ?thesis by (simp add: quoted_def)
  next
    case False
    let ?u = "Join (indented_members k ms) ('','' @ newline k) @ newline m @ CHR ''}'' # t"
    obtain y where y: "?u = CHR 0x22 # y" using indented_members_start False by (metis neq_Nil_conv)
    have "parse_value d (skip_space (CHR 0x20 # indented k x @ CHR '','' # newline k @ ?u)) =
        Some (x, CHR '','' # newline k @ ?u)"
      unfolding sp using "10.IH"(1)[OF ok(2)] by simp
    moreover have sk: "skip_space (newline k @ ?u) = ?u"
      unfolding skip_newline y by (rule skip_plain)
    moreover have "parse_members d (skip_space (newline k @ ?u)) = Some (ms, t)"
      unfolding sk by (rule "10.IH"(2)[OF ok(3) False])
    ultimately show ?thesis using parse_members_more[OF key] False by (simp add: Join_Cons quoted_def)
  qed
qed (simp_all add: parse_literals[simplified])

lemma json_parse_indented:
  assumes "json_ok maxNestingDepth j"
  shows "json_parse (indented 0 j @ [CHR 0x0A]) = Some j"
proof -
  have "parse_value maxNestingDepth (indented 0 j @ [CHR 0x0A]) = Some (j, [CHR 0x0A])"
    using parse_indented(1)[OF assms] by (simp add: number_stop_def is_digit_def)
  then show ?thesis using skip_indented[OF assms, of 0 "[CHR 0x0A]"]
    by (simp add: json_parse_def) (simp add: skip_space_def json_space_def)
qed

section \<open>A written plan is read back\<close>

lemma ascii_utf8_ok: "list_all (between 0 127) s \<Longrightarrow> utf8_ok s"
proof (induction s)
  case (Cons c s)
  then have "rune_width (c # s) = 1" by simp
  then show ?case using Cons by (simp add: utf8_ok_def valid_utf8.simps[of "c # s"])
qed (simp add: utf8_ok_def)

lemma digit_ascii: "between 0 127 (digit_char (nat (n mod 10)))"
proof -
  have "nat (n mod 10) < 10" by simp
  then have "is_digit (digit_char (nat (n mod 10)))" using digit_char_digit by blast
  then show ?thesis by (auto simp: is_digit_def between_def)
qed

lemma pad2_ascii: "list_all (between 0 127) (pad2 n)"
  using digit_ascii[of n] digit_ascii[of "n div 10"] by (simp add: pad2_def del: digit_char.simps)

lemma time_ascii: "utf8_ok (FormatNanoUTC t)"
proof -
  have nano: "list_all (between 0 127) (nano_digits n)" for n
    using digit_ascii[of n] by (simp add: nano_digits_def pad2_ascii del: digit_char.simps)
  have "list_all (between 0 127) (rev (dropWhile P (rev (nano_digits n))))" for P n
    using nano[of n] by (auto simp: list_all_iff dest: set_dropWhileD)
  moreover have "list_all (between 0 127) (FormatUTC t)"
    by (simp add: FormatUTC_def Let_def pad4_def pad2_ascii between_def split: prod.split)
  moreover have "list_all P xs \<Longrightarrow> list_all P (take n xs)" for P n and xs :: string
    by (auto simp: list_all_iff dest: in_set_takeD)
  ultimately show ?thesis
    by (intro ascii_utf8_ok) (simp add: FormatNanoUTC_def Let_def between_def)
qed

definition int64 :: "int \<Rightarrow> bool" where
  "int64 n = (minInt \<le> n \<and> n \<le> maxInt)"

text \<open>
  What a plan must be for JSON to carry it: texts in valid UTF-8, integers of 64 bits, a
  creation time before the year 10000.
\<close>

definition plan_encodable :: "recovery_plan \<Rightarrow> bool" where
  "plan_encodable p \<longleftrightarrow>
     list_all utf8_ok ([plID p, plQueue p, plGroupID p, plGroupLabel p, plDestination p, plAction p,
       lRateLimit (plLimits p)] @ plMessageIDs p @ plSafetyChecks p @
       map exMessageID (plExcluded p) @ map exReason (plExcluded p)) \<and>
     int64 (lBatchSize (plLimits p)) \<and> int64 (lConcurrency (plLimits p)) \<and>
     0 \<le> plCreatedAt p \<and> year_of (plCreatedAt p) \<le> 9999"

lemma json_oks_iff: "json_oks d xs \<longleftrightarrow> (\<forall>x \<in> set xs. json_ok d x)"
  by (induction xs) auto

lemma classification_round: "classification_of (classification_text c) = c"
  by (cases c) (simp_all add: classification_of_def)

lemma key_ascii:
  "utf8_ok ''id''" "utf8_ok ''created_at''" "utf8_ok ''queue''" "utf8_ok ''group_id''" "utf8_ok ''group_label''"
  "utf8_ok ''message_ids''" "utf8_ok ''excluded''" "utf8_ok ''destination''" "utf8_ok ''action''" "utf8_ok ''limits''"
  "utf8_ok ''safety_checks''" "utf8_ok ''message_id''" "utf8_ok ''classification''" "utf8_ok ''reason''"
  "utf8_ok ''batch_size''" "utf8_ok ''rate_limit''" "utf8_ok ''concurrency''" "utf8_ok (classification_text c)"
  by (rule ascii_utf8_ok, simp add: between_def)+ (cases c; rule ascii_utf8_ok; simp add: between_def)

lemma json_pairs_append [simp]: "json_pairs_ok d (xs @ ys) \<longleftrightarrow> json_pairs_ok d xs \<and> json_pairs_ok d ys"
  by (induction xs) auto

lemma plan_json_ok:
  assumes "plan_encodable p" "5 \<le> d"
  shows "json_ok d (plan_json p)"
  using assms
  by (auto simp: plan_json_def plan_encodable_def json_strings_def limits_json_def excluded_json_def json_int_def
      optional_def json_oks_iff key_ascii time_ascii list_all_iff)

lemma read_strings: "read_all (read_string (\<lambda>s _. s)) z (map JStr xs) = Some xs"
  by (induction xs) (simp_all add: read_string_def)

lemma read_fields_append:
  "read_fields fs (xs @ ys) r = Option.bind (read_fields fs xs r) (read_fields fs ys)"
  by (induction xs arbitrary: r) (auto split: option.splits bind_split)

lemma excluded_read:
  "read_object excluded_fields (excluded_json x) zero_excluded = Some x"
  by (simp add: excluded_json_def excluded_fields_def read_object_def field_of_def read_string_def zero_excluded_def
      classification_round)

lemma excluded_reads: "read_all (read_object excluded_fields) zero_excluded (map excluded_json xs) = Some xs"
  by (induction xs) (simp_all add: excluded_read)

lemma limits_read:
  assumes "int64 (lBatchSize l)" "int64 (lConcurrency l)"
  shows "read_object limits_fields (limits_json l) z = Some l"
  using assms
  by (simp add: limits_json_def limits_fields_def read_object_def field_of_def read_string_def read_int_def json_int_def
      Atoi_Itoa int64_def)

lemma plan_field_of [simp]:
  "field_of plan_fields ''id'' = Some (read_string (\<lambda>s p. p\<lparr>plID := s\<rparr>))"
  "field_of plan_fields ''created_at'' = Some (read_time (\<lambda>t p. p\<lparr>plCreatedAt := t\<rparr>))"
  "field_of plan_fields ''queue'' = Some (read_string (\<lambda>s p. p\<lparr>plQueue := s\<rparr>))"
  "field_of plan_fields ''group_id'' = Some (read_string (\<lambda>s p. p\<lparr>plGroupID := s\<rparr>))"
  "field_of plan_fields ''group_label'' = Some (read_string (\<lambda>s p. p\<lparr>plGroupLabel := s\<rparr>))"
  "field_of plan_fields ''message_ids'' = Some (read_list (read_string (\<lambda>s _. s)) [] (\<lambda>xs p. p\<lparr>plMessageIDs := xs\<rparr>))"
  "field_of plan_fields ''excluded'' = Some (read_list (read_object excluded_fields) zero_excluded (\<lambda>xs p. p\<lparr>plExcluded := xs\<rparr>))"
  "field_of plan_fields ''destination'' = Some (read_string (\<lambda>s p. p\<lparr>plDestination := s\<rparr>))"
  "field_of plan_fields ''action'' = Some (read_string (\<lambda>s p. p\<lparr>plAction := s\<rparr>))"
  "field_of plan_fields ''limits'' = Some (\<lambda>v p. map_option (\<lambda>l. p\<lparr>plLimits := l\<rparr>) (read_object limits_fields v (plLimits p)))"
  "field_of plan_fields ''safety_checks'' = Some (read_list (read_string (\<lambda>s _. s)) [] (\<lambda>xs p. p\<lparr>plSafetyChecks := xs\<rparr>))"
  by (simp_all add: field_of_def plan_fields_def)

lemma read_plan_object: "read_object plan_fields (JObj ms) z = read_fields plan_fields ms z"
  by (simp add: read_object_def)

lemma read_plan_json:
  assumes "plan_encodable p"
  shows "read_object plan_fields (plan_json p) zero_plan = Some p"
  using assms ParseRFC3339Nano_Format[of "plCreatedAt p"]
  by (auto simp: plan_json_def plan_encodable_def read_plan_object read_fields_append optional_def read_string_def
      read_time_def read_list_def json_strings_def read_strings excluded_reads limits_read zero_plan_def)

lemma read_plan_text:
  assumes "plan_encodable p"
  shows "read_plan (plan_text p) = Some p"
  using read_plan_json[OF assms] json_parse_indented[of "plan_json p"] plan_json_ok[OF assms]
  by (simp add: read_plan_def plan_text_def maxNestingDepth_def)

end
