(* ===== verification/Cmd_Recovery.thy ===== *)
theory Cmd_Recovery
  imports Session Plan_File Executor_Properties Safety_Gate
begin

text \<open>
  The commands that can change a queue, \<^verbatim>\<open>replay.go\<close>, \<^verbatim>\<open>patch.go\<close>,
  \<^verbatim>\<open>recover.go\<close> and \<^verbatim>\<open>rollback.go\<close> of \<^verbatim>\<open>internal/command\<close>: each opens the
  broker and the store, and then previews or executes. A body gives the error the command
  ends with and the host it leaves; the reports are the writes to standard output. The time
  limit of the command's context is not modelled.
\<close>

section \<open>Output\<close>

definition says :: "out list \<Rightarrow> 'w host \<Rightarrow> 'w host" where
  "says xs h = h\<lparr>hOut := hOut h @ xs\<rparr>"

definition nl :: string where
  "nl = [CHR 0x0A]"

lemma says_simps [simp]:
  "hWorld (says xs h) = hWorld h" "hFiles (says xs h) = hFiles h" "hStores (says xs h) = hStores h"
  "hOut (says xs h) = hOut h @ xs"
  by (simp_all add: says_def)

text \<open>\<open>Duration.Round(time.Millisecond)\<close> and its text.\<close>

definition rounded_ms :: "int \<Rightarrow> int" where
  "rounded_ms d = (if d < 0 then - ((- d + 500000) div 1000000) else (d + 500000) div 1000000)"

definition seconds_text :: "int \<Rightarrow> string" where
  "seconds_text ms =
     (let f = ms mod 1000;
          frac = rev (dropWhile (\<lambda>c. c = CHR ''0'') (rev ([digit_char (nat (f div 100))] @ pad2 (f mod 100))))
      in Itoa (ms div 1000) @ (if frac = [] then [] else ''.'' @ frac) @ ''s'')"

definition ms_text :: "int \<Rightarrow> string" where
  "ms_text n =
     (if n = 0 then ''0s'' else if n < 1000 then Itoa n @ ''ms''
      else if n < 60000 then seconds_text n
      else if n < 3600000 then Itoa (n div 60000) @ ''m'' @ seconds_text (n mod 60000)
      else Itoa (n div 3600000) @ ''h'' @ Itoa (n div 60000 mod 60) @ ''m'' @ seconds_text (n mod 60000))"

definition duration_text :: "int \<Rightarrow> string" where
  "duration_text d = (let n = rounded_ms d in if n < 0 then ''-'' @ ms_text (- n) else ms_text n)"

text \<open>The verb \<open>%.0f\<close> on a rate in percent.\<close>

definition percent0 :: "rat \<Rightarrow> string" where
  "percent0 q = Itoa (round_half_even (q * 100))"

definition row_if :: "bool \<Rightarrow> string list \<Rightarrow> string list list" where
  "row_if c r = (if c then [r] else [])"

section \<open>One message: preview or execute\<close>

definition renderReplayPreview :: "preview \<Rightarrow> string \<Rightarrow> out list" where
  "renderReplayPreview p diff =
     (let m = pvMessage p; warned = map (\<lambda>w. Line (''  [!] '' @ w)) (pvWarnings p)
      in [Table ([[''Message:'', mID m], [''Queue:'', mQueue m], [''Destination:'', pvDestination p],
                  [''Retries:'', Itoa (mRetryCount m)]]
                 @ row_if (mFailureReason m \<noteq> []) [''Failure reason:'', mFailureReason m]),
          Line (nl @ ''Safety checks:'')]
         @ map (\<lambda>c. Line (''  [ok] '' @ c)) (pvSafetyChecks p)
         @ (if diff \<noteq> [] then [Line (nl @ ''Payload diff:''), Line diff] else [])
         @ (if MatchFound (pvDuplicate p)
            then [Line (nl @ ''POSSIBLE DUPLICATE'')] @ warned @ [Line ''Review before proceeding.'']
            else if pvWarnings p \<noteq> [] then Line (nl @ ''Warnings:'') # warned else [])
         @ [Line (nl @ ''Changes made: NONE''),
            Line (''Dry run'' @ dash_sep @ ''re-run with --confirm to replay.'')])"

text \<open>The end of \<open>replay\<close> and \<open>patch\<close>, with the request complete but for its confirmation.\<close>

definition preview_request ::
    "'w runtime \<Rightarrow> 'w connector \<Rightarrow> request \<Rightarrow> 'w host \<Rightarrow> goerr option \<times> 'w host" where
  "preview_request su cn req h =
     (case on_world (DryRun (suEnv su) (cnBroker cn) req) h of
        (Inl e, h) \<Rightarrow> (Some e, h)
      | (Inr p, h) \<Rightarrow> (None, says (renderReplayPreview p (rqDiff req)) h))"

definition execute_request ::
    "'w runtime \<Rightarrow> 'w connector \<Rightarrow> request \<Rightarrow> (exec_result \<Rightarrow> out list) \<Rightarrow> 'w host \<Rightarrow> goerr option \<times> 'w host" where
  "execute_request su cn req report h =
     (case on_world (Execute (suEnv su) (cnBroker cn) (req\<lparr>rqConfirm := True\<rparr>)) h of
        (Inl e, h) \<Rightarrow> (Some e, h)
      | (Inr res, h) \<Rightarrow> (None, says (report res) h))"

section \<open>dlq replay\<close>

record replay_args =
  raArgs :: "string list"
  raID :: string
  raDestination :: string
  raConfirm :: bool
  raYes :: bool
  raDryRun :: bool
  raReason :: string

definition replay_request :: "'w runtime \<Rightarrow> global_options \<Rightarrow> 'w host \<Rightarrow> replay_args \<Rightarrow> profile \<Rightarrow> string \<Rightarrow> request" where
  "replay_request su go h a p queue =
     \<lparr>rqQueue = queue, rqMessageID = raID a, rqDestination = raDestination a, rqBrokerName = pfBroker p,
      rqProfile = effectiveProfileName su go h, rqReason = raReason a, rqConfirm = False,
      rqAction = [], rqPayload = None, rqDiff = []\<rparr>"

definition replay_run ::
    "'w runtime \<Rightarrow> global_options \<Rightarrow> replay_args \<Rightarrow> 'w connector \<Rightarrow> profile \<Rightarrow> string \<Rightarrow> 'w host \<Rightarrow> goerr option \<times> 'w host" where
  "replay_run su go a cn p queue h =
     (let req = replay_request su go h a p queue in
      if raConfirm a then
        (case confirm_gate su (raYes a) (''Replay message '' @ raID a @ '' from '' @ queue @ ''? [y/N] '') ''Replay cancelled.'' h of
           (Some r, h) \<Rightarrow> (r, h)
         | (None, h) \<Rightarrow>
             execute_request su cn req (\<lambda>res.
               [Line (''Replayed '' @ xrMessageID res @ '' -> '' @ xrDestination res), Line ''Audit entry written.'']) h)
      else preview_request su cn req (if raDryRun a then says [Line ''Dry run requested explicitly.''] h else h))"

definition replay_cmd :: "'w runtime \<Rightarrow> global_options \<Rightarrow> replay_args \<Rightarrow> 'w host \<Rightarrow> (goerr option \<times> 'w host) option" where
  "replay_cmd su go a h =
     with_broker su go (\<lambda>cn p h.
       case resolveQueue (raArgs a) (pfDefaultQueue p) of
         Inl e \<Rightarrow> Some (Some e, h)
       | Inr queue \<Rightarrow>
           if raID a = [] then Some (Some (Text ''--id is required''), h)
           else with_store su go (\<lambda>h. Some (replay_run su go a cn p queue h)) h) h"

section \<open>dlq patch\<close>

record patch_args =
  ptArgs :: "string list"
  ptID :: string
  ptSets :: "string list"
  ptDestination :: string
  ptConfirm :: bool
  ptYes :: bool
  ptReason :: string

fun set_ops :: "string list \<Rightarrow> (goerr, set_op list) result" where
  "set_ops [] = Ok []"
| "set_ops (s # ss) =
     (case IndexByte s (CHR ''='') of
        None \<Rightarrow> Err (Text (''invalid --set '' @ Quote s @ '' (want path=value)''))
      | Some i \<Rightarrow>
          if i = 0 then Err (Text (''invalid --set '' @ Quote s @ '' (want path=value)''))
          else (case set_ops ss of
                  Inl e \<Rightarrow> Err e
                | Inr ops \<Rightarrow> Ok (\<lparr>soPath = take i s, soValue = drop (Suc i) s\<rparr> # ops)))"

definition parseSetOps :: "string list \<Rightarrow> (goerr, set_op list) result" where
  "parseSetOps sets =
     (case set_ops sets of
        Inl e \<Rightarrow> Err e
      | Inr ops \<Rightarrow> if ops = [] then Err (Text ''at least one --set is required'') else Ok ops)"

definition patch_request ::
    "'w runtime \<Rightarrow> global_options \<Rightarrow> 'w host \<Rightarrow> patch_args \<Rightarrow> profile \<Rightarrow> string \<Rightarrow> string \<Rightarrow> string \<Rightarrow> request" where
  "patch_request su go h a p queue patched diff =
     \<lparr>rqQueue = queue, rqMessageID = ptID a, rqDestination = ptDestination a, rqBrokerName = pfBroker p,
      rqProfile = effectiveProfileName su go h, rqReason = ptReason a, rqConfirm = False,
      rqAction = ActionPatch, rqPayload = Some patched, rqDiff = diff\<rparr>"

text \<open>The patched payload of a message and its diff; an error when nothing would change.\<close>

definition patched_payload :: "message \<Rightarrow> set_op list \<Rightarrow> (goerr, string \<times> string) result" where
  "patched_payload m ops =
     (case ApplySet (mPayload m) ops of
        Panics \<Rightarrow> Err (GoPanic ''assignment to entry in nil map'')
      | Returns (Inl e) \<Rightarrow> Err e
      | Returns (Inr patched) \<Rightarrow>
     (case Diff (mPayload m) patched of
        Inl e \<Rightarrow> Err e
      | Inr diff \<Rightarrow>
          if diff = [] then Err (Text (''--set produced no change'' @ dash_sep @ ''refusing to replay an unchanged payload''))
          else Ok (patched, diff)))"

definition patch_run ::
    "'w runtime \<Rightarrow> global_options \<Rightarrow> patch_args \<Rightarrow> set_op list \<Rightarrow> 'w connector \<Rightarrow> profile \<Rightarrow> string \<Rightarrow> 'w host \<Rightarrow>
     goerr option \<times> 'w host" where
  "patch_run su go a ops cn p queue h =
     (case on_world (do_inspect (cnBroker cn) queue (ptID a)) h of
        (Inl e, h) \<Rightarrow> (Some e, h)
      | (Inr m, h) \<Rightarrow>
     (case patched_payload m ops of
        Inl e \<Rightarrow> (Some e, h)
      | Inr (patched, diff) \<Rightarrow>
          (let req = patch_request su go h a p queue patched diff in
           if ptConfirm a then
             (case confirm_gate su (ptYes a) (''Patch and replay message '' @ ptID a @ '' from '' @ queue @ ''? [y/N] '') ''Patch cancelled.'' h of
                (Some r, h) \<Rightarrow> (r, h)
              | (None, h) \<Rightarrow>
                  execute_request su cn req (\<lambda>res.
                    [Line (''Patched and replayed '' @ xrMessageID res @ '' -> '' @ xrDestination res),
                     Line ''Audit entry written (with diff).'']) h)
           else preview_request su cn req h)))"

definition patch_cmd :: "'w runtime \<Rightarrow> global_options \<Rightarrow> patch_args \<Rightarrow> 'w host \<Rightarrow> (goerr option \<times> 'w host) option" where
  "patch_cmd su go a h =
     (case parseSetOps (ptSets a) of
        Inl e \<Rightarrow> Some (Some e, h)
      | Inr ops \<Rightarrow>
          with_broker su go (\<lambda>cn p h.
            case resolveQueue (ptArgs a) (pfDefaultQueue p) of
              Inl e \<Rightarrow> Some (Some e, h)
            | Inr queue \<Rightarrow>
                if ptID a = [] then Some (Some (Text ''--id is required''), h)
                else with_store su go (\<lambda>h. Some (patch_run su go a ops cn p queue h)) h) h)"

section \<open>Plan files\<close>

definition writePlanFile :: "os \<Rightarrow> string \<Rightarrow> recovery_plan \<Rightarrow> files \<Rightarrow> goerr option \<times> files" where
  "writePlanFile os path p fs =
     (if year_of (plCreatedAt p) > 9999
      then (Some (Wrap ''encode plan: '' (Text ''json: year outside of range [0,9999]'') []), fs)
      else case WriteFile os path (plan_text p) fs of
             (Some e, fs) \<Rightarrow> (Some (Wrap (''write plan '' @ path @ '': '') e []), fs)
           | (None, fs) \<Rightarrow> (None, fs))"

text \<open>The text of a decoding error is not modelled.\<close>

definition loadPlanFile :: "os \<Rightarrow> files \<Rightarrow> string \<Rightarrow> (goerr, recovery_plan) result" where
  "loadPlanFile os fs path =
     (case ReadFile os fs path of
        Absent \<Rightarrow> Err (Wrap (''read plan '' @ path @ '': '') (no_such_file path) [])
      | Unreadable e \<Rightarrow> Err (Wrap (''read plan '' @ path @ '': '') e [])
      | Content t \<Rightarrow>
          (case read_plan t of
             None \<Rightarrow> Err (Wrap (''parse plan '' @ path @ '': '') (Text ''json'') [])
           | Some p \<Rightarrow>
               if plMessageIDs p = [] then Err (Text (''plan '' @ path @ '' selects no messages''))
               else Ok p))"

section \<open>dlq recover\<close>

record recover_args =
  rvPlan :: string
  rvDryRun :: bool
  rvConfirm :: bool
  rvResume :: bool
  rvBatchSize :: int
  rvRateLimit :: string
  rvConcurrency :: int
  rvRetry :: int
  rvFailureThreshold :: rat
  rvPendingThreshold :: int
  rvReason :: string

definition renderRecoverReport :: "string \<Rightarrow> recovery_plan \<Rightarrow> validation_result \<Rightarrow> out list" where
  "renderRecoverReport path p res =
     (let skipped = (\<lambda>r. map smID (filter (\<lambda>s. smReason s = r) (vrSkippedMessages res)));
          shown = filter (\<lambda>r. skipped r \<noteq> []) [SkipNotFound, SkipInvalid, SkipDuplicate]
      in [Table ([[''Recovery plan:'', path], [''Plan ID:'', plID p], [''Selected:'', Itoa (vrSelected res) @ '' messages''],
                  [''Destination:'', plDestination p]]
           @ row_if (vrDestinationMissing res \<noteq> []) [''Destination warning:'', ''queue '' @ Quote (vrDestinationMissing res)
               @ '' does not exist'' @ dash_sep @ ''a confirmed run will be refused'']
           @ row_if (vrDestinationPending res > 0) [''Pending warning:'', ''queue '' @ Quote (plDestination p) @ '' has ''
               @ Itoa (vrDestinationPending res) @ '' pending (unacknowledged) messages'' @ dash_sep @ ''consumers may be backed up'']
           @ [[''Payload validation:'', Itoa (vrValidated res) @ ''/'' @ Itoa (vrSelected res) @ '' passed'']]
           @ row_if (vrDuplicates res > 0) [''Duplicate warning:'', Itoa (vrDuplicates res)]
           @ row_if (plExcluded p \<noteq> []) [''Excluded:'', Itoa (int (length (plExcluded p))) @ '' (left in DLQ)'']
           @ [[''Messages that will be skipped:'', Itoa (vrSkipped res)], [''Messages to replay:'', Itoa (vrToReplay res)]]
           @ row_if (vrChecksRun res \<noteq> []) [''Safety checks run:'', joinComma (vrChecksRun res)])]
         @ (if vrSkippedMessages res \<noteq> [] then
              Line (nl @ ''Skipped messages:'') # map (\<lambda>r. Line (''  '' @ skip_text r @ '' ('' @ Itoa (int (length (skipped r)))
                @ ''): '' @ joinComma (skipped r))) shown
            else [])
         @ [Line (nl @ ''Changes made: NONE''),
            Line (''Dry run'' @ dash_sep @ ''validation only, no message was published or acked.'')])"

definition renderRecoverSummary :: "string \<Rightarrow> recovery_plan \<Rightarrow> execution_result \<Rightarrow> out list" where
  "renderRecoverSummary path p res =
     [Table ([[''Recovery plan:'', path], [''Plan ID:'', plID p], [''Selected:'', Itoa (erSelected res)],
              [''Replayed:'', Itoa (erReplayed res)], [''Skipped:'', Itoa (erSkipped res)]]
        @ row_if (erExcluded res > 0) [''Excluded:'', Itoa (erExcluded res) @ '' (left in DLQ)'']
        @ [[''Failed during replay:'', Itoa (erFailed res)], [''New DLQ entries:'', Itoa (erNewDLQEntries res)],
           [''Duration:'', duration_text (erDuration res)]])]
     @ (if erTripped res then
          [Line (nl @ ''Circuit breaker tripped (failure rate '' @ percent0 (erTrippedFailureRate res) @ ''% exceeded ''
             @ percent0 DefaultFailureThreshold @ ''%)'' @ dash_sep @ ''paused.''),
           Line (''Remaining: '' @ Itoa (int (length (erRemaining res))) @ '' messages ('' @ joinComma (erRemaining res) @ '')''),
           Line ''Re-run with --confirm --resume to continue from where it stopped.'']
        else [])"

definition recover_options ::
    "'w runtime \<Rightarrow> global_options \<Rightarrow> 'w host \<Rightarrow> recover_args \<Rightarrow> profile \<Rightarrow> executor_options" where
  "recover_options su go h a p =
     \<lparr>xoConfirm = True, xoResume = rvResume a, xoBatchSize = rvBatchSize a, xoConcurrency = rvConcurrency a,
      xoRateLimit = rvRateLimit a, xoRetryPerMessage = rvRetry a, xoFailureThreshold = rvFailureThreshold a,
      xoPendingThreshold = rvPendingThreshold a, xoBrokerName = pfBroker p,
      xoProfile = effectiveProfileName su go h, xoReason = rvReason a\<rparr>"

text \<open>The entry of a dry run, for \<open>recover\<close> and \<open>rollback\<close>.\<close>

definition previewEntry ::
    "action \<Rightarrow> string \<Rightarrow> string \<Rightarrow> string \<Rightarrow> string \<Rightarrow> string \<Rightarrow> string \<Rightarrow> gotime \<Rightarrow> entry" where
  "previewEntry action plan queue dest broker profile reason now =
     \<lparr>eTimestamp = now, eAction = action, eMessageID = [], ePlanID = plan, eSourceQueue = queue,
      eDestination = dest, eDryRun = True, eConfirmed = False, eResult = ''dry_run'', eBroker = broker,
      eProfile = profile, eReason = reason, ePayloadDiff = []\<rparr>"

definition recover_preview ::
    "'w runtime \<Rightarrow> global_options \<Rightarrow> recover_args \<Rightarrow> 'w connector \<Rightarrow> profile \<Rightarrow> recovery_plan \<Rightarrow> 'w host \<Rightarrow> goerr option \<times> 'w host" where
  "recover_preview su go a cn pf p h =
     (case on_world (Validate (suEnv su) (cnBroker cn) (rvPendingThreshold a) (Some p)) h of
        (Inl e, h) \<Rightarrow> (Some e, h)
      | (Inr res, h) \<Rightarrow>
          (let h = h\<lparr>hWorld := try_append (suEnv su) (previewEntry ActionRecover (plID p) (plQueue p) (plDestination p)
                     (pfBroker pf) (effectiveProfileName su go h) (rvReason a)) (hWorld h)\<rparr>
           in (None, says (if goOutput go = ''json'' then [JValidation res] else renderRecoverReport (rvPlan a) p res) h)))"

definition recover_run ::
    "'w runtime \<Rightarrow> global_options \<Rightarrow> recover_args \<Rightarrow> 'w connector \<Rightarrow> profile \<Rightarrow> recovery_plan \<Rightarrow> 'w host \<Rightarrow>
     (goerr option \<times> 'w host) option" where
  "recover_run su go a cn pf p h =
     (if rvConfirm a then
        (case Execute_plan (suEnv su) (cnBroker cn) p (recover_options su go h a pf) (hWorld h) of
           None \<Rightarrow> None
         | Some (Inl e, w) \<Rightarrow> Some (Some e, h\<lparr>hWorld := w\<rparr>)
         | Some (Inr res, w) \<Rightarrow>
             Some (None, says (if goOutput go = ''json'' then [JExecution res] else renderRecoverSummary (rvPlan a) p res)
                           (h\<lparr>hWorld := w\<rparr>)))
      else Some (recover_preview su go a cn pf p h))"

definition recover_cmd :: "'w runtime \<Rightarrow> global_options \<Rightarrow> recover_args \<Rightarrow> 'w host \<Rightarrow> (goerr option \<times> 'w host) option" where
  "recover_cmd su go a h =
     (case loadPlanFile (suOs su) (hFiles h) (rvPlan a) of
        Inl e \<Rightarrow> Some (Some e, h)
      | Inr p \<Rightarrow> with_broker su go (\<lambda>cn pf h. with_store su go (recover_run su go a cn pf p) h) h)"

section \<open>dlq rollback\<close>

record rollback_args =
  rbPlan :: string
  rbDryRun :: bool
  rbConfirm :: bool
  rbReason :: string

definition ask_snapshots :: "env \<Rightarrow> string \<Rightarrow> 'w world \<Rightarrow> (goerr, snapshot list) result \<times> 'w world" where
  "ask_snapshots env plan w =
     (case wStore w of None \<Rightarrow> (Err (GoPanic ''nil pointer dereference''), w)
      | Some s \<Rightarrow> (Snapshots (db_ok env (wTick w)) plan s, w\<lparr>wTick := Suc (wTick w)\<rparr>))"

definition renderRollbackReport :: "rollback_result \<Rightarrow> out list" where
  "renderRollbackReport res =
     [Table ([[''Rollback plan:'', rrPlanID res], [''Snapshots:'', Itoa (rrSnapshots res)], [''DLQ:'', rrDLQ res]]
        @ row_if (rrMissingDLQ res \<noteq> []) [''Destination warning:'', ''queue '' @ Quote (rrMissingDLQ res)
            @ '' does not exist'' @ dash_sep @ ''a confirmed rollback will be refused'']
        @ [[''Messages to restore:'', Itoa (rrSnapshots res)]]),
      Line (nl @ ''Changes made: NONE''),
      Line (''Dry run'' @ dash_sep @ ''validation only, no message was published.'')]"

definition renderRollbackSummary :: "rollback_result \<Rightarrow> out list" where
  "renderRollbackSummary res =
     [Table [[''Rollback plan:'', rrPlanID res], [''Snapshots:'', Itoa (rrSnapshots res)], [''DLQ:'', rrDLQ res],
        [''Restored:'', Itoa (rrRestored res)], [''Failed:'', Itoa (rrFailed res)],
        [''Duration:'', duration_text (rrDuration res)]]]"

definition rollback_confirmed :: "'w runtime \<Rightarrow> global_options \<Rightarrow> 'w host \<Rightarrow> rollback_args \<Rightarrow> profile \<Rightarrow> rollback_options" where
  "rollback_confirmed su go h a p =
     \<lparr>roConfirm = True, roReason = rbReason a, roBrokerName = pfBroker p, roProfile = effectiveProfileName su go h\<rparr>"

definition rollback_preview_options :: rollback_options where
  "rollback_preview_options = \<lparr>roConfirm = False, roReason = [], roBrokerName = [], roProfile = []\<rparr>"

definition rollback_run ::
    "'w runtime \<Rightarrow> global_options \<Rightarrow> rollback_args \<Rightarrow> 'w connector \<Rightarrow> profile \<Rightarrow> 'w host \<Rightarrow> goerr option \<times> 'w host" where
  "rollback_run su go a cn p h =
     (case on_world (ask_snapshots (suEnv su) (rbPlan a)) h of
        (Inl e, h) \<Rightarrow> (Some e, h)
      | (Inr snaps, h) \<Rightarrow>
          if snaps = [] then
            (Some (Text (''no snapshots found for plan '' @ rbPlan a @ '' (was it recovered with a confirmed run of this tool?)'')), h)
          else if rbConfirm a then
            (case on_world (Rollback_snaps (suEnv su) (cnBroker cn) snaps (rollback_confirmed su go h a p)) h of
               ((_, Some e), h) \<Rightarrow> (Some e, h)
             | ((res, None), h) \<Rightarrow>
                 (None, says (if goOutput go = ''json'' then [JRollback res] else renderRollbackSummary (the res)) h))
          else
            (case on_world (Rollback_snaps (suEnv su) (cnBroker cn) snaps rollback_preview_options) h of
               ((_, Some e), h) \<Rightarrow> (Some e, h)
             | ((res, None), h) \<Rightarrow>
                 (let h = h\<lparr>hWorld := try_append (suEnv su) (previewEntry ActionRollback (rbPlan a) (rrDLQ (the res)) []
                            (pfBroker p) (effectiveProfileName su go h) (rbReason a)) (hWorld h)\<rparr>
                  in (None, says (if goOutput go = ''json'' then [JRollback res] else renderRollbackReport (the res)) h))))"

definition rollback_cmd :: "'w runtime \<Rightarrow> global_options \<Rightarrow> rollback_args \<Rightarrow> 'w host \<Rightarrow> (goerr option \<times> 'w host) option" where
  "rollback_cmd su go a h =
     with_broker su go (\<lambda>cn p h. with_store su go (\<lambda>h. Some (rollback_run su go a cn p h)) h) h"

section \<open>Lemmas\<close>

lemma preview_request_quiet:
  assumes "preview_request su cn req h = (e, h')"
  shows "quiet_since (hWorld h) (hWorld h')"
proof -
  obtain r w' where d: "DryRun (suEnv su) (cnBroker cn) req (hWorld h) = (r, w')" by fastforce
  obtain new v where v: "wTrace v = wTrace (hWorld h) @ new" "\<not> list_ex mutating new"
      "w' = v \<or> (\<exists>m d ev c ws. dryRunPreview (suEnv su) req m d ev c ws v = (r, w'))"
    by (rule DryRun_quiet[OF d])
  have "wTrace w' = wTrace v"
    using v(3) by (auto simp: dryRunPreview_def)
  moreover have "hWorld h' = w'"
    using assms d by (auto simp: preview_request_def on_world_def split: sum.splits)
  ultimately show ?thesis using v(1,2) by (auto simp: quiet_since_def)
qed

text \<open>What the operator must have said for a mutating run of \<open>replay\<close> or \<open>patch\<close>.\<close>

definition said_yes :: "os \<Rightarrow> bool" where
  "said_yes os =
     (case IndexByte (osStdin os) (CHR 0x0A) of None \<Rightarrow> False
      | Some i \<Rightarrow> EqualFold (TrimSpace (take (Suc i) (osStdin os))) ''y'')"

definition may_go_on :: "os \<Rightarrow> bool \<Rightarrow> bool" where
  "may_go_on os yes = (yes \<or> \<not> osTerminal os \<or> said_yes os)"

lemma confirm_gate_iff:
  "fst (confirm_gate su yes p c h) = None \<longleftrightarrow> may_go_on (suOs su) yes"
  by (auto simp: confirm_gate_def promptConfirm_def may_go_on_def said_yes_def Let_def split: option.splits)

lemma gate_then:
  assumes "(case confirm_gate su yes p c h of (Some r, h) \<Rightarrow> (r, h) | (None, h) \<Rightarrow> f h) = (e, h')"
    and "\<not> may_go_on (suOs su) yes"
  shows "quiet_since (hWorld h) (hWorld h')"
proof -
  obtain r h1 where g: "confirm_gate su yes p c h = (r, h1)" by fastforce
  then have "r \<noteq> None" using confirm_gate_iff[of su yes p c h] assms(2) by simp
  then show ?thesis using assms(1) g confirm_gate_frame[OF g] by auto
qed

lemma replay_run_quiet:
  assumes "replay_run su go a cn p queue h = (e, h')" and "\<not> (raConfirm a \<and> may_go_on (suOs su) (raYes a))"
  shows "quiet_since (hWorld h) (hWorld h')"
proof (cases "raConfirm a")
  case True
  then show ?thesis using assms gate_then unfolding replay_run_def Let_def by (simp add: gate_then)
next
  case False
  then show ?thesis using assms(1) preview_request_quiet by (fastforce simp: replay_run_def Let_def split: if_splits)
qed

lemma on_world_inspect:
  "on_world (do_inspect b q i) h = (r, h') \<Longrightarrow> quiet_since (hWorld h) (hWorld h')"
  by (auto simp: on_world_def quiet_since_def dest!: do_inspect_frame split: prod.splits)

lemma patch_run_quiet:
  assumes "patch_run su go a ops cn p queue h = (e, h')" and "\<not> (ptConfirm a \<and> may_go_on (suOs su) (ptYes a))"
  shows "quiet_since (hWorld h) (hWorld h')"
proof -
  obtain i h1 where i: "on_world (do_inspect (cnBroker cn) queue (ptID a)) h = (i, h1)" by fastforce
  have q: "quiet_since (hWorld h) (hWorld h1)" by (rule on_world_inspect[OF i])
  show ?thesis
  proof (cases "\<exists>m x. i = Inr m \<and> patched_payload m ops = Inr x")
    case True
    then obtain m x where m: "i = Inr m" "patched_payload m ops = Inr x" by blast
    obtain patched diff where x: "x = (patched, diff)" by fastforce
    have "quiet_since (hWorld h1) (hWorld h')"
    proof (cases "ptConfirm a")
      case True
      then show ?thesis using assms i m x gate_then by (simp add: patch_run_def Let_def gate_then)
    next
      case False
      then show ?thesis using assms(1) i m x preview_request_quiet by (simp add: patch_run_def Let_def)
    qed
    with q show ?thesis by (rule quiet_since_trans)
  next
    case False
    then have "h' = h1" using assms(1) i by (auto simp: patch_run_def split: sum.splits)
    with q show ?thesis by simp
  qed
qed

lemma recover_run_quiet:
  assumes "recover_run su go a cn pf p h = Some (e, h')" and "\<not> rvConfirm a"
  shows "quiet_since (hWorld h) (hWorld h')"
proof -
  obtain r w' where v: "Validate (suEnv su) (cnBroker cn) (rvPendingThreshold a) (Some p) (hWorld h) = (r, w')" by fastforce
  have "wTrace (hWorld h') = wTrace w'"
    using assms v by (auto simp: recover_run_def recover_preview_def on_world_def Let_def split: sum.splits)
  then show ?thesis using Validate_quiet[OF v] by (auto simp: quiet_since_def)
qed

lemma rollback_run_quiet:
  assumes "rollback_run su go a cn p h = (e, h')" and "\<not> rbConfirm a"
  shows "quiet_since (hWorld h) (hWorld h')"
proof -
  obtain s h1 where s: "on_world (ask_snapshots (suEnv su) (rbPlan a)) h = (s, h1)" by fastforce
  have t: "wTrace (hWorld h1) = wTrace (hWorld h)"
    using s by (auto simp: on_world_def ask_snapshots_def split: option.splits)
  show ?thesis
  proof (cases "\<exists>snaps. s = Inr snaps \<and> snaps \<noteq> []")
    case True
    then obtain snaps where n: "s = Inr snaps" "snaps \<noteq> []" by blast
    obtain r w' where r: "Rollback_snaps (suEnv su) (cnBroker cn) snaps rollback_preview_options (hWorld h1) = (r, w')"
      by fastforce
    have "quiet_since (hWorld h1) w'"
      using Rollback_cases[OF r]
      by cases (auto simp: rollback_preview_options_def quiet_since_def dest!: do_stats_frame)
    moreover have "wTrace (hWorld h') = wTrace w'"
      using assms s n r by (auto simp: rollback_run_def on_world_def Let_def split: prod.splits option.splits)
    ultimately show ?thesis using t by (auto simp: quiet_since_def)
  next
    case False
    then show ?thesis using assms s t by (auto simp: rollback_run_def split: sum.splits)
  qed
qed

text \<open>Whatever is confirmed: an ack comes directly after a confirmed publish.\<close>

abbreviation safe_since :: "'w world \<Rightarrow> 'w world \<Rightarrow> bool" where
  "safe_since \<equiv> calls_since (ack_safe None)"

lemma quiet_is_safe: "quiet_since w w' \<Longrightarrow> safe_since w w'"
  by (auto simp: quiet_since_def calls_since_def dest: quiet_reads)

lemma safe_since_trans: "safe_since u v \<Longrightarrow> safe_since v w \<Longrightarrow> safe_since u w"
  by (auto simp: calls_since_def intro: ack_safe_append)

lemma execute_request_safe:
  assumes "execute_request su cn req report h = (e, h')"
  shows "safe_since (hWorld h) (hWorld h')"
proof -
  obtain r w' where x: "Execute (suEnv su) (cnBroker cn) (req\<lparr>rqConfirm := True\<rparr>) (hWorld h) = (r, w')" by fastforce
  then have "hWorld h' = w'"
    using assms by (auto simp: execute_request_def on_world_def split: sum.splits)
  then show ?thesis using Execute_trace[OF x] by (auto simp: calls_since_def)
qed

lemma gate_execute_safe:
  assumes "(case confirm_gate su yes p c h of (Some r, h) \<Rightarrow> (r, h) | (None, h) \<Rightarrow> execute_request su cn req report h) = (e, h')"
  shows "safe_since (hWorld h) (hWorld h')"
proof -
  obtain r h1 where g: "confirm_gate su yes p c h = (r, h1)" by fastforce
  then show ?thesis
    using assms confirm_gate_frame[OF g] execute_request_safe[of su cn req report h1 e h']
    by (cases r) (auto simp: quiet_is_safe)
qed

lemma replay_run_safe:
  assumes "replay_run su go a cn p queue h = (e, h')"
  shows "safe_since (hWorld h) (hWorld h')"
proof (cases "raConfirm a")
  case True
  then show ?thesis using assms by (simp add: replay_run_def Let_def gate_execute_safe)
next
  case False
  then show ?thesis using replay_run_quiet[OF assms] by (simp add: quiet_is_safe)
qed

lemma patch_run_safe:
  assumes "patch_run su go a ops cn p queue h = (e, h')"
  shows "safe_since (hWorld h) (hWorld h')"
proof (cases "ptConfirm a")
  case True
  obtain i h1 where i: "on_world (do_inspect (cnBroker cn) queue (ptID a)) h = (i, h1)" by fastforce
  have q: "safe_since (hWorld h) (hWorld h1)" by (rule quiet_is_safe[OF on_world_inspect[OF i]])
  have "h' = h1 \<or> safe_since (hWorld h1) (hWorld h')"
    using assms i True by (auto simp: patch_run_def Let_def gate_execute_safe split: sum.splits prod.splits)
  with q show ?thesis using safe_since_trans by blast
next
  case False
  then show ?thesis using patch_run_quiet[OF assms] by (simp add: quiet_is_safe)
qed

lemma recover_run_safe:
  assumes "recover_run su go a cn pf p h = Some (e, h')"
  shows "safe_since (hWorld h) (hWorld h')"
proof (cases "rvConfirm a")
  case True
  then obtain r w' where x: "Execute_plan (suEnv su) (cnBroker cn) p (recover_options su go h a pf) (hWorld h) = Some (r, w')"
      "hWorld h' = w'"
    using assms by (auto simp: recover_run_def split: option.splits sum.splits prod.splits)
  obtain reads new where t: "wTrace w' = wTrace (hWorld h) @ reads @ new" "\<not> list_ex mutating reads" "ack_safe None new"
    using Execute_plan_calls[OF x(1)] by blast
  have "ack_safe None (reads @ new)" using ack_safe_append quiet_reads[OF t(2)] t(3) by blast
  then show ?thesis using t(1) x(2) by (auto simp: calls_since_def)
next
  case False
  then show ?thesis using recover_run_quiet[OF assms] by (simp add: quiet_is_safe)
qed

lemma restore_calls_safe: "ack_safe p (restore_calls ss ks)"
proof (induction ss arbitrary: ks p)
  case (Cons s ss)
  then show ?case by (cases ks) auto
qed simp

lemma rollback_run_safe:
  assumes "rollback_run su go a cn p h = (e, h')"
  shows "safe_since (hWorld h) (hWorld h')"
proof (cases "rbConfirm a")
  case True
  obtain s h1 where s: "on_world (ask_snapshots (suEnv su) (rbPlan a)) h = (s, h1)" by fastforce
  have t: "wTrace (hWorld h1) = wTrace (hWorld h)"
    using s by (auto simp: on_world_def ask_snapshots_def split: option.splits)
  show ?thesis
  proof (cases "\<exists>snaps. s = Inr snaps \<and> snaps \<noteq> []")
    case True
    then obtain snaps where n: "s = Inr snaps" "snaps \<noteq> []" by blast
    obtain r w' where r: "Rollback_snaps (suEnv su) (cnBroker cn) snaps (rollback_confirmed su go h1 a p) (hWorld h1) = (r, w')"
      by fastforce
    have "safe_since (hWorld h1) w'"
      using r
    proof (cases rule: Rollback_cases)
      case (run st w1 res w2 d)
      then show ?thesis using restore_effect[OF run(4)] restore_calls_safe[of "Some (CStats (sSourceQueue (hd snaps)) True)" snaps]
        by (auto simp: calls_since_def rollbackPlanAudit_def dest!: do_stats_frame)
    qed (auto simp: calls_since_def rollbackPlanAudit_def dest!: do_stats_frame)
    moreover have "hWorld h' = w'"
      using assms s n r \<open>rbConfirm a\<close> by (auto simp: rollback_run_def on_world_def Let_def split: prod.splits option.splits)
    ultimately show ?thesis using t by (auto simp: calls_since_def)
  next
    case False
    then show ?thesis using assms s t by (auto simp: rollback_run_def calls_since_def split: sum.splits)
  qed
next
  case False
  then show ?thesis using rollback_run_quiet[OF assms] by (simp add: quiet_is_safe)
qed

end
