(* ===== verification/Cmd_Read.thy ===== *)
theory Cmd_Read
  imports Cmd_Recovery
begin

text \<open>
  The commands that read a queue or the audit store: \<^verbatim>\<open>inspect.go\<close>, \<^verbatim>\<open>search.go\<close>,
  \<^verbatim>\<open>queues.go\<close>, \<^verbatim>\<open>stats.go\<close> and \<^verbatim>\<open>history.go\<close> of \<^verbatim>\<open>internal/command\<close>, and
  \<open>PrettyJSON\<close> of \<^verbatim>\<open>internal/message\<close>. A payload is redacted before anything is printed.
\<close>

section \<open>PrettyJSON\<close>

text \<open>
  \<open>json.Indent\<close> on a valid document, byte by byte: inside a string (and behind a backslash),
  an opening bracket waiting for its first element, the depth, and whether the document has
  begun; white space behind a finished document is copied.
\<close>

fun indent_bytes :: "bool \<Rightarrow> bool \<Rightarrow> bool \<Rightarrow> nat \<Rightarrow> bool \<Rightarrow> string \<Rightarrow> string" where
  "indent_bytes str esc opened d begun [] = []"
| "indent_bytes True esc opened d begun (c # s) =
     c # (if esc then indent_bytes True False opened d begun s
          else if c = CHR 0x5C then indent_bytes True True opened d begun s
          else indent_bytes (c \<noteq> CHR 0x22) False opened d begun s)"
| "indent_bytes False esc opened d begun (c # s) =
     (if json_space c then (if begun \<and> d = 0 \<and> \<not> opened then c # indent_bytes False False opened d begun s
                            else indent_bytes False False opened d begun s)
      else if c = CHR ''}'' \<or> c = CHR '']'' then
        (if opened then c # indent_bytes False False False d True s
         else newline (d - 1) @ c # indent_bytes False False False (d - 1) True s)
      else
        (let d' = (if opened then Suc d else d); pre = (if opened then newline (Suc d) else [])
         in pre @
            (if c = CHR ''{'' \<or> c = CHR ''['' then c # indent_bytes False False True d' True s
             else if c = CHR '','' then c # newline d' @ indent_bytes False False False d' True s
             else if c = CHR '':'' then c # CHR 0x20 # indent_bytes False False False d' True s
             else c # indent_bytes (c = CHR 0x22) False False d' True s)))"

definition PrettyJSON :: "string \<Rightarrow> string option" where
  "PrettyJSON payload = (if json_Valid payload then Some (indent_bytes False False False 0 False payload) else None)"

section \<open>dlq inspect\<close>

record inspect_args =
  inArgs :: "string list"
  inID :: string
  inFormat :: string
  inShowSensitive :: bool

definition profile_redactor :: "profile \<Rightarrow> redactor" where
  "profile_redactor p = \<lparr>rdFields = pfSensitiveFields p, rdMask = []\<rparr>"

definition shown_payload_of :: "bool \<Rightarrow> profile \<Rightarrow> message \<Rightarrow> message" where
  "shown_payload_of showSensitive p m =
     (if showSensitive then m else m\<lparr>mPayload := Apply (profile_redactor p) (mPayload m)\<rparr>)"

definition sorted_headers :: "headers \<Rightarrow> (string \<times> string) list" where
  "sorted_headers hs = map (\<lambda>k. (k, hget hs k)) (sort (remdups (map fst hs)))"

definition renderInspect :: "message \<Rightarrow> string \<Rightarrow> out list" where
  "renderInspect m format =
     [Table ([[''ID:'', mID m], [''Queue:'', mQueue m]]
        @ row_if (mDestination m \<noteq> []) [''Destination:'', mDestination m]
        @ row_if (\<not> IsZero (mTimestamp m)) [''Timestamp:'', FormatUTC (mTimestamp m)]
        @ [[''Retries:'', Itoa (mRetryCount m)]]
        @ row_if (mFailureReason m \<noteq> []) [''Failure reason:'', mFailureReason m]
        @ row_if (mContentType m \<noteq> []) [''Content type:'', mContentType m]
        @ row_if (mEventID m \<noteq> []) [''Event ID:'', mEventID m]
        @ row_if (mIdempotencyKey m \<noteq> []) [''Idempotency key:'', mIdempotencyKey m])]
     @ (if mHeaders m \<noteq> [] then
          Line (nl @ ''Headers:'') # map (\<lambda>(k, v). Line (''  '' @ k @ '': '' @ v)) (sorted_headers (mHeaders m))
        else [])
     @ [Line [], Line (if format = ''raw'' then mPayload m
                       else case PrettyJSON (mPayload m) of None \<Rightarrow> mPayload m | Some t \<Rightarrow> t)]"

definition inspect_run ::
    "global_options \<Rightarrow> inspect_args \<Rightarrow> 'w connector \<Rightarrow> profile \<Rightarrow> string \<Rightarrow> 'w host \<Rightarrow> goerr option \<times> 'w host" where
  "inspect_run go a cn p queue h =
     (if inID a = [] then (Some (Text ''--id is required''), h)
      else if inFormat a \<notin> set [''pretty'', ''raw'']
      then (Some (Text (''invalid --format '' @ Quote (inFormat a) @ '' (want pretty or raw)'')), h)
      else case on_world (do_inspect (cnBroker cn) queue (inID a)) h of
        (Inl e, h) \<Rightarrow> (Some e, h)
      | (Inr m, h) \<Rightarrow>
          (let m = shown_payload_of (inShowSensitive a) p m
           in (None, says (if goOutput go = ''json'' then [JMessage m] else renderInspect m (inFormat a)) h)))"

definition inspect_cmd :: "'w runtime \<Rightarrow> global_options \<Rightarrow> inspect_args \<Rightarrow> 'w host \<Rightarrow> (goerr option \<times> 'w host) option" where
  "inspect_cmd su go a h =
     with_broker su go (\<lambda>cn p h.
       case resolveQueue (inArgs a) (pfDefaultQueue p) of
         Inl e \<Rightarrow> Some (Some e, h)
       | Inr queue \<Rightarrow> Some (inspect_run go a cn p queue h)) h"

section \<open>Durations and --since\<close>

text \<open>\<open>time.ParseDuration\<close>: one number with a unit per step; a fraction is cut to whole nanoseconds.\<close>

definition unit_ns :: "string \<Rightarrow> int option" where
  "unit_ns u = map_of [(''ns'', 1), (''us'', 1000), ([CHR 0xC2, CHR 0xB5] @ ''s'', 1000), ([CHR 0xCE, CHR 0xBC] @ ''s'', 1000),
     (''ms'', 1000000), (''s'', 1000000000), (''m'', 60000000000), (''h'', 3600000000000)] u"

function duration_sum :: "string \<Rightarrow> int option" where
  "duration_sum s =
     (if s = [] then Some 0
      else
        let (i, t) = span is_digit s;
            (f, u) = (case expect CHR ''.'' t of None \<Rightarrow> ([], t) | Some t' \<Rightarrow> span is_digit t');
            (un, r) = span (\<lambda>c. c \<noteq> CHR ''.'' \<and> \<not> is_digit c) u
        in if i = [] \<and> f = [] \<or> un = [] \<or> \<not> length r < length s then None
           else case unit_ns un of None \<Rightarrow> None
             | Some k \<Rightarrow>
                 let v = digits_val 0 i * k + digits_val 0 f * k div 10 ^ length f
                 in if digits_val 0 i > 2 ^ 63 \<or> v > 2 ^ 63 then None
                    else case duration_sum r of None \<Rightarrow> None
                      | Some d \<Rightarrow> if v + d > 2 ^ 63 then None else Some (v + d))"
  by pat_completeness auto
termination by (relation "measure length") auto

declare duration_sum.simps [simp del]

definition ParseDuration :: "string \<Rightarrow> int option" where
  "ParseDuration s =
     (let neg = HasPrefix s ''-'';
          body = (if HasPrefix s ''-'' \<or> HasPrefix s ''+'' then tl s else s)
      in if body = ''0'' then Some 0
         else if body = [] then None
         else case duration_sum body of None \<Rightarrow> None
           | Some d \<Rightarrow> if neg then Some (- d) else if d > maxInt then None else Some d)"

definition parseSince :: "gotime \<Rightarrow> string \<Rightarrow> (goerr, gotime) result" where
  "parseSince now s =
     (case ParseDuration s of
        Some d \<Rightarrow> Ok (now - d)
      | None \<Rightarrow>
     (case ParseRFC3339Nano s of
        Some t \<Rightarrow> Ok t
      | None \<Rightarrow> Err (Text (''invalid --since '' @ Quote s @ '' (want a duration like 2h or an RFC3339 timestamp)''))))"

section \<open>dlq search\<close>

record search_args =
  saArgs :: "string list"
  saError :: string
  saSince :: string
  saFields :: "string list"
  saMaxRetries :: int
  saLimit :: int
  saShowSensitive :: bool

fun parse_fields :: "string list \<Rightarrow> (string \<times> string) list \<Rightarrow> (goerr, (string \<times> string) list) result" where
  "parse_fields [] m = Ok m"
| "parse_fields (kv # kvs) m =
     (case IndexByte kv (CHR ''='') of
        None \<Rightarrow> Err (Text (''invalid --field '' @ Quote kv @ '' (want key=value)''))
      | Some i \<Rightarrow>
          if i = 0 then Err (Text (''invalid --field '' @ Quote kv @ '' (want key=value)''))
          else parse_fields kvs (AList.update (take i kv) (drop (Suc i) kv) m))"

definition search_filter_of :: "gotime \<Rightarrow> search_args \<Rightarrow> (goerr, search_filter) result" where
  "search_filter_of now a =
     (case parse_fields (saFields a) [] of
        Inl e \<Rightarrow> Err e
      | Inr fs \<Rightarrow>
     (case (if saSince a = [] then Ok 0 else parseSince now (saSince a)) of
        Inl e \<Rightarrow> Err e
      | Inr t \<Rightarrow>
          Ok \<lparr>fErrorText = saError a, fSince = t, fFields = fs,
              fMaxRetries = (if saMaxRetries a \<ge> 0 then Some (saMaxRetries a) else None),
              fLimit = saLimit a, fOffset = 0\<rparr>))"

definition search_row :: "message \<Rightarrow> string list" where
  "search_row m =
     [mID m, if IsZero (mTimestamp m) then ''-'' else FormatUTC (mTimestamp m), Itoa (mRetryCount m),
      oneLine (truncate_runes (mFailureReason m) 30), oneLine (truncate_runes (mPayload m) 60)]"

definition renderSearchResults :: "message list \<Rightarrow> out list" where
  "renderSearchResults msgs =
     (if msgs = [] then [Line ''No messages match.'']
      else [Table ([''ID'', ''TIMESTAMP'', ''RETRIES'', ''REASON'', ''PAYLOAD''] # map search_row msgs),
            Line (nl @ Itoa (int (length msgs)) @ '' message(s) match.'')])"

definition search_run ::
    "'w runtime \<Rightarrow> global_options \<Rightarrow> search_args \<Rightarrow> 'w connector \<Rightarrow> profile \<Rightarrow> string \<Rightarrow> 'w host \<Rightarrow> goerr option \<times> 'w host" where
  "search_run su go a cn p queue h =
     (case search_filter_of (clock (suEnv su) (wTick (hWorld h))) a of
        Inl e \<Rightarrow> (Some e, h)
      | Inr f \<Rightarrow>
     (case on_world (do_search (cnBroker cn) queue f) h of
        (Inl e, h) \<Rightarrow> (Some e, h)
      | (Inr msgs, h) \<Rightarrow>
          (let msgs = map (shown_payload_of (saShowSensitive a) p) msgs
           in (None, says (if goOutput go = ''json'' then [JMessages msgs] else renderSearchResults msgs) h))))"

definition search_cmd :: "'w runtime \<Rightarrow> global_options \<Rightarrow> search_args \<Rightarrow> 'w host \<Rightarrow> (goerr option \<times> 'w host) option" where
  "search_cmd su go a h =
     with_broker su go (\<lambda>cn p h.
       case resolveQueue (saArgs a) (pfDefaultQueue p) of
         Inl e \<Rightarrow> Some (Some e, h)
       | Inr queue \<Rightarrow> Some (search_run su go a cn p queue h)) h"

section \<open>dlq queues and dlq stats\<close>

definition bool_text :: "bool \<Rightarrow> string" where
  "bool_text b = (if b then ''true'' else ''false'')"

definition queue_row :: "queue_info \<Rightarrow> string list" where
  "queue_row q = [qiName q, bool_text (qiDurable q), bool_text (qiAutoDelete q), Itoa (qiMessages q),
     Itoa (qiConsumers q), Itoa (qiPending q)]"

definition queues_run :: "global_options \<Rightarrow> 'w connector \<Rightarrow> 'w host \<Rightarrow> goerr option \<times> 'w host" where
  "queues_run go cn h =
     (let (r, s) = cnListQueues cn (wServer (hWorld h)); h = h\<lparr>hWorld := (hWorld h)\<lparr>wServer := s\<rparr>\<rparr>
      in case r of
           Inl e \<Rightarrow> (Some e, h)
         | Inr qs \<Rightarrow>
             (let qs = sort_key qiName qs
              in (None, says (if goOutput go = ''json'' then [JQueues qs]
                              else if qs = [] then [Line ''No queues found.'']
                              else [Table ([''NAME'', ''DURABLE'', ''AUTO-DELETE'', ''MESSAGES'', ''CONSUMERS'', ''PENDING'']
                                      # map queue_row qs)]) h)))"

definition queues_cmd :: "'w runtime \<Rightarrow> global_options \<Rightarrow> 'w host \<Rightarrow> (goerr option \<times> 'w host) option" where
  "queues_cmd su go h = with_broker su go (\<lambda>cn p h. Some (queues_run go cn h)) h"

definition renderStats :: "queue_stats \<Rightarrow> out list" where
  "renderStats st =
     [Table ([[''Queue:'', qQueue st], [''Messages:'', Itoa (qMessages st)], [''Consumers:'', Itoa (qConsumers st)]]
        @ row_if (qPending st > 0) [''Pending:'', Itoa (qPending st)]
        @ [[''Oldest age:'', ''n/a''], [''Newest age:'', ''n/a'']])]
     @ (if qGroups st \<noteq> [] then
          Line (nl @ ''Consumer groups:'') # map (\<lambda>g. Line (''  '' @ gName g @ [CHR 0x09] @ ''consumers: '' @ Itoa (gConsumers g)
            @ [CHR 0x09] @ ''pending: '' @ Itoa (gPending g))) (qGroups st)
        else [])"

definition stats_cmd :: "'w runtime \<Rightarrow> global_options \<Rightarrow> string list \<Rightarrow> 'w host \<Rightarrow> (goerr option \<times> 'w host) option" where
  "stats_cmd su go args h =
     with_broker su go (\<lambda>cn p h.
       case resolveQueue args (pfDefaultQueue p) of
         Inl e \<Rightarrow> Some (Some e, h)
       | Inr queue \<Rightarrow>
           (case on_world (do_stats (cnBroker cn) queue) h of
              (Inl e, h) \<Rightarrow> Some (Some e, h)
            | (Inr st, h) \<Rightarrow>
                Some (None, says (if goOutput go = ''json'' then [JStats st] else renderStats st) h))) h"

section \<open>dlq history\<close>

record history_args =
  hiLimit :: int
  hiPlan :: string

definition entryLabel :: "entry \<Rightarrow> string" where
  "entryLabel e = (if eMessageID e = [] then ''(plan)'' else eMessageID e)"

definition history_row :: "entry \<Rightarrow> string list" where
  "history_row e = [FormatUTC (eTimestamp e), eAction e, entryLabel e, eSourceQueue e, eDestination e,
     bool_text (eConfirmed e), eResult e, eReason e]"

definition diff_block :: "entry \<Rightarrow> out list" where
  "diff_block e =
     (if ePayloadDiff e = [] then []
      else [Line (nl @ ''Payload diff for '' @ entryLabel e @ '' ('' @ eResult e @ '', '' @ FormatUTC (eTimestamp e) @ ''):''),
            Line (ePayloadDiff e)])"

definition renderHistory :: "string \<Rightarrow> entry list \<Rightarrow> out list" where
  "renderHistory plan es =
     (if es = [] then
        [Line (if plan \<noteq> [] then ''No audit entries for plan '' @ plan @ ''.'' else ''No audit entries yet.'')]
      else (if plan \<noteq> [] then [Line (''Plan '' @ plan @ dash_sep @ ''full recovery trail'')] else [])
        @ [Table ([''TIMESTAMP'', ''ACTION'', ''MESSAGE'', ''QUEUE'', ''DESTINATION'', ''CONFIRMED'', ''RESULT'', ''REASON'']
             # map history_row es)]
        @ concat (map diff_block es))"

definition ask_history :: "env \<Rightarrow> history_args \<Rightarrow> 'w world \<Rightarrow> (goerr, entry list) result \<times> 'w world" where
  "ask_history env a w =
     (case wStore w of None \<Rightarrow> (Err (GoPanic ''nil pointer dereference''), w)
      | Some s \<Rightarrow>
          (let ok = db_ok env (wTick w)
           in (if hiPlan a \<noteq> [] then ByPlan ok (hiPlan a) s else Recent ok (hiLimit a) s,
               w\<lparr>wTick := Suc (wTick w)\<rparr>)))"

definition history_run :: "'w runtime \<Rightarrow> global_options \<Rightarrow> history_args \<Rightarrow> 'w host \<Rightarrow> goerr option \<times> 'w host" where
  "history_run su go a h =
     (case on_world (ask_history (suEnv su) a) h of
        (Inl e, h) \<Rightarrow> (Some e, h)
      | (Inr es, h) \<Rightarrow>
          (None, says (if goOutput go = ''json'' then [JEntries es]
                       else if goOutput go = ''jsonl'' then map (\<lambda>e. JEntries [e]) es
                       else renderHistory (hiPlan a) es) h))"

definition history_cmd :: "'w runtime \<Rightarrow> global_options \<Rightarrow> history_args \<Rightarrow> 'w host \<Rightarrow> (goerr option \<times> 'w host) option" where
  "history_cmd su go a h = with_store su go (\<lambda>h. Some (history_run su go a h)) h"

section \<open>Lemmas\<close>

lemma inspect_run_quiet:
  "inspect_run go a cn p queue h = (e, h') \<Longrightarrow> quiet_since (hWorld h) (hWorld h')"
  by (auto simp: inspect_run_def Let_def split: if_splits prod.splits sum.splits dest!: on_world_inspect)

lemma on_world_search:
  "on_world (do_search b q f) h = (r, h') \<Longrightarrow> quiet_since (hWorld h) (hWorld h')"
  by (auto simp: on_world_def quiet_since_def dest!: do_search_frame split: prod.splits)

lemma on_world_stats:
  "on_world (do_stats b q) h = (r, h') \<Longrightarrow> quiet_since (hWorld h) (hWorld h')"
  by (auto simp: on_world_def quiet_since_def dest!: do_stats_frame split: prod.splits)

lemma search_run_quiet:
  "search_run su go a cn p queue h = (e, h') \<Longrightarrow> quiet_since (hWorld h) (hWorld h')"
  by (auto simp: search_run_def Let_def split: prod.splits sum.splits dest!: on_world_search)

lemma queues_run_quiet: "queues_run go cn h = (e, h') \<Longrightarrow> quiet_since (hWorld h) (hWorld h')"
  by (auto simp: queues_run_def Let_def split: prod.splits sum.splits)

lemma history_run_quiet: "history_run su go a h = (e, h') \<Longrightarrow> quiet_since (hWorld h) (hWorld h')"
  by (auto simp: history_run_def on_world_def ask_history_def Let_def split: prod.splits sum.splits option.splits)

end
