(* ===== verification/Cmd_Analyze.thy ===== *)
theory Cmd_Analyze
  imports Cmd_Read
begin

text \<open>
  \<^verbatim>\<open>analyze.go\<close> and \<^verbatim>\<open>plan.go\<close> of \<^verbatim>\<open>internal/command\<close>: what the Jev flags
  and the profile resolve to, the analysis and the plan built from a live queue. The service
  behind an assessor is a parameter: an evaluator for a key, a model and an endpoint, and its
  state; a flag that was not passed is None.
\<close>

section \<open>Resolving Jev\<close>

record jev_flags =
  jfWithJev :: "bool option"
  jfWithoutJev :: "bool option"
  jfAll :: "bool option"
  jfThreshold :: "rat option"
  jfModel :: "string option"
  jfEndpoint :: "string option"
  jfMaxCalls :: "int option"
  jfAPIKeyEnv :: "string option"

record 's backend =
  jbClient :: "string \<Rightarrow> string \<Rightarrow> string \<Rightarrow> 's evaluator"
  jbService :: 's

definition overlay :: "'a option \<Rightarrow> 'a \<Rightarrow> 'a" where
  "overlay flag stored = (case flag of None \<Rightarrow> stored | Some v \<Rightarrow> v)"

definition signed_fixed2 :: "rat \<Rightarrow> string" where
  "signed_fixed2 q = (if q < 0 then ''-'' @ fixed2 (- q) else fixed2 q)"

definition overlay_flags :: "jev_flags \<Rightarrow> jev_settings \<Rightarrow> jev_settings" where
  "overlay_flags f s =
     s\<lparr>jsAll := overlay (jfAll f) (jsAll s), jsThreshold := overlay (jfThreshold f) (jsThreshold s),
       jsModel := overlay (jfModel f) (jsModel s), jsEndpoint := overlay (jfEndpoint f) (jsEndpoint s),
       jsMaxCalls := overlay (jfMaxCalls f) (jsMaxCalls s), jsAPIKeyEnv := overlay (jfAPIKeyEnv f) (jsAPIKeyEnv s)\<rparr>"

text \<open>The threshold in range and the name of the key variable, with the warning for the first.\<close>

definition check_settings :: "jev_settings \<Rightarrow> jev_settings \<times> string list" where
  "check_settings s =
     (let bad = (jsThreshold s \<le> 0 \<or> jsThreshold s > 1)
      in (s\<lparr>jsThreshold := (if bad then DefaultThreshold else jsThreshold s),
            jsAPIKeyEnv := (if jsAPIKeyEnv s = [] then APIKeyEnv else jsAPIKeyEnv s)\<rparr>,
          if bad then [''warning: jev threshold '' @ signed_fixed2 (jsThreshold s) @ '' out of range, using '' @ fixed2 DefaultThreshold]
          else []))"

definition assessor_of :: "'s backend \<Rightarrow> os \<Rightarrow> jev_settings \<Rightarrow> 's assessor" where
  "assessor_of jb os s =
     \<lparr>asClient = Some (jbClient jb (Getenv os (jsAPIKeyEnv s)) (jsModel s) (jsEndpoint s)),
      asThreshold = jsThreshold s, asCache = Some NewCache, asMaxCalls = jsMaxCalls s,
      asOnlyInvestigate = (\<not> jsAll s), asCalls = 0, asService = jbService jb, asSent = []\<rparr>"

definition missing_key :: "string \<Rightarrow> string" where
  "missing_key k = ''warning: '' @ k @ '' is not set: falling back to rules (export it or run ''
     @ [CHR 0x27] @ ''dlq jev status'' @ [CHR 0x27] @ '')''"

text \<open>The assessor, whether the hint stays hidden, and the warnings.\<close>

definition resolveJev ::
    "'s backend \<Rightarrow> os \<Rightarrow> jev_flags \<Rightarrow> profile option \<Rightarrow> ('s assessor option \<times> bool) \<times> string list" where
  "resolveJev jb os f po =
     (if jfWithoutJev f = Some True then ((None, True), [])
      else
        let eff = (case po of None \<Rightarrow> Effective (Some no_settings) | Some p \<Rightarrow> Effective (pfJev p));
            on = ((case po of None \<Rightarrow> False | Some _ \<Rightarrow> jsEnabled eff) \<or> jfWithJev f = Some True)
        in if \<not> on then ((None, False), [])
           else
             let (s, warns) = check_settings (overlay_flags f eff)
             in if Getenv os (jsAPIKeyEnv s) = [] then ((None, True), warns @ [missing_key (jsAPIKeyEnv s)])
                else ((Some (assessor_of jb os s), True), warns))"

definition buildJevAssessor :: "'s backend \<Rightarrow> os \<Rightarrow> jev_flags \<Rightarrow> 's assessor option" where
  "buildJevAssessor jb os f = fst (fst (resolveJev jb os f None))"

definition warns_of :: "string list \<Rightarrow> 'w host \<Rightarrow> 'w host" where
  "warns_of ts h = h\<lparr>hErr := hErr h @ ts\<rparr>"

lemma warns_of_simps [simp]:
  "hWorld (warns_of ts h) = hWorld h" "hFiles (warns_of ts h) = hFiles h" "hOut (warns_of ts h) = hOut h"
  by (simp_all add: warns_of_def)

section \<open>dlq analyze\<close>

definition summarizeJev :: "'s assessor option \<Rightarrow> failure_group list \<Rightarrow> (int \<times> int \<times> int) option" where
  "summarizeJev ao groups =
     (if \<not> Enabled ao then None
      else Some (Calls ao, cache_Hits (asCache (the ao)), sum_list (map fgJevDecided groups)))"

definition investigateCount :: "failure_group list \<Rightarrow> int" where
  "investigateCount groups = sum_list (map fgCount (filter (\<lambda>g. fgRecommendation g = Investigate) groups))"

definition fixed1 :: "rat \<Rightarrow> string" where
  "fixed1 q = (let n = round_half_even (q * 10) in Itoa (n div 10) @ ''.'' @ [digit_char (nat (n mod 10))])"

definition group_lines :: "nat \<Rightarrow> failure_group \<Rightarrow> out list" where
  "group_lines i g =
     [Line (nl @ ''GROUP '' @ Itoa (int i) @ '' -- '' @ fgLabel g @ '' ['' @ fgID g @ '']''),
      Line (Itoa (fgCount g) @ '' messages - '' @ fixed1 (fgPercentage g) @ ''%''),
      Line (''Recommendation: '' @ classification_text (fgRecommendation g) @ '' (confidence '' @ fixed2 (fgConfidence g)
        @ (if fgJevDecided g > 0 then '', jev '' @ Itoa (fgJevDecided g) @ ''/'' @ Itoa (fgCount g) else []) @ '')''),
      Table ([[''Signature:'', fgSignature g]]
        @ row_if (fgDestination g \<noteq> []) [''Destination:'', fgDestination g]
        @ row_if (fgEventType g \<noteq> []) [''Event type:'', fgEventType g]
        @ [[''Retries:'', fgRetryBucket g]]
        @ row_if (fgPayloadShape g \<noteq> []) [''Payload shape:'', fgPayloadShape g]
        @ row_if (\<not> IsZero (fgFirstSeen g)) [''Time window:'', FormatUTC (fgFirstSeen g) @ '' to '' @ FormatUTC (fgLastSeen g)])]"

definition jev_tip :: "int \<Rightarrow> string" where
  "jev_tip n = nl @ ''Tip: '' @ Itoa n @ '' message(s) still need investigation'' @ dash_sep
     @ ''enable AI assist: export TYPESAFE_API_KEY=... then '' @ [CHR 0x27] @ ''dlq jev enable'' @ [CHR 0x27] @ '' (or per-run --with-jev)''"

definition renderAnalyze ::
    "string \<Rightarrow> int \<Rightarrow> failure_group list \<Rightarrow> (int \<times> int \<times> int) option \<Rightarrow> bool \<Rightarrow> out list" where
  "renderAnalyze queue n groups stats quiet =
     [Line (Itoa n @ '' messages analyzed in '' @ queue)]
     @ concat (map2 group_lines [1 ..< Suc (length groups)] groups)
     @ (case stats of
          Some (calls, cached, decided) \<Rightarrow>
            [Line (nl @ ''Jev: '' @ Itoa calls @ '' calls ('' @ Itoa cached @ '' cached), '' @ Itoa decided @ '' messages decided by jev'')]
        | None \<Rightarrow>
            if \<not> quiet \<and> investigateCount groups > 0 then [Line (jev_tip (investigateCount groups))] else [])"

record analyze_args =
  anArgs :: "string list"
  anLimit :: int
  anJev :: jev_flags

definition analyze_run ::
    "'w runtime \<Rightarrow> 's backend \<Rightarrow> orders \<Rightarrow> global_options \<Rightarrow> analyze_args \<Rightarrow> 'w connector \<Rightarrow> profile \<Rightarrow> string \<Rightarrow> 'w host \<Rightarrow>
     goerr option \<times> 'w host" where
  "analyze_run su jb ords go a cn p queue h =
     (case loadPolicyForProfile su h (effectiveProfileName su go h) (Some p) of
        Inl e \<Rightarrow> (Some e, h)
      | Inr pol \<Rightarrow>
     (case on_world (do_search (cnBroker cn) queue (limit_filter (anLimit a))) h of
        (Inl e, h) \<Rightarrow> (Some e, h)
      | (Inr msgs, h) \<Rightarrow>
          if msgs = [] then (None, says [Line ''No messages to analyze.''] h)
          else
            let ((ao, quiet), warns) = resolveJev jb (suOs su) (anJev a) (Some p);
                h = warns_of warns h;
                (groups, ao) = AnalyzeWithContext ords pol ao msgs;
                stats = summarizeJev ao groups; n = int (length msgs)
            in (None, says (if goOutput go = ''json''
                            then [JAnalysis queue n (clock (suEnv su) (wTick (hWorld h))) groups stats]
                            else renderAnalyze queue n groups stats quiet) h)))"

definition analyze_cmd ::
    "'w runtime \<Rightarrow> 's backend \<Rightarrow> orders \<Rightarrow> global_options \<Rightarrow> analyze_args \<Rightarrow> 'w host \<Rightarrow> (goerr option \<times> 'w host) option" where
  "analyze_cmd su jb ords go a h =
     with_broker su go (\<lambda>cn p h.
       case resolveQueue (anArgs a) (pfDefaultQueue p) of
         Inl e \<Rightarrow> Some (Some e, h)
       | Inr queue \<Rightarrow> Some (analyze_run su jb ords go a cn p queue h)) h"

section \<open>dlq plan\<close>

record plan_args =
  paArgs :: "string list"
  paGroupID :: string
  paDestination :: string
  paOutput :: string
  paBatchSize :: int
  paRateLimit :: string
  paConcurrency :: int
  paLimit :: int
  paIncludeDoNotReplay :: bool
  paReason :: string
  paJev :: jev_flags

definition appendJevAuditSuffix :: "string \<Rightarrow> int \<Rightarrow> string" where
  "appendJevAuditSuffix reason calls =
     (let suffix = ''[jev: '' @ Itoa calls @ '' calls]''
      in if reason = [] then suffix else reason @ '' '' @ suffix)"

definition plan_options_of :: "plan_args \<Rightarrow> string \<Rightarrow> policy option \<Rightarrow> 's assessor option \<Rightarrow> 's plan_options" where
  "plan_options_of a queue pol ao =
     \<lparr>poQueue = queue, poGroupID = paGroupID a, poDestination = paDestination a,
      poLimits = \<lparr>lBatchSize = paBatchSize a, lRateLimit = paRateLimit a, lConcurrency = paConcurrency a\<rparr>,
      poIncludeDoNotReplay = paIncludeDoNotReplay a, poPolicy = pol, poJev = ao\<rparr>"

definition planEntry :: "recovery_plan \<Rightarrow> string \<Rightarrow> string \<Rightarrow> string \<Rightarrow> string \<Rightarrow> entry" where
  "planEntry p queue broker profile reason =
     \<lparr>eTimestamp = plCreatedAt p, eAction = ActionPlan, eMessageID = [], ePlanID = plID p, eSourceQueue = queue,
      eDestination = plDestination p, eDryRun = False, eConfirmed = False, eResult = ''written'', eBroker = broker,
      eProfile = profile, eReason = reason, ePayloadDiff = []\<rparr>"

definition plan_report :: "plan_args \<Rightarrow> recovery_plan \<Rightarrow> int \<Rightarrow> out list" where
  "plan_report a p calls =
     [Line (''Plan written: '' @ paOutput a @ '' ('' @ Itoa (int (length (plMessageIDs p))) @ '' messages selected)''
        @ (if plExcluded p \<noteq> [] then '', '' @ Itoa (int (length (plExcluded p))) @ '' excluded (left in DLQ)'' else [])
        @ (if calls > 0 then '' [jev: '' @ Itoa calls @ '' calls]'' else [])),
      Line (''Plan ID: '' @ plID p),
      Line (''Review it, then run: dlq recover --plan '' @ paOutput a @ '' --dry-run'')]"

text \<open>With the plan built: the file, then the audit entry, then the report.\<close>

definition record_plan ::
    "'w runtime \<Rightarrow> global_options \<Rightarrow> plan_args \<Rightarrow> profile \<Rightarrow> string \<Rightarrow> recovery_plan \<Rightarrow> int \<Rightarrow> 'w host \<Rightarrow>
     (goerr option \<times> 'w host) option" where
  "record_plan su go a pf queue p calls h =
     (case writePlanFile (suOs su) (paOutput a) p (hFiles h) of
        (Some e, fs) \<Rightarrow> Some (Some e, h\<lparr>hFiles := fs\<rparr>)
      | (None, fs) \<Rightarrow>
          with_store su go (\<lambda>h.
            let reason = (if calls > 0 then appendJevAuditSuffix (paReason a) calls else paReason a)
            in case on_world (append_entry (suEnv su)
                       (planEntry p queue (pfBroker pf) (effectiveProfileName su go h) reason)) h of
                 (Some e, h) \<Rightarrow> Some (Some (Wrap ''record plan in audit: '' e []), h)
               | (None, h) \<Rightarrow> Some (None, says (plan_report a p calls) h)) (h\<lparr>hFiles := fs\<rparr>))"

definition plan_run ::
    "'w runtime \<Rightarrow> 's backend \<Rightarrow> global_options \<Rightarrow> plan_args \<Rightarrow> 'w connector \<Rightarrow> profile \<Rightarrow> string \<Rightarrow> 'w host \<Rightarrow>
     (goerr option \<times> 'w host) option" where
  "plan_run su jb go a cn pf queue h =
     (case loadPolicyForProfile su h (effectiveProfileName su go h) (Some pf) of
        Inl e \<Rightarrow> Some (Some e, h)
      | Inr pol \<Rightarrow>
     (case on_world (do_search (cnBroker cn) queue (limit_filter (paLimit a))) h of
        (Inl e, h) \<Rightarrow> Some (Some e, h)
      | (Inr msgs, h) \<Rightarrow>
          if msgs = [] then Some (Some (Text (''no messages found in '' @ Quote queue @ '' to plan'')), h)
          else
            let ((ao, _), warns) = resolveJev jb (suOs su) (paJev a) (Some pf);
                h = warns_of warns h
            in case BuildPlanWithContext (clock (suEnv su) (wTick (hWorld h))) msgs (plan_options_of a queue pol ao) of
                 (Inl e, _) \<Rightarrow> Some (Some e, h)
               | (Inr p, ao) \<Rightarrow> record_plan su go a pf queue p (if Enabled ao then Calls ao else 0) h))"

definition plan_cmd ::
    "'w runtime \<Rightarrow> 's backend \<Rightarrow> global_options \<Rightarrow> plan_args \<Rightarrow> 'w host \<Rightarrow> (goerr option \<times> 'w host) option" where
  "plan_cmd su jb go a h =
     with_broker su go (\<lambda>cn pf h.
       case resolveQueue (paArgs a) (pfDefaultQueue pf) of
         Inl e \<Rightarrow> Some (Some e, h)
       | Inr queue \<Rightarrow> plan_run su jb go a cn pf queue h) h"

section \<open>Lemmas\<close>

lemma analyze_run_quiet:
  assumes "analyze_run su jb ords go a cn p queue h = (e, h')"
  shows "quiet_since (hWorld h) (hWorld h')"
proof (cases "loadPolicyForProfile su h (effectiveProfileName su go h) (Some p)")
  case (Inr pol)
  obtain r h1 where s: "on_world (do_search (cnBroker cn) queue (limit_filter (anLimit a))) h = (r, h1)" by fastforce
  have "hWorld h' = hWorld h1"
    using assms Inr s by (auto simp: analyze_run_def Let_def split: sum.splits if_splits prod.splits)
  then show ?thesis using on_world_search[OF s] by simp
qed (use assms in \<open>simp add: analyze_run_def\<close>)

lemma append_entry_trace: "append_entry env e w = (r, w') \<Longrightarrow> wTrace w' = wTrace w"
  by (auto simp: append_entry_def Let_def split: option.splits prod.splits)

lemma record_plan_quiet:
  assumes "record_plan su go a pf queue p calls h = Some (e, h')"
  shows "quiet_since (hWorld h) (hWorld h')"
proof -
  obtain w fs where w: "writePlanFile (suOs su) (paOutput a) p (hFiles h) = (w, fs)" by fastforce
  show ?thesis
  proof (cases w)
    case None
    have "quiet_since (hWorld (h\<lparr>hFiles := fs\<rparr>)) (hWorld h')"
    proof (rule with_store_quiet)
      show "with_store su go (\<lambda>h.
            let reason = (if calls > 0 then appendJevAuditSuffix (paReason a) calls else paReason a)
            in case on_world (append_entry (suEnv su)
                       (planEntry p queue (pfBroker pf) (effectiveProfileName su go h) reason)) h of
                 (Some e, h) \<Rightarrow> Some (Some (Wrap ''record plan in audit: '' e []), h)
               | (None, h) \<Rightarrow> Some (None, says (plan_report a p calls) h)) (h\<lparr>hFiles := fs\<rparr>) = Some (e, h')"
        using assms w None by (simp add: record_plan_def)
    qed (auto simp: Let_def on_world_def split: prod.splits option.splits dest!: append_entry_trace)
    then show ?thesis by simp
  qed (use assms w in \<open>auto simp: record_plan_def\<close>)
qed

lemma plan_run_quiet:
  assumes "plan_run su jb go a cn pf queue h = Some (e, h')"
  shows "quiet_since (hWorld h) (hWorld h')"
proof (cases "loadPolicyForProfile su h (effectiveProfileName su go h) (Some pf)")
  case (Inr pol)
  obtain r h1 where s: "on_world (do_search (cnBroker cn) queue (limit_filter (paLimit a))) h = (r, h1)" by fastforce
  have "hWorld h' = hWorld h1 \<or> (\<exists>p calls h2. record_plan su go a pf queue p calls h2 = Some (e, h') \<and> hWorld h2 = hWorld h1)"
    using assms Inr s by (fastforce simp: plan_run_def Let_def split: sum.splits if_splits prod.splits)
  then show ?thesis
    using on_world_search[OF s] record_plan_quiet quiet_since_trans by (metis)
qed (use assms in \<open>simp add: plan_run_def\<close>)

end
