(* ===== verification/Cmd_Config.thy ===== *)
theory Cmd_Config
  imports Cmd_Read
begin

text \<open>
  The commands that edit or show the configuration: \<^verbatim>\<open>connect.go\<close>, \<^verbatim>\<open>profiles.go\<close>,
  \<^verbatim>\<open>policy.go\<close> and \<^verbatim>\<open>jev.go\<close> of \<^verbatim>\<open>internal/command\<close>. A profile is changed
  through its pointer and the whole document is saved.
\<close>

section \<open>dlq connect\<close>

record connect_args =
  ctBroker :: string
  ctURL :: string
  ctURLEnv :: string
  ctDefaultQueue :: string
  ctManagementURL :: string

text \<open>
  \<open>url.Parse\<close> as far as the scheme: a letter, then letters, digits, plus, minus and dot up to
  the colon, in lower case; other checks of the parser are not modelled.
\<close>

definition is_letter :: "char \<Rightarrow> bool" where
  "is_letter c = (is_upper_byte c \<or> is_upper_byte (char_of ((of_char c :: nat) - 32)) \<and> 97 \<le> (of_char c :: nat))"

definition url_scheme :: "string \<Rightarrow> (goerr, string) result" where
  "url_scheme raw =
     (let s = takeWhile (\<lambda>c. is_letter c \<or> is_digit c \<or> c \<in> set ''+-.'') raw; r = drop (length s) raw
      in if raw = [] then Ok []
         else if r \<noteq> [] \<and> hd r = CHR '':'' then
           (if s = [] then Err (Text ''missing protocol scheme'')
            else if is_letter (hd s) then Ok (ToLower s) else Ok [])
         else Ok [])"

definition validateURL :: "string \<Rightarrow> string \<Rightarrow> goerr option" where
  "validateURL brokerName raw =
     (case url_scheme raw of
        Inl e \<Rightarrow> Some (Wrap ''invalid connection URL: '' e [])
      | Inr scheme \<Rightarrow>
          if brokerName = ''rabbitmq'' then
            (if scheme \<noteq> ''amqp'' \<and> scheme \<noteq> ''amqps''
             then Some (Text (''unsupported URL scheme '' @ Quote scheme @ '' for rabbitmq (want amqp or amqps)'')) else None)
          else if brokerName = ''redisstream'' then
            (if scheme \<noteq> ''redis'' \<and> scheme \<noteq> ''rediss''
             then Some (Text (''unsupported URL scheme '' @ Quote scheme @ '' for redisstream (want redis or rediss)'')) else None)
          else None)"

definition check_connect :: "'w runtime \<Rightarrow> connect_args \<Rightarrow> goerr option" where
  "check_connect su a =
     (case New (suRegistry su) (ctBroker a) of
        Inl e \<Rightarrow> Some e
      | Inr _ \<Rightarrow>
          if ctURL a \<noteq> [] \<and> ctURLEnv a \<noteq> [] then Some (Text ''set only one of --url or --url-env'')
          else if ctURL a = [] \<and> ctURLEnv a = [] then Some (Text ''one of --url or --url-env is required'')
          else if ctURL a \<noteq> [] then validateURL (ctBroker a) (ctURL a) else None)"

definition connect_profile_of :: "connect_args \<Rightarrow> profile" where
  "connect_profile_of a =
     \<lparr>pfBroker = ctBroker a, pfURL = ctURL a, pfURLEnv = ctURLEnv a, pfDefaultQueue = ctDefaultQueue a,
      pfManagementURL = ctManagementURL a, pfRequireConfirm = False, pfRequireCoConfirm = False, pfPolicyFile = [],
      pfSensitiveFields = [], pfJev = None\<rparr>"

definition put_profile :: "string \<Rightarrow> profile \<Rightarrow> config \<Rightarrow> config" where
  "put_profile name p c = c\<lparr>cfProfiles := AList.update name (Some p) (cfProfiles c)\<rparr>"

definition connected_config :: "string \<Rightarrow> connect_args \<Rightarrow> config \<Rightarrow> config" where
  "connected_config name a c =
     (let c = put_profile name (connect_profile_of a) c
      in if cfDefaultProfile c = [] then c\<lparr>cfDefaultProfile := name\<rparr> else c)"

definition connect_cmd :: "'w runtime \<Rightarrow> global_options \<Rightarrow> connect_args \<Rightarrow> 'w host \<Rightarrow> goerr option \<times> 'w host" where
  "connect_cmd su go a h =
     (case check_connect su a of
        Some e \<Rightarrow> (Some e, h)
      | None \<Rightarrow>
          (let name = (if goProfile go = [] then ''default'' else goProfile go)
           in case load_config su go h of
                Inl e \<Rightarrow> (Some e, h)
              | Inr cfg \<Rightarrow>
             (case save_config su go (connected_config name a cfg) h of
                (Some e, h) \<Rightarrow> (Some e, h)
              | (None, h) \<Rightarrow>
                  (None, says (if goOutput go = ''json''
                    then [JObject [(''profile'', JStr name), (''broker'', JStr (ctBroker a)), (''config'', JStr (goConfigPath go))]]
                    else [Line (''Saved profile '' @ Quote name @ '' ('' @ ctBroker a @ '') to '' @ goConfigPath go)]) h))))"

section \<open>dlq profiles list\<close>

definition urlSource :: "profile \<Rightarrow> string" where
  "urlSource p = (if pfURLEnv p \<noteq> [] then ''env:'' @ pfURLEnv p else ''url'')"

definition jevState :: "profile \<Rightarrow> string" where
  "jevState p = (if jsEnabled (Effective (pfJev p)) then ''on'' else ''off'')"

definition profileJSON :: "string \<Rightarrow> bool \<Rightarrow> profile \<Rightarrow> (string \<times> json) list" where
  "profileJSON name isDefault p =
     [(''name'', JStr name), (''default'', JBool isDefault), (''broker'', JStr (pfBroker p)),
      (''default_queue'', JStr (pfDefaultQueue p)), (''url_source'', JStr (urlSource p)),
      (''jev_enabled'', JBool (jsEnabled (Effective (pfJev p))))]"

definition profile_row :: "string \<Rightarrow> bool \<Rightarrow> profile \<Rightarrow> string list" where
  "profile_row name isDefault p =
     [name @ (if isDefault then '' (default)'' else []), pfBroker p, pfDefaultQueue p, urlSource p, jevState p]"

definition profiles_list_cmd :: "'w runtime \<Rightarrow> global_options \<Rightarrow> 'w host \<Rightarrow> goerr option \<times> 'w host" where
  "profiles_list_cmd su go h =
     (case load_config su go h of
        Inl e \<Rightarrow> (Some e, h)
      | Inr cfg \<Rightarrow>
          (let names = sort (remdups (map fst (cfProfiles cfg)));
               entry = (\<lambda>name. the (map_of (cfProfiles cfg) name))
           in if names = [] then
                (None, says [Line (''No profiles configured. Use '' @ [CHR 0x27] @ ''dlq connect'' @ [CHR 0x27] @ '' to add one.'')] h)
              else if list_ex (\<lambda>n. entry n = None) names then (Some (GoPanic ''nil pointer dereference''), h)
              else (None, says (if goOutput go = ''json''
                then [JObjects (map (\<lambda>n. profileJSON n (n = cfDefaultProfile cfg) (the (entry n))) names)]
                else [Table ([''NAME'', ''BROKER'', ''DEFAULT QUEUE'', ''URL SOURCE'', ''JEV'']
                        # map (\<lambda>n. profile_row n (n = cfDefaultProfile cfg) (the (entry n))) names)]) h)))"

section \<open>dlq policy\<close>

text \<open>\<open>strings.Split\<close> at a semicolon and a space.\<close>

fun split_semi :: "string \<Rightarrow> string \<Rightarrow> string list" where
  "split_semi cur [] = [cur]"
| "split_semi cur (c # s) =
     (if HasPrefix (c # s) ''; '' then cur # split_semi [] (tl s) else split_semi (cur @ [c]) s)"

definition policy_validate_cmd :: "'w runtime \<Rightarrow> global_options \<Rightarrow> string \<Rightarrow> 'w host \<Rightarrow> goerr option \<times> 'w host" where
  "policy_validate_cmd su go path h =
     (case load_policy su h path of
        Inl e \<Rightarrow>
          (Some e, if goOutput go = ''json''
                   then says [JObject [(''valid'', JBool False), (''errors'', json_strings (split_semi [] (error_text e)))]] h else h)
      | Inr pol \<Rightarrow>
          (None, says (if goOutput go = ''json''
             then [JObject [(''valid'', JBool True), (''rules'', json_int (int (length pol)))]]
             else [Line (path @ '': valid ('' @ Itoa (int (length pol)) @ '' ''
                     @ (if length pol = 1 then ''rule'' else ''rules'') @ '')'')]) h))"

definition policy_apply_cmd :: "'w runtime \<Rightarrow> global_options \<Rightarrow> string \<Rightarrow> string \<Rightarrow> 'w host \<Rightarrow> goerr option \<times> 'w host" where
  "policy_apply_cmd su go profileName arg h =
     (case policyPath su arg of
        Inl e \<Rightarrow> (Some e, h)
      | Inr path \<Rightarrow>
     (case load_policy su h path of
        Inl e \<Rightarrow> (Some (Wrap (''policy '' @ arg @ '' does not validate: '') e []), h)
      | Inr _ \<Rightarrow>
     (case load_config su go h of
        Inl e \<Rightarrow> (Some e, h)
      | Inr cfg \<Rightarrow>
          (let name = (if profileName = [] then cfDefaultProfile cfg else profileName)
           in case find_profile cfg name of
                Inl e \<Rightarrow> (Some e, h)
              | Inr None \<Rightarrow> (Some (GoPanic ''nil pointer dereference''), h)
              | Inr (Some p) \<Rightarrow>
             (case save_config su go (put_profile name (p\<lparr>pfPolicyFile := path\<rparr>) cfg) h of
                (Some e, h) \<Rightarrow> (Some e, h)
              | (None, h) \<Rightarrow>
                  (None, says [Line (''Policy applied to profile '' @ Quote name @ '': '' @ path),
                     Line ''dlq analyze and dlq plan will honor it for this profile.''] h))))))"

section \<open>dlq jev\<close>

definition jevProfile :: "'w runtime \<Rightarrow> global_options \<Rightarrow> string \<Rightarrow> 'w host \<Rightarrow> (goerr, config \<times> string \<times> profile option) result" where
  "jevProfile su go flagVal h =
     (case load_config su go h of
        Inl e \<Rightarrow> Err e
      | Inr cfg \<Rightarrow>
          (let name = (if flagVal = [] then cfDefaultProfile cfg else flagVal)
           in case find_profile cfg name of Inl e \<Rightarrow> Err e | Inr po \<Rightarrow> Ok (cfg, name, po)))"

record jev_enable_args =
  jeProfile :: string
  jeAll :: "bool option"
  jeThreshold :: "rat option"
  jeModel :: "string option"
  jeEndpoint :: "string option"
  jeMaxCalls :: "int option"
  jeAPIKeyEnv :: "string option"

definition put_flag :: "('a \<Rightarrow> 'r \<Rightarrow> 'r) \<Rightarrow> 'a option \<Rightarrow> 'r \<Rightarrow> 'r" where
  "put_flag put flag r = (case flag of None \<Rightarrow> r | Some v \<Rightarrow> put v r)"

definition enabled_settings :: "jev_enable_args \<Rightarrow> jev_settings option \<Rightarrow> jev_settings" where
  "enabled_settings a so =
     (let s = (case so of None \<Rightarrow> no_settings | Some s \<Rightarrow> s)\<lparr>jsEnabled := True\<rparr>;
          s = put_flag (\<lambda>v s. s\<lparr>jsAll := v\<rparr>) (jeAll a) s;
          s = put_flag (\<lambda>v s. s\<lparr>jsThreshold := v\<rparr>) (jeThreshold a) s;
          s = put_flag (\<lambda>v s. s\<lparr>jsModel := v\<rparr>) (jeModel a) s;
          s = put_flag (\<lambda>v s. s\<lparr>jsEndpoint := v\<rparr>) (jeEndpoint a) s;
          s = put_flag (\<lambda>v s. s\<lparr>jsMaxCalls := v\<rparr>) (jeMaxCalls a) s
      in put_flag (\<lambda>v s. s\<lparr>jsAPIKeyEnv := v\<rparr>) (jeAPIKeyEnv a) s)"

definition check_enable :: "jev_enable_args \<Rightarrow> goerr option" where
  "check_enable a =
     (case jeThreshold a of
        Some t \<Rightarrow> if t \<le> 0 \<or> t > 1 then Some (Text ''invalid --threshold (want 0-1 exclusive of 0)'') else None
      | None \<Rightarrow> None)"

definition check_max_calls :: "jev_enable_args \<Rightarrow> goerr option" where
  "check_max_calls a =
     (case jeMaxCalls a of
        Some n \<Rightarrow> if n < 0 then Some (Text (''invalid --max-calls '' @ Itoa n @ '' (want >= 0)'')) else None
      | None \<Rightarrow> None)"

definition enable_report :: "string \<Rightarrow> jev_settings \<Rightarrow> out list" where
  "enable_report name eff =
     [Line (''Jev assist enabled for profile '' @ Quote name @ ''.''),
      Line (''Settings: threshold '' @ fixed2 (jsThreshold eff) @ '', model '' @ jsModel eff @ '', max-calls ''
        @ Itoa (jsMaxCalls eff) @ '', key from '' @ jsAPIKeyEnv eff @ ''.''),
      Line ''Next: dlq analyze <queue>  (assist is now automatic)'',
      Line ''Opt out anytime: dlq jev disable / per-run: --without-jev'']"

definition jev_enable_cmd :: "'w runtime \<Rightarrow> global_options \<Rightarrow> jev_enable_args \<Rightarrow> 'w host \<Rightarrow> goerr option \<times> 'w host" where
  "jev_enable_cmd su go a h =
     (case check_enable a of Some e \<Rightarrow> (Some e, h)
      | None \<Rightarrow>
     (case check_max_calls a of Some e \<Rightarrow> (Some e, h)
      | None \<Rightarrow>
     (case jevProfile su go (jeProfile a) h of
        Inl e \<Rightarrow> (Some e, h)
      | Inr (cfg, name, None) \<Rightarrow> (Some (GoPanic ''nil pointer dereference''), h)
      | Inr (cfg, name, Some p) \<Rightarrow>
          (let s = enabled_settings a (pfJev p)
           in case save_config su go (put_profile name (p\<lparr>pfJev := Some s\<rparr>) cfg) h of
                (Some e, h) \<Rightarrow> (Some e, h)
              | (None, h) \<Rightarrow>
                  (let eff = Effective (Some s);
                       h = (if Getenv (suOs su) (jsAPIKeyEnv eff) = []
                            then warn (''warning: '' @ jsAPIKeyEnv eff @ '' is not set'' @ dash_sep
                              @ ''export it before running analyze, or Jev will fall back to rules'') h else h)
                   in (None, says (enable_report name eff) h))))))"

definition jev_disable_cmd :: "'w runtime \<Rightarrow> global_options \<Rightarrow> string \<Rightarrow> 'w host \<Rightarrow> goerr option \<times> 'w host" where
  "jev_disable_cmd su go profileName h =
     (case jevProfile su go profileName h of
        Inl e \<Rightarrow> (Some e, h)
      | Inr (cfg, name, None) \<Rightarrow> (Some (GoPanic ''nil pointer dereference''), h)
      | Inr (cfg, name, Some p) \<Rightarrow>
          if (case pfJev p of None \<Rightarrow> True | Some s \<Rightarrow> \<not> jsEnabled s)
          then (None, says [Line (''Jev assist already off for profile '' @ Quote name @ '' (rule-based).'')] h)
          else (case save_config su go (put_profile name (p\<lparr>pfJev := map_option (\<lambda>s. s\<lparr>jsEnabled := False\<rparr>) (pfJev p)\<rparr>) cfg) h of
                  (Some e, h) \<Rightarrow> (Some e, h)
                | (None, h) \<Rightarrow>
                    (None, says [Line (''Jev assist disabled for profile '' @ Quote name @ dash_sep @ ''back to rule-based.''),
                       Line ''Re-enable anytime: dlq jev enable / per-run: --with-jev''] h)))"

definition setLabel :: "bool \<Rightarrow> string" where
  "setLabel b = (if b then ''(set)'' else ''(not set)'')"

definition jev_status_cmd :: "'w runtime \<Rightarrow> global_options \<Rightarrow> string \<Rightarrow> 'w host \<Rightarrow> goerr option \<times> 'w host" where
  "jev_status_cmd su go profileName h =
     (case jevProfile su go profileName h of
        Inl e \<Rightarrow> (Some e, h)
      | Inr (cfg, name, None) \<Rightarrow> (Some (GoPanic ''nil pointer dereference''), h)
      | Inr (cfg, name, Some p) \<Rightarrow>
          (let eff = Effective (pfJev p); keySet = (Getenv (suOs su) (jsAPIKeyEnv eff) \<noteq> [])
           in if goOutput go = ''json'' then
                (None, says [JStatus name eff keySet] h)
              else
                (None, says [Line (''Jev assist for profile '' @ Quote name @ '': ''
                               @ (if jsEnabled eff then ''on (Jev assist)'' else ''off (rule-based)'')),
                   Line (''Threshold: '' @ fixed2 (jsThreshold eff) @ ''  Model: '' @ jsModel eff @ ''  Max-calls: ''
                     @ Itoa (jsMaxCalls eff) @ ''  All-messages: '' @ bool_text (jsAll eff)),
                   Line (''Key: '' @ jsAPIKeyEnv eff @ '' '' @ setLabel keySet)]
                  (if jsEnabled eff \<and> \<not> keySet
                   then warn (''warning: '' @ jsAPIKeyEnv eff @ '' is not set'' @ dash_sep @ ''commands will fall back to rules'') h
                   else h))))"

section \<open>Lemmas\<close>

lemma save_config_frame:
  "save_config su go c h = (e, h') \<Longrightarrow> hWorld h' = hWorld h \<and> hStores h' = hStores h \<and> hOut h' = hOut h"
  by (auto simp: save_config_def split: prod.splits)

lemma save_config_ok:
  assumes "save_config su go c h = (None, h')" "yaml_keeps (suYaml su) c" "osReadErr (suOs su) (goConfigPath go) = None"
  shows "load_config su go h' = Ok c"
  using assms Load_Save[of "suOs su" "suYaml su" "goConfigPath go" c "hFiles h"]
  by (auto simp: save_config_def load_config_def split: prod.splits)

lemma connect_cmd_world: "connect_cmd su go a h = (e, h') \<Longrightarrow> hWorld h' = hWorld h"
  by (auto simp: connect_cmd_def Let_def split: option.splits sum.splits prod.splits dest: save_config_frame)

lemma profiles_list_world: "profiles_list_cmd su go h = (e, h') \<Longrightarrow> hWorld h' = hWorld h"
  by (auto simp: profiles_list_cmd_def Let_def split: sum.splits if_splits)

lemma policy_validate_world: "policy_validate_cmd su go p h = (e, h') \<Longrightarrow> hWorld h' = hWorld h"
  by (auto simp: policy_validate_cmd_def split: sum.splits if_splits)

lemma policy_apply_world: "policy_apply_cmd su go n p h = (e, h') \<Longrightarrow> hWorld h' = hWorld h"
  by (auto simp: policy_apply_cmd_def Let_def split: sum.splits option.splits prod.splits dest: save_config_frame)

lemma jev_enable_world: "jev_enable_cmd su go a h = (e, h') \<Longrightarrow> hWorld h' = hWorld h"
  by (auto simp: jev_enable_cmd_def Let_def split: sum.splits option.splits prod.splits if_splits dest: save_config_frame)

lemma jev_disable_world: "jev_disable_cmd su go n h = (e, h') \<Longrightarrow> hWorld h' = hWorld h"
  by (auto simp: jev_disable_cmd_def split: sum.splits option.splits prod.splits if_splits dest: save_config_frame)

lemma jev_status_world: "jev_status_cmd su go n h = (e, h') \<Longrightarrow> hWorld h' = hWorld h"
  by (auto simp: jev_status_cmd_def Let_def split: sum.splits option.splits prod.splits if_splits)

lemmas config_world = connect_cmd_world profiles_list_world policy_validate_world policy_apply_world
  jev_enable_world jev_disable_world jev_status_world

end
