(* ===== verification/Cli.thy ===== *)
theory Cli
  imports Cmd_Analyze Cmd_Config
begin

text \<open>
  The command line as a whole: \<open>NewRoot\<close> of \<^verbatim>\<open>internal/command/root.go\<close> as a dispatch over
  the parsed commands, and the properties that hold for every command or span several of them.
  The commands \<^verbatim>\<open>version\<close> and \<^verbatim>\<open>self-update\<close> open neither a broker nor a store and
  are not part of the dispatch.
\<close>

section \<open>Dispatch\<close>

datatype command =
    Do_connect connect_args
  | Do_profiles
  | Do_queues
  | Do_stats "string list"
  | Do_inspect inspect_args
  | Do_search search_args
  | Do_replay replay_args
  | Do_patch patch_args
  | Do_history history_args
  | Do_analyze analyze_args
  | Do_plan plan_args
  | Do_recover recover_args
  | Do_rollback rollback_args
  | Do_policy_validate string
  | Do_policy_apply string string
  | Do_jev_enable jev_enable_args
  | Do_jev_disable string
  | Do_jev_status string

definition check_output :: "global_options \<Rightarrow> goerr option" where
  "check_output go =
     (if goOutput go \<in> set [''text'', ''json'', ''jsonl''] then None
      else Some (Text (''invalid --output '' @ Quote (goOutput go) @ '' (want text, json, or jsonl)'')))"

fun run_command ::
    "'w runtime \<Rightarrow> 's backend \<Rightarrow> orders \<Rightarrow> global_options \<Rightarrow> command \<Rightarrow> 'w host \<Rightarrow> (goerr option \<times> 'w host) option" where
  "run_command su jb ords go (Do_connect a) h = Some (connect_cmd su go a h)"
| "run_command su jb ords go Do_profiles h = Some (profiles_list_cmd su go h)"
| "run_command su jb ords go Do_queues h = queues_cmd su go h"
| "run_command su jb ords go (Do_stats args) h = stats_cmd su go args h"
| "run_command su jb ords go (Do_inspect a) h = inspect_cmd su go a h"
| "run_command su jb ords go (Do_search a) h = search_cmd su go a h"
| "run_command su jb ords go (Do_replay a) h = replay_cmd su go a h"
| "run_command su jb ords go (Do_patch a) h = patch_cmd su go a h"
| "run_command su jb ords go (Do_history a) h = history_cmd su go a h"
| "run_command su jb ords go (Do_analyze a) h = analyze_cmd su jb ords go a h"
| "run_command su jb ords go (Do_plan a) h = plan_cmd su jb go a h"
| "run_command su jb ords go (Do_recover a) h = recover_cmd su go a h"
| "run_command su jb ords go (Do_rollback a) h = rollback_cmd su go a h"
| "run_command su jb ords go (Do_policy_validate p) h = Some (policy_validate_cmd su go p h)"
| "run_command su jb ords go (Do_policy_apply n p) h = Some (policy_apply_cmd su go n p h)"
| "run_command su jb ords go (Do_jev_enable a) h = Some (jev_enable_cmd su go a h)"
| "run_command su jb ords go (Do_jev_disable n) h = Some (jev_disable_cmd su go n h)"
| "run_command su jb ords go (Do_jev_status n) h = Some (jev_status_cmd su go n h)"

definition run_dlq ::
    "'w runtime \<Rightarrow> 's backend \<Rightarrow> orders \<Rightarrow> global_options \<Rightarrow> command \<Rightarrow> 'w host \<Rightarrow> (goerr option \<times> 'w host) option" where
  "run_dlq su jb ords go c h =
     (case check_output go of Some e \<Rightarrow> Some (Some e, h) | None \<Rightarrow> run_command su jb ords go c h)"

section \<open>Who may change a queue\<close>

text \<open>A confirmed command; for one message also past the prompt, where there is a terminal.\<close>

fun authorised :: "os \<Rightarrow> command \<Rightarrow> bool" where
  "authorised os (Do_replay a) = (raConfirm a \<and> may_go_on os (raYes a))"
| "authorised os (Do_patch a) = (ptConfirm a \<and> may_go_on os (ptYes a))"
| "authorised os (Do_recover a) = rvConfirm a"
| "authorised os (Do_rollback a) = rbConfirm a"
| "authorised os _ = False"

text \<open>Both facts about a body at once: every ack behind a publish, and reads only unless confirmed.\<close>

definition proper :: "bool \<Rightarrow> call list \<Rightarrow> bool" where
  "proper ok cs = (ack_safe None cs \<and> (\<not> ok \<longrightarrow> \<not> list_ex mutating cs))"

abbreviation behaves :: "bool \<Rightarrow> 'w host \<Rightarrow> 'w host \<Rightarrow> bool" where
  "behaves ok h h' \<equiv> calls_since (proper ok) (hWorld h) (hWorld h')"

lemma proper_Nil [simp]: "proper ok []"
  by (simp add: proper_def)

lemma behavesI:
  "safe_since (hWorld h) (hWorld h') \<Longrightarrow> (\<not> ok \<Longrightarrow> quiet_since (hWorld h) (hWorld h')) \<Longrightarrow> behaves ok h h'"
  by (auto simp: calls_since_def quiet_since_def proper_def)

lemma behaves_quiet: "quiet_since (hWorld h) (hWorld h') \<Longrightarrow> behaves ok h h'"
  by (simp add: behavesI quiet_is_safe)

lemma behaves_same: "hWorld h' = hWorld h \<Longrightarrow> behaves ok h h'"
  by (simp add: behaves_quiet)

lemmas behaves_with_broker = with_broker_calls[where P = "proper ok" for ok, OF _ proper_Nil]
lemmas behaves_with_store = with_store_calls[where P = "proper ok" for ok, OF _ proper_Nil]

lemma behaves_on_queue:
  assumes "with_broker su go (\<lambda>cn p h. case resolveQueue args (pfDefaultQueue p) of
      Inl e \<Rightarrow> Some (Some e, h) | Inr queue \<Rightarrow> body cn p queue h) h = Some (e, h')"
    and "\<And>cn p queue h1 e1 h2. body cn p queue h1 = Some (e1, h2) \<Longrightarrow> behaves ok h1 h2"
  shows "behaves ok h h'"
proof (rule behaves_with_broker[OF assms(1)])
  fix cn p h1 e1 h2
  assume b: "(case resolveQueue args (pfDefaultQueue p) of
      Inl e \<Rightarrow> Some (Some e, h1) | Inr queue \<Rightarrow> body cn p queue h1) = Some (e1, h2)"
  then show "behaves ok h1 h2"
    using assms(2) by (cases "resolveQueue args (pfDefaultQueue p)") (auto simp: behaves_same)
qed

lemma behaves_guarded_store:
  assumes "(if c then Some (Some x, h) else with_store su go (\<lambda>h. Some (body h)) h) = Some (e, h')"
    and "\<And>h1 e1 h2. body h1 = (e1, h2) \<Longrightarrow> behaves ok h1 h2"
  shows "behaves ok h h'"
proof (cases c)
  case True
  then show ?thesis using assms(1) by (simp add: behaves_same)
next
  case False
  then have "with_store su go (\<lambda>h. Some (body h)) h = Some (e, h')" using assms(1) by simp
  then show ?thesis by (rule behaves_with_store) (use assms(2) in simp)
qed

lemma run_command_proper:
  assumes "run_command su jb ords go c h = Some (e, h')"
  shows "behaves (authorised (suOs su) c) h h'"
proof (cases c)
  case Do_queues
  with assms have "with_broker su go (\<lambda>cn p h. Some (queues_run go cn h)) h = Some (e, h')" by (simp add: queues_cmd_def)
  then show ?thesis by (rule behaves_with_broker) (auto intro: behaves_quiet queues_run_quiet)
next
  case (Do_stats args)
  show ?thesis using assms unfolding Do_stats run_command.simps stats_cmd_def
    by (rule behaves_on_queue) (auto split: sum.splits prod.splits intro!: behaves_quiet dest!: on_world_stats)
next
  case (Do_inspect a)
  show ?thesis using assms unfolding Do_inspect run_command.simps inspect_cmd_def
    by (rule behaves_on_queue) (auto intro: behaves_quiet inspect_run_quiet)
next
  case (Do_search a)
  show ?thesis using assms unfolding Do_search run_command.simps search_cmd_def
    by (rule behaves_on_queue) (auto intro: behaves_quiet search_run_quiet)
next
  case (Do_replay a)
  show ?thesis using assms unfolding Do_replay run_command.simps replay_cmd_def authorised.simps
    by (elim behaves_on_queue behaves_guarded_store) (intro behavesI; blast intro: replay_run_safe replay_run_quiet)
next
  case (Do_patch a)
  show ?thesis
  proof (cases "parseSetOps (ptSets a)")
    case (Inl x)
    then show ?thesis using assms Do_patch by (simp add: patch_cmd_def behaves_same)
  next
    case (Inr ops)
    show ?thesis using assms unfolding Do_patch run_command.simps patch_cmd_def authorised.simps Inr sum.case
      by (elim behaves_on_queue behaves_guarded_store) (intro behavesI; blast intro: patch_run_safe patch_run_quiet)
  qed
next
  case (Do_history a)
  show ?thesis using assms unfolding Do_history run_command.simps history_cmd_def
    by (rule behaves_with_store) (auto intro: behaves_quiet history_run_quiet)
next
  case (Do_analyze a)
  show ?thesis using assms unfolding Do_analyze run_command.simps analyze_cmd_def
    by (rule behaves_on_queue) (auto intro: behaves_quiet analyze_run_quiet)
next
  case (Do_plan a)
  show ?thesis using assms unfolding Do_plan run_command.simps plan_cmd_def
    by (rule behaves_on_queue) (auto intro: behaves_quiet plan_run_quiet)
next
  case (Do_recover a)
  show ?thesis
  proof (cases "loadPlanFile (suOs su) (hFiles h) (rvPlan a)")
    case (Inl x)
    then show ?thesis using assms Do_recover by (simp add: recover_cmd_def behaves_same)
  next
    case (Inr p)
    show ?thesis using assms unfolding Do_recover run_command.simps recover_cmd_def authorised.simps Inr sum.case
      by (elim behaves_with_broker behaves_with_store) (intro behavesI; blast intro: recover_run_safe recover_run_quiet)
  qed
next
  case (Do_rollback a)
  show ?thesis using assms unfolding Do_rollback run_command.simps rollback_cmd_def authorised.simps
    by (elim behaves_with_broker behaves_with_store) (intro behavesI; auto intro: rollback_run_safe rollback_run_quiet)
qed (use assms in \<open>auto intro!: behaves_same dest: config_world\<close>)

end
