(* ===== verification/Demo_Host.thy ===== *)
theory Demo_Host
  imports Cli Val_Broker
begin

text \<open>
  A host for the witnesses of the command line: a home directory, a configuration file at
  \<^verbatim>\<open>/cfg\<close>, a rules file at \<^verbatim>\<open>/rules\<close>, one registered adapter with the broker of
  \<open>Val_Broker\<close>, and a codec that knows two configurations.
\<close>

section \<open>A host\<close>

definition demo_os :: os where
  "demo_os = \<lparr>osEnv = (\<lambda>k. map_of [(''HOME'', ''/home/op''), (''DLQ_URL'', ''amqp://broker''), (''KEY'', ''ts_1'')] k),
     osCwd = ''/work'', osReadErr = (\<lambda>_. None), osMkdirErr = (\<lambda>_. None), osWriteFails = (\<lambda>_ _. None),
     osStoreErr = (\<lambda>_. None), osTerminal = False, osStdin = []\<rparr>"

text \<open>A codec that knows two configurations by name: the one a command finds and the one it leaves.\<close>

definition codec_of :: "config \<Rightarrow> config \<Rightarrow> yaml_codec" where
  "codec_of before after =
     \<lparr>ycDecode = (\<lambda>t c. if t = ''after'' then Ok after else if t = ''before'' then Ok before else Err (Text ''yaml'')),
      ycEncode = (\<lambda>c. if c = after then Ok ''after'' else if c = before then Ok ''before'' else Err (Text ''yaml'')),
      ycRules = (\<lambda>_. Ok demo_raw)\<rparr>"

lemma codec_of_keeps: "yaml_keeps (codec_of before after) c"
  by (simp add: yaml_keeps_def codec_of_def)

definition val_connector :: "val_state connector" where
  "val_connector = \<lparr>cnBroker = val_broker, cnConnect = (\<lambda>c s. (None, s)), cnListQueues = (\<lambda>s. (Ok [], s)), cnClose = (\<lambda>s. s)\<rparr>"

definition demo_connect :: connect_args where
  "demo_connect = \<lparr>ctBroker = ''rabbitmq'', ctURL = [], ctURLEnv = ''DLQ_URL'', ctDefaultQueue = ''orders-dlq'', ctManagementURL = []\<rparr>"

definition cli_config :: config where
  "cli_config = connected_config ''prod'' demo_connect Defaults"

definition demo_profile :: profile where
  "demo_profile = (connect_profile_of demo_connect)\<lparr>pfSensitiveFields := [''customer.email'']\<rparr>"

definition demo_runtime :: "config \<Rightarrow> val_state runtime" where
  "demo_runtime after =
     \<lparr>suOs = demo_os, suYaml = codec_of cli_config after, suEnv = calm, suRegistry = [(''rabbitmq'', val_connector)]\<rparr>"

definition demo_go :: global_options where
  "demo_go = \<lparr>goConfigPath = ''/cfg'', goProfile = ''prod'', goOutput = ''text''\<rparr>"

definition cli_host :: "string option \<Rightarrow> string list \<Rightarrow> val_state host" where
  "cli_host t ids = \<lparr>hFiles = (\<lambda>p. if p = ''/rules'' then Some ''doc'' else if p = ''/cfg'' then t else None), hStores = (\<lambda>_. None),
     hWorld = (val_world (val_server ids))\<lparr>wStore := None\<rparr>, hOut = [], hErr = []\<rparr>"

lemmas cli_host_defs = demo_os_def codec_of_def val_connector_def demo_runtime_def demo_go_def cli_host_def

lemmas cli_config_defs = cli_config_def demo_connect_def connected_config_def put_profile_def connect_profile_of_def
  Defaults_def

text \<open>The same host with one message of a given payload in the queue.\<close>

definition payload_host :: "string \<Rightarrow> val_state host" where
  "payload_host t = (cli_host (Some ''before'') [])\<lparr>hWorld := val_world ((val_server [])\<lparr>vbMsgs :=
     [(''orders-dlq'', [(val_msg ''m1'')\<lparr>mPayload := t\<rparr>])]\<rparr>)\<rparr>"

lemma payload_queue [simp]: "vb_queue (val_server []\<lparr>vbMsgs := ms\<rparr>) q = (case map_of ms q of None \<Rightarrow> [] | Some xs \<Rightarrow> xs)"
  by (simp add: vb_queue_def)

text \<open>What opening the broker and the store gives on a host that holds the configuration.\<close>

lemma demo_load:
  "hFiles h ''/cfg'' = Some ''before'' \<Longrightarrow> after \<noteq> cli_config \<Longrightarrow> load_config (demo_runtime after) demo_go h = Ok cli_config"
  by (simp add: load_config_def Load_def ReadFile_def cli_host_defs)

lemma demo_broker:
  assumes "hFiles h ''/cfg'' = Some ''before''" "after \<noteq> cli_config"
  shows "openBroker (demo_runtime after) demo_go h = (Ok (val_connector, connect_profile_of demo_connect), h)"
proof -
  have "find_profile cli_config ''prod'' = Ok (Some (connect_profile_of demo_connect))"
    by (simp add: find_profile_def cli_config_defs)
  moreover have "ResolveURL demo_os (Some (connect_profile_of demo_connect)) = Ok ''amqp://broker''"
    by (simp add: ResolveURL_def demo_connect_def connect_profile_of_def demo_os_def)
  moreover have "New (suRegistry (demo_runtime after)) (pfBroker (connect_profile_of demo_connect)) = Ok val_connector"
    by (simp add: New_def demo_runtime_def demo_connect_def connect_profile_of_def)
  ultimately have "resolve_profile (demo_runtime after) demo_go h = Ok (val_connector, connect_profile_of demo_connect, ''amqp://broker'')"
    using demo_load[OF assms] by (simp add: resolve_profile_def) (simp add: demo_runtime_def demo_go_def)
  then show ?thesis by (simp add: openBroker_def connect_profile_def val_connector_def Let_def)
qed

lemma demo_store:
  assumes "hFiles h ''/cfg'' = Some ''before''" "after \<noteq> cli_config" "hStores h = (\<lambda>_. None)"
  shows "\<exists>path. openAuditStore (demo_runtime after) demo_go h = (Ok path, h\<lparr>hWorld := (hWorld h)\<lparr>wStore := Some empty_store\<rparr>\<rparr>)"
proof -
  have "\<exists>path. ExpandPath demo_os (auPath (cfAudit cli_config)) = Ok path \<and> path \<noteq> []"
    by (simp add: ExpandPath_def UserHomeDir_def Getenv_def demo_os_def cli_config_defs DefaultAuditPath_def HasPrefix_def
        JoinPath_def Clean_def rooted_def Let_def Join_Cons)
  then obtain path where p: "ExpandPath demo_os (auPath (cfAudit cli_config)) = Ok path" "path \<noteq> []" by blast
  have "suOs (demo_runtime after) = demo_os" "osStoreErr demo_os path = None" by (simp_all add: demo_runtime_def demo_os_def)
  then show ?thesis using p demo_load[OF assms(1,2)] assms(3) by (simp add: openAuditStore_def store_Open_def)
qed

lemma cli_host_simps [simp]:
  "hFiles (cli_host t ids) ''/cfg'' = t" "hFiles (cli_host t ids) ''/rules'' = Some ''doc''"
  "hStores (cli_host t ids) = (\<lambda>_. None)" "wTrace (hWorld (cli_host t ids)) = []" "hOut (cli_host t ids) = []"
  "(hWorld (cli_host t ids))\<lparr>wStore := Some empty_store\<rparr> = val_world (val_server ids)"
  by (simp_all add: cli_host_def val_world_def)

lemma not_cli_config [simp]: "Defaults \<noteq> cli_config"
  by (simp add: cli_config_defs)

lemma demo_runtime_simps [simp]:
  "suOs (demo_runtime a) = demo_os" "suEnv (demo_runtime a) = calm" "suYaml (demo_runtime a) = codec_of cli_config a"
  "suRegistry (demo_runtime a) = [(''rabbitmq'', val_connector)]"
  "cnBroker val_connector = val_broker" "osTerminal demo_os = False" "osReadErr demo_os p = None"
  "goOutput demo_go = ''text''" "goProfile demo_go = ''prod''" "goConfigPath demo_go = ''/cfg''" "osCwd demo_os = ''/work''"
  by (simp_all add: cli_host_defs)

text \<open>A Jev backend that answers every call.\<close>

definition demo_backend :: "nat backend" where
  "demo_backend = \<lparr>jbClient = (\<lambda>_ _ _. steady_service), jbService = 0\<rparr>"

end
