(* ===== verification/Cli_Properties.thy ===== *)
theory Cli_Properties
  imports Demo_Host
begin

text \<open>
  Properties of the command line: who may change a queue, what a plan file carries from
  \<^verbatim>\<open>dlq plan\<close> to \<^verbatim>\<open>dlq recover\<close>, what a patch publishes, what is printed of a
  sensitive payload, and what the commands that edit the configuration leave in it. The
  witnesses run on the host of \<open>Demo_Host\<close>.
\<close>

section \<open>Who may change a queue\<close>


definition demo_replay :: replay_args where
  "demo_replay = \<lparr>raArgs = [], raID = ''m1'', raDestination = [], raConfirm = True, raYes = True, raDryRun = False,
     raReason = ''fixed''\<rparr>"

lemma demo_replay_runs:
  "\<exists>h'. run_dlq (demo_runtime Defaults) jb ords demo_go (Do_replay demo_replay) (cli_host (Some ''before'') [''m1'']) = Some (None, h')"
proof -
  let ?h = "cli_host (Some ''before'') [''m1'']"
  obtain path where st: "openAuditStore (demo_runtime Defaults) demo_go ?h =
      (Ok path, ?h\<lparr>hWorld := (hWorld ?h)\<lparr>wStore := Some empty_store\<rparr>\<rparr>)"
    using demo_store[of ?h Defaults] by auto
  have q: "resolveQueue [] (pfDefaultQueue (connect_profile_of demo_connect)) = Ok ''orders-dlq''"
    by (simp add: resolveQueue_def connect_profile_of_def demo_connect_def)
  have "\<exists>h'. replay_run (demo_runtime Defaults) demo_go demo_replay val_connector (connect_profile_of demo_connect) ''orders-dlq''
      (?h\<lparr>hWorld := val_world (val_server [''m1''])\<rparr>) = (None, h')"
    by (simp add: replay_run_def replay_request_def demo_replay_def confirm_gate_def execute_request_def on_world_def
        Execute_def execute_at_def resolveDestination_def published_message_def Let_def)
  then show ?thesis
    using st q demo_broker[of ?h Defaults]
    by (auto simp: run_dlq_def check_output_def replay_cmd_def with_broker_def with_store_def) (simp_all add: demo_replay_def with_store_def)
qed


section \<open>The plan file\<close>

lemma writePlanFile_ok:
  "writePlanFile os path p fs = (None, fs') \<Longrightarrow> fs' path = Some (plan_text p)"
  by (auto simp: writePlanFile_def WriteFile_def split: if_splits option.splits prod.splits)

lemma record_plan_file:
  assumes "record_plan su go a pf queue p calls h = Some (None, h')"
  shows "hFiles h' (paOutput a) = Some (plan_text p)"
proof -
  obtain w fs where w: "writePlanFile (suOs su) (paOutput a) p (hFiles h) = (w, fs)" by fastforce
  then have n: "w = None" using assms by (auto simp: record_plan_def split: option.splits)
  have "hFiles h' = fs"
    using assms w n by (auto simp: record_plan_def with_store_def Let_def dest!: openAuditStore_frame on_world_frame
        split: sum.splits prod.splits option.splits)
  then show ?thesis using writePlanFile_ok w n by metis
qed

lemma plan_run_file:
  assumes "plan_run su jb go a cn pf queue h = Some (None, h')"
  obtains msgs pol ao' p where
    "BuildPlanWithContext (clock (suEnv su) (wTick (hWorld h))) msgs
       (plan_options_of a queue pol (fst (fst (resolveJev jb (suOs su) (paJev a) (Some pf))))) = (Ok p, ao')"
    "hFiles h' (paOutput a) = Some (plan_text p)"
    "loadPolicyForProfile su h (effectiveProfileName su go h) (Some pf) = Ok pol"
    "fst (bSearch (cnBroker cn) queue (limit_filter (paLimit a)) (wServer (hWorld h))) = Ok msgs"
proof -
  obtain pol where pol: "loadPolicyForProfile su h (effectiveProfileName su go h) (Some pf) = Ok pol"
    using assms by (auto simp: plan_run_def split: sum.splits)
  obtain r h1 where s: "on_world (do_search (cnBroker cn) queue (limit_filter (paLimit a))) h = (r, h1)" by fastforce
  obtain msgs where m: "r = Ok msgs" "msgs \<noteq> []"
    using assms pol s by (auto simp: plan_run_def split: sum.splits if_splits)
  obtain ao q ws where j: "resolveJev jb (suOs su) (paJev a) (Some pf) = ((ao, q), ws)" by (metis surj_pair)
  have src: "fst (bSearch (cnBroker cn) queue (limit_filter (paLimit a)) (wServer (hWorld h))) = Ok msgs"
      "wTick (hWorld h1) = wTick (hWorld h)"
    using on_world_frame[OF s] m(1) by (auto dest: do_search_frame)
  obtain b ao' where b: "BuildPlanWithContext (clock (suEnv su) (wTick (hWorld h1))) msgs (plan_options_of a queue pol ao) = (b, ao')"
    by fastforce
  obtain p where p: "b = Ok p" "record_plan su go a pf queue p (if Enabled ao' then Calls ao' else 0) (warns_of ws h1) = Some (None, h')"
    using assms pol s m j b by (auto simp: plan_run_def Let_def split: sum.splits)
  have "BuildPlanWithContext (clock (suEnv su) (wTick (hWorld h))) msgs
      (plan_options_of a queue pol (fst (fst (resolveJev jb (suOs su) (paJev a) (Some pf))))) = (Ok p, ao')"
    using b p(1) j src(2) by simp
  then show ?thesis by (rule that[OF _ record_plan_file[OF p(2)] pol src(1)])
qed

lemma BuildPlan_nonempty: "BuildPlanWithContext now msgs opts = (Ok p, ao') \<Longrightarrow> plMessageIDs p \<noteq> []"
  by (erule BuildPlan_ok) (metis set_empty set_sort)

lemma loadPlanFile_written:
  assumes "fs path = Some (plan_text p)" "plan_encodable p" "plMessageIDs p \<noteq> []" "osReadErr os path = None"
  shows "loadPlanFile os fs path = Ok p"
  using assms by (simp add: loadPlanFile_def ReadFile_def read_plan_text)

text \<open>
  C6: what \<^verbatim>\<open>dlq plan\<close> decided is what \<^verbatim>\<open>dlq recover\<close> runs. When plan succeeds,
  its output file holds the plan that the planner built at that time from the messages the broker
  listed and the policy bound to the profile; and when JSON can carry that plan (valid UTF-8, 64-bit
  limits, a year of four digits), a recover of that file runs exactly this plan: messages,
  exclusions, destination, limits and safety checks survive the file.
\<close>

theorem recover_runs_written_plan:
  assumes "plan_run su jb go a cn pf queue h = Some (None, h')"
    and "osReadErr (suOs su) (paOutput a) = None" and "rvPlan b = paOutput a"
  shows "\<exists>msgs pol ao' p.
    fst (bSearch (cnBroker cn) queue (limit_filter (paLimit a)) (wServer (hWorld h))) = Ok msgs \<and>
    loadPolicyForProfile su h (effectiveProfileName su go h) (Some pf) = Ok pol \<and>
    BuildPlanWithContext (clock (suEnv su) (wTick (hWorld h))) msgs
      (plan_options_of a queue pol (fst (fst (resolveJev jb (suOs su) (paJev a) (Some pf))))) = (Ok p, ao') \<and>
    (plan_encodable p \<longrightarrow>
       recover_cmd su go b h' =
         with_broker su go (\<lambda>cn pf h. with_store su go (recover_run su go b cn pf p) h) h')"
proof -
  obtain msgs pol ao' p where p: "BuildPlanWithContext (clock (suEnv su) (wTick (hWorld h))) msgs
        (plan_options_of a queue pol (fst (fst (resolveJev jb (suOs su) (paJev a) (Some pf))))) = (Ok p, ao')"
      "hFiles h' (paOutput a) = Some (plan_text p)"
      "loadPolicyForProfile su h (effectiveProfileName su go h) (Some pf) = Ok pol"
      "fst (bSearch (cnBroker cn) queue (limit_filter (paLimit a)) (wServer (hWorld h))) = Ok msgs"
    by (rule plan_run_file[OF assms(1)])
  have "loadPlanFile (suOs su) (hFiles h') (rvPlan b) = Ok p" if "plan_encodable p"
    using loadPlanFile_written[of "hFiles h'" "paOutput a" p "suOs su"] p(2) BuildPlan_nonempty[OF p(1)] assms(2,3) that
    by simp
  then have "plan_encodable p \<longrightarrow> recover_cmd su go b h' =
      with_broker su go (\<lambda>cn pf h. with_store su go (recover_run su go b cn pf p) h) h'"
    by (simp add: recover_cmd_def)
  then show ?thesis using p(1,3,4) by blast
qed

text \<open>A plan of the demo queue: it can be written, and JSON can carry it.\<close>

lemma sha256_hex_ascii: "list_all (Json_Syntax.between 0 127) (sha256_hex s)"
proof -
  have d: "Json_Syntax.between 0 127 (hex_digit n)" if "n < 16" for n
  proof -
    have "n \<in> set [0..<16]" using that by simp
    then show ?thesis by (auto simp: upt_rec hex_digit_def Json_Syntax.between_def)
  qed
  have "unat (x AND 0xF) < 16" for x :: "32 word"
    using word_and_le1[of x "0xF"] by (simp add: word_le_nat_alt)
  then have "list_all (Json_Syntax.between 0 127) (word_hex w)" for w
    by (simp add: word_hex_def list_all_iff d)
  then show ?thesis by (simp add: sha256_hex_def list_all_iff)
qed

lemma newPlanID_utf8: "utf8_ok (newPlanID q g now)"
  by (rule ascii_utf8_ok)
    (use sha256_hex_ascii in \<open>auto simp: newPlanID_def list_all_iff Json_Syntax.between_def dest: in_set_takeD\<close>)

definition no_jev_flags :: jev_flags where
  "no_jev_flags = \<lparr>jfWithJev = None, jfWithoutJev = None, jfAll = None, jfThreshold = None, jfModel = None,
     jfEndpoint = None, jfMaxCalls = None, jfAPIKeyEnv = None\<rparr>"

definition demo_plan_args :: plan_args where
  "demo_plan_args = \<lparr>paArgs = [], paGroupID = [], paDestination = ''orders'', paOutput = ''p.json'', paBatchSize = 0,
     paRateLimit = [], paConcurrency = 0, paLimit = 100, paIncludeDoNotReplay = False, paReason = [], paJev = no_jev_flags\<rparr>"

definition demo_recover :: recover_args where
  "demo_recover = \<lparr>rvPlan = ''p.json'', rvDryRun = False, rvConfirm = True, rvResume = False, rvBatchSize = 0,
     rvRateLimit = [], rvConcurrency = 0, rvRetry = 0, rvFailureThreshold = 0, rvPendingThreshold = 0, rvReason = []\<rparr>"

lemma demo_resolve_jev: "resolveJev (jb :: nat backend) os no_jev_flags (Some (connect_profile_of demo_connect)) = ((None, False), [])"
  by (simp add: resolveJev_def no_jev_flags_def Effective_def default_settings_def connect_profile_of_def Let_def)

lemma demo_year: "year_of 63900000000000000000 \<le> 9999"
  by code_simp

lemma cli_host_world [simp]: "wServer (hWorld (cli_host t ids)) = val_server ids" "wTick (hWorld (cli_host t ids)) = 0"
  by (simp_all add: cli_host_def)

lemma demo_built:
  obtains p where "BuildPlanWithContext 63900000000000000000 [val_msg ''m1'']
      (plan_options_of demo_plan_args ''orders-dlq'' None (None :: nat assessor option)) = (Ok p, None)"
    "plan_encodable p" "plMessageIDs p = [''m1'']"
  using demo_classes demo_year
  by (simp add: BuildPlanWithContext_def plan_options_of_def demo_plan_args_def in_group_def classify_one_def Enabled_def
      ClassifyWithPolicy_def select_one_def no_selection_def plan_destination_def Let_def plan_encodable_def newPlanID_utf8
      ascii_utf8_ok Json_Syntax.between_def fill_limits_def DefaultLimits_def int64_def
      CheckSchema_def CheckDuplicate_def CheckDestination_def minInt_def maxInt_def)

lemma demo_no_policy: "loadPolicyForProfile su h name (Some (connect_profile_of demo_connect)) = Ok None"
  by (simp add: loadPolicyForProfile_def connect_profile_of_def)

lemma demo_record_plan:
  assumes "plan_encodable p" "hFiles h ''/cfg'' = Some ''before''" "hStores h = (\<lambda>_. None)"
  shows "\<exists>h'. record_plan (demo_runtime Defaults) demo_go demo_plan_args pf queue p 0 h = Some (None, h')"
proof -
  let ?h = "h\<lparr>hFiles := (hFiles h)(''p.json'' := Some (plan_text p))\<rparr>"
  obtain path where "openAuditStore (demo_runtime Defaults) demo_go ?h =
      (Ok path, ?h\<lparr>hWorld := (hWorld ?h)\<lparr>wStore := Some empty_store\<rparr>\<rparr>)"
    using demo_store[of ?h Defaults] assms(2,3) by auto
  moreover have "writePlanFile demo_os ''p.json'' p (hFiles h) = (None, (hFiles h)(''p.json'' := Some (plan_text p)))"
    using assms(1) by (simp add: writePlanFile_def WriteFile_def plan_encodable_def demo_os_def)
  ultimately show ?thesis
    by (simp add: record_plan_def with_store_def on_world_def append_entry_def Append_def demo_plan_args_def Let_def)
qed

lemma demo_plan_runs:
  "\<exists>h'. plan_run (demo_runtime Defaults) (jb :: nat backend) demo_go demo_plan_args val_connector
      (connect_profile_of demo_connect) ''orders-dlq'' (cli_host (Some ''before'') [''m1'']) = Some (None, h')"
proof -
  let ?h = "cli_host (Some ''before'') [''m1'']"
  obtain h1 where s: "on_world (do_search (cnBroker val_connector) ''orders-dlq'' (limit_filter (paLimit demo_plan_args))) ?h =
      (Ok [val_msg ''m1''], h1)"
    by (simp add: on_world_def do_search_def vb_search_def Let_def)
  note f = on_world_frame[OF s]
  then have t: "wTick (hWorld h1) = 0" using do_search_frame[OF conjunct1[OF f]] by simp
  obtain p where p: "BuildPlanWithContext 63900000000000000000 [val_msg ''m1'']
      (plan_options_of demo_plan_args ''orders-dlq'' None (None :: nat assessor option)) = (Ok p, None)" "plan_encodable p"
    by (rule demo_built)
  have j: "resolveJev jb demo_os (paJev demo_plan_args) (Some (connect_profile_of demo_connect)) = ((None, False), [])"
    by (simp add: demo_plan_args_def demo_resolve_jev)
  have "hFiles (warns_of [] h1) ''/cfg'' = Some ''before''" "hStores (warns_of [] h1) = (\<lambda>_. None)"
    using f by (simp_all add: warns_of_def)
  from demo_record_plan[OF p(2) this] show ?thesis
    using s t p(1) j by (simp add: plan_run_def demo_no_policy Let_def Enabled_def)
qed

theorem recover_runs_written_plan_witness:
  "\<exists>h' p. plan_run (demo_runtime Defaults) demo_backend demo_go demo_plan_args val_connector
       (connect_profile_of demo_connect) ''orders-dlq'' (cli_host (Some ''before'') [''m1'']) = Some (None, h') \<and>
     plMessageIDs p = [''m1''] \<and>
     recover_cmd (demo_runtime Defaults) demo_go demo_recover h' =
       with_broker (demo_runtime Defaults) demo_go (\<lambda>cn pf h. with_store (demo_runtime Defaults) demo_go
         (recover_run (demo_runtime Defaults) demo_go demo_recover cn pf p) h) h'"
proof -
  let ?h = "cli_host (Some ''before'') [''m1'']"
  obtain h' where r: "plan_run (demo_runtime Defaults) demo_backend demo_go demo_plan_args val_connector
      (connect_profile_of demo_connect) ''orders-dlq'' ?h = Some (None, h')"
    using demo_plan_runs by blast
  obtain msgs pol ao' p where p:
    "fst (bSearch val_broker ''orders-dlq'' (limit_filter (paLimit demo_plan_args)) (val_server [''m1''])) = Ok msgs"
    "loadPolicyForProfile (demo_runtime Defaults) ?h (effectiveProfileName (demo_runtime Defaults) demo_go ?h)
       (Some (connect_profile_of demo_connect)) = Ok pol"
    "BuildPlanWithContext (clock calm 0) msgs (plan_options_of demo_plan_args ''orders-dlq'' pol
       (fst (fst (resolveJev demo_backend demo_os (paJev demo_plan_args) (Some (connect_profile_of demo_connect)))))) = (Ok p, ao')"
    "plan_encodable p \<longrightarrow> recover_cmd (demo_runtime Defaults) demo_go demo_recover h' =
       with_broker (demo_runtime Defaults) demo_go (\<lambda>cn pf h. with_store (demo_runtime Defaults) demo_go
         (recover_run (demo_runtime Defaults) demo_go demo_recover cn pf p) h) h'"
    using recover_runs_written_plan[OF r, of demo_recover]
    by (auto simp: demo_recover_def demo_plan_args_def simp del: calm_simps)
  have "msgs = [val_msg ''m1'']" "pol = None"
    using p(1,2) by (simp_all add: vb_search_def demo_no_policy)
  then have "BuildPlanWithContext 63900000000000000000 [val_msg ''m1'']
      (plan_options_of demo_plan_args ''orders-dlq'' None (None :: nat assessor option)) = (Ok p, ao')"
    using p(3) by (simp add: demo_plan_args_def demo_resolve_jev)
  then have "plan_encodable p" "plMessageIDs p = [''m1'']"
    using demo_built by auto
  then show ?thesis using r p(4) by blast
qed

section \<open>Patching\<close>

lemma Diff_nonempty:
  assumes "Diff old new = Ok d" "d \<noteq> []"
  obtains a b where "Unmarshal old = Some a" "Unmarshal new = Some b" "\<not> deepEqual a b"
proof -
  obtain a b where u: "Unmarshal old = Some a" "Unmarshal new = Some b" "d = Join (diffValue [] a b) [CHR 0x0A]"
    using assms(1) by (auto simp: Diff_def split: option.splits)
  have "diffValue [] a b \<noteq> []" using u(3) assms(2) by auto
  then show ?thesis using that u diffValue_empty_iff[OF Unmarshal_wf[OF u(1)] Unmarshal_wf[OF u(2)]] by blast
qed

text \<open>What the calls of a request publish and acknowledge.\<close>

lemma gate_execute_calls:
  assumes "(case confirm_gate su yes p c h of (Some r, h) \<Rightarrow> (r, h) | (None, h) \<Rightarrow> execute_request su cn req report h) = (e, h')"
  shows "calls_since (list_all (request_call req)) (hWorld h) (hWorld h')"
proof -
  obtain r h1 where g: "confirm_gate su yes p c h = (r, h1)" by fastforce
  note f = confirm_gate_frame[OF g]
  show ?thesis
  proof (cases r)
    case None
    obtain x w' where x: "Execute (suEnv su) (cnBroker cn) (req\<lparr>rqConfirm := True\<rparr>) (hWorld h1) = (x, w')" by fastforce
    have w: "hWorld h' = w'"
      using assms g None x by (auto simp: execute_request_def on_world_def split: sum.splits)
    have "request_call (req\<lparr>rqConfirm := True\<rparr>) = request_call req"
    proof
      fix c show "request_call (req\<lparr>rqConfirm := True\<rparr>) c = request_call req c" by (cases c) simp_all
    qed
    then show ?thesis using Execute_trace[OF x] f w by (auto simp: calls_since_def)
  qed (use assms g f in \<open>auto simp: calls_since_def\<close>)
qed

lemma quiet_request_calls: "quiet_since w w' \<Longrightarrow> \<exists>new. wTrace w' = wTrace w @ new \<and> \<not> list_ex mutating new"
  by (simp add: quiet_since_def)

text \<open>
  C14: a confirmed patch publishes the patch of the message it inspected. Whatever the broker
  answers, every message that \<^verbatim>\<open>dlq patch\<close> publishes has as payload the result of its
  \<open>--set\<close> operations on the payload it was shown, which decodes to a different document, and
  goes to the \<open>--destination\<close> when one is given; every acknowledgement is of the queue and the
  message named on the command line.
\<close>

theorem patch_publishes_what_it_showed:
  assumes "patch_run su go a ops cn p queue h = (e, h')"
  shows "\<exists>new. wTrace (hWorld h') = wTrace (hWorld h) @ new \<and>
    (\<forall>d m k. CPublish d m k \<in> set new \<longrightarrow>
       (\<exists>m0 doc doc'. fst (bInspect (cnBroker cn) queue (ptID a) (wServer (hWorld h))) = Ok m0 \<and>
          ApplySet (mPayload m0) ops = Returns (Ok (mPayload m)) \<and> Unmarshal (mPayload m0) = Some doc \<and>
          Unmarshal (mPayload m) = Some doc' \<and> \<not> deepEqual doc doc' \<and>
          (ptDestination a \<noteq> [] \<longrightarrow> d = ptDestination a))) \<and>
    (\<forall>q i k. CAck q i k \<in> set new \<longrightarrow> q = queue \<and> i = ptID a)"
proof -
  obtain i h1 where i: "on_world (do_inspect (cnBroker cn) queue (ptID a)) h = (i, h1)" by fastforce
  note fr = on_world_frame[OF i]
  then have t1: "wTrace (hWorld h1) = wTrace (hWorld h) @ [CInspect queue (ptID a) (is_Ok i)]"
    and b1: "fst (bInspect (cnBroker cn) queue (ptID a) (wServer (hWorld h))) = i"
    by (auto dest!: do_inspect_frame)
  show ?thesis
  proof (cases "ptConfirm a \<and> (\<exists>m x. i = Ok m \<and> patched_payload m ops = Ok x)")
    case True
    then obtain m0 patched diff where m: "i = Ok m0" "patched_payload m0 ops = Ok (patched, diff)" by auto
    let ?req = "patch_request su go h1 a p queue patched diff"
    have s: "ApplySet (mPayload m0) ops = Returns (Ok patched)" "Diff (mPayload m0) patched = Ok diff" "diff \<noteq> []"
      using m(2) by (auto simp: patched_payload_def split: run.splits sum.splits if_splits)
    obtain doc doc' where d: "Unmarshal (mPayload m0) = Some doc" "Unmarshal patched = Some doc'" "\<not> deepEqual doc doc'"
      by (rule Diff_nonempty[OF s(2,3)])
    have "calls_since (list_all (request_call ?req)) (hWorld h1) (hWorld h')"
      using assms i m True by (simp add: patch_run_def Let_def gate_execute_calls)
    then obtain new where n: "wTrace (hWorld h') = wTrace (hWorld h1) @ new" "list_all (request_call ?req) new"
      by (auto simp: calls_since_def)
    have "mPayload m = patched \<and> (ptDestination a \<noteq> [] \<longrightarrow> dst = ptDestination a)" if "CPublish dst m k \<in> set new" for dst m k
      using n(2) that by (auto simp: list_all_iff patch_request_def)
    moreover have "q = queue \<and> j = ptID a" if "CAck q j k \<in> set new" for q j k
      using n(2) that by (auto simp: list_all_iff patch_request_def)
    ultimately show ?thesis using t1 n(1) b1 m(1) s(1) d by (intro exI[of _ "CInspect queue (ptID a) (is_Ok i) # new"]) auto
  next
    case False
    have "quiet_since (hWorld h) (hWorld h')"
    proof (cases "ptConfirm a")
      case True
      then have "h' = h1" using assms i False by (auto simp: patch_run_def split: sum.splits)
      then show ?thesis using t1 by (auto simp: quiet_since_def)
    next
      case False
      then show ?thesis using patch_run_quiet[OF assms] by simp
    qed
    then obtain new where n: "wTrace (hWorld h') = wTrace (hWorld h) @ new" "\<not> list_ex mutating new"
      by (auto simp: quiet_since_def)
    have "CPublish d m k \<notin> set new" "CAck q i k \<notin> set new" for d m k q i
      using n(2) mutating.simps(1,2) unfolding list_ex_iff by blast+
    then show ?thesis using n(1) by blast
  qed
qed

text \<open>The order of \<open>Patch\<close>, patched and published.\<close>

definition demo_patch :: patch_args where
  "demo_patch = \<lparr>ptArgs = [], ptID = ''m1'', ptSets = [], ptDestination = ''orders-retry'', ptConfirm = True, ptYes = True,
     ptReason = []\<rparr>"

definition demo_patched :: gval where
  "demo_patched = GObj [(''a'', GNil), (''b'', GObj [(''c'', GBool True)])]"

lemma demo_patched_payload:
  assumes "mPayload m = demo_order"
  obtains diff where "patched_payload m [demo_op] = Ok (Marshal demo_patched, diff)"
proof -
  have "soPath demo_op \<noteq> []" by (simp add: demo_op_def)
  then have a: "ApplySet demo_order [demo_op] = Returns (Ok (Marshal demo_patched))"
    by (simp add: ApplySet_def demo_order_value applySet_def demo_op_value set_path.simps assign_last_def demo_patched_def)
  have u: "Unmarshal (Marshal demo_patched) = Some demo_patched"
    by (rule Unmarshal_Marshal) (simp add: demo_patched_def maxNestingDepth_def ascii_utf8_ok Json_Syntax.between_def)
  have "sortedKeys [(''a'', GNil)] [(''a'', GNil), (''b'', w)] = [''a'', ''b'']" for w by (simp add: sortedKeys_def)
  then have "Join (diffValue [] (GObj [(''a'', GNil)]) demo_patched) [CHR 0x0A] \<noteq> []"
    unfolding demo_patched_def by (subst diffValue.simps) (simp add: diffValue.simps[of _ GNil] addLine_def diff_line_def joinPath_def Join_Cons)
  then obtain diff where "Diff demo_order (Marshal demo_patched) = Ok diff" "diff \<noteq> []"
    using u by (auto simp: Diff_def demo_order_value simp del: Marshal.simps)
  then show ?thesis using that a assms by (simp add: patched_payload_def)
qed

theorem patch_publishes_what_it_showed_witness:
  "\<exists>h' m k. patch_run (demo_runtime Defaults) demo_go demo_patch [demo_op] val_connector
       (connect_profile_of demo_connect) ''orders-dlq'' (payload_host demo_order) = (None, h') \<and>
     CPublish ''orders-retry'' m k \<in> set (wTrace (hWorld h')) \<and> ApplySet demo_order [demo_op] = Returns (Ok (mPayload m))"
proof -
  let ?m = "(val_msg ''m1'')\<lparr>mPayload := demo_order\<rparr>"
  have pm: "mPayload ?m = demo_order" by simp
  obtain diff where d: "patched_payload ?m [demo_op] = Ok (Marshal demo_patched, diff)"
    by (rule demo_patched_payload[OF pm])
  have "\<exists>h' m k. patch_run (demo_runtime Defaults) demo_go demo_patch [demo_op] val_connector
       (connect_profile_of demo_connect) ''orders-dlq'' (payload_host demo_order) = (None, h') \<and>
     CPublish ''orders-retry'' m k \<in> set (wTrace (hWorld h'))"
    using d by (simp add: patch_run_def patch_request_def demo_patch_def confirm_gate_def execute_request_def on_world_def
        Execute_def execute_at_def resolveDestination_def published_message_def payload_host_def Let_def) blast
  then obtain h' m k where r: "patch_run (demo_runtime Defaults) demo_go demo_patch [demo_op] val_connector
       (connect_profile_of demo_connect) ''orders-dlq'' (payload_host demo_order) = (None, h')"
     "CPublish ''orders-retry'' m k \<in> set (wTrace (hWorld h'))" by blast
  have w: "wTrace (hWorld (payload_host demo_order)) = []"
     "fst (vb_inspect ''orders-dlq'' ''m1'' (wServer (hWorld (payload_host demo_order)))) = Ok ?m"
    by (simp_all add: payload_host_def vb_inspect_def)
  from patch_publishes_what_it_showed[OF r(1)] r(2) w have "ApplySet demo_order [demo_op] = Returns (Ok (mPayload m))"
    by (fastforce simp: demo_patch_def)
  with r show ?thesis by blast
qed

section \<open>What is printed of a payload\<close>

text \<open>A payload as it is shown: the sensitive paths of the profile lead to the mask or to nothing.\<close>

definition hides :: "profile \<Rightarrow> message \<Rightarrow> message \<Rightarrow> bool" where
  "hides p m m' \<longleftrightarrow>
     m' = m\<lparr>mPayload := mPayload m'\<rparr> \<and>
     (\<forall>doc. Unmarshal (mPayload m) = Some doc \<longrightarrow>
        (\<exists>doc'. Unmarshal (mPayload m') = Some doc' \<and>
           (\<forall>path \<in> set (pfSensitiveFields p). masked ''[REDACTED]'' (lookupPath doc' (field_path path))) \<and>
           (\<forall>q. \<not> (\<exists>path \<in> set (pfSensitiveFields p). prefix (field_path path) q \<or> prefix q (field_path path)) \<longrightarrow>
              lookupPath doc' q = lookupPath doc q)))"

lemma hides_shown: "hides p m (shown_payload_of False p m)"
proof -
  have m: "mask (profile_redactor p) = ''[REDACTED]''" "rdFields (profile_redactor p) = pfSensitiveFields p"
    by (simp_all add: mask_def profile_redactor_def)
  have u: "utf8_ok (mask (profile_redactor p))" unfolding m by (rule ascii_utf8_ok) (simp add: Json_Syntax.between_def)
  show ?thesis
    unfolding hides_def shown_payload_of_def
    by (intro conjI allI impI) (simp, drule redaction_hides_fields[OF u], simp add: m Ball_def)
qed

text \<open>
  C37: inspect and search print sensitive fields masked. Without --show-sensitive everything
  that either command writes, in text or JSON, is made from the broker's messages with a
  changed payload, in which every configured path leads to the mask or to nothing and every
  unrelated path to what it had.
\<close>

theorem printed_payloads_are_redacted:
  "(\<not> inShowSensitive a \<and> inspect_run go a cn p queue h = (None, h') \<longrightarrow>
     (\<exists>m m'. fst (bInspect (cnBroker cn) queue (inID a) (wServer (hWorld h))) = Ok m \<and> hides p m m' \<and>
       hOut h' = hOut h @ (if goOutput go = ''json'' then [JMessage m'] else renderInspect m' (inFormat a)))) \<and>
   (\<not> saShowSensitive b \<and> search_run su go b cn p queue h = (None, h') \<longrightarrow>
     (\<exists>f ms ms'. search_filter_of (clock (suEnv su) (wTick (hWorld h))) b = Ok f \<and>
       fst (bSearch (cnBroker cn) queue f (wServer (hWorld h))) = Ok ms \<and> list_all2 (hides p) ms ms' \<and>
       hOut h' = hOut h @ (if goOutput go = ''json'' then [JMessages ms'] else renderSearchResults ms')))"
proof (intro conjI impI; elim conjE)
  assume a: "\<not> inShowSensitive a" "inspect_run go a cn p queue h = (None, h')"
  obtain r h1 where i: "on_world (do_inspect (cnBroker cn) queue (inID a)) h = (r, h1)" by fastforce
  note fr = on_world_frame[OF i]
  obtain m where m: "r = Ok m" "h' = says (if goOutput go = ''json'' then [JMessage (shown_payload_of False p m)]
      else renderInspect (shown_payload_of False p m) (inFormat a)) h1"
    using a i by (auto simp: inspect_run_def Let_def split: if_splits sum.splits)
  have "fst (bInspect (cnBroker cn) queue (inID a) (wServer (hWorld h))) = Ok m"
    using fr m(1) by (auto dest!: do_inspect_frame)
  then show "\<exists>m m'. fst (bInspect (cnBroker cn) queue (inID a) (wServer (hWorld h))) = Ok m \<and> hides p m m' \<and>
      hOut h' = hOut h @ (if goOutput go = ''json'' then [JMessage m'] else renderInspect m' (inFormat a))"
    using m(2) fr hides_shown[of p m] by (intro exI[of _ m] exI[of _ "shown_payload_of False p m"]) simp
next
  assume b: "\<not> saShowSensitive b" "search_run su go b cn p queue h = (None, h')"
  obtain f where f: "search_filter_of (clock (suEnv su) (wTick (hWorld h))) b = Ok f"
    using b by (auto simp: search_run_def split: sum.splits)
  obtain r h1 where i: "on_world (do_search (cnBroker cn) queue f) h = (r, h1)" by fastforce
  note fr = on_world_frame[OF i]
  obtain ms where m: "r = Ok ms" "h' = says (if goOutput go = ''json'' then [JMessages (map (shown_payload_of False p) ms)]
      else renderSearchResults (map (shown_payload_of False p) ms)) h1"
    using b f i by (auto simp: search_run_def Let_def split: if_splits sum.splits)
  have "fst (bSearch (cnBroker cn) queue f (wServer (hWorld h))) = Ok ms"
    using fr m(1) by (auto dest!: do_search_frame)
  moreover have "list_all2 (hides p) ms (map (shown_payload_of False p) ms)"
    by (simp add: list_all2_map2 list.rel_refl hides_shown)
  ultimately show "\<exists>f ms ms'. search_filter_of (clock (suEnv su) (wTick (hWorld h))) b = Ok f \<and>
      fst (bSearch (cnBroker cn) queue f (wServer (hWorld h))) = Ok ms \<and>
      list_all2 (hides p) ms ms' \<and>
      hOut h' = hOut h @ (if goOutput go = ''json'' then [JMessages ms'] else renderSearchResults ms')"
    using m(2) fr f by (intro exI[of _ f] exI[of _ ms] exI[of _ "map (shown_payload_of False p) ms"]) simp
qed

definition demo_inspect :: inspect_args where
  "demo_inspect = \<lparr>inArgs = [], inID = ''m1'', inFormat = ''raw'', inShowSensitive = False\<rparr>"

definition demo_search :: search_args where
  "demo_search = \<lparr>saArgs = [], saError = [], saSince = [], saFields = [], saMaxRetries = -1, saLimit = 10, saShowSensitive = False\<rparr>"

theorem printed_payloads_are_redacted_witness:
  "(\<exists>h' m'. inspect_run demo_go demo_inspect val_connector demo_profile ''orders-dlq'' (payload_host demo_payload) = (None, h') \<and>
     hides demo_profile ((val_msg ''m1'')\<lparr>mPayload := demo_payload\<rparr>) m' \<and> hOut h' = renderInspect m' ''raw'') \<and>
   (\<exists>h' m'. search_run (demo_runtime Defaults) demo_go demo_search val_connector demo_profile ''orders-dlq''
       (payload_host demo_payload) = (None, h') \<and>
     hides demo_profile ((val_msg ''m1'')\<lparr>mPayload := demo_payload\<rparr>) m' \<and> hOut h' = renderSearchResults [m'])"
proof (rule conjI)
  let ?h = "payload_host demo_payload" and ?m = "(val_msg ''m1'')\<lparr>mPayload := demo_payload\<rparr>"
  have o: "hOut ?h = []" "fst (vb_inspect ''orders-dlq'' ''m1'' (wServer (hWorld ?h))) = Ok ?m"
    "fst (vb_search ''orders-dlq'' f (wServer (hWorld ?h))) = Ok [?m]" for f
    by (simp_all add: payload_host_def vb_inspect_def vb_search_def)
  obtain h' where i: "inspect_run demo_go demo_inspect val_connector demo_profile ''orders-dlq'' ?h = (None, h')"
    by (simp add: inspect_run_def demo_inspect_def on_world_def payload_host_def Let_def)
  then show "\<exists>h' m'. inspect_run demo_go demo_inspect val_connector demo_profile ''orders-dlq'' ?h = (None, h') \<and>
     hides demo_profile ?m m' \<and> hOut h' = renderInspect m' ''raw''"
    using printed_payloads_are_redacted[of demo_inspect demo_go val_connector demo_profile "''orders-dlq''" ?h h'] o by (auto simp: demo_inspect_def)
  obtain h' where s: "search_run (demo_runtime Defaults) demo_go demo_search val_connector demo_profile ''orders-dlq'' ?h = (None, h')"
    by (simp add: search_run_def search_filter_of_def demo_search_def on_world_def payload_host_def Let_def)
  then show "\<exists>h' m'. search_run (demo_runtime Defaults) demo_go demo_search val_connector demo_profile ''orders-dlq'' ?h = (None, h') \<and>
     hides demo_profile ?m m' \<and> hOut h' = renderSearchResults [m']"
    using printed_payloads_are_redacted[of _ demo_go val_connector demo_profile "''orders-dlq''" ?h h' demo_search "demo_runtime Defaults"] o by (auto simp: demo_search_def list_all2_Cons1)
qed

section \<open>Editing the configuration\<close>

lemma connected_config_facts:
  "map_of (cfProfiles (connected_config name a c)) =
     (map_of (cfProfiles c))(name \<mapsto> Some (connect_profile_of a))"
  "cfDefaultProfile (connected_config name a c) = (if cfDefaultProfile c = [] then name else cfDefaultProfile c)"
  "cfAudit (connected_config name a c) = cfAudit c"
  by (simp_all add: connected_config_def put_profile_def Let_def update_conv')

text \<open>
  C38: a saved connection is the one the next command opens. When connect succeeds and YAML
  keeps the document it wrote, resolving the profile by its name gives the adapter of the
  named broker, the connection data given on the command line and the URL they stand for (or
  the error of an environment variable that is not set); with --url-env no URL is stored; every
  other profile, the audit settings and a default profile that was set stay as they were.
\<close>

theorem connect_then_open:
  assumes "connect_cmd su go a h = (None, h')" and "goProfile go = name" "name \<noteq> []"
    and "load_config su go h = Ok cfg" and "yaml_keeps (suYaml su) (connected_config name a cfg)"
    and "osReadErr (suOs su) (goConfigPath go) = None"
  shows "\<exists>cn cfg'. New (suRegistry su) (ctBroker a) = Ok cn \<and> load_config su go h' = Ok cfg' \<and>
    resolve_profile su go h' =
      (case ResolveURL (suOs su) (Some (connect_profile_of a)) of
         Inl e \<Rightarrow> Err e | Inr url \<Rightarrow> Ok (cn, connect_profile_of a, url)) \<and>
    (ctURLEnv a \<noteq> [] \<longrightarrow> pfURL (connect_profile_of a) = []) \<and>
    (\<forall>n. n \<noteq> [] \<and> n \<noteq> name \<longrightarrow> find_profile cfg' n = find_profile cfg n) \<and>
    cfAudit cfg' = cfAudit cfg \<and> (cfDefaultProfile cfg \<noteq> [] \<longrightarrow> cfDefaultProfile cfg' = cfDefaultProfile cfg)"
proof -
  let ?c = "connected_config name a cfg"
  have chk: "check_connect su a = None" using assms(1) by (auto simp: connect_cmd_def split: option.splits)
  then obtain cn where cn: "New (suRegistry su) (ctBroker a) = Ok cn" "ctURLEnv a \<noteq> [] \<longrightarrow> ctURL a = []"
    by (auto simp: check_connect_def split: sum.splits if_splits)
  obtain h1 where s: "save_config su go ?c h = (None, h1)" "hFiles h' = hFiles h1"
    using assms(1-4) chk by (auto simp: connect_cmd_def Let_def split: prod.splits option.splits)
  have l: "load_config su go h' = Ok ?c"
    using save_config_ok[OF s(1) assms(5,6)] s(2) by (simp add: load_config_def)
  have f: "find_profile ?c name = Ok (Some (connect_profile_of a))"
    "n \<noteq> [] \<and> n \<noteq> name \<longrightarrow> find_profile ?c n = find_profile cfg n" for n
    using assms(3) by (simp_all add: find_profile_def connected_config_facts)
  have "resolve_profile su go h' =
      (case ResolveURL (suOs su) (Some (connect_profile_of a)) of
         Inl e \<Rightarrow> Err e | Inr url \<Rightarrow> Ok (cn, connect_profile_of a, url))"
    using l f(1) cn(1) assms(2) by (simp add: resolve_profile_def connect_profile_of_def split: sum.splits)
  then show ?thesis using cn l f(2) by (auto simp: connected_config_facts connect_profile_of_def)
qed

theorem connect_then_open_witness:
  "\<exists>h'. connect_cmd (demo_runtime Defaults) demo_go demo_connect (cli_host None []) = (None, h') \<and>
     resolve_profile (demo_runtime Defaults) demo_go h' = Ok (val_connector, connect_profile_of demo_connect, ''amqp://broker'')"
proof -
  have l: "load_config (demo_runtime Defaults) demo_go (cli_host None []) = Ok Defaults"
    by (simp add: load_config_def Load_def ReadFile_def)
  have c: "ycEncode (codec_of cli_config Defaults) cli_config = Ok ''before''"
    by (simp add: codec_of_def not_cli_config[symmetric])
  obtain h' where r: "connect_cmd (demo_runtime Defaults) demo_go demo_connect (cli_host None []) = (None, h')"
    using l c by (simp add: connect_cmd_def check_connect_def New_def demo_connect_def cli_config_def save_config_def Save_def
        WriteFile_def demo_os_def Let_def)
  have "yaml_keeps (suYaml (demo_runtime Defaults)) (connected_config ''prod'' demo_connect Defaults)"
    by (simp add: codec_of_keeps)
  from connect_then_open[OF r _ _ l this] r show ?thesis
    by (auto simp: New_def demo_connect_def ResolveURL_def connect_profile_of_def demo_os_def)
qed

text \<open>
  C39: the policy that was validated is the one the analysis loads. When policy apply succeeds,
  YAML keeps the document and the policy file is not the configuration file, then the profile
  it named is bound to the absolute path and loading the policy of that profile gives exactly
  the policy that was checked; nothing else of the profile changed.
\<close>

theorem applied_policy_is_loaded:
  assumes "policy_apply_cmd su go name arg h = (None, h')" and "name \<noteq> []"
    and "policyPath su arg = Ok path" "path \<noteq> goConfigPath go" "rooted (osCwd (suOs su))"
    and "\<forall>c. yaml_keeps (suYaml su) c" and "osReadErr (suOs su) (goConfigPath go) = None"
  shows "\<exists>pol cfg cfg' p. load_policy su h path = Ok pol \<and> load_config su go h = Ok cfg \<and>
    find_profile cfg name = Ok (Some p) \<and> load_config su go h' = Ok cfg' \<and>
    find_profile cfg' name = Ok (Some (p\<lparr>pfPolicyFile := path\<rparr>)) \<and>
    loadPolicyForProfile su h' name (Some (p\<lparr>pfPolicyFile := path\<rparr>)) = Ok (Some pol)"
proof -
  obtain pol where pol: "load_policy su h path = Ok pol"
    using assms(1,3) by (auto simp: policy_apply_cmd_def split: sum.splits)
  obtain cfg where cfg: "load_config su go h = Ok cfg"
    using assms(1,3) pol by (auto simp: policy_apply_cmd_def split: sum.splits)
  obtain p where p: "find_profile cfg name = Ok (Some p)"
    using assms(1-3) pol cfg by (auto simp: policy_apply_cmd_def Let_def split: sum.splits option.splits)
  let ?c = "put_profile name (p\<lparr>pfPolicyFile := path\<rparr>) cfg"
  obtain h1 where s: "save_config su go ?c h = (None, h1)" "hFiles h' = hFiles h1"
    using assms(1-3) pol cfg p by (auto simp: policy_apply_cmd_def Let_def split: prod.splits option.splits)
  have l: "load_config su go h' = Ok ?c"
    using save_config_ok[OF s(1) _ assms(7)] assms(6) s(2) by (simp add: load_config_def)
  have "hFiles h' path = hFiles h path"
    using s assms(4) by (auto simp: save_config_def dest: Save_other split: prod.splits)
  then have "ReadFile (suOs su) (hFiles h') path = ReadFile (suOs su) (hFiles h) path"
    by (cases "osReadErr (suOs su) path") (simp_all add: ReadFile_def)
  then have lp: "load_policy su h' path = Ok pol"
    using pol by (simp add: load_policy_def policy_Load_def)
  have "\<exists>x. ExpandPath (suOs su) arg = Ok x \<and> path = Abs (suOs su) x"
    using assms(3) by (auto simp: policyPath_def split: sum.splits)
  then have r: "rooted path" using rooted_Abs[OF assms(5)] by auto
  then have "path \<noteq> []" by (auto simp: rooted_def HasPrefix_def)
  then have "loadPolicyForProfile su h' name (Some (p\<lparr>pfPolicyFile := path\<rparr>)) = Ok (Some pol)"
    using lp ExpandPath_rooted[OF r] by (simp add: loadPolicyForProfile_def)
  moreover have "find_profile ?c name = Ok (Some (p\<lparr>pfPolicyFile := path\<rparr>))"
    using assms(2) by (simp add: find_profile_def put_profile_def update_conv')
  ultimately show ?thesis using pol cfg p l by blast
qed

definition demo_bound :: config where
  "demo_bound = put_profile ''prod'' ((connect_profile_of demo_connect)\<lparr>pfPolicyFile := ''/rules''\<rparr>) cli_config"

lemma demo_bound_neq [simp]: "demo_bound \<noteq> cli_config"
  by (simp add: demo_bound_def cli_config_defs)

theorem applied_policy_is_loaded_witness:
  "\<exists>h' pol p. policy_apply_cmd (demo_runtime demo_bound) demo_go ''prod'' ''/rules'' (cli_host (Some ''before'') []) = (None, h') \<and>
     pfPolicyFile p = ''/rules'' \<and> loadPolicyForProfile (demo_runtime demo_bound) h' ''prod'' (Some p) = Ok (Some pol)"
proof -
  let ?h = "cli_host (Some ''before'') []"
  have pp: "policyPath (demo_runtime demo_bound) ''/rules'' = Ok ''/rules''"
    by (simp add: policyPath_def ExpandPath_def HasPrefix_def Abs_def rooted_def Clean_def Let_def Join_Cons)
  have l: "load_config (demo_runtime demo_bound) demo_go ?h = Ok cli_config" by (rule demo_load) simp_all
  obtain pol where pol: "load_policy (demo_runtime demo_bound) ?h ''/rules'' = Ok pol"
    by (simp add: load_policy_def policy_Load_def ReadFile_def codec_of_def Parse_def demo_raw_def parse_rule_def
        parseCondition_def splitExpr_def text_fields_def text_ops_def unquote_def known_actions_def policy_action_defs
        parseParams_def toInt_def err_list_def)
  have f: "find_profile cli_config ''prod'' = Ok (Some (connect_profile_of demo_connect))"
    by (simp add: find_profile_def cli_config_defs)
  have c: "ycEncode (codec_of cli_config demo_bound) demo_bound = Ok ''after''" by (simp add: codec_of_def)
  obtain h' where r: "policy_apply_cmd (demo_runtime demo_bound) demo_go ''prod'' ''/rules'' ?h = (None, h')"
    using pp l pol f c by (simp add: policy_apply_cmd_def save_config_def Save_def WriteFile_def demo_os_def Let_def
        demo_bound_def[symmetric])
  from applied_policy_is_loaded[OF r _ pp] obtain p pol' where
    "loadPolicyForProfile (demo_runtime demo_bound) h' ''prod'' (Some (p\<lparr>pfPolicyFile := ''/rules''\<rparr>)) = Ok (Some pol')"
    by (auto simp: codec_of_keeps rooted_def HasPrefix_def)
  with r show ?thesis by (intro exI[of _ h'] exI[of _ pol'] exI[of _ "p\<lparr>pfPolicyFile := ''/rules''\<rparr>"]) simp
qed

section \<open>Jev\<close>

text \<open>The value a setting has in a run: the flag when it was passed, else the stored value, else the default.\<close>

definition setting :: "'a option \<Rightarrow> ('a \<Rightarrow> bool) \<Rightarrow> 'a option \<Rightarrow> 'a \<Rightarrow> 'a" where
  "setting flag counts stored d =
     (case flag of Some v \<Rightarrow> v
      | None \<Rightarrow> (case stored of Some v \<Rightarrow> if counts v then v else d | None \<Rightarrow> d))"

definition jev_on :: "jev_flags \<Rightarrow> profile \<Rightarrow> bool" where
  "jev_on f p = (jfWithoutJev f \<noteq> Some True \<and>
     (jfWithJev f = Some True \<or> (case pfJev p of None \<Rightarrow> False | Some s \<Rightarrow> jsEnabled s)))"

definition run_threshold :: "jev_flags \<Rightarrow> profile \<Rightarrow> rat" where
  "run_threshold f p =
     (let t = setting (jfThreshold f) (\<lambda>t. 0 < t) (map_option jsThreshold (pfJev p)) DefaultThreshold
      in if 0 < t \<and> t \<le> 1 then t else DefaultThreshold)"

definition run_key_env :: "jev_flags \<Rightarrow> profile \<Rightarrow> string" where
  "run_key_env f p =
     (let k = setting (jfAPIKeyEnv f) (\<lambda>k. k \<noteq> []) (map_option jsAPIKeyEnv (pfJev p)) APIKeyEnv
      in if k = [] then APIKeyEnv else k)"

text \<open>The settings a run uses: stored ones made effective, the flags over them, then the range checks.\<close>

definition run_settings :: "jev_flags \<Rightarrow> profile \<Rightarrow> jev_settings" where
  "run_settings f p = fst (check_settings (overlay_flags f (Effective (pfJev p))))"

lemma run_settings_fields:
  "jsThreshold (run_settings f p) = run_threshold f p"
  "jsAPIKeyEnv (run_settings f p) = run_key_env f p"
  "jsModel (run_settings f p) = setting (jfModel f) (\<lambda>m. m \<noteq> []) (map_option jsModel (pfJev p)) DefaultModel"
  "jsEndpoint (run_settings f p) = setting (jfEndpoint f) (\<lambda>e. e \<noteq> []) (map_option jsEndpoint (pfJev p)) DefaultEndpoint"
  "jsMaxCalls (run_settings f p) = setting (jfMaxCalls f) (\<lambda>n. 0 < n) (map_option jsMaxCalls (pfJev p)) DefaultMaxCalls"
  "jsAll (run_settings f p) = setting (jfAll f) (\<lambda>_. True) (map_option jsAll (pfJev p)) False"
  by (auto simp: run_settings_def check_settings_def overlay_flags_def overlay_def Effective_def default_settings_def
      setting_def run_threshold_def run_key_env_def Let_def APIKeyEnv_def split: option.splits)

lemma resolveJev_cases:
  "resolveJev jb os f (Some p) = ((ao, quiet), warns) \<Longrightarrow>
     ao = (if jev_on f p \<and> Getenv os (run_key_env f p) \<noteq> [] then Some (assessor_of jb os (run_settings f p)) else None) \<and>
     (quiet \<longleftrightarrow> jfWithoutJev f = Some True \<or> jev_on f p)"
  unfolding run_settings_fields(2)[symmetric]
  by (auto simp: resolveJev_def run_settings_def jev_on_def Effective_def default_settings_def Let_def
      split: if_splits prod.splits option.splits)

lemma run_threshold_range: "0 < run_threshold f p" "run_threshold f p \<le> 1"
  by (simp_all add: run_threshold_def Let_def DefaultThreshold_def)



section \<open>Where a flag means less than it says\<close>

text \<open>
  \<^verbatim>\<open>--dry-run\<close> does not hold back a confirmed command: with \<^verbatim>\<open>--confirm\<close> it is
  not read at all.
\<close>

theorem dry_run_flag_is_not_a_guard:
  "raConfirm a \<Longrightarrow> replay_run su go (a\<lparr>raDryRun := True\<rparr>) cn p queue h = replay_run su go (a\<lparr>raDryRun := False\<rparr>) cn p queue h"
  "recover_run su go (v\<lparr>rvDryRun := True\<rparr>) cn p plan h = recover_run su go (v\<lparr>rvDryRun := False\<rparr>) cn p plan h"
  "rollback_run su go (r\<lparr>rbDryRun := True\<rparr>) cn p h = rollback_run su go (r\<lparr>rbDryRun := False\<rparr>) cn p h"
  by (simp_all add: replay_run_def replay_request_def recover_run_def recover_options_def recover_preview_def
      rollback_run_def rollback_confirmed_def cong: option.case_cong sum.case_cong prod.case_cong if_cong)

text \<open>
  A cap of 0 calls stored by \<^verbatim>\<open>dlq jev enable --max-calls 0\<close> counts as not set and becomes
  the default of 50; the same 0 given with \<^verbatim>\<open>--jev-max-calls\<close> reaches the assessor, where it
  lifts the cap.
\<close>

theorem zero_max_calls_two_meanings:
  "jsMaxCalls (Effective (Some (enabled_settings (a\<lparr>jeMaxCalls := Some 0\<rparr>) so))) = DefaultMaxCalls"
  "jsMaxCalls (run_settings (f\<lparr>jfMaxCalls := Some 0\<rparr>) p) = 0"
  by (simp_all add: enabled_settings_def put_flag_def Effective_def run_settings_fields setting_def Let_def split: option.splits)

text \<open>
  Connecting again under the name of a profile replaces it: its policy, its sensitive fields
  and its Jev settings are gone, so payloads that were masked are shown.
\<close>

theorem reconnect_drops_settings:
  assumes "name \<noteq> []"
  shows "find_profile (connected_config name a cfg) name = Ok (Some (connect_profile_of a))"
    and "pfPolicyFile (connect_profile_of a) = []" "pfSensitiveFields (connect_profile_of a) = []"
      "pfJev (connect_profile_of a) = None"
  using assms by (simp_all add: find_profile_def connected_config_facts connect_profile_of_def)

end
