(* ===== verification/Spec2Isabelle.thy ===== *)
theory Spec2Isabelle
  imports Safety_Gate Planner Self_Update Patch Redis_Contract Rabbit_Properties Batch_Workers Cli_Properties
begin

text \<open>
  A model of the DLQ inspector, a command-line tool that reads dead-letter queues of message
  brokers, explains why messages failed, and replays the ones that may be replayed.

  \<^bold>\<open>How the parts interact.\<close> A broker adapter hands the engine normalized messages
  (\<^verbatim>\<open>internal/message\<close>) through one interface (\<^verbatim>\<open>internal/broker/broker.go\<close>).
  A single message is replayed by the safety gate (\<^verbatim>\<open>internal/safety\<close>): preview, then a
  confirmed publish before the acknowledgement of the DLQ copy, each outcome written to the audit
  store (\<^verbatim>\<open>internal/audit\<close>), whose trail is also the duplicate evidence of the next
  replay (\<^verbatim>\<open>internal/dedupe\<close>). A batch goes through \<^verbatim>\<open>internal/recovery\<close>: messages are
  classified (header, operator policy, Jev, rules), grouped by failure signature, selected into
  a plan, the plan is re-validated against the queue, executed in batches under a circuit
  breaker, and rolled back from the snapshots the run took. \<^verbatim>\<open>internal/selfupdate\<close> replaces
  the tool's own binary. Every command (\<^verbatim>\<open>internal/command\<close>) reads the configuration
  (\<^verbatim>\<open>internal/config\<close>), opens the broker of the active profile through the registry and
  the audit store, and calls one of these.

  \<^bold>\<open>Theories and the code they model.\<close>
  \<^item> \<open>DLQ_Prelude\<close>, \<open>Go_Strings\<close>, \<open>Go_Time\<close>, \<open>Go_Errors\<close>: generic lemmas and the parts of
    Go's library the program calls (\<^verbatim>\<open>strings\<close>, \<^verbatim>\<open>strconv\<close>, \<^verbatim>\<open>time\<close>, error wrapping).
  \<^item> \<open>Go_Float\<close>, \<open>Go_Json\<close>, \<open>Civil_Date\<close>, \<open>Time_Parse\<close>: \<^verbatim>\<open>float64\<close> with its parsing
    and shortest rendering, \<^verbatim>\<open>json.Unmarshal\<close> and \<^verbatim>\<open>json.Marshal\<close> of decoded documents,
    RFC 3339 times; each with the round trip of its text.
  \<^item> \<open>Message_Model\<close>: \<^verbatim>\<open>message.Message\<close> as the record \<open>message\<close>; a Go map is an
    association list.
  \<^item> \<open>Audit_Store\<close>: \<^verbatim>\<open>audit.Store\<close>; the two tables are lists of rows, each method one
    function of a flag that says whether the statement succeeds. The locale \<open>evidence_log\<close> is the
    contract the duplicate check relies on; \<open>store_log\<close> interprets it on the store.
  \<^item> \<open>Broker_World\<close>: the \<^verbatim>\<open>Broker\<close> interface as a record of functions over an arbitrary
    server state, and the world (server, store, trace of calls, clock tick) that operations
    thread. \<open>Val_Broker\<close>: the in-memory broker of the engine's tests, used by witnesses.
  \<^item> \<open>Dedupe\<close>, \<open>Safety_Gate\<close>: \<^verbatim>\<open>dedupe.CheckAudit\<close>; \<^verbatim>\<open>Gate.DryRun\<close> and
    \<^verbatim>\<open>Gate.Execute\<close>, one branch per return statement.
  \<^item> \<open>Policy\<close>, \<open>Classifier\<close>, \<open>Signature\<close>: the condition language and rule matching of
    \<^verbatim>\<open>internal/policy\<close>; \<^verbatim>\<open>classifier.go\<close>; \<^verbatim>\<open>signature.go\<close> with its regular
    expressions run by an executable leftmost-first matcher.
  \<^item> \<open>Json_Syntax\<close>, \<open>Sha256\<close>: the JSON reader behind \<^verbatim>\<open>json.Valid\<close> and
    \<^verbatim>\<open>json.Unmarshal\<close>; SHA-256 on 32-bit words.
  \<^item> \<open>Plan_Model\<close>, \<open>Validator\<close>, \<open>Executor\<close>, \<open>Executor_Properties\<close>, \<open>Rollback\<close>: the plan record,
    \<^verbatim>\<open>validator.go\<close>, \<^verbatim>\<open>executor.go\<close> and \<^verbatim>\<open>rollback.go\<close>. \<open>Batch_Workers\<close>: the worker pool
    of a batch as a step relation, for every interleaving.
  \<^item> \<open>Jev\<close>, \<open>Jev_Pass\<close>: \<^verbatim>\<open>internal/jev\<close> (state text, answer mapping, cache) and the
    precedence chain of \<^verbatim>\<open>recovery/jev.go\<close>. The locale \<open>memo_table\<close> is the contract of
    the cache; \<open>jev_cache\<close> interprets it.
  \<^item> \<open>Analyzer\<close>, \<open>Planner\<close>: \<^verbatim>\<open>analyzer.go\<close> (for every iteration order of Go's maps) and
    \<^verbatim>\<open>planner.go\<close>.
  \<^item> \<open>Semver\<close>, \<open>Self_Update\<close>: \<^verbatim>\<open>version.go\<close> against a linear order on version keys, and
    the updater's order of checks.

  \<^item> \<open>Search_Filter\<close>, \<open>Redaction\<close>, \<open>Patch\<close>: \<^verbatim>\<open>internal/search/filter.go\<close>,
    \<^verbatim>\<open>internal/message/redact.go\<close> and \<^verbatim>\<open>internal/patch\<close>.
  \<^item> \<open>Broker_Contract\<close>: the abstract broker, queues as lists of messages. The locale
    \<open>broker_contract\<close> states what the engine relies on in an adapter and shows that a replay is
    one move between two lists; \<open>answering_broker\<close> extends it by calls that do not fail.
  \<^item> \<open>Redis_Adapter\<close>, \<open>Redis_Contract\<close>: \<^verbatim>\<open>internal/broker/redisstream\<close> over a record of client
    commands. The locales \<open>redis_streams\<close> and \<open>redis_answering\<close> state what Redis documents of them;
    the adapter is a broker under the contract (\<open>sublocale\<close>), and a server in memory with
    injected faults interprets both.
  \<^item> \<open>Config\<close>, \<open>Session\<close>: \<^verbatim>\<open>internal/config\<close> over a record of the operating system and
    files by path; the registry, the opening of broker and store, the prompt. \<open>Plan_File\<close>: the
    JSON text of a plan and its decoder, with the round trip.
  \<^item> \<open>Cmd_Recovery\<close>, \<open>Cmd_Read\<close>, \<open>Cmd_Analyze\<close>, \<open>Cmd_Config\<close>: the bodies of the commands,
    each an error option and the host it leaves (files, stores, world, both output streams).
    \<open>Cli\<close> dispatches on the parsed command; \<open>Cli_Properties\<close> has what holds of the command
    line, with witnesses on the host of \<open>Demo_Host\<close>.
  \<^item> \<open>Go_Base64\<close>, \<open>Rabbit_Mapper\<close>, \<open>Rabbit_Adapter\<close>: \<^verbatim>\<open>internal/broker/rabbitmq\<close>, both
    ways to read a message (AMQP and the management API), the requests, publish with confirms and
    the acknowledging scan, over a record of client calls. \<open>Rabbit_Contract\<close>: the locale
    \<open>rabbit_server\<close> states what AMQP and the API document; the adapter is a broker under the
    contract. \<open>Rabbit_Memory\<close> interprets it by a server in memory with injected faults, and
    \<open>Rabbit_Properties\<close> has what a replay, an acknowledgement, a search and an inspection do.

  \<^bold>\<open>What the lemmas show.\<close> For the gate and the executor: nothing is acknowledged that was not
  published, nothing is lost, every outcome is audited, a run ends, a message with replay
  evidence is not replayed again. For the classifier, the policy and Jev: the decision tables, the
  precedence, the privacy of the state text and that each state is sent at most once. For the
  analyzer and the planner: grouping is a partition, a plan selects what it says. For rollback: a
  recovery followed by its rollback restores every message. For the updater: only a verified
  archive is installed. For search, redaction and patch: the page, the masked paths, the values
  read back. For the adapters: a published message is read back, a replay moves one message and
  no failure loses one, and it gets through when the server answers. For the command line: only a
  confirmed command changes a queue, a plan survives its file, a patch publishes what it showed,
  what is printed is redacted, a saved profile is the one that is opened.

  \<^bold>\<open>Bounds and fuel.\<close> JSON nesting is limited to 10000 as in Go. A publish is tried at most
  \<open>attempts\<close> times and a download \<open>maxAttempts\<close> = 3 times, as the code does. The batch loop is a
  \<open>partial_function\<close>, because a plan with batch size zero makes the code loop for ever
  (\<open>zero_batch_size_never_returns\<close>); a positive size always returns (\<open>Execute_plan_returns\<close>).
  All other recursion is structural or has a termination proof.

  \<^bold>\<open>Not modelled.\<close> SQLite, YAML decoding, HTTP, tar, zip and gzip decoding and the file system
  are parameters or outcome flags. The executor model works the messages of a
  batch in order; their interleaving is in \<open>Batch_Workers\<close> only. Rates and percentages are
  exact rationals instead of \<^verbatim>\<open>float64\<close>. Case folding is ASCII. Dialling a broker (\<open>Connect\<close> of the adapters) is
  a parameter of the command line. Flags are already parsed: cobra is outside, and so are the
  alignment of tables, the JSON text of results other than plans, the 15 s limit on the context
  of a command, and the commands \<^verbatim>\<open>version\<close> and \<^verbatim>\<open>self-update\<close>, which wire parts that are
  modelled. Test code (the conformance suite) and the seed tool have no theory.
\<close>

end
